(* ===== verification/Prelude.thy ===== *)
theory Prelude
  imports Main "HOL-Library.Word"
begin

text \<open>
  Shared vocabulary of the development: the machine integer types of the C++ sources, the
  faults that end a run of the simulator, sequencing of fallible operations, and the bit
  level lemmas on words that the component theories use.

  C++ signed and unsigned integers of one width share one word type: the conversions between
  them (\<open>(uint32_t)x\<close>, \<open>*(uint32_t*)&x\<close>) keep the bits.  Signed addition,
  subtraction, multiplication and left shift are the two's complement operations on the word;
  operations with no defined value (a shift by the width or more, \<open>INT_MIN / -1\<close>, an
  access outside an array) are the fault \<open>Undefined\<close>.
\<close>

unbundle bit_operations_syntax

type_synonym u8 = "8 word"
type_synonym u16 = "16 word"
type_synonym u32 = "32 word"
type_synonym u64 = "64 word"

named_theorems insn_defs \<open>definitions of the single instructions\<close>
named_theorems wf_intros \<open>the register files keep their lengths\<close>

subsection \<open>Faults and results\<close>

text \<open>
  Every way an operation of the sources ends the process: \<open>exit(n)\<close>, \<open>abort()\<close> (also
  through \<open>die()\<close>), a failed \<open>assert\<close>, behaviour the language leaves undefined.
  \<open>OutOfFuel\<close> is the model's own: a recursion of the sources was cut off.
\<close>

datatype fault = Exit int | Abort | Assert | Undefined | OutOfFuel

type_synonym 'a result = "fault + 'a"

definition bindE :: "'a result \<Rightarrow> ('a \<Rightarrow> 'b result) \<Rightarrow> 'b result" where
  "bindE r f = (case r of Inl e \<Rightarrow> Inl e | Inr x \<Rightarrow> f x)"

lemma bindE_simps [simp]:
  "bindE (Inl e) f = Inl e"
  "bindE (Inr x) f = f x"
  by (simp_all add: bindE_def)

lemma bindE_Inr_iff: "bindE r f = Inr y \<longleftrightarrow> (\<exists>x. r = Inr x \<and> f x = Inr y)"
  by (cases r) auto

lemma bindE_InrE [elim!]:
  assumes "bindE r f = Inr y"
  obtains x where "r = Inr x" and "f x = Inr y"
  using assms by (auto simp: bindE_Inr_iff)

lemma bindE_assoc: "bindE (bindE r f) g = bindE r (\<lambda>x. bindE (f x) g)"
  by (cases r) auto

lemma bindE_cong [fundef_cong]:
  "r = r' \<Longrightarrow> (\<And>x. r' = Inr x \<Longrightarrow> f x = g x) \<Longrightarrow> bindE r f = bindE r' g"
  by (cases r') auto

text \<open>A loop over a list whose body may fail.\<close>

primrec foldE :: "('x \<Rightarrow> 's \<Rightarrow> 's result) \<Rightarrow> 'x list \<Rightarrow> 's \<Rightarrow> 's result" where
  "foldE f [] s = Inr s"
| "foldE f (x # xs) s = bindE (f x s) (foldE f xs)"

lemma foldE_append: "foldE f (xs @ ys) s = bindE (foldE f xs s) (foldE f ys)"
  by (induction xs arbitrary: s) (simp_all add: bindE_assoc cong: bindE_cong)

lemma foldE_map: "foldE f (map g xs) s = foldE (\<lambda>x. f (g x)) xs s"
  by (induction xs arbitrary: s) (simp_all cong: bindE_cong)

lemma foldE_total:
  assumes "\<And>x s. x \<in> set xs \<Longrightarrow> f x s = Inr (g x s)"
  shows "foldE f xs s = Inr (fold g xs s)"
  using assms by (induction xs arbitrary: s) auto

lemma foldE_cong: "(\<And>x s. x \<in> set xs \<Longrightarrow> f x s = g x s) \<Longrightarrow> foldE f xs s = foldE g xs s"
  by (induction xs arbitrary: s) (auto intro!: bindE_cong)

lemma foldE_invariant:
  assumes "foldE f xs s = Inr t" and "P s"
    and "\<And>x s t. x \<in> set xs \<Longrightarrow> P s \<Longrightarrow> f x s = Inr t \<Longrightarrow> P t"
  shows "P t"
  using assms
proof (induction xs arbitrary: s)
  case (Cons x xs)
  from Cons.prems(1) obtain u where u: "f x s = Inr u" "foldE f xs u = Inr t" by auto
  have "P u" by (rule Cons.prems(3) [OF _ Cons.prems(2) u(1)]) simp
  with u(2) show ?case by (rule Cons.IH) (use Cons.prems(3) in auto)
qed simp

text \<open>\<open>assert(b)\<close> and the check that an operation has a defined value.\<close>

definition assertE :: "bool \<Rightarrow> 'a result \<Rightarrow> 'a result" where
  "assertE b r = (if b then r else Inl Assert)"

definition definedE :: "bool \<Rightarrow> 'a result \<Rightarrow> 'a result" where
  "definedE b r = (if b then r else Inl Undefined)"

lemma assertE_True [simp]: "assertE True r = r"
  and assertE_False [simp]: "assertE False r = Inl Assert"
  and definedE_True [simp]: "definedE True r = r"
  and definedE_False [simp]: "definedE False r = Inl Undefined"
  by (simp_all add: assertE_def definedE_def)

lemma assertE_Inr_iff [simp]: "assertE b r = Inr y \<longleftrightarrow> b \<and> r = Inr y"
  by (simp add: assertE_def)

lemma definedE_Inr_iff [simp]: "definedE b r = Inr y \<longleftrightarrow> b \<and> r = Inr y"
  by (simp add: definedE_def)

text \<open>A property of the state that a fallible operation establishes whenever it returns.\<close>

definition on_ok :: "('a \<Rightarrow> bool) \<Rightarrow> 'a result \<Rightarrow> bool" where
  "on_ok P r = (case r of Inl e \<Rightarrow> True | Inr x \<Rightarrow> P x)"

text \<open>The operation returns, and its result has the property.\<close>

definition returns :: "('a \<Rightarrow> bool) \<Rightarrow> 'a result \<Rightarrow> bool" where
  "returns P r = (case r of Inl e \<Rightarrow> False | Inr x \<Rightarrow> P x)"

lemma returns_simps [simp]:
  "\<not> returns P (Inl e)"
  "returns P (Inr x) = P x"
  by (simp_all add: returns_def)

lemma returns_iff: "returns P r \<longleftrightarrow> (\<exists>x. r = Inr x \<and> P x)"
  by (cases r) auto

lemma returns_bindE: "returns P (bindE r f) \<longleftrightarrow> returns (\<lambda>x. returns P (f x)) r"
  by (cases r) auto

lemma returns_mono: "returns P r \<Longrightarrow> (\<And>x. P x \<Longrightarrow> Q x) \<Longrightarrow> returns Q r"
  by (cases r) auto

lemma on_ok_simps [simp]:
  "on_ok P (Inl e)"
  "on_ok P (Inr x) = P x"
  by (simp_all add: on_ok_def)

lemma on_ok_bindE [intro]:
  assumes "on_ok Q r" and "\<And>x. Q x \<Longrightarrow> on_ok P (f x)"
  shows "on_ok P (bindE r f)"
  using assms by (cases r) auto

lemma on_ok_bindE_any [wf_intros]:
  assumes "\<And>x. on_ok P (f x)"
  shows "on_ok P (bindE r f)"
  using assms by (cases r) auto

lemma on_ok_assertE [wf_intros]: "on_ok P r \<Longrightarrow> on_ok P (assertE b r)"
  by (cases b) auto

lemma on_ok_definedE [wf_intros]: "on_ok P r \<Longrightarrow> on_ok P (definedE b r)"
  by (cases b) auto

lemma on_ok_if [wf_intros]: "on_ok P r \<Longrightarrow> on_ok P r' \<Longrightarrow> on_ok P (if b then r else r')"
  by simp

lemma on_okD: "on_ok P r \<Longrightarrow> r = Inr x \<Longrightarrow> P x"
  by simp

subsection \<open>Machines in lock step\<close>

text \<open>\<open>n\<close> steps, and a condition on every state in which a step is taken.\<close>

primrec steps :: "('s \<Rightarrow> 's result) \<Rightarrow> nat \<Rightarrow> 's \<Rightarrow> 's result" where
  "steps f 0 s = Inr s"
| "steps f (Suc n) s = bindE (f s) (steps f n)"

primrec ok_along :: "('s \<Rightarrow> 's result) \<Rightarrow> ('s \<Rightarrow> bool) \<Rightarrow> nat \<Rightarrow> 's \<Rightarrow> bool" where
  "ok_along f ok 0 s = True"
| "ok_along f ok (Suc n) s = (ok s \<and> returns (ok_along f ok n) (f s))"

text \<open>A machine \<open>f\<close> that follows a machine \<open>g\<close> from related states, where \<open>g\<close> is in a state with \<open>ok\<close>.\<close>

locale lockstep =
  fixes f :: "'s \<Rightarrow> 's result" and g :: "'t \<Rightarrow> 't result" and rel :: "'s \<Rightarrow> 't \<Rightarrow> bool" and ok :: "'t \<Rightarrow> bool"
  assumes step: "rel x y \<Longrightarrow> ok y \<Longrightarrow> returns (\<lambda>x'. returns (rel x') (g y)) (f x)"
begin

lemma steps_follow: "rel x y \<Longrightarrow> ok_along g ok n y \<Longrightarrow> returns (\<lambda>x'. returns (rel x') (steps g n y)) (steps f n x)"
proof (induction n arbitrary: x y)
  case (Suc n)
  then obtain x' y' where "f x = Inr x'" "g y = Inr y'" "rel x' y'" using step [of x y] by (auto simp: returns_iff)
  with Suc show ?case by simp
qed simp

end

text \<open>Operations that do not run out of fuel.\<close>

definition fuel_free :: "'a result \<Rightarrow> bool" where
  "fuel_free r \<longleftrightarrow> r \<noteq> Inl OutOfFuel"

named_theorems fuel_intros \<open>operations that do not run out of fuel\<close>

lemma fuel_free_values [fuel_intros]:
  "fuel_free (Inr x)" "fuel_free (Inl (Exit n))" "fuel_free (Inl Abort)" "fuel_free (Inl Assert)" "fuel_free (Inl Undefined)"
  by (simp_all add: fuel_free_def)

lemma fuel_free_bindE [fuel_intros]: "fuel_free r \<Longrightarrow> (\<And>x. fuel_free (f x)) \<Longrightarrow> fuel_free (bindE r f)"
  by (cases r) (auto simp: fuel_free_def)

lemma fuel_free_checks [fuel_intros]:
  "fuel_free r \<Longrightarrow> fuel_free (assertE b r)" "fuel_free r \<Longrightarrow> fuel_free (definedE b r)"
  by (simp_all add: fuel_free_def assertE_def definedE_def)

lemma fuel_free_if [fuel_intros]: "fuel_free r \<Longrightarrow> fuel_free r' \<Longrightarrow> fuel_free (if b then r else r')"
  by simp

lemma fuel_free_case_prod [fuel_intros]: "(\<And>x y. fuel_free (f x y)) \<Longrightarrow> fuel_free (case p of (x, y) \<Rightarrow> f x y)"
  by (cases p) simp

lemma fuel_free_case_option [fuel_intros]:
  "fuel_free r \<Longrightarrow> (\<And>x. fuel_free (f x)) \<Longrightarrow> fuel_free (case opt of None \<Rightarrow> r | Some x \<Rightarrow> f x)"
  by (cases opt) simp_all

lemma fuel_free_foldE [fuel_intros]: "(\<And>x s. fuel_free (f x s)) \<Longrightarrow> fuel_free (foldE f xs s)"
  by (induction xs arbitrary: s) (auto intro: fuel_intros)

subsection \<open>Words\<close>

text \<open>The values of small masks.\<close>

lemma unat_and_less:
  fixes x :: "'a::len word"
  assumes "unat m < k"
  shows "unat (x AND m) < k"
proof -
  have "unat (x AND m) \<le> unat m"
    by (rule word_and_le1 [THEN word_le_nat_alt [THEN iffD1]])
  with assms show ?thesis by simp
qed

lemma unat_power2: "n < LENGTH('a) \<Longrightarrow> unat (2 ^ n :: 'a::len word) = 2 ^ n"
proof -
  assume "n < LENGTH('a)"
  then have "(2::nat) ^ n < 2 ^ LENGTH('a)" by simp
  moreover have "(2 ^ n :: 'a word) = of_nat (2 ^ n)" by simp
  ultimately show ?thesis by (simp only: unsigned_of_nat take_bit_nat_eq_self of_nat_id)
qed

lemma unat_drop_bit: "unat (drop_bit n x) = unat x div 2 ^ n" for x :: "'a::len word"
proof -
  have "take_bit LENGTH('a) (unat x) = unat x" by (rule take_bit_nat_eq_self) (rule unsigned_less)
  then show ?thesis by (simp only: unsigned_drop_bit_eq) (simp add: drop_bit_eq_div)
qed

lemma unat_take_bit: "unat (take_bit n x) = unat x mod 2 ^ n" for x :: "'a::len word"
  by (simp only: unsigned_take_bit_eq) (simp add: take_bit_eq_mod)

lemma unat_and_31 [simp]: "unat (x AND 31 :: u32) < 32"
  by (rule unat_and_less) simp

lemma unat_and_7 [simp]: "unat (x AND 7 :: u32) < 8"
  by (rule unat_and_less) simp

lemma and_3_cases:
  fixes x :: u32
  obtains "x AND 3 = 0" | "x AND 3 = 1" | "x AND 3 = 2" | "x AND 3 = 3"
proof -
  have "unat (x AND 3) < 4" by (rule unat_and_less) simp
  then have "x AND 3 = 0 \<or> x AND 3 = 1 \<or> x AND 3 = 2 \<or> x AND 3 = 3"
    unfolding word_unat_eq_iff by simp arith
  then show ?thesis using that by blast
qed

text \<open>A double word and its halves; the value of a word that does not overflow.\<close>

lemma join_halves: "ucast (ucast v :: u32) OR push_bit 32 (ucast (ucast (drop_bit 32 v) :: u32)) = v" for v :: u64
  by (rule bit_word_eqI) (auto simp: bit_simps)

lemma sint_word_of_int_eq:
  assumes "- (2 ^ (LENGTH('a) - 1)) \<le> k" "k < 2 ^ (LENGTH('a) - 1)"
  shows "sint (word_of_int k :: 'a::len word) = k"
  using assms by (simp add: signed_of_int signed_take_bit_int_eq_self)

lemma sint_bounds_32: "- (2 ^ 31) \<le> sint (x :: u32)" "sint (x :: u32) < 2 ^ 31"
  using sint_ge [of x] sint_lt [of x] by simp_all

subsection \<open>Little endian byte strings\<close>

primrec of_le :: "u8 list \<Rightarrow> 'a::len word" where
  "of_le [] = 0"
| "of_le (b # bs) = ucast b OR push_bit 8 (of_le bs)"

primrec to_le :: "nat \<Rightarrow> 'a::len word \<Rightarrow> u8 list" where
  "to_le 0 v = []"
| "to_le (Suc n) v = ucast v # to_le n (drop_bit 8 v)"

text \<open>The member of \<open>n\<close> bytes at an offset of a packed structure.\<close>

definition le_at :: "u8 list \<Rightarrow> nat \<Rightarrow> nat \<Rightarrow> 'a::len word" where
  "le_at bs off n = of_le (take n (drop off bs))"

lemma length_to_le [simp]: "length (to_le n v) = n"
  by (induction n arbitrary: v) simp_all

lemma of_le_to_le_bits:
  "8 * n \<le> LENGTH('a) \<Longrightarrow> bit (of_le (to_le n v) :: 'a::len word) k \<longleftrightarrow> k < 8 * n \<and> bit v k"
proof (induction n arbitrary: v k)
  case (Suc n)
  then show ?case
    by (cases "k < 8") (auto simp: bit_simps dest: bit_imp_le_length)
qed simp

lemma of_le_to_le [simp]: "8 * n = LENGTH('a) \<Longrightarrow> of_le (to_le n v) = (v :: 'a::len word)"
  by (rule bit_word_eqI) (simp add: of_le_to_le_bits)

lemma le_at_here [simp]: "8 * n = LENGTH('a) \<Longrightarrow> (le_at (to_le n v @ ys) 0 n :: 'a::len word) = v"
  by (simp add: le_at_def)

lemma le_at_skip: "length xs = k \<Longrightarrow> k \<le> off \<Longrightarrow> le_at (xs @ ys) off n = le_at ys (off - k) n"
  by (simp add: le_at_def)

text \<open>Overriding a function piece by piece: the last piece that covers a place decides.\<close>

lemma fold_override:
  "fold (\<lambda>p m b. if cov p b then v p b else m b) ps m b =
     (case find (\<lambda>p. cov p b) (rev ps) of None \<Rightarrow> m b | Some p \<Rightarrow> v p b)"
  by (induction ps rule: rev_induct) simp_all

end
