(* ===== verification/Helper.thy ===== *)
theory Helper
  imports Prelude
begin

text \<open>
  \<open>src/helper.hh\<close> and \<open>src/helper.cc\<close>: rounding, powers of two, bit access, byte
  swapping, the CRC and the remapping of the simulated I/O flags.

  The loops of \<open>nextPow2\<close> and \<open>ln2\<close> double a 64 bit counter, which wraps to zero and
  then never reaches a bound above $2^{63}$: they are \<^theory_text>\<open>partial_function\<close>s and
  not returning is \<open>None\<close>.
\<close>

subsection \<open>Arithmetic helpers\<close>

definition roundToPgSz :: "'a::len word \<Rightarrow> 'a word \<Rightarrow> 'a word result" where
  "roundToPgSz x pgsz = definedE (pgsz \<noteq> 0) (Inr (((x + pgsz - 1) div pgsz) * pgsz))"

definition isPow2 :: "'a::len word \<Rightarrow> bool" where
  "isPow2 x \<longleftrightarrow> (x - 1) AND x = 0"

partial_function (option) nextPow2_loop :: "u64 \<Rightarrow> u64 \<Rightarrow> u64 option" where
  "nextPow2_loop x y = (if y < x then nextPow2_loop x (y * 2) else Some y)"

definition nextPow2 :: "u64 \<Rightarrow> u64 option" where
  "nextPow2 x = nextPow2_loop x 1"

partial_function (option) ln2_loop :: "u64 \<Rightarrow> u64 \<Rightarrow> u64 \<Rightarrow> u64 option" where
  "ln2_loop x y l = (if y < x then ln2_loop x (y * 2) (l + 1) else Some l)"

definition ln2 :: "u64 \<Rightarrow> u64 option" where
  "ln2 x = ln2_loop x 1 0"

definition modT :: "'a::len word \<Rightarrow> 'a word \<Rightarrow> 'a word" where
  "modT x y = (if isPow2 y then x AND (y - 1) else x mod y)"

subsection \<open>Bits and bytes\<close>

text \<open>Every caller passes a bit number below the width.\<close>

definition extractBit :: "'a::len word \<Rightarrow> nat \<Rightarrow> bool" where
  "extractBit x b \<longleftrightarrow> drop_bit b x AND 1 \<noteq> 0"

definition setBit :: "'a::len word \<Rightarrow> 'a word \<Rightarrow> nat \<Rightarrow> 'a word" where
  "setBit x v b =
     (let t = push_bit b 1;
          tt = NOT t AND x;
          t' = t AND NOT (v - 1)
      in tt OR t')"

text \<open>
  The compiler builtins \<open>__builtin_bswap16/32/64\<close>: the bytes of \<open>x\<close>, lowest first, are
  appended to an accumulator.  \<open>bswap<EL>\<close> leaves a little endian value alone.
\<close>

definition builtin_bswap :: "'a::len word \<Rightarrow> 'a word" where
  "builtin_bswap x =
     fold (\<lambda>i acc. push_bit 8 acc OR take_bit 8 (drop_bit (8 * i) x)) [0..<LENGTH('a) div 8] 0"

definition bswap :: "bool \<Rightarrow> 'a::len word \<Rightarrow> 'a word" where
  "bswap EL x = (if EL then x else builtin_bswap x)"

subsection \<open>CRC\<close>

definition POLY :: u32 where
  "POLY = 0x82f63b78"

definition crc_bit :: "u32 \<Rightarrow> u32" where
  "crc_bit c = (if c AND 1 \<noteq> 0 then drop_bit 1 c XOR POLY else drop_bit 1 c)"

definition crc_byte :: "u8 \<Rightarrow> u32 \<Rightarrow> u32" where
  "crc_byte b c = (crc_bit ^^ 8) (c XOR ucast b)"

definition update_crc :: "u32 \<Rightarrow> u8 list \<Rightarrow> u32" where
  "update_crc crc buf = fold crc_byte buf crc"

definition crc32 :: "u8 list \<Rightarrow> u32" where
  "crc32 buf = update_crc (NOT 0) buf XOR NOT 0"

subsection \<open>I/O flags\<close>

text \<open>
  \<open>simIOFlags\<close> are the flag values of the simulated program, \<open>hostIOFlags\<close> the values
  of \<open>O_RDONLY\<close>, \<open>O_WRONLY\<close>, \<open>O_RDWR\<close>, \<open>O_APPEND\<close>, \<open>O_CREAT\<close>,
  \<open>O_TRUNC\<close>, \<open>O_EXCL\<close>, \<open>O_SYNC\<close>, \<open>O_NONBLOCK\<close> and \<open>O_NOCTTY\<close> in
  \<open>fcntl.h\<close> of the Linux host the build targets.
\<close>

definition simIOFlags :: "u32 list" where
  "simIOFlags = [0, 1, 2, 0x0008, 0x0200, 0x0400, 0x0800, 0x2000, 0x4000, 0x8000]"

definition hostIOFlags :: "u32 list" where
  "hostIOFlags = [0, 1, 2, 0x400, 0x40, 0x200, 0x80, 0x101000, 0x800, 0x100]"

definition remapIOFlags :: "u32 \<Rightarrow> u32" where
  "remapIOFlags flags =
     fold (\<lambda>(sim, host) nflags. if flags AND sim \<noteq> 0 then nflags OR host else nflags)
       (zip simIOFlags hostIOFlags) 0"

subsection \<open>Powers of two\<close>

lemma and_pred_even: "2 * Suc j AND (2 * Suc j - 1) = 2 * (Suc j AND j)"
  by (subst and_rec) simp

lemma and_pred_odd: "2 * m + 1 AND 2 * m = 2 * m" for m :: nat
  by (subst and_rec) simp

lemma power2_double_iff: "(\<exists>k. 2 * m = 2 ^ k) \<longleftrightarrow> (\<exists>k. m = 2 ^ k)" for m :: nat
proof
  assume "\<exists>k. 2 * m = 2 ^ k"
  then obtain k where "2 * m = 2 ^ k" ..
  then show "\<exists>k. m = 2 ^ k" by (cases k) auto
qed (metis power_Suc)

lemma power2_odd_iff: "(\<exists>k. 2 * m + 1 = 2 ^ k) \<longleftrightarrow> m = 0" for m :: nat
proof
  assume "\<exists>k. 2 * m + 1 = 2 ^ k"
  then obtain k where "2 * m + 1 = 2 ^ k" ..
  then show "m = 0" by (cases k) (simp_all, presburger)
qed (auto intro: exI [of _ 0])

lemma nat_and_pred_eq_0_iff: "0 < n \<Longrightarrow> n AND (n - 1) = 0 \<longleftrightarrow> (\<exists>k. n = 2 ^ k)" for n :: nat
proof (induction n rule: less_induct)
  case (less n)
  show ?case
  proof (cases "even n")
    case True
    with less.prems obtain j where j: "n = 2 * Suc j" by (metis dvdE mult_0_right not0_implies_Suc not_less0)
    have "Suc j AND (Suc j - 1) = 0 \<longleftrightarrow> (\<exists>k. Suc j = 2 ^ k)"
      using j by (intro less.IH) simp_all
    then show ?thesis
      unfolding j and_pred_even power2_double_iff by simp
  next
    case False
    then obtain m where m: "n = 2 * m + 1" by (metis oddE)
    then show ?thesis using and_pred_odd [of m] by (simp only: m power2_odd_iff) simp
  qed
qed

lemma isPow2_iff: "isPow2 x \<longleftrightarrow> x = 0 \<or> (\<exists>k < LENGTH('a). x = 2 ^ k)" for x :: "'a::len word"
proof (cases "x = 0")
  case True
  then show ?thesis by (simp add: isPow2_def)
next
  case False
  have "isPow2 x \<longleftrightarrow> unat (x AND (x - 1)) = 0"
    by (simp add: isPow2_def and.commute word_unat_eq_iff)
  also have "\<dots> \<longleftrightarrow> unat x AND (unat x - 1) = 0"
    using False by (simp add: unsigned_and_eq unat_minus_one)
  also have "\<dots> \<longleftrightarrow> (\<exists>k. unat x = 2 ^ k)"
    using False by (intro nat_and_pred_eq_0_iff) (simp add: unat_gt_0)
  also have "\<dots> \<longleftrightarrow> (\<exists>k < LENGTH('a). x = 2 ^ k)"
  proof
    assume "\<exists>k. unat x = 2 ^ k"
    then obtain k where k: "unat x = 2 ^ k" ..
    moreover have "unat x < 2 ^ LENGTH('a)" by (rule unsigned_less)
    ultimately have "k < LENGTH('a)" by simp
    moreover from k have "x = 2 ^ k"
      by (metis of_nat_numeral of_nat_power ucast_id of_nat_unat)
    ultimately show "\<exists>k < LENGTH('a). x = 2 ^ k" by blast
  next
    assume "\<exists>k < LENGTH('a). x = 2 ^ k"
    then show "\<exists>k. unat x = 2 ^ k" by (metis unat_power2)
  qed
  finally show ?thesis using False by simp
qed

subsection \<open>Reduction modulo a bound\<close>

lemma modT_eq_mod: "y \<noteq> 0 \<Longrightarrow> modT x y = x mod y"
  by (auto simp: modT_def isPow2_iff simp flip: mask_eq_decr_exp take_bit_eq_mask take_bit_eq_mod)

subsection \<open>Doubling loops\<close>

declare ln2_loop.simps [simp del] nextPow2_loop.simps [simp del]

lemma word64_power2_le: "k < 64 \<Longrightarrow> x \<le> 2 ^ 63 \<Longrightarrow> (2 ^ k :: u64) < x \<Longrightarrow> k < 63"
  for x :: u64
  by (metis less_Suc_eq linorder_not_less numeral_eq_Suc pred_numeral_simps(2,3) semiring_norm(26,27,28))

lemma word64_power2_below: "k \<le> 63 \<Longrightarrow> 2 ^ 63 < x \<Longrightarrow> 2 ^ k < x" for x :: u64
proof -
  assume "k \<le> 63" and x: "2 ^ 63 < x"
  then have "unat (2 ^ k :: u64) \<le> unat (2 ^ 63 :: u64)"
    using unat_power2 [where 'a = 64, of k] unat_power2 [where 'a = 64, of 63]
      power_increasing [of k 63 "2::nat"] by simp
  then have "(2 ^ k :: u64) \<le> 2 ^ 63" by (simp only: word_le_nat_alt)
  then show ?thesis using x by (rule le_less_trans)
qed

lemma ln2_loop_from:
  assumes "k < 64" "x \<le> 2 ^ 63" "k = 0 \<or> (2 ^ (k - 1) :: u64) < x"
  shows "\<exists>l < 64. ln2_loop x (2 ^ k) (of_nat k) = Some (of_nat l) \<and> x \<le> 2 ^ l \<and> (l = 0 \<or> 2 ^ (l - 1) < x)"
  using assms
proof (induction "63 - k" arbitrary: k)
  case 0
  then have "k = 63" by simp
  with 0 show ?case by (subst ln2_loop.simps) (auto intro!: exI [of _ 63])
next
  case (Suc d)
  show ?case
  proof (cases "2 ^ k < x")
    case True
    with Suc.prems have k: "k < 63" by (intro word64_power2_le [of k x]) simp_all
    have "\<exists>l < 64. ln2_loop x (2 ^ Suc k) (of_nat (Suc k)) = Some (of_nat l) \<and> x \<le> 2 ^ l \<and> (l = 0 \<or> 2 ^ (l - 1) < x)"
      by (rule Suc.hyps) (use Suc.hyps(2) Suc.prems k True in auto)
    then show ?thesis using True by (subst ln2_loop.simps) (simp add: ac_simps)
  next
    case False
    then show ?thesis using Suc.prems by (subst ln2_loop.simps) (auto intro!: exI [of _ k])
  qed
qed

lemma ln2_loop_zero: "0 < x \<Longrightarrow> ln2_loop x 0 l = None"
proof (rule ccontr)
  assume x: "0 < x" and "ln2_loop x 0 l \<noteq> None"
  then obtain r where "ln2_loop x 0 l = Some r" by blast
  then have "0 < x \<longrightarrow> (0::u64) \<noteq> 0"
    using ln2_loop.raw_induct [where P = "\<lambda>x y l r. 0 < x \<longrightarrow> y \<noteq> 0", of "((x, 0), l)" r]
    by (fastforce split: if_splits)
  with x show False by simp
qed

lemma nextPow2_loop_from:
  assumes "k < 64" "x \<le> 2 ^ 63" "k = 0 \<or> (2 ^ (k - 1) :: u64) < x"
  shows "\<exists>l < 64. nextPow2_loop x (2 ^ k) = Some (2 ^ l) \<and> x \<le> 2 ^ l \<and> (l = 0 \<or> 2 ^ (l - 1) < x)"
  using assms
proof (induction "63 - k" arbitrary: k)
  case 0
  then have "k = 63" by simp
  with 0 show ?case by (subst nextPow2_loop.simps) (auto intro!: exI [of _ 63])
next
  case (Suc d)
  show ?case
  proof (cases "2 ^ k < x")
    case True
    with Suc.prems have k: "k < 63" by (intro word64_power2_le [of k x]) simp_all
    have "\<exists>l < 64. nextPow2_loop x (2 ^ Suc k) = Some (2 ^ l) \<and> x \<le> 2 ^ l \<and> (l = 0 \<or> 2 ^ (l - 1) < x)"
      by (rule Suc.hyps) (use Suc.hyps(2) Suc.prems k True in auto)
    then show ?thesis using True by (subst nextPow2_loop.simps) (simp add: ac_simps)
  next
    case False
    then show ?thesis using Suc.prems by (subst nextPow2_loop.simps) (auto intro!: exI [of _ k])
  qed
qed

lemma nextPow2_loop_zero: "0 < x \<Longrightarrow> nextPow2_loop x 0 = None"
proof (rule ccontr)
  assume x: "0 < x" and "nextPow2_loop x 0 \<noteq> None"
  then obtain r where "nextPow2_loop x 0 = Some r" by blast
  then have "0 < x \<longrightarrow> (0::u64) \<noteq> 0"
    using nextPow2_loop.raw_induct [where P = "\<lambda>x y r. 0 < x \<longrightarrow> y \<noteq> 0", of "(x, 0)" r]
    by (fastforce split: if_splits)
  with x show False by simp
qed

lemma ln2_loop_beyond:
  assumes "k \<le> 64" "2 ^ 63 < x"
  shows "ln2_loop x (2 ^ k) l = None"
  using assms
proof (induction "64 - k" arbitrary: k l)
  case 0
  then have "k = 64" by simp
  moreover have "(2 ^ 64 :: u64) = 0" by (subst exp_eq_zero_iff) simp
  moreover have "0 < x" using 0 by (simp add: word_gt_0) auto
  ultimately show ?case by (simp only: ln2_loop_zero)
next
  case (Suc d)
  have "2 ^ k < x" by (rule word64_power2_below) (use Suc.hyps(2) Suc.prems in linarith)+
  moreover have "ln2_loop x (2 ^ Suc k) (l + 1) = None"
    by (rule Suc.hyps) (use Suc.hyps(2) Suc.prems in auto)
  ultimately show ?case by (subst ln2_loop.simps) (simp add: ac_simps)
qed

lemma nextPow2_loop_beyond:
  assumes "k \<le> 64" "2 ^ 63 < x"
  shows "nextPow2_loop x (2 ^ k) = None"
  using assms
proof (induction "64 - k" arbitrary: k)
  case 0
  then have "k = 64" by simp
  moreover have "(2 ^ 64 :: u64) = 0" by (subst exp_eq_zero_iff) simp
  moreover have "0 < x" using 0 by (simp add: word_gt_0) auto
  ultimately show ?case by (simp only: nextPow2_loop_zero)
next
  case (Suc d)
  have "2 ^ k < x" by (rule word64_power2_below) (use Suc.hyps(2) Suc.prems in linarith)+
  moreover have "nextPow2_loop x (2 ^ Suc k) = None"
    by (rule Suc.hyps) (use Suc.hyps(2) Suc.prems in auto)
  ultimately show ?case by (subst nextPow2_loop.simps) (simp add: ac_simps)
qed

text \<open>
  C34. \<open>ln2\<close> returns exactly for arguments up to $2^{63}$, and then it is the least
  exponent whose power of two reaches the argument; above that its loop never ends, because
  the doubled counter wraps to zero.
\<close>

theorem ln2_correct:
  "if x \<le> 2 ^ 63
   then \<exists>l < 64. ln2 x = Some (of_nat l) \<and> x \<le> 2 ^ l \<and> (l = 0 \<or> 2 ^ (l - 1) < x)
   else ln2 x = None"
  using ln2_loop_from [of 0 x] ln2_loop_beyond [of 0 x] by (simp add: ln2_def)

lemma nextPow2_correct:
  "if x \<le> 2 ^ 63
   then \<exists>l < 64. nextPow2 x = Some (2 ^ l) \<and> x \<le> 2 ^ l \<and> (l = 0 \<or> 2 ^ (l - 1) < x)
   else nextPow2 x = None"
  using nextPow2_loop_from [of 0 x] nextPow2_loop_beyond [of 0 x] by (simp add: nextPow2_def)

subsection \<open>Rounding\<close>

lemma nat_round_up:
  fixes a p :: nat
  assumes "0 < p"
  shows "a \<le> (a + p - 1) div p * p" and "(a + p - 1) div p * p < a + p"
proof -
  have eq: "(a + p - 1) div p * p = (a + p - 1) - (a + p - 1) mod p"
    by (simp add: minus_mod_eq_div_mult)
  have "(a + p - 1) mod p < p" using assms by simp
  with eq assms show "a \<le> (a + p - 1) div p * p" and "(a + p - 1) div p * p < a + p"
    by linarith+
qed

lemma roundToPgSz_spec:
  fixes x p :: "'a::len word"
  assumes "0 < p" and "unat x + unat p \<le> 2 ^ LENGTH('a)"
  shows "\<exists>r. roundToPgSz x p = Inr r \<and> unat p dvd unat r \<and> unat x \<le> unat r \<and> unat r < unat x + unat p"
proof -
  have p: "0 < unat p" using assms(1) by (simp add: unat_gt_0 word_gt_0)
  have s: "unat (x + p - 1) = unat x + unat p - 1"
  proof -
    have "unat (p - 1) = unat p - 1" using assms(1) by (intro unat_minus_one) auto
    moreover have "unat x + unat (p - 1) < 2 ^ LENGTH('a)" using calculation p assms(2) by linarith
    ultimately show ?thesis using p unat_add_lem [of x "p - 1"] by (simp add: algebra_simps)
  qed
  let ?r = "(x + p - 1) div p * p"
  note b = nat_round_up [OF p, of "unat x"]
  have "unat ?r = (unat x + unat p - 1) div unat p * unat p"
    using b(2) assms(2) by (simp add: unat_word_ariths(2) unat_div_distrib s)
  with b p show ?thesis by (auto simp: roundToPgSz_def)
qed

subsection \<open>Bits\<close>

lemma bit_setBit:
  fixes x :: "'a::len word"
  assumes "b < LENGTH('a)"
  shows "bit (setBit x 1 b) k \<longleftrightarrow> (if k = b then True else bit x k)"
    and "bit (setBit x 0 b) k \<longleftrightarrow> (if k = b then False else bit x k)"
  using assms by (auto simp: setBit_def bit_simps Let_def dest: bit_imp_le_length)

lemma extractBit_iff: "extractBit x b \<longleftrightarrow> bit x b"
  by (simp add: extractBit_def bit_iff_odd_drop_bit and_one_eq odd_iff_mod_2_eq_one)

lemma bit_bswap_fold:
  fixes x :: "'a::len word"
  assumes "8 * n \<le> LENGTH('a)"
  shows "bit (fold (\<lambda>i acc. push_bit 8 acc OR take_bit 8 (drop_bit (8 * i) x)) [0..<n] 0) k
     \<longleftrightarrow> k < 8 * n \<and> bit x (8 * (n - 1 - k div 8) + k mod 8)"
  using assms
proof (induction n arbitrary: k)
  case 0
  then show ?case by simp
next
  case (Suc n)
  show ?case
  proof (cases "k < 8")
    case True
    with Suc show ?thesis by (simp add: bit_simps ac_simps)
  next
    case False
    then obtain j where j: "k = j + 8" by (metis le_add_diff_inverse2 not_less)
    then have "k div 8 = Suc (j div 8)" and "k mod 8 = j mod 8" by simp_all
    with Suc.prems show ?thesis
      using Suc.IH [of j] False
      by (auto simp: j bit_or_iff bit_push_bit_iff bit_take_bit_iff)
  qed
qed

lemma bit_builtin_bswap:
  fixes x :: "'a::len word"
  assumes "LENGTH('a) = 8 * n"
  shows "bit (builtin_bswap x) k \<longleftrightarrow> k < 8 * n \<and> bit x (8 * (n - 1 - k div 8) + k mod 8)"
  using assms bit_bswap_fold [of n x k] by (simp add: builtin_bswap_def)

lemma bytes_mirror:
  fixes k n :: nat
  assumes "k < 8 * n"
  defines "j \<equiv> 8 * (n - 1 - k div 8) + k mod 8"
  shows "j < 8 * n" and "8 * (n - 1 - j div 8) + j mod 8 = k"
proof -
  have d: "j div 8 = n - 1 - k div 8" and m: "j mod 8 = k mod 8" by (simp_all add: j_def)
  have "k div 8 < n" using assms by (simp add: div_less_iff_less_mult ac_simps)
  then have "n - 1 - (n - 1 - k div 8) = k div 8" by simp
  then show "8 * (n - 1 - j div 8) + j mod 8 = k" by (simp add: d m)
  show "j < 8 * n" using \<open>k div 8 < n\<close> unfolding j_def by simp
qed

lemma builtin_bswap_involutive:
  fixes x :: "'a::len word"
  assumes "8 dvd LENGTH('a)"
  shows "builtin_bswap (builtin_bswap x) = x"
proof -
  obtain n where n: "LENGTH('a) = 8 * n" using assms by blast
  show ?thesis
    by (rule bit_word_eqI) (auto simp: bit_builtin_bswap [OF n] n bytes_mirror)
qed

lemma bswap_involutive [simp]:
  fixes x :: "'a::len word"
  assumes "8 dvd LENGTH('a)"
  shows "bswap EL (bswap EL x) = x"
  using assms by (simp add: bswap_def builtin_bswap_involutive)

subsection \<open>The CRC\<close>

lemma word_xor_eq_0_iff: "a XOR b = 0 \<longleftrightarrow> a = b" for a b :: "'a::len word"
  by (simp add: bit_eq_iff bit_xor_iff)

lemma word_xor_left_cancel: "a XOR b = a XOR c \<longleftrightarrow> b = c" for a b c :: "'a::len word"
  by (simp add: bit_eq_iff bit_xor_iff) blast

lemma and_1_odd: "c AND 1 \<noteq> 0 \<longleftrightarrow> odd c" for c :: "'a::len word"
  by (simp add: and_one_eq odd_iff_mod_2_eq_one)

lemma crc_bit_alt: "crc_bit c = (if odd c then drop_bit 1 c XOR POLY else drop_bit 1 c)"
  unfolding crc_bit_def and_1_odd by (rule refl)

lemma crc_bit_xor: "crc_bit (a XOR b) = crc_bit a XOR crc_bit b"
  by (cases "odd a"; cases "odd b") (simp_all add: crc_bit_alt even_xor_iff ac_simps)

lemma crc_bits_xor: "(crc_bit ^^ n) (a XOR b) = (crc_bit ^^ n) a XOR (crc_bit ^^ n) b"
  by (induction n) (simp_all add: crc_bit_xor)

lemma crc_byte_xor: "crc_byte (b XOR b') (c XOR c') = crc_byte b c XOR crc_byte b' c'"
  by (simp add: crc_byte_def unsigned_xor_eq ac_simps flip: crc_bits_xor)

lemma update_crc_append: "update_crc c (xs @ ys) = update_crc (update_crc c xs) ys"
  by (simp add: update_crc_def)

lemma crc_bit_0_iff: "crc_bit c = 0 \<longleftrightarrow> c = 0"
proof
  assume c: "crc_bit c = 0"
  show "c = 0"
  proof (cases "odd c")
    case True
    have "\<not> bit (drop_bit 1 c) 31" by (auto simp: bit_drop_bit_eq dest: bit_imp_le_length)
    moreover have "bit POLY 31" by (simp add: POLY_def)
    ultimately have "bit (crc_bit c) 31" using True by (simp add: crc_bit_alt bit_xor_iff)
    with c show ?thesis by simp
  next
    case False
    with c have "c div 2 = 0" by (simp add: crc_bit_alt drop_bit_eq_div)
    moreover have "c mod 2 = 0" using False by (simp add: even_iff_mod_2_eq_zero)
    ultimately show ?thesis using div_mult_mod_eq [of c 2] by simp
  qed
qed (simp add: crc_bit_alt)

lemma crc_bit_inj: "crc_bit a = crc_bit b \<longleftrightarrow> a = b"
  by (metis crc_bit_0_iff crc_bit_xor word_xor_eq_0_iff)

lemma crc_bits_inj: "(crc_bit ^^ n) a = (crc_bit ^^ n) b \<longleftrightarrow> a = b"
  by (induction n arbitrary: a b) (simp_all add: crc_bit_inj)

lemma crc_byte_inj: "crc_byte b c = crc_byte b' d \<longleftrightarrow> c XOR ucast b = d XOR ucast b'"
  by (simp add: crc_byte_def crc_bits_inj)

lemma update_crc_inj: "update_crc c xs = update_crc d xs \<longleftrightarrow> c = d"
  by (induction xs arbitrary: c d)
    (simp_all add: update_crc_def crc_byte_inj word_xor_left_cancel xor.commute [of _ "ucast _"])

text \<open>
  C32. The CRC detects every corruption of a single byte: two buffers that differ in exactly
  one byte have different CRCs.
\<close>

theorem crc32_detects_byte_error:
  "crc32 (xs @ b # ys) = crc32 (xs @ b' # ys) \<longleftrightarrow> b = b'"
proof
  assume "crc32 (xs @ b # ys) = crc32 (xs @ b' # ys)"
  then have "crc_byte b (update_crc (NOT 0) xs) = crc_byte b' (update_crc (NOT 0) xs)"
    using update_crc_inj [of _ ys]
    by (simp add: crc32_def word_xor_left_cancel xor.commute [of _ "NOT 0"] update_crc_append)
      (simp add: update_crc_def)
  then have "ucast b = (ucast b' :: u32)"
    by (simp add: crc_byte_inj word_xor_left_cancel)
  then have "(ucast (ucast b :: u32) :: u8) = ucast (ucast b' :: u32)" by (rule arg_cong)
  then show "b = b'" by (simp add: unsigned_ucast_eq take_bit_word_eq_self)
qed simp

text \<open>
  The CRC is affine: with equal lengths, the CRC of the bytewise exclusive or of three
  buffers is the exclusive or of their CRCs.
\<close>

lemma update_crc_xor:
  "length xs = length ys \<Longrightarrow>
   update_crc (c XOR d) (map2 (XOR) xs ys) = update_crc c xs XOR update_crc d ys"
  by (induction xs ys arbitrary: c d rule: list_induct2) (simp_all add: update_crc_def crc_byte_xor)

subsection \<open>I/O flags\<close>

lemma bit_fold_remap:
  "bit (fold (\<lambda>(sim, host) nflags. if flags AND sim \<noteq> 0 then nflags OR host else nflags) ps acc) k
     \<longleftrightarrow> bit acc k \<or> (\<exists>(sim, host) \<in> set ps. flags AND sim \<noteq> 0 \<and> bit host k)"
  for flags acc :: u32
  by (induction ps arbitrary: acc) (auto simp: bit_or_iff split: if_splits)

lemma bit_remapIOFlags:
  "bit (remapIOFlags flags) k \<longleftrightarrow>
     (\<exists>(sim, host) \<in> set (zip simIOFlags hostIOFlags). flags AND sim \<noteq> 0 \<and> bit host k)"
  by (simp add: remapIOFlags_def bit_fold_remap)

end
