(* ===== verification/Sparse_Mem.thy ===== *)
theory Sparse_Mem
  imports Helper
begin

text \<open>
  \<open>src/sparse_mem.hh\<close> and \<open>src/sparse_mem.cc\<close>: the memory of the simulated machine, one
  anonymous mapping of $2^{32}$ bytes.  The page table version of the class, which is compiled
  out (\<open>#if 0\<close>), is the theory \<open>Paged_Mem\<close>.

  A memory is the function from byte offsets to bytes.  \<open>get<T>\<close> and \<open>set<T>\<close> check the
  address with an \<open>assert\<close> and then access \<open>sizeof(T)\<close> bytes of the little endian host; an
  access that starts below $2^{32}$ and runs past the mapping is \<open>Undefined\<close>.  A pointer into
  the mapping (\<open>operator[]\<close>, \<open>operator+\<close>, \<open>get_raw_ptr\<close>) is its byte offset.
\<close>

type_synonym memory = "u32 \<Rightarrow> u8"

definition sz :: nat where
  "sz = 2 ^ 32"

text \<open>Fresh anonymous pages read as zero.\<close>

definition sparse_mem_new :: memory where
  "sparse_mem_new = (\<lambda>_. 0)"

definition clear :: "memory \<Rightarrow> memory" where
  "clear m = (\<lambda>_. 0)"

definition prefault :: "memory \<Rightarrow> u64 \<Rightarrow> u64 \<Rightarrow> memory" where
  "prefault m addr alloc_size = m"

definition coalesce :: "memory \<Rightarrow> u64 \<Rightarrow> u64 \<Rightarrow> memory" where
  "coalesce m addr n = m"

definition ptr_at :: "u64 \<Rightarrow> u32 result" where
  "ptr_at addr = definedE (unat addr < sz) (Inr (ucast addr))"

definition get_raw_ptr :: "u64 \<Rightarrow> u32" where
  "get_raw_ptr byte_addr = ucast (byte_addr AND 0xffffffff)"

definition compare :: "memory \<Rightarrow> memory \<Rightarrow> bool" where
  "compare m other = list_ex (\<lambda>b. m (of_nat b) \<noteq> other (of_nat b)) [0..<sz]"

definition bytes_allocated :: nat where
  "bytes_allocated = sz"

text \<open>Reading and writing a value of \<open>n\<close> bytes at an offset, lowest byte first.\<close>

primrec load_le :: "nat \<Rightarrow> memory \<Rightarrow> u32 \<Rightarrow> 'a::len word" where
  "load_le 0 m a = 0"
| "load_le (Suc n) m a = ucast (m a) OR push_bit 8 (load_le n m (a + 1))"

primrec store_le :: "nat \<Rightarrow> memory \<Rightarrow> u32 \<Rightarrow> 'a::len word \<Rightarrow> memory" where
  "store_le 0 m a v = m"
| "store_le (Suc n) m a v = store_le n (m(a := ucast v)) (a + 1) (drop_bit 8 v)"

definition mem_get :: "memory \<Rightarrow> u64 \<Rightarrow> 'a::len word result" where
  "mem_get m byte_addr =
     assertE (byte_addr < 0x100000000)
       (definedE (unat byte_addr + LENGTH('a) div 8 \<le> sz)
         (Inr (load_le (LENGTH('a) div 8) m (ucast byte_addr))))"

definition mem_set :: "memory \<Rightarrow> u64 \<Rightarrow> 'a::len word \<Rightarrow> memory result" where
  "mem_set m byte_addr v =
     assertE (byte_addr < 0x100000000)
       (definedE (unat byte_addr + LENGTH('a) div 8 \<le> sz)
         (Inr (store_le (LENGTH('a) div 8) m (ucast byte_addr) v)))"

text \<open>
  An access of \<open>n\<close> bytes is inside the mapping; two accesses of \<open>n\<close> bytes do not overlap.
\<close>

definition in_range :: "nat \<Rightarrow> u64 \<Rightarrow> bool" where
  "in_range n a \<longleftrightarrow> a < 0x100000000 \<and> unat a + n \<le> sz"

definition apart :: "nat \<Rightarrow> u64 \<Rightarrow> u64 \<Rightarrow> bool" where
  "apart n a b \<longleftrightarrow> unat a + n \<le> unat b \<or> unat b + n \<le> unat a"

subsection \<open>Bytes of stored values\<close>

lemma bit_load_le:
  assumes "8 * n \<le> LENGTH('a)"
  shows "bit (load_le n m a :: 'a::len word) k \<longleftrightarrow> k < 8 * n \<and> bit (m (a + of_nat (k div 8))) (k mod 8)"
  using assms
proof (induction n arbitrary: a k)
  case 0
  then show ?case by simp
next
  case (Suc n)
  show ?case
  proof (cases "k < 8")
    case True
    with Suc.prems show ?thesis by (simp add: bit_simps)
  next
    case False
    then obtain j where j: "k = j + 8" by (metis le_add_diff_inverse2 not_less)
    then have "k div 8 = Suc (j div 8)" and "k mod 8 = j mod 8" by simp_all
    moreover have "\<not> bit (m a) (j + 8)" by (auto dest: bit_imp_le_length)
    ultimately show ?thesis
      using Suc.IH [of "a + 1" j] Suc.prems
      by (auto simp: j bit_or_iff bit_push_bit_iff bit_unsigned_iff algebra_simps)
  qed
qed

lemma store_le_byte:
  assumes "n \<le> sz"
  shows "store_le n m a v b = (if unat (b - a) < n then ucast (drop_bit (8 * unat (b - a)) v) else m b)"
  using assms
proof (induction n arbitrary: m a v)
  case 0
  then show ?case by simp
next
  case (Suc n)
  show ?case
  proof (cases "b = a")
    case True
    have "unat (a - (a + 1)) = sz - 1" by (simp add: sz_def unsigned_minus_1_eq_mask mask_eq_exp_minus_1)
    then have "\<not> unat (a - (a + 1)) < n" using Suc.prems by simp
    with True Suc show ?thesis by simp
  next
    case False
    then have "0 < unat (b - a)" by (simp add: unat_gt_0)
    have eq: "b - (a + 1) = (b - a) - 1" by simp
    have "unat (b - (a + 1)) = unat (b - a) - 1"
      unfolding eq by (rule unat_minus_one) (use False in simp)
    then obtain j where j: "unat (b - a) = Suc j" "unat (b - (a + 1)) = j"
      using \<open>0 < unat (b - a)\<close> by (cases "unat (b - a)") auto
    with False Suc show ?thesis by (simp add: drop_bit_drop_bit add.commute)
  qed
qed

lemma load_le_bytes_eq:
  assumes "8 * n \<le> LENGTH('a)" and "\<And>i. i < n \<Longrightarrow> m (a + of_nat i) = m' (a + of_nat i)"
  shows "(load_le n m a :: 'a::len word) = load_le n m' a"
  by (rule bit_word_eqI) (use assms in \<open>auto simp: bit_load_le div_less_iff_less_mult ac_simps\<close>)

lemma store_le_at:
  assumes "i < n" "n \<le> sz"
  shows "store_le n m a v (a + of_nat i) = ucast (drop_bit (8 * i) v)"
proof -
  have "i < 2 ^ 32" using assms by (simp add: sz_def)
  then have "unat (a + of_nat i - a) = i" by (simp add: unsigned_of_nat take_bit_nat_eq_self)
  with assms show ?thesis by (simp add: store_le_byte)
qed

lemma load_store_le:
  assumes "8 * n = LENGTH('a)" "n \<le> sz"
  shows "load_le n (store_le n m a v) a = (v :: 'a::len word)"
proof (rule bit_word_eqI)
  fix k assume k: "k < LENGTH('a)"
  then have "k div 8 < n" using assms by (simp add: div_less_iff_less_mult ac_simps)
  with k assms show "bit (load_le n (store_le n m a v) a :: 'a word) k = bit v k"
    by (simp add: bit_load_le store_le_at bit_simps)
qed

lemma load_store_le_apart:
  assumes "8 * n \<le> LENGTH('a)" "unat a + n \<le> sz" "unat b + k \<le> sz"
    and "unat a + n \<le> unat b \<or> unat b + k \<le> unat a"
  shows "(load_le n (store_le k m b v) a :: 'a::len word) = load_le n m a"
proof (rule load_le_bytes_eq [OF assms(1)])
  fix i assume i: "i < n"
  have "i < 2 ^ 32" "unat a + i < 2 ^ 32" using i assms(2) by (simp_all add: sz_def)
  then have "unat (a + of_nat i) = unat a + i"
    by (simp add: unat_word_ariths(1) unsigned_of_nat take_bit_nat_eq_self)
  then have "\<not> unat (a + of_nat i - b) < k"
    using i assms(3,4) by (auto simp: unat_sub_if' sz_def split: if_splits)
  moreover have "k \<le> sz" using assms(3) by simp
  ultimately show "store_le k m b v (a + of_nat i) = m (a + of_nat i)"
    by (simp add: store_le_byte)
qed

lemma unat_ucast_32: "unat a < sz \<Longrightarrow> unat (ucast a :: u32) = unat a" for a :: u64
  by (simp add: sz_def unsigned_ucast_eq unsigned_take_bit_eq take_bit_nat_eq_self)

lemma less_2p32_iff: "a < 0x100000000 \<longleftrightarrow> unat a < sz" for a :: u64
  by (simp add: word_less_nat_alt sz_def)

lemma unat_ucast_64 [simp]: "unat (ucast a :: u64) = unat a" for a :: u32
proof -
  have "unat a < 2 ^ LENGTH(32)" by (rule unsigned_less)
  then show ?thesis by (simp add: unsigned_ucast_eq unsigned_take_bit_eq take_bit_nat_eq_self)
qed

lemma ucast_ucast_32 [simp]: "ucast (ucast a :: u64) = a" for a :: u32
  by (rule bit_word_eqI) (simp add: bit_unsigned_iff)

lemma unat_less_sz [simp]: "unat a < sz" for a :: u32
proof -
  have "unat a < 2 ^ LENGTH(32)" by (rule unsigned_less)
  then show ?thesis by (simp add: sz_def)
qed

lemma ucast_less_2p32 [simp]: "(ucast a :: u64) < 0x100000000" for a :: u32
  by (simp add: less_2p32_iff)

subsection \<open>The memory interface\<close>

text \<open>
  What a client of the memory relies on, for accesses of one size: accesses inside the mapping
  succeed, a read returns the last value written at its address, and a write leaves accesses
  that do not overlap it alone.
\<close>

locale word_store =
  fixes rd :: "'m \<Rightarrow> 'a \<Rightarrow> 'v result"
    and wr :: "'m \<Rightarrow> 'a \<Rightarrow> 'v \<Rightarrow> 'm result"
    and ok :: "'a \<Rightarrow> bool"
    and sep :: "'a \<Rightarrow> 'a \<Rightarrow> bool"
  assumes rd_ok: "ok a \<Longrightarrow> \<exists>v. rd m a = Inr v"
    and wr_ok: "ok a \<Longrightarrow> \<exists>m'. wr m a v = Inr m'"
    and rd_wr_same: "wr m a v = Inr m' \<Longrightarrow> rd m' a = Inr v"
    and rd_wr_sep: "wr m a v = Inr m' \<Longrightarrow> sep a b \<Longrightarrow> rd m' b = rd m b"
    and sep_sym: "sep a b \<Longrightarrow> sep b a"
begin

lemma wr_rd: "ok a \<Longrightarrow> returns (\<lambda>m'. rd m' a = Inr v) (wr m a v)"
  using wr_ok [of a m v] by (auto intro: rd_wr_same)

lemma wr_all_ok: "\<forall>(a, v) \<in> set ws. ok a \<Longrightarrow> \<exists>m'. foldE (\<lambda>(a, v) m. wr m a v) ws m = Inr m'"
proof (induction ws arbitrary: m)
  case (Cons w ws)
  obtain a v where w: "w = (a, v)" by fastforce
  with Cons.prems obtain m1 where "wr m a v = Inr m1" using wr_ok by fastforce
  with Cons w show ?case by auto
qed simp

lemma rd_wr_all_sep:
  assumes "foldE (\<lambda>(a, v) m. wr m a v) ws m = Inr m'" and "\<And>a v. (a, v) \<in> set ws \<Longrightarrow> sep a b"
  shows "rd m' b = rd m b"
  using foldE_invariant [where P = "\<lambda>m'. rd m' b = rd m b", OF assms(1)] assms(2)
  by (auto simp: rd_wr_sep split: prod.splits)

lemma rd_wr_all_same:
  assumes "foldE (\<lambda>(a, v) m. wr m a v) ws m = Inr m'"
    and "sorted_wrt (\<lambda>x y. sep (fst x) (fst y)) ws" and "(a, v) \<in> set ws"
  shows "rd m' a = Inr v"
  using assms
proof (induction ws arbitrary: m)
  case (Cons w ws)
  obtain b u where w: "w = (b, u)" by fastforce
  with Cons.prems(1) obtain m1 where m1: "wr m b u = Inr m1"
    and rest: "foldE (\<lambda>(a, v) m. wr m a v) ws m1 = Inr m'" by auto
  show ?case
  proof (cases "(a, v) \<in> set ws")
    case True
    with rest Cons.prems(2) show ?thesis by (intro Cons.IH) auto
  next
    case False
    with Cons.prems(3) w have ab: "a = b" "v = u" by auto
    have "rd m' b = rd m1 b"
      by (rule rd_wr_all_sep [OF rest]) (use Cons.prems(2) w in \<open>force intro: sep_sym\<close>)
    with rd_wr_same [OF m1] ab show ?thesis by simp
  qed
qed simp

end

lemma mem_store_laws:
  assumes "8 * n = LENGTH('v::len)" and "n \<le> sz"
  shows "word_store (mem_get :: memory \<Rightarrow> u64 \<Rightarrow> 'v word result) mem_set (in_range n) (apart n)"
proof
  have n: "LENGTH('v) div 8 = n" and pos: "0 < n" using assms(1) by (simp_all, cases n) simp_all
  fix m m' :: memory and a b :: u64 and v :: "'v word"
  show "in_range n a \<Longrightarrow> \<exists>v. (mem_get m a :: 'v word result) = Inr v"
    and "in_range n a \<Longrightarrow> \<exists>m'. mem_set m a v = Inr m'"
    and "apart n a b \<Longrightarrow> apart n b a"
    by (auto simp: in_range_def apart_def mem_get_def mem_set_def n)
  assume "mem_set m a v = Inr m'"
  then have a: "a < 0x100000000" "unat a + n \<le> sz" and m': "m' = store_le n m (ucast a) v"
    by (auto simp: mem_set_def n)
  show "mem_get m' a = Inr v"
    using a assms by (simp add: mem_get_def n m' load_store_le)
  have "(load_le n m' (ucast b) :: 'v word) = load_le n m (ucast b)"
    if "apart n a b" "unat b + n \<le> sz"
  proof -
    have ua: "unat (ucast a :: u32) = unat a" and ub: "unat (ucast b :: u32) = unat b"
      using that a(2) pos by (auto intro!: unat_ucast_32)
    show ?thesis
      unfolding m' by (rule load_store_le_apart)
        (use that a assms in \<open>auto simp: apart_def ua ub\<close>)
  qed
  then show "apart n a b \<Longrightarrow> (mem_get m' b :: 'v word result) = mem_get m b"
    by (auto simp: mem_get_def n assertE_def definedE_def)
qed

interpretation mem8: word_store "mem_get :: memory \<Rightarrow> u64 \<Rightarrow> u8 result" mem_set "in_range 1" "apart 1"
  by (rule mem_store_laws) (simp_all add: sz_def)

interpretation mem16: word_store "mem_get :: memory \<Rightarrow> u64 \<Rightarrow> u16 result" mem_set "in_range 2" "apart 2"
  by (rule mem_store_laws) (simp_all add: sz_def)

interpretation mem32: word_store "mem_get :: memory \<Rightarrow> u64 \<Rightarrow> u32 result" mem_set "in_range 4" "apart 4"
  by (rule mem_store_laws) (simp_all add: sz_def)

interpretation mem64: word_store "mem_get :: memory \<Rightarrow> u64 \<Rightarrow> u64 result" mem_set "in_range 8" "apart 8"
  by (rule mem_store_laws) (simp_all add: sz_def)

lemmas mem32_laws = mem32.rd_ok mem32.wr_ok mem32.rd_wr_same mem32.rd_wr_sep

subsection \<open>Byte loops\<close>

text \<open>
  A loop that sets consecutive bytes through \<open>uint32_t\<close> addresses never faults; the addresses
  wrap around at $2^{32}$.
\<close>

lemma mem_set_u8: "mem_set m (ucast a) (v :: u8) = Inr (m(a := v))" for a :: u32
  using unat_less_sz [of a] by (simp add: mem_set_def Suc_le_eq)

lemma set_bytes_loop:
  fixes a :: u32 and f :: "nat \<Rightarrow> u8"
  assumes "n \<le> sz"
  shows "foldE (\<lambda>j m. mem_set m (ucast (a + of_nat j)) (f j)) [0..<n] m
    = Inr (\<lambda>b. if unat (b - a) < n then f (unat (b - a)) else m b)"
  using assms
proof (induction n)
  case (Suc n)
  have "n < 2 ^ 32" using Suc.prems by (simp add: sz_def)
  then have n: "unat (of_nat n :: u32) = n" by (simp add: unsigned_of_nat take_bit_nat_eq_self)
  have eq: "b = a + of_nat n \<longleftrightarrow> unat (b - a) = n" for b
  proof -
    have "b = a + of_nat n \<longleftrightarrow> b - a = of_nat n" by (simp add: diff_eq_eq add.commute)
    then show ?thesis unfolding word_unat_eq_iff [of "b - a"] n .
  qed
  have "f n = f (unat (b - a))" if "unat (b - a) = n" for b using that by simp
  then show ?case using Suc by (auto simp: foldE_append mem_set_u8 fun_eq_iff eq less_Suc_eq)
qed (simp add: fun_eq_iff)

subsection \<open>Properties of the memory\<close>

text \<open>
  \<open>compare\<close> reports a difference exactly when the two memories differ in some byte.
\<close>

theorem compare_iff: "compare m other \<longleftrightarrow> m \<noteq> other"
proof -
  have "\<exists>b \<in> {0..<sz}. m (of_nat b) \<noteq> other (of_nat b)" if "m x \<noteq> other x" for x
    using that by (intro bexI [of _ "unat x"]) simp_all
  then show ?thesis by (auto simp: compare_def list_ex_iff fun_eq_iff)
qed

text \<open>
  C19. A store of any width inside the mapping succeeds: it puts the bytes of the value, lowest first, at its
  address and leaves every byte outside them alone, and a load of the same width reads the value back.
  A store that starts inside the mapping and runs past its end is undefined, and one from $2^{32}$ on fails
  the assertion.
\<close>

theorem mem_set_get:
  fixes v :: "'a::len word"
  assumes "8 * n = LENGTH('a)" "n \<le> 8"
  shows "if in_range n a
    then \<exists>m'. mem_set m a v = Inr m' \<and> mem_get m' a = Inr v
      \<and> (\<forall>i < n. m' (ucast a + of_nat i) = ucast (drop_bit (8 * i) v))
      \<and> (\<forall>b. unat b < unat a \<or> unat a + n \<le> unat b \<longrightarrow> m' b = m b)
    else mem_set m a v = Inl (if unat a < sz then Undefined else Assert)"
proof (cases "in_range n a")
  case True
  have n: "LENGTH('a) div 8 = n" "n \<le> sz" "0 < n" using assms by (simp_all add: sz_def) (cases n; simp)
  have u: "unat (ucast a :: u32) = unat a" using True n(3) by (intro unat_ucast_32) (simp add: in_range_def)
  let ?m = "store_le n m (ucast a) v"
  have set: "mem_set m a v = Inr ?m" using True n by (simp add: mem_set_def in_range_def less_2p32_iff)
  moreover have "mem_get ?m a = Inr v" using True n assms(1) by (simp add: mem_get_def in_range_def less_2p32_iff load_store_le)
  moreover have "?m b = m b" if "unat b < unat a \<or> unat a + n \<le> unat b" for b
  proof -
    have "\<not> unat (b - ucast a) < n"
      using that True u by (auto simp: in_range_def unat_sub_if' sz_def split: if_splits)
    then show ?thesis by (simp add: store_le_byte n(2))
  qed
  ultimately show ?thesis using True n(2) by (auto simp: store_le_at)
next
  case False
  have n: "LENGTH('a) div 8 = n" "0 < n" using assms by (simp_all) (cases n; simp)
  with False show ?thesis by (auto simp: mem_set_def in_range_def less_2p32_iff assertE_def definedE_def)
qed

theorem mem_set_get_witness:
  "\<exists>m'. mem_set sparse_mem_new 0x1002 (0xdeadbeef :: u32) = Inr m' \<and> mem_get m' 0x1002 = Inr (0xdeadbeef :: u32)
     \<and> m' 0x1002 = 0xef \<and> m' 0x1001 = 0 \<and> m' 0x1006 = 0"
proof -
  have r: "in_range 4 0x1002" by (simp add: in_range_def sz_def)
  obtain m' where m': "mem_set sparse_mem_new 0x1002 (0xdeadbeef :: u32) = Inr m'" "mem_get m' 0x1002 = Inr (0xdeadbeef :: u32)"
    "\<forall>i < 4. m' (ucast (0x1002 :: u64) + of_nat i) = ucast (drop_bit (8 * i) (0xdeadbeef :: u32))"
    "\<forall>b. unat b < unat (0x1002 :: u64) \<or> unat (0x1002 :: u64) + 4 \<le> unat b \<longrightarrow> m' b = sparse_mem_new b"
    using mem_set_get [of 4 "0x1002" sparse_mem_new "0xdeadbeef :: u32"] r by auto
  from m'(3) [rule_format, of 0] m'(4) [rule_format, of "0x1001"] m'(4) [rule_format, of "0x1006"] m'(1,2)
  show ?thesis by (simp add: sparse_mem_new_def)
qed

text \<open>
  An access below $2^{32}$ that would run past the end of the mapping is not defined, and
  an address from $2^{32}$ on fails the assertion: \<open>get\<close> succeeds exactly in range.
\<close>

theorem mem_get_defined_iff:
  "(\<exists>v. (mem_get m a :: u32 result) = Inr v) \<longleftrightarrow> in_range 4 a"
  by (simp add: mem_get_def in_range_def)

end
