(* ===== verification/Sim_Queue.thy ===== *)
theory Sim_Queue
  imports Helper
begin

text \<open>
  \<open>src/sim_queue.hh\<close>: a bounded FIFO in a power-of-two ring.  The read and write indices
  count modulo twice the length, so that a full ring (indices equal modulo the length, different
  modulo twice the length) is told from an empty one.

  An access to a slot outside the array is \<open>Undefined\<close>; the zero bytes \<open>memset\<close> fills the
  array with are the parameter \<open>z\<close> of the constructors.
\<close>

record 'a sim_queue =
  len :: u64
  len2 :: u64
  n_free :: u64
  data :: "'a list"
  read_idx :: u64
  write_idx :: u64

definition slot_get :: "'a sim_queue \<Rightarrow> u64 \<Rightarrow> 'a result" where
  "slot_get q i = definedE (unat i < length (data q)) (Inr (data q ! unat i))"

definition sim_queue_new :: "'a \<Rightarrow> u64 \<Rightarrow> 'a sim_queue result" where
  "sim_queue_new z n =
     assertE ((n - 1) AND n = 0)
       (Inr \<lparr>len = n, len2 = 2 * n, n_free = n, data = replicate (unat n) z,
             read_idx = 0, write_idx = 0\<rparr>)"

definition resize :: "'a \<Rightarrow> 'a sim_queue \<Rightarrow> u64 \<Rightarrow> 'a sim_queue" where
  "resize z q n =
     q\<lparr>len := n, len2 := 2 * n, data := replicate (unat n) z, read_idx := 0, write_idx := 0,
       n_free := n\<rparr>"

definition push_raw :: "'a sim_queue \<Rightarrow> 'a \<Rightarrow> (u64 \<times> 'a sim_queue) result" where
  "push_raw q v =
     (let slot_id = write_idx q AND (len q - 1)
      in definedE (unat slot_id < length (data q))
           (Inr (slot_id, q\<lparr>data := (data q)[unat slot_id := v],
                            write_idx := (write_idx q + 1) AND (len2 q - 1)\<rparr>)))"

definition pop_raw :: "'a sim_queue \<Rightarrow> ('a \<times> 'a sim_queue) result" where
  "pop_raw q =
     bindE (slot_get q (read_idx q AND (len q - 1)))
       (\<lambda>v. Inr (v, q\<lparr>read_idx := (read_idx q + 1) AND (len2 q - 1)\<rparr>))"

definition peek_raw :: "'a sim_queue \<Rightarrow> 'a result" where
  "peek_raw q = slot_get q (read_idx q AND (len q - 1))"

definition q_empty :: "'a sim_queue \<Rightarrow> bool" where
  "q_empty q \<longleftrightarrow> read_idx q = write_idx q"

definition q_full :: "'a sim_queue \<Rightarrow> bool" where
  "q_full q \<longleftrightarrow>
     (let m_rd_idx = read_idx q AND (len q - 1);
          m_wr_idx = write_idx q AND (len q - 1)
      in m_rd_idx = m_wr_idx \<and> read_idx q \<noteq> write_idx q)"

definition q_size :: "'a sim_queue \<Rightarrow> u64" where
  "q_size q =
     (if write_idx q > read_idx q then write_idx q - read_idx q
      else (len2 q - write_idx q) + read_idx q)"

definition free_size :: "'a sim_queue \<Rightarrow> u64" where
  "free_size q = n_free q"

definition q_clear :: "'a sim_queue \<Rightarrow> 'a sim_queue" where
  "q_clear q = q\<lparr>n_free := len q, read_idx := 0, write_idx := 0\<rparr>"

definition push :: "'a sim_queue \<Rightarrow> 'a \<Rightarrow> (u64 \<times> 'a sim_queue) result" where
  "push q v = assertE (\<not> q_full q) (push_raw (q\<lparr>n_free := n_free q - 1\<rparr>) v)"

definition pop :: "'a sim_queue \<Rightarrow> ('a \<times> 'a sim_queue) result" where
  "pop q = assertE (\<not> q_empty q) (pop_raw (q\<lparr>n_free := n_free q + 1\<rparr>))"

definition peek :: "'a sim_queue \<Rightarrow> 'a result" where
  "peek q = assertE (\<not> q_empty q) (peek_raw q)"

definition peek_next_pop :: "'a sim_queue \<Rightarrow> 'a result" where
  "peek_next_pop q =
     (let next_rd = (read_idx q + 1) AND (len2 q - 1) in slot_get q (next_rd AND (len q - 1)))"

definition capacity :: "'a sim_queue \<Rightarrow> u64" where
  "capacity q = len q"

definition get_read_idx :: "'a sim_queue \<Rightarrow> u64" where
  "get_read_idx q = read_idx q AND (len q - 1)"

definition get_write_idx :: "'a sim_queue \<Rightarrow> u64" where
  "get_write_idx q = write_idx q AND (len q - 1)"

definition q_at :: "'a sim_queue \<Rightarrow> u64 \<Rightarrow> 'a result" where
  "q_at q i = slot_get q i"

text \<open>
  The abstract view: how many elements are stored, and which, oldest first.
\<close>

definition q_count :: "'a sim_queue \<Rightarrow> nat" where
  "q_count q = (unat (write_idx q) + unat (len2 q) - unat (read_idx q)) mod unat (len2 q)"

definition contents :: "'a sim_queue \<Rightarrow> 'a list" where
  "contents q = map (\<lambda>i. data q ! ((unat (read_idx q) + i) mod unat (len q))) [0..<q_count q]"

definition q_inv :: "'a sim_queue \<Rightarrow> bool" where
  "q_inv q \<longleftrightarrow>
     isPow2 (len q) \<and> 0 < unat (len q) \<and> unat (len q) < 2 ^ 63 \<and>
     len2 q = 2 * len q \<and> length (data q) = unat (len q) \<and>
     unat (read_idx q) < 2 * unat (len q) \<and> unat (write_idx q) < 2 * unat (len q) \<and>
     q_count q \<le> unat (len q) \<and> unat (n_free q) = unat (len q) - q_count q"

text \<open>Pushing and popping whole sequences.\<close>

definition push_all :: "'a list \<Rightarrow> 'a sim_queue \<Rightarrow> 'a sim_queue result" where
  "push_all = foldE (\<lambda>v q. bindE (push q v) (\<lambda>(slot_id, q'). Inr q'))"

primrec pop_n :: "nat \<Rightarrow> 'a sim_queue \<Rightarrow> ('a list \<times> 'a sim_queue) result" where
  "pop_n 0 q = Inr ([], q)"
| "pop_n (Suc n) q =
     bindE (pop q) (\<lambda>(v, q'). bindE (pop_n n q') (\<lambda>(vs, q''). Inr (v # vs, q'')))"

subsection \<open>Ring arithmetic\<close>

lemma isPow2_double: "isPow2 n \<Longrightarrow> isPow2 (2 * n)" for n :: "'a::len word"
proof -
  assume "isPow2 n"
  then consider "n = 0" | k where "k < LENGTH('a)" "n = 2 ^ k" by (auto simp: isPow2_iff)
  then show ?thesis
  proof cases
    case (2 k)
    then show ?thesis
      by (cases "Suc k < LENGTH('a)") (auto simp: isPow2_iff simp flip: power_Suc)
  qed (simp add: isPow2_def)
qed

lemma unat_and_pred: "isPow2 n \<Longrightarrow> n \<noteq> 0 \<Longrightarrow> unat (x AND (n - 1)) = unat x mod unat n"
  using modT_eq_mod [of n x] by (simp add: modT_def unat_mod_distrib)

lemma unat_double: "unat n < 2 ^ 63 \<Longrightarrow> unat (2 * n) = 2 * unat n" for n :: u64
  by (simp add: unat_word_ariths(2))

lemma ring_count:
  fixes r w L :: nat
  assumes "r < 2 * L" "w < 2 * L"
  shows "(w + 2 * L - r) mod (2 * L) = (if r \<le> w then w - r else w + 2 * L - r)"
proof (cases "r \<le> w")
  case True
  then have "w + 2 * L - r = (w - r) + 2 * L" by simp
  then have "(w + 2 * L - r) mod (2 * L) = (w - r) mod (2 * L)" by (simp only: mod_add_self2)
  with True assms show ?thesis by simp
next
  case False
  with assms show ?thesis by simp
qed

lemma wrap_mod: "x < 2 * L \<Longrightarrow> x mod L = (if x < L then x else x - L)" for x L :: nat
  by (simp add: le_mod_geq)

lemma ring_slots_distinct: "i < c \<Longrightarrow> c < L \<Longrightarrow> (r + i) mod L \<noteq> (r + c) mod L" for i c L r :: nat
proof
  assume *: "i < c" "c < L" "(r + i) mod L = (r + c) mod L"
  then have "L dvd (r + c) - (r + i)" by (metis less_or_eq_imp_le add_left_mono mod_eq_dvd_iff_nat)
  with * show False by (auto dest: dvd_imp_le)
qed

lemma q_len:
  assumes "q_inv q"
  shows "isPow2 (len q)" "len q \<noteq> 0" "isPow2 (len2 q)" "len2 q \<noteq> 0" "0 < unat (len q)"
    "unat (len2 q) = 2 * unat (len q)"
proof -
  show pow: "isPow2 (len q)" "len q \<noteq> 0" "0 < unat (len q)" using assms by (auto simp: q_inv_def)
  show l2: "unat (len2 q) = 2 * unat (len q)" using assms by (simp add: q_inv_def unat_double)
  with pow(3) show "len2 q \<noteq> 0" by auto
  show "isPow2 (len2 q)" using assms by (simp add: q_inv_def isPow2_double)
qed

lemma len_le:
  assumes "q_inv q"
  shows "unat (len q) \<le> 2 ^ 62"
proof -
  obtain k where k: "k < 64" "len q = 2 ^ k"
    using assms q_len(2) [OF assms] by (auto simp: q_inv_def isPow2_iff)
  then have u: "unat (len q) = 2 ^ k" using unat_power2 [where 'a = 64, of k] by simp
  have "unat (len q) < 2 ^ 63" using assms by (simp add: q_inv_def)
  then have "(2::nat) ^ k < 2 ^ 63" unfolding u .
  then have "k < 63" by (rule power_less_imp_less_exp [rotated]) simp
  then show ?thesis unfolding u by (intro power_increasing) simp_all
qed

lemma q_bounds:
  assumes "q_inv q"
  shows "unat (read_idx q) < 2 * unat (len q)" "unat (write_idx q) < 2 * unat (len q)"
    "q_count q \<le> unat (len q)" "length (data q) = unat (len q)"
    "unat (n_free q) = unat (len q) - q_count q"
  using assms by (simp_all add: q_inv_def)

lemma q_count_eq:
  assumes "q_inv q"
  shows "q_count q = (if unat (read_idx q) \<le> unat (write_idx q) then unat (write_idx q) - unat (read_idx q)
      else unat (write_idx q) + 2 * unat (len q) - unat (read_idx q))"
  unfolding q_count_def q_len(6) [OF assms] by (rule ring_count) (rule q_bounds [OF assms])+

lemma q_empty_iff: "q_inv q \<Longrightarrow> q_empty q \<longleftrightarrow> q_count q = 0"
  using q_bounds [of q] q_count_eq [of q] unfolding q_empty_def word_unat_eq_iff
  by (auto split: if_splits)

lemma q_full_iff:
  assumes "q_inv q"
  shows "q_full q \<longleftrightarrow> q_count q = unat (len q)"
proof -
  note b = q_bounds [OF assms] and l = q_len [OF assms]
  have "q_full q \<longleftrightarrow> unat (read_idx q) mod unat (len q) = unat (write_idx q) mod unat (len q)
      \<and> unat (read_idx q) \<noteq> unat (write_idx q)"
    unfolding q_full_def Let_def word_unat_eq_iff by (simp add: unat_and_pred l)
  then show ?thesis
    using q_count_eq [OF assms] b(1,2) l(5) by (auto simp: wrap_mod split: if_splits)
qed

lemma unat_step:
  assumes "q_inv q" "unat x < 2 * unat (len q)"
  shows "unat ((x + 1) AND (len2 q - 1)) = (if Suc (unat x) = 2 * unat (len q) then 0 else Suc (unat x))"
proof -
  have "unat (len2 q) < 2 ^ LENGTH(64)" by (rule unsigned_less)
  then have "unat (x + 1) mod unat (len2 q) = Suc (unat x) mod (2 * unat (len q))"
    using assms q_len(6) [OF assms(1)] by (simp add: unat_word_ariths(1))
  then show ?thesis using assms(2) by (simp add: unat_and_pred q_len [OF assms(1)])
qed

lemma contents_length: "length (contents q) = q_count q"
  by (simp add: contents_def)

lemma write_slot:
  assumes "q_inv q"
  shows "unat (write_idx q AND (len q - 1)) = (unat (read_idx q) + q_count q) mod unat (len q)"
proof -
  have "unat (read_idx q) + q_count q = unat (write_idx q) \<or>
      unat (read_idx q) + q_count q = unat (write_idx q) + 2 * unat (len q)"
    using q_bounds [OF assms] q_count_eq [OF assms] by (auto split: if_splits)
  then have "(unat (read_idx q) + q_count q) mod unat (len q) = unat (write_idx q) mod unat (len q)"
    by (auto simp: mod_mult_self2 simp del: mult_2)
  then show ?thesis by (simp add: unat_and_pred q_len [OF assms])
qed

lemma q_count_cong:
  "write_idx q' = write_idx q \<Longrightarrow> read_idx q' = read_idx q \<Longrightarrow> len2 q' = len2 q \<Longrightarrow> q_count q' = q_count q"
  by (simp add: q_count_def)

lemma q_count_push:
  assumes "q_inv q" "q_count q < unat (len q)"
    and "read_idx q' = read_idx q" "write_idx q' = (write_idx q + 1) AND (len2 q - 1)" "len2 q' = len2 q"
  shows "q_count q' = Suc (q_count q)"
proof -
  note b = q_bounds [OF assms(1)] and st = unat_step [OF assms(1) q_bounds(2) [OF assms(1)]]
  have "q_count q' = (unat (write_idx q') + 2 * unat (len q) - unat (read_idx q)) mod (2 * unat (len q))"
    by (simp add: q_count_def assms q_len [OF assms(1)])
  also have "\<dots> = (if unat (read_idx q) \<le> unat (write_idx q') then unat (write_idx q') - unat (read_idx q)
      else unat (write_idx q') + 2 * unat (len q) - unat (read_idx q))"
    using b st by (intro ring_count) (auto simp: assms(4))
  finally show ?thesis
    using b st assms(2) q_count_eq [OF assms(1)] by (auto simp: assms(4) split: if_splits)
qed

lemma q_count_pop:
  assumes "q_inv q" "0 < q_count q"
    and "write_idx q' = write_idx q" "read_idx q' = (read_idx q + 1) AND (len2 q - 1)" "len2 q' = len2 q"
  shows "Suc (q_count q') = q_count q"
proof -
  note b = q_bounds [OF assms(1)] and st = unat_step [OF assms(1) q_bounds(1) [OF assms(1)]]
  have "q_count q' = (unat (write_idx q) + 2 * unat (len q) - unat (read_idx q')) mod (2 * unat (len q))"
    by (simp add: q_count_def assms q_len [OF assms(1)])
  also have "\<dots> = (if unat (read_idx q') \<le> unat (write_idx q) then unat (write_idx q) - unat (read_idx q')
      else unat (write_idx q) + 2 * unat (len q) - unat (read_idx q'))"
    using b st by (intro ring_count) (auto simp: assms(4))
  finally show ?thesis
    using b st assms(2) q_count_eq [OF assms(1)] by (auto simp: assms(4) split: if_splits)
qed

lemma push_spec:
  assumes q: "q_inv q" and c: "q_count q < unat (len q)"
  shows "\<exists>slot q'. push q v = Inr (slot, q') \<and> q_inv q' \<and> contents q' = contents q @ [v] \<and> len q' = len q"
proof -
  note b = q_bounds [OF q] and l = q_len [OF q]
  let ?slot = "write_idx q AND (len q - 1)"
  let ?q = "q\<lparr>n_free := n_free q - 1, data := (data q)[unat ?slot := v],
      write_idx := (write_idx q + 1) AND (len2 q - 1)\<rparr>"
  have slot: "unat ?slot = (unat (read_idx q) + q_count q) mod unat (len q)" by (rule write_slot [OF q])
  have "\<not> q_full q" using q_full_iff [OF q] c by simp
  moreover have "unat ?slot < unat (len q)" using l(5) by (simp add: slot)
  ultimately have "push q v = Inr (?slot, ?q)" by (simp add: push_def push_raw_def Let_def b)
  moreover have count: "q_count ?q = Suc (q_count q)" by (rule q_count_push [OF q c]) simp_all
  moreover have "q_inv ?q"
  proof -
    have "n_free q \<noteq> 0" using b(5) c by auto
    then have "unat (n_free q - 1) = unat (len q) - Suc (q_count q)" using b(5) by (simp add: unat_minus_one)
    then show ?thesis
      using q c count unat_step [OF q b(2)] by (auto simp: q_inv_def simp del: unat_gt_0)
  qed
  moreover have "contents ?q = contents q @ [v]"
  proof -
    have "contents ?q = map (\<lambda>i. (data q)[unat ?slot := v] ! ((unat (read_idx q) + i) mod unat (len q)))
        [0..<Suc (q_count q)]"
      by (simp add: contents_def count)
    also have "\<dots> = contents q @ [v]"
      using ring_slots_distinct [OF _ c, of _ "unat (read_idx q)", THEN not_sym] l(5)
      by (auto simp: contents_def slot b(4))
    finally show ?thesis .
  qed
  ultimately show ?thesis by (intro exI [of _ ?slot] exI [of _ ?q]) simp
qed

lemma pop_spec:
  assumes q: "q_inv q" and c: "0 < q_count q"
  shows "\<exists>v q'. pop q = Inr (v, q') \<and> q_inv q' \<and> contents q = v # contents q' \<and> len q' = len q"
proof -
  note b = q_bounds [OF q] and l = q_len [OF q] and st = unat_step [OF q q_bounds(1) [OF q]]
  let ?slot = "read_idx q AND (len q - 1)"
  let ?q = "q\<lparr>n_free := n_free q + 1, read_idx := (read_idx q + 1) AND (len2 q - 1)\<rparr>"
  let ?v = "data q ! (unat (read_idx q) mod unat (len q))"
  have slot: "unat ?slot = unat (read_idx q) mod unat (len q)" by (simp add: unat_and_pred l)
  have "\<not> q_empty q" using q_empty_iff [OF q] c by simp
  moreover have "unat ?slot < unat (len q)" using l(5) by (simp add: slot)
  ultimately have "pop q = Inr (?v, ?q)" by (simp add: pop_def pop_raw_def slot_get_def b slot)
  moreover have count: "Suc (q_count ?q) = q_count q" by (rule q_count_pop [OF q c]) simp_all
  moreover have "q_inv ?q"
  proof -
    have "unat (len q) < 2 ^ 63" using q by (simp add: q_inv_def)
    then have "unat (n_free q) + 1 < 2 ^ 64" using b(5) by simp
    then have "unat (n_free q + 1) = unat (len q) - q_count ?q"
      using b(3,5) count by (simp add: unat_word_ariths(1))
    then show ?thesis
      using q count st b(3) by (auto simp: q_inv_def simp del: unat_gt_0)
  qed
  moreover have "contents q = ?v # contents ?q"
  proof -
    have step: "(unat ((read_idx q + 1) AND (len2 q - 1)) + i) mod unat (len q) = (unat (read_idx q) + Suc i) mod unat (len q)" for i
    proof (cases "Suc (unat (read_idx q)) = 2 * unat (len q)")
      case True
      then have "unat (read_idx q) + Suc i = i + 2 * unat (len q)" by simp
      moreover have "unat ((read_idx q + 1) AND (len2 q - 1)) = 0" using True st by simp
      ultimately show ?thesis by (simp only: add_0 mod_mult_self1)
    qed (simp add: st)
    have "contents q = map (\<lambda>i. data q ! ((unat (read_idx q) + i) mod unat (len q))) [0..<Suc (q_count ?q)]"
      by (simp only: contents_def count)
    also have "\<dots> = ?v # map (\<lambda>i. data q ! ((unat (read_idx q) + Suc i) mod unat (len q))) [0..<q_count ?q]"
      by (simp add: upt_conv_Cons map_Suc_upt [symmetric] del: upt_Suc)
    also have "\<dots> = ?v # contents ?q" by (simp add: contents_def step)
    finally show ?thesis .
  qed
  ultimately show ?thesis by (intro exI [of _ ?v] exI [of _ ?q]) simp
qed

lemma contents_Nil_iff: "contents q = [] \<longleftrightarrow> q_count q = 0"
  by (simp add: contents_def)

subsection \<open>The FIFO interface\<close>

text \<open>
  What a client of the queue relies on: a bounded list with insertion at the end and removal at
  the front, operations outside the bounds failing their assertion.
\<close>

locale bounded_fifo =
  fixes put :: "'q \<Rightarrow> 'a \<Rightarrow> (u64 \<times> 'q) result"
    and take_first :: "'q \<Rightarrow> ('a \<times> 'q) result"
    and items :: "'q \<Rightarrow> 'a list"
    and cap :: "'q \<Rightarrow> nat"
    and inv :: "'q \<Rightarrow> bool"
  assumes bounded: "inv q \<Longrightarrow> length (items q) \<le> cap q"
    and put_ok: "inv q \<Longrightarrow> length (items q) < cap q \<Longrightarrow>
      \<exists>slot q'. put q v = Inr (slot, q') \<and> inv q' \<and> items q' = items q @ [v] \<and> cap q' = cap q"
    and put_full: "inv q \<Longrightarrow> length (items q) = cap q \<Longrightarrow> put q v = Inl Assert"
    and take_ok: "inv q \<Longrightarrow> items q \<noteq> [] \<Longrightarrow>
      \<exists>v q'. take_first q = Inr (v, q') \<and> inv q' \<and> items q = v # items q' \<and> cap q' = cap q"
    and take_empty: "inv q \<Longrightarrow> items q = [] \<Longrightarrow> take_first q = Inl Assert"
begin

lemma put_all:
  assumes "inv q" "length (items q) + length vs \<le> cap q"
  shows "\<exists>q'. foldE (\<lambda>v q. bindE (put q v) (\<lambda>(slot, q'). Inr q')) vs q = Inr q'
    \<and> inv q' \<and> items q' = items q @ vs \<and> cap q' = cap q"
  using assms
proof (induction vs arbitrary: q)
  case (Cons v vs)
  then obtain slot q1 where q1: "put q v = Inr (slot, q1)" "inv q1" "items q1 = items q @ [v]" "cap q1 = cap q"
    using put_ok [of q v] by auto
  then have "length (items q1) + length vs \<le> cap q1" using Cons.prems by simp
  with Cons.IH [OF q1(2)] q1 show ?case by auto
qed simp

lemma put_overflow:
  assumes "inv q" "cap q < length (items q) + length vs"
  shows "foldE (\<lambda>v q. bindE (put q v) (\<lambda>(slot, q'). Inr q')) vs q = Inl Assert"
  using assms
proof (induction vs arbitrary: q)
  case Nil
  then show ?case using bounded [of q] by simp
next
  case (Cons v vs)
  show ?case
  proof (cases "length (items q) = cap q")
    case True
    with Cons.prems show ?thesis by (simp add: put_full)
  next
    case False
    then have "length (items q) < cap q" using bounded [OF Cons.prems(1)] by simp
    with Cons.prems obtain slot q1
      where q1: "put q v = Inr (slot, q1)" "inv q1" "items q1 = items q @ [v]" "cap q1 = cap q"
      using put_ok [of q v] by auto
    with Cons.IH [of q1] Cons.prems show ?thesis by simp
  qed
qed

end

interpretation sq: bounded_fifo push pop contents "\<lambda>q. unat (len q)" q_inv
proof
  fix q :: "'a sim_queue" and v
  assume q: "q_inv q"
  show "length (contents q) \<le> unat (len q)" using q_bounds [OF q] by (simp add: contents_length)
  show "length (contents q) < unat (len q) \<Longrightarrow>
      \<exists>slot q'. push q v = Inr (slot, q') \<and> q_inv q' \<and> contents q' = contents q @ [v] \<and> unat (len q') = unat (len q)"
    using push_spec [OF q, of v] by (force simp: contents_length)
  show "length (contents q) = unat (len q) \<Longrightarrow> push q v = Inl Assert"
    using q_full_iff [OF q] by (simp add: push_def contents_length)
  show "contents q \<noteq> [] \<Longrightarrow>
      \<exists>v q'. pop q = Inr (v, q') \<and> q_inv q' \<and> contents q = v # contents q' \<and> unat (len q') = unat (len q)"
    using pop_spec [OF q] by (force simp: contents_Nil_iff)
  show "contents q = [] \<Longrightarrow> pop q = Inl Assert"
    using q_empty_iff [OF q] by (simp add: pop_def contents_Nil_iff)
qed

lemma pop_n_spec:
  "q_inv q \<Longrightarrow> n \<le> length (contents q) \<Longrightarrow>
   \<exists>q'. pop_n n q = Inr (take n (contents q), q') \<and> q_inv q' \<and> contents q' = drop n (contents q)"
proof (induction n arbitrary: q)
  case (Suc n)
  then have "contents q \<noteq> []" by auto
  with Suc.prems(1) obtain v q1 where q1: "pop q = Inr (v, q1)" "q_inv q1" "contents q = v # contents q1"
    using sq.take_ok by blast
  with Suc.prems(2) have "n \<le> length (contents q1)" by simp
  then obtain q2 where "pop_n n q1 = Inr (take n (contents q1), q2)" "q_inv q2" "contents q2 = drop n (contents q1)"
    using Suc.IH [OF q1(2)] by blast
  with q1 show ?case by simp
qed simp

lemma sim_queue_new_inv:
  assumes "isPow2 n" "0 < n" "unat n < 2 ^ 63"
  shows "\<exists>q. sim_queue_new z n = Inr q \<and> q_inv q \<and> contents q = [] \<and> len q = n"
proof -
  have "unat (2 * n) = 2 * unat n" using assms(3) by (rule unat_double)
  with assms show ?thesis
    by (auto simp: sim_queue_new_def isPow2_def q_inv_def q_count_def contents_def unat_gt_0 word_gt_0)
qed

subsection \<open>Properties of the queue\<close>

text \<open>
  C12. The ring implements a bounded FIFO: on a well formed queue \<open>push\<close> succeeds exactly when
  there is room and then appends its argument to the abstract list, \<open>pop\<close> succeeds exactly
  when the list is not empty and then removes its head; both keep the ring well formed.
\<close>

theorem sim_queue_refines_fifo:
  assumes "q_inv q"
  shows "(if length (contents q) < unat (len q)
          then \<exists>slot q'. push q v = Inr (slot, q') \<and> q_inv q' \<and> contents q' = contents q @ [v]
          else push q v = Inl Assert)
     \<and> (case contents q of [] \<Rightarrow> pop q = Inl Assert
        | x # xs \<Rightarrow> \<exists>q'. pop q = Inr (x, q') \<and> q_inv q' \<and> contents q' = xs)"
proof -
  note b = sq.bounded [OF assms]
  have "\<not> length (contents q) < unat (len q) \<Longrightarrow> push q v = Inl Assert"
    using b by (intro sq.put_full [OF assms]) simp
  moreover have "length (contents q) < unat (len q) \<Longrightarrow>
      \<exists>slot q'. push q v = Inr (slot, q') \<and> q_inv q' \<and> contents q' = contents q @ [v]"
    using sq.put_ok [OF assms, of v] by blast
  ultimately show ?thesis
    using sq.take_ok [OF assms] sq.take_empty [OF assms] by (auto split: list.split)
qed

text \<open>
  First in, first out, across any number of wrap-arounds of the indices: pushing \<open>vs\<close> onto
  a queue that has room and then popping everything returns the old contents followed by
  \<open>vs\<close>, in order, and leaves an empty queue.
\<close>

theorem push_all_pop_all:
  assumes "q_inv q" "length (contents q) + length vs \<le> unat (len q)"
  shows "\<exists>q1 q2. push_all vs q = Inr q1 \<and>
           pop_n (length (contents q) + length vs) q1 = Inr (contents q @ vs, q2) \<and> q_empty q2"
proof -
  obtain q1 where q1: "push_all vs q = Inr q1" "q_inv q1" "contents q1 = contents q @ vs"
    using sq.put_all [OF assms] by (auto simp: push_all_def)
  then obtain q2 where "pop_n (length (contents q) + length vs) q1 = Inr (contents q @ vs, q2)"
    and "q_inv q2" "contents q2 = []"
    using pop_n_spec [OF q1(2), of "length (contents q) + length vs"] by auto
  then show ?thesis using q1 by (auto simp: q_empty_iff contents_Nil_iff)
qed

text \<open>
  \<open>size()\<close> is right only while the write index is ahead of the read index: it equals the
  number of stored elements exactly when \<open>write_idx > read_idx\<close>; once the indices have wrapped,
  and on an empty queue, it is wrong (an empty queue reports twice its capacity).
\<close>

theorem q_size_correct_iff:
  assumes "q_inv q"
  shows "unat (q_size q) = length (contents q) \<longleftrightarrow> write_idx q > read_idx q"
proof (cases "write_idx q > read_idx q")
  case True
  then have "unat (q_size q) = unat (write_idx q) - unat (read_idx q)"
    by (simp add: q_size_def unat_sub_if' word_less_nat_alt)
  with True show ?thesis
    using q_count_eq [OF assms] by (auto simp: contents_length word_less_nat_alt)
next
  case False
  note b = q_bounds [OF assms] and l = q_len [OF assms]
  have "unat (len2 q - write_idx q) = 2 * unat (len q) - unat (write_idx q)"
    using b(2) by (simp add: unat_sub_if' l(6))
  then have "unat (q_size q) = 2 * unat (len q) - unat (write_idx q) + unat (read_idx q)"
    using False b len_le [OF assms] by (simp add: q_size_def unat_word_ariths(1))
  with False show ?thesis
    using q_count_eq [OF assms] b l(5) by (auto simp: contents_length word_less_nat_alt split: if_splits)
qed

theorem q_size_correct_iff_witness:
  "\<exists>q. sim_queue_new (0::nat) 4 = Inr q \<and> (unat (q_size q) = length (contents q) \<longleftrightarrow> write_idx q > read_idx q)"
proof -
  obtain q where "sim_queue_new (0::nat) 4 = Inr q" "q_inv q"
    using sim_queue_new_inv [of 4 0] by (auto simp: isPow2_def)
  then show ?thesis using q_size_correct_iff by blast
qed

theorem sim_queue_refines_fifo_witness:
  "\<exists>q slot q'. sim_queue_new (0::nat) 2 = Inr q \<and> push q 7 = Inr (slot, q') \<and> contents q' = [7]"
proof -
  obtain q where q: "sim_queue_new (0::nat) 2 = Inr q" "q_inv q" "contents q = []" "len q = 2"
    using sim_queue_new_inv [of 2 0] by (auto simp: isPow2_def)
  then show ?thesis using sim_queue_refines_fifo [OF q(2), of 7] by auto
qed

theorem push_all_pop_all_witness:
  "\<exists>q q1 q2. sim_queue_new (0::nat) 4 = Inr q \<and> push_all [5, 6, 7] q = Inr q1
     \<and> pop_n 3 q1 = Inr ([5, 6, 7], q2) \<and> q_empty q2"
proof -
  obtain q where q: "sim_queue_new (0::nat) 4 = Inr q" "q_inv q" "contents q = []" "len q = 4"
    using sim_queue_new_inv [of 4 0] by (auto simp: isPow2_def)
  then show ?thesis using push_all_pop_all [OF q(2), of "[5, 6, 7]"] by (auto simp: numeral_3_eq_3)
qed

end
