(* ===== verification/Sim_Bitvec.thy ===== *)
theory Sim_Bitvec
  imports Helper
begin

text \<open>
  \<open>src/sim_bitvec.hh\<close>: \<open>sim_bitvec\<close>, the instance of \<open>sim_bitvec_template\<close> at
  \<open>uint64_t\<close>, a vector of bits in an array of 64 bit words.

  The constructor calls \<open>ln2\<close>, which does not return above $2^{63}$: \<open>None\<close>.  An index
  outside the array and a shift by the word width are \<open>Undefined\<close>; \<open>die()\<close> is
  \<open>Abort\<close>.  \<open>boost::hash_combine\<close> is the parameter \<open>hash_combine\<close> of the two
  hash functions.  Results of type \<open>int64_t\<close> are words, \<open>-1\<close> the word of all ones.
\<close>

record sim_bitvec =
  n_bits :: u64
  n_words :: u64
  ln2_bits :: u64
  last_bit :: u64
  arr :: "u64 list"

abbreviation bpw :: u64 where
  "bpw \<equiv> 64"

definition word_at :: "sim_bitvec \<Rightarrow> u64 \<Rightarrow> u64 result" where
  "word_at v w = definedE (unat w < length (arr v)) (Inr (arr v ! unat w))"

text \<open>The compiler builtins: position of the lowest set bit (from 1), number of set bits.\<close>

definition builtin_ffsl :: "u64 \<Rightarrow> nat" where
  "builtin_ffsl x = (case filter (bit x) [0..<64] of [] \<Rightarrow> 0 | i # _ \<Rightarrow> Suc i)"

definition builtin_popcountll :: "u64 \<Rightarrow> nat" where
  "builtin_popcountll x = length (filter (bit x) [0..<64])"

definition sim_bitvec_new :: "u64 \<Rightarrow> sim_bitvec option" where
  "sim_bitvec_new n =
     (case ln2 n of None \<Rightarrow> None
      | Some l \<Rightarrow>
          (let words = (n + bpw - 1) div bpw
           in Some \<lparr>n_bits = n, n_words = words, ln2_bits = l, last_bit = n - 1,
                    arr = replicate (unat words) 0\<rparr>))"

definition bv_clear :: "sim_bitvec \<Rightarrow> sim_bitvec" where
  "bv_clear v = v\<lparr>arr := replicate (unat (n_words v)) 0\<rparr>"

definition clear_and_resize :: "sim_bitvec \<Rightarrow> u64 \<Rightarrow> sim_bitvec option" where
  "clear_and_resize v n =
     (case ln2 n of None \<Rightarrow> None
      | Some l \<Rightarrow>
          (let words = (n + bpw - 1) div bpw
           in Some (v\<lparr>n_bits := n, n_words := words, ln2_bits := l, last_bit := n - 1,
                      arr := replicate (unat words) 0\<rparr>)))"

definition hash_bits :: "(u64 \<Rightarrow> u64 \<Rightarrow> u64) \<Rightarrow> sim_bitvec \<Rightarrow> u64 \<Rightarrow> u64 result" where
  "hash_bits hash_combine v h_bits =
     (let h_words = min ((n_bits v + bpw - 1) div bpw) (n_words v)
      in foldE (\<lambda>i h.
           bindE (word_at v (of_nat i)) (\<lambda>w.
             if bpw * (of_nat i + 1) > h_bits
             then (let l = bpw - (bpw * (of_nat i + 1) - h_bits)
                   in definedE (l < 64) (Inr (hash_combine h (w AND (push_bit (unat l) 1 - 1)))))
             else Inr (hash_combine h w)))
         [0..<unat h_words] 0)"

definition hash_all :: "(u64 \<Rightarrow> u64 \<Rightarrow> u64) \<Rightarrow> sim_bitvec \<Rightarrow> u64" where
  "hash_all hash_combine v = fold (\<lambda>w h. hash_combine h w) (arr v) 0"

definition ln2_size :: "sim_bitvec \<Rightarrow> u64" where
  "ln2_size v = ln2_bits v"

definition bv_size :: "sim_bitvec \<Rightarrow> u64" where
  "bv_size v = n_bits v"

definition bv_copy :: "sim_bitvec \<Rightarrow> sim_bitvec \<Rightarrow> sim_bitvec result" where
  "bv_copy v other =
     assertE (n_bits v = n_bits other)
       (assertE (n_words v = n_words other)
         (assertE (ln2_bits v = ln2_bits other) (Inr (v\<lparr>arr := arr other\<rparr>))))"

definition get_bit :: "sim_bitvec \<Rightarrow> u64 \<Rightarrow> bool result" where
  "get_bit v idx =
     (let w_idx = idx div bpw; b_idx = idx mod bpw
      in bindE (word_at v w_idx) (\<lambda>w. Inr (drop_bit (unat b_idx) w AND 1 \<noteq> 0)))"

definition bv_eq :: "sim_bitvec \<Rightarrow> sim_bitvec \<Rightarrow> bool" where
  "bv_eq v other \<longleftrightarrow>
     (if n_bits v \<noteq> n_bits other \<or> n_words v \<noteq> n_words other \<or> ln2_bits v \<noteq> ln2_bits other
      then False
      else list_all (\<lambda>(x, y). x = y) (zip (arr v) (arr other)))"

definition set_bit :: "sim_bitvec \<Rightarrow> u64 \<Rightarrow> sim_bitvec result" where
  "set_bit v idx =
     (if idx \<ge> n_bits v then Inl Abort
      else (let w_idx = idx div bpw; b_idx = idx mod bpw
            in bindE (word_at v w_idx) (\<lambda>w.
                 Inr (v\<lparr>arr := (arr v)[unat w_idx := w OR push_bit (unat b_idx) 1]\<rparr>))))"

definition clear_bit :: "sim_bitvec \<Rightarrow> u64 \<Rightarrow> sim_bitvec result" where
  "clear_bit v idx =
     assertE (idx < n_bits v)
       (let w_idx = idx div bpw; b_idx = idx mod bpw
        in bindE (word_at v w_idx) (\<lambda>w.
             Inr (v\<lparr>arr := (arr v)[unat w_idx := w AND NOT (push_bit (unat b_idx) 1)]\<rparr>)))"

definition popcount :: "sim_bitvec \<Rightarrow> u64 result" where
  "popcount v =
     (if bpw * n_words v \<noteq> n_bits v then Inl Abort
      else Inr (fold (\<lambda>w c. c + of_nat (builtin_popcountll w)) (arr v) 0))"

definition num_free :: "sim_bitvec \<Rightarrow> u64 result" where
  "num_free v = bindE (popcount v) (\<lambda>c. Inr (n_bits v - c))"

text \<open>The searches run over the words from the first; \<open>w\<close> is the index of the word.\<close>

primrec unset_rr_loop :: "nat \<Rightarrow> sim_bitvec \<Rightarrow> u64 \<Rightarrow> u64 result" where
  "unset_rr_loop 0 v b = Inr (- 1)"
| "unset_rr_loop (Suc n) v b =
     bindE (get_bit v b) (\<lambda>x. if \<not> x then Inr b else unset_rr_loop n v (modT (b + 1) (n_bits v)))"

definition find_first_unset_rr :: "sim_bitvec \<Rightarrow> u64 result" where
  "find_first_unset_rr v = unset_rr_loop (unat (n_bits v)) v (last_bit v)"

primrec find_first_unset_from :: "u64 \<Rightarrow> u64 \<Rightarrow> u64 list \<Rightarrow> u64" where
  "find_first_unset_from nb w [] = - 1"
| "find_first_unset_from nb w (x # xs) =
     (if x = NOT 0 then find_first_unset_from nb (w + 1) xs
      else if x = 0 then bpw * w
      else (let idx = bpw * w + (of_nat (builtin_ffsl (NOT x)) - 1)
            in if idx < nb then idx else find_first_unset_from nb (w + 1) xs))"

definition find_first_unset :: "sim_bitvec \<Rightarrow> u64" where
  "find_first_unset v = find_first_unset_from (n_bits v) 0 (arr v)"

primrec find_first_set_from :: "u64 \<Rightarrow> u64 \<Rightarrow> u64 list \<Rightarrow> u64" where
  "find_first_set_from nb w [] = - 1"
| "find_first_set_from nb w (x # xs) =
     (if x = 0 then find_first_set_from nb (w + 1) xs
      else (let idx = bpw * w + (of_nat (builtin_ffsl x) - 1)
            in if idx < nb then idx else - 1))"

definition find_first_set :: "sim_bitvec \<Rightarrow> u64" where
  "find_first_set v = find_first_set_from (n_bits v) 0 (arr v)"

text \<open>Within a word: the even bit numbers from \<open>idx\<close> on, looking for two clear bits.\<close>

fun unset_pair_in :: "u64 \<Rightarrow> u64 \<Rightarrow> u64 \<Rightarrow> nat list \<Rightarrow> u64 option" where
  "unset_pair_in nb w x [] = None"
| "unset_pair_in nb w x (b # bs) =
     (let p = bpw * w + of_nat b
      in if p \<ge> nb then Some (- 1)
         else if drop_bit b x AND 3 = 0 then Some p
         else unset_pair_in nb w x bs)"

primrec find_first_unset_pair_from :: "u64 \<Rightarrow> u64 \<Rightarrow> u64 list \<Rightarrow> u64" where
  "find_first_unset_pair_from nb w [] = - 1"
| "find_first_unset_pair_from nb w (x # xs) =
     (if x = NOT 0 then find_first_unset_pair_from nb (w + 1) xs
      else if x = 0 then bpw * w
      else (let idx = (builtin_ffsl (NOT x) - 1) div 2 * 2
            in case unset_pair_in nb w x (map (\<lambda>i. idx + 2 * i) [0..<(65 - idx) div 2]) of
                 Some r \<Rightarrow> r
               | None \<Rightarrow> find_first_unset_pair_from nb (w + 1) xs))"

definition find_first_unset_pair :: "sim_bitvec \<Rightarrow> u64" where
  "find_first_unset_pair v = find_first_unset_pair_from (n_bits v) 0 (arr v)"

primrec find_next_set_from :: "u64 \<Rightarrow> u64 \<Rightarrow> u64 list \<Rightarrow> u64" where
  "find_next_set_from nb w [] = - 1"
| "find_next_set_from nb w (x # xs) =
     (if x = 0 then find_next_set_from nb (w + 1) xs
      else (let idx = bpw * w + (of_nat (builtin_ffsl x) - 1)
            in if idx < nb then idx else - 1))"

definition find_next_set :: "sim_bitvec \<Rightarrow> u64 \<Rightarrow> u64 result" where
  "find_next_set v idx0 =
     (let idx = idx0 + 1; w_idx = idx div bpw; b_idx = idx mod bpw
      in bindE (word_at v w_idx) (\<lambda>w.
           let ww = push_bit (unat b_idx) (drop_bit (unat b_idx) w)
           in if ww \<noteq> 0 then Inr (w_idx * bpw + (of_nat (builtin_ffsl ww) - 1))
              else Inr (find_next_set_from (n_bits v) (w_idx + 1) (drop (unat w_idx + 1) (arr v)))))"

text \<open>
  \<open>shift_left\<close> works from the last word down; \<open>shift_down amt i xs\<close> is its loop for the
  indices \<open>i, ..., 0\<close>.
\<close>

fun shift_down :: "nat \<Rightarrow> nat \<Rightarrow> u64 list \<Rightarrow> u64 list result" where
  "shift_down amt 0 xs = Inr xs"
| "shift_down amt (Suc i) xs =
     definedE (64 - amt < 64)
       (let wrap = drop_bit (64 - amt) (xs ! i);
            xs' = xs[Suc i := (xs ! Suc i) OR wrap];
            xs'' = xs'[i := push_bit amt (xs' ! i)]
        in shift_down amt i xs'')"

definition shift_left :: "sim_bitvec \<Rightarrow> nat \<Rightarrow> sim_bitvec result" where
  "shift_left v amt =
     definedE (arr v \<noteq> [] \<and> amt < 64)
       (let k = length (arr v) - 1;
            xs = (arr v)[k := push_bit amt (arr v ! k)]
        in bindE (shift_down amt k xs) (\<lambda>xs'. Inr (v\<lparr>arr := xs'\<rparr>)))"

definition to_integer :: "sim_bitvec \<Rightarrow> u64 result" where
  "to_integer v = word_at v 0"

definition bv_print :: "sim_bitvec \<Rightarrow> bool list result" where
  "bv_print v =
     foldE (\<lambda>i out. bindE (get_bit v (of_nat i)) (\<lambda>b. Inr (out @ [b]))) [0..<unat (n_bits v)] []"

text \<open>
  The abstract view: the set of bit numbers that are set.  A vector is well formed when its
  array has the words its size needs and no bit from \<open>n_bits\<close> on is set.
\<close>

definition lbit :: "u64 list \<Rightarrow> nat \<Rightarrow> bool" where
  "lbit xs i \<longleftrightarrow> i div 64 < length xs \<and> bit (xs ! (i div 64)) (i mod 64)"

definition bv_set :: "sim_bitvec \<Rightarrow> nat set" where
  "bv_set v = {i. lbit (arr v) i}"

definition bv_inv :: "sim_bitvec \<Rightarrow> bool" where
  "bv_inv v \<longleftrightarrow>
     unat (n_bits v) \<le> 2 ^ 63 \<and> 0 < unat (n_bits v) \<and> length (arr v) = unat (n_words v) \<and>
     unat (n_words v) = (unat (n_bits v) + 63) div 64 \<and> last_bit v = n_bits v - 1 \<and>
     bv_set v \<subseteq> {..<unat (n_bits v)}"

subsection \<open>The builtins\<close>

lemma builtin_ffsl_Suc:
  assumes "x \<noteq> 0"
  shows "\<exists>i < 64. builtin_ffsl x = Suc i \<and> bit x i \<and> (\<forall>j < i. \<not> bit x j)"
proof -
  obtain n where n: "bit x n" using assms unfolding bit_eq_iff by auto
  then have "n < 64" using bit_imp_le_length [OF n] by simp
  with n have "filter (bit x) [0..<64] \<noteq> []" by (auto simp: filter_empty_conv)
  then obtain i ys where iy: "filter (bit x) [0..<64] = i # ys" by (metis neq_Nil_conv)
  then obtain us vs where us: "[0..<64] = us @ i # vs" "\<forall>u \<in> set us. \<not> bit x u" "bit x i"
    by (auto simp: filter_eq_Cons_iff)
  have len: "length us < 64" using arg_cong [OF us(1), of length] by simp
  then have "[0..<64] ! length us = i" by (simp add: us(1))
  then have i: "i = length us" using len by simp
  have "us = take (length us) [0..<64]" by (simp add: us(1))
  then have "us = [0..<length us]" using len by (simp add: take_upt)
  then have "set us = {..<i}" unfolding i by (metis atLeast_upt set_upt atLeast0LessThan)
  then show ?thesis using iy us len by (auto simp: builtin_ffsl_def i)
qed

lemma of_nat_ffsl:
  assumes "x \<noteq> 0"
  obtains i where "i < 64" "of_nat (builtin_ffsl x) - (1::u64) = of_nat i" "bit x i" "\<forall>j < i. \<not> bit x j"
  using builtin_ffsl_Suc [OF assms] by auto

subsection \<open>Bits of an array of words\<close>

lemma lbit_Nil [simp]: "\<not> lbit [] i"
  by (simp add: lbit_def)

lemma lbit_Cons: "lbit (x # xs) i = (if i < 64 then bit x i else lbit xs (i - 64))"
proof (cases "i < 64")
  case False
  then obtain j where j: "i = j + 64" by (metis le_add_diff_inverse2 not_less)
  then have "i div 64 = Suc (j div 64)" and "i mod 64 = j mod 64" by simp_all
  with j show ?thesis by (simp add: lbit_def)
qed (simp add: lbit_def)

lemma lbit_update:
  assumes "k < length xs"
  shows "lbit (xs[k := y]) i = (if i div 64 = k then bit y (i mod 64) else lbit xs i)"
  using assms by (auto simp: lbit_def)

lemma lbit_replicate [simp]: "\<not> lbit (replicate n 0) i"
  by (auto simp: lbit_def)

lemma first_unset_from:
  assumes "64 * w + 64 * length xs < 2 ^ 64" and "xs \<noteq> [] \<Longrightarrow> 64 * (w + length xs) < unat nb + 64"
  shows "(find_first_unset_from nb (of_nat w) xs = - 1 \<and> (\<forall>i. i < 64 * length xs \<and> 64 * w + i < unat nb \<longrightarrow> lbit xs i))
    \<or> (\<exists>i < 64 * length xs. find_first_unset_from nb (of_nat w) xs = of_nat (64 * w + i) \<and> 64 * w + i < unat nb
        \<and> \<not> lbit xs i \<and> (\<forall>j < i. lbit xs j))"
  using assms
proof (induction xs arbitrary: w)
  case (Cons x xs)
  have small: "64 * w + i < 2 ^ 64" if "i < 64" for i using that Cons.prems(1) by simp
  have un: "unat (of_nat (64 * w + i) :: u64) = 64 * w + i" if "i < 64" for i
    using small [OF that] by (simp add: unsigned_of_nat take_bit_nat_eq_self del: of_nat_add of_nat_mult)
  consider "x = NOT 0" | "x = 0" | "x \<noteq> NOT 0" "x \<noteq> 0" by blast
  then show ?case
  proof cases
    case 1
    have IH: "(find_first_unset_from nb (of_nat (Suc w)) xs = - 1 \<and> (\<forall>i. i < 64 * length xs \<and> 64 * Suc w + i < unat nb \<longrightarrow> lbit xs i))
      \<or> (\<exists>i < 64 * length xs. find_first_unset_from nb (of_nat (Suc w)) xs = of_nat (64 * Suc w + i) \<and> 64 * Suc w + i < unat nb
        \<and> \<not> lbit xs i \<and> (\<forall>j < i. lbit xs j))"
      by (rule Cons.IH) (use Cons.prems in \<open>auto\<close>)
    have step: "find_first_unset_from nb (of_nat w) (x # xs) = find_first_unset_from nb (of_nat (Suc w)) xs"
      using 1 by (simp add: add.commute)
    from IH show ?thesis
    proof
      assume "find_first_unset_from nb (of_nat (Suc w)) xs = - 1 \<and> (\<forall>i. i < 64 * length xs \<and> 64 * Suc w + i < unat nb \<longrightarrow> lbit xs i)"
      then show ?thesis unfolding step using 1 by (intro disjI1) (auto simp: lbit_Cons bit_not_iff)
    next
      assume "\<exists>i < 64 * length xs. find_first_unset_from nb (of_nat (Suc w)) xs = of_nat (64 * Suc w + i) \<and> 64 * Suc w + i < unat nb
        \<and> \<not> lbit xs i \<and> (\<forall>j < i. lbit xs j)"
      then obtain i where i: "i < 64 * length xs" "find_first_unset_from nb (of_nat (Suc w)) xs = of_nat (64 * Suc w + i)"
        "64 * Suc w + i < unat nb" "\<not> lbit xs i" "\<forall>j < i. lbit xs j" by blast
      have e: "64 * Suc w + i = 64 * w + (i + 64)" by simp
      show ?thesis unfolding step
      proof (intro disjI2 exI [of _ "i + 64"] conjI)
        show "\<forall>j < i + 64. lbit (x # xs) j" using i(5) 1 by (auto simp: lbit_Cons bit_not_iff)
      qed (use i e in \<open>simp_all only: lbit_Cons\<close>, simp_all)
    qed
  next
    case 2
    then show ?thesis using Cons.prems by (intro disjI2 exI [of _ 0]) (auto simp: lbit_Cons)
  next
    case 3
    then have "NOT x \<noteq> 0" by (metis bit.double_compl)
    then obtain i where i: "i < 64" "of_nat (builtin_ffsl (NOT x)) - (1::u64) = of_nat i"
      "bit (NOT x) i" "\<forall>j < i. \<not> bit (NOT x) j" by (rule of_nat_ffsl)
    then have b: "\<not> bit x i" "\<forall>j < i. bit x j" by (auto simp: bit_not_iff)
    show ?thesis
    proof (cases "64 * w + i < unat nb")
      case True
      then have "of_nat (64 * w + i) < nb" using un [OF i(1)] by (simp only: word_less_nat_alt)
      then have "find_first_unset_from nb (of_nat w) (x # xs) = of_nat (64 * w + i)"
        using 3 by (simp add: Let_def i(2))
      then show ?thesis using True b i(1) by (intro disjI2 exI [of _ i]) (auto simp: lbit_Cons)
    next
      case False
      then have "\<not> of_nat (64 * w + i) < nb" using un [OF i(1)] by (simp only: word_less_nat_alt) simp
      moreover have "xs = []" using False i(1) Cons.prems(2) by (cases xs) auto
      ultimately have "find_first_unset_from nb (of_nat w) (x # xs) = - 1"
        using 3 by (simp add: Let_def i(2))
      then show ?thesis using False b i(1) \<open>xs = []\<close> by (intro disjI1) (auto simp: lbit_Cons)
    qed
  qed
qed simp

lemma first_set_from:
  assumes "64 * w + 64 * length xs < 2 ^ 64"
    and "\<And>i. lbit xs i \<Longrightarrow> 64 * w + i < unat nb"
  shows "(find_first_set_from nb (of_nat w) xs = - 1 \<and> (\<forall>i. \<not> lbit xs i))
    \<or> (\<exists>i. find_first_set_from nb (of_nat w) xs = of_nat (64 * w + i) \<and> lbit xs i \<and> (\<forall>j < i. \<not> lbit xs j))"
  using assms
proof (induction xs arbitrary: w)
  case (Cons x xs)
  show ?case
  proof (cases "x = 0")
    case True
    have bound: "64 * Suc w + i < unat nb" if "lbit xs i" for i
      using Cons.prems(2) [of "i + 64"] that by (simp add: lbit_Cons)
    have IH: "(find_first_set_from nb (of_nat (Suc w)) xs = - 1 \<and> (\<forall>i. \<not> lbit xs i))
      \<or> (\<exists>i. find_first_set_from nb (of_nat (Suc w)) xs = of_nat (64 * Suc w + i) \<and> lbit xs i \<and> (\<forall>j < i. \<not> lbit xs j))"
      by (rule Cons.IH) (use Cons.prems(1) bound in auto)
    have step: "find_first_set_from nb (of_nat w) (x # xs) = find_first_set_from nb (of_nat (Suc w)) xs"
      using True by (simp add: add.commute)
    from IH show ?thesis
    proof
      assume "\<exists>i. find_first_set_from nb (of_nat (Suc w)) xs = of_nat (64 * Suc w + i) \<and> lbit xs i \<and> (\<forall>j < i. \<not> lbit xs j)"
      then obtain i where i: "find_first_set_from nb (of_nat (Suc w)) xs = of_nat (64 * Suc w + i)"
        "lbit xs i" "\<forall>j < i. \<not> lbit xs j" by blast
      moreover have "64 * Suc w + i = 64 * w + (i + 64)" by simp
      moreover have "\<forall>j < i + 64. \<not> lbit (x # xs) j" using i(3) True by (auto simp: lbit_Cons)
      ultimately show ?thesis unfolding step
        by (intro disjI2 exI [of _ "i + 64"]) (simp add: lbit_Cons)
    qed (use True step in \<open>auto simp: lbit_Cons\<close>)
  next
    case False
    then obtain i where i: "i < 64" "of_nat (builtin_ffsl x) - (1::u64) = of_nat i"
      "bit x i" "\<forall>j < i. \<not> bit x j" by (rule of_nat_ffsl)
    have "unat (of_nat (64 * w + i) :: u64) = 64 * w + i"
      using i(1) Cons.prems(1) by (simp add: unsigned_of_nat take_bit_nat_eq_self del: of_nat_add of_nat_mult)
    moreover have "64 * w + i < unat nb" using Cons.prems(2) [of i] i by (simp add: lbit_Cons)
    ultimately have "of_nat (64 * w + i) < nb" by (simp only: word_less_nat_alt)
    then have "find_first_set_from nb (of_nat w) (x # xs) = of_nat (64 * w + i)"
      using False by (simp add: Let_def i(2))
    then show ?thesis using i by (intro disjI2 exI [of _ i]) (auto simp: lbit_Cons)
  qed
qed simp

subsection \<open>Single bit operations\<close>

lemma unat_div_64: "unat (i div 64) = unat i div 64" and unat_mod_64: "unat (i mod 64) = unat i mod 64"
  for i :: u64
  by (simp_all add: unat_div_distrib unat_mod_distrib)

lemma bv_index:
  assumes "bv_inv v" "i < unat (n_bits v)"
  shows "i div 64 < length (arr v)"
  using assms by (auto simp: bv_inv_def div_less_iff_less_mult)

lemma bv_word_at:
  assumes "bv_inv v" "idx < n_bits v"
  shows "word_at v (idx div 64) = Inr (arr v ! (unat idx div 64))"
  using bv_index [OF assms(1), of "unat idx"] assms(2)
  by (simp add: word_at_def unat_div_64 word_less_nat_alt)

lemma get_bit_spec:
  assumes "bv_inv v" "idx < n_bits v"
  shows "get_bit v idx = Inr (unat idx \<in> bv_set v)"
proof -
  have "unat idx div 64 < length (arr v)"
    using bv_index [OF assms(1), of "unat idx"] assms(2) by (simp add: word_less_nat_alt)
  then show ?thesis
    by (simp add: get_bit_def bv_word_at [OF assms] and_1_odd bit_iff_odd_drop_bit unat_mod_64 bv_set_def lbit_def)
qed

lemma div_mod_64_eq_iff: "i div 64 = k div 64 \<and> i mod 64 = k mod 64 \<longleftrightarrow> i = k" for i k :: nat
  by (metis div_mult_mod_eq)

lemma lbit_set:
  assumes "k < length xs" "b < 64"
  shows "lbit (xs[k := xs ! k OR push_bit b 1]) i \<longleftrightarrow> (i div 64 = k \<and> i mod 64 = b) \<or> lbit xs i"
  using assms by (cases "i div 64 = k") (auto simp: lbit_def bit_or_iff bit_exp_iff)

lemma lbit_clear:
  assumes "k < length xs" "b < 64"
  shows "lbit (xs[k := xs ! k AND NOT (push_bit b 1)]) i \<longleftrightarrow> \<not> (i div 64 = k \<and> i mod 64 = b) \<and> lbit xs i"
  using assms by (cases "i div 64 = k") (auto simp: lbit_def bit_and_iff bit_not_iff bit_exp_iff)

lemma set_bit_spec:
  assumes "bv_inv v" "idx < n_bits v"
  shows "\<exists>v'. set_bit v idx = Inr v' \<and> bv_inv v' \<and> bv_set v' = insert (unat idx) (bv_set v) \<and> n_bits v' = n_bits v \<and> n_words v' = n_words v"
proof -
  let ?k = "unat idx div 64" and ?b = "unat idx mod 64"
  let ?v = "v\<lparr>arr := (arr v)[?k := arr v ! ?k OR push_bit ?b 1]\<rparr>"
  have k: "?k < length (arr v)"
    using bv_index [OF assms(1), of "unat idx"] assms(2) by (simp add: word_less_nat_alt)
  have "set_bit v idx = Inr ?v"
    using assms(2) by (simp add: set_bit_def bv_word_at [OF assms] unat_div_64 unat_mod_64)
  moreover have set': "bv_set ?v = insert (unat idx) (bv_set v)"
    using k by (auto simp: bv_set_def lbit_set div_mod_64_eq_iff simp del: push_bit_of_1)
  moreover have "bv_inv ?v"
    using assms set' by (auto simp: bv_inv_def word_less_nat_alt)
  ultimately show ?thesis by (intro exI [of _ ?v]) simp
qed

lemma clear_bit_spec:
  assumes "bv_inv v" "idx < n_bits v"
  shows "\<exists>v'. clear_bit v idx = Inr v' \<and> bv_inv v' \<and> bv_set v' = bv_set v - {unat idx} \<and> n_bits v' = n_bits v \<and> n_words v' = n_words v"
proof -
  let ?k = "unat idx div 64" and ?b = "unat idx mod 64"
  let ?v = "v\<lparr>arr := (arr v)[?k := arr v ! ?k AND NOT (push_bit ?b 1)]\<rparr>"
  have k: "?k < length (arr v)"
    using bv_index [OF assms(1), of "unat idx"] assms(2) by (simp add: word_less_nat_alt)
  have "clear_bit v idx = Inr ?v"
    using assms(2) by (simp add: clear_bit_def bv_word_at [OF assms] unat_div_64 unat_mod_64)
  moreover have set': "bv_set ?v = bv_set v - {unat idx}"
    using k by (auto simp: bv_set_def lbit_clear div_mod_64_eq_iff simp del: push_bit_of_1)
  moreover have "bv_inv ?v"
    using assms set' by (auto simp: bv_inv_def word_less_nat_alt)
  ultimately show ?thesis by (intro exI [of _ ?v]) simp
qed

subsection \<open>Counting\<close>

lemma popcountll_card: "builtin_popcountll x = card {i. bit x i}"
proof -
  have "{i. bit x i} = set (filter (bit x) [0..<64])"
    using bit_imp_le_length [of x] by auto
  then show ?thesis 
    unfolding builtin_popcountll_def by (metis distinct_card distinct_filter distinct_upt)
qed

lemma lbit_Cons_set: "{i. lbit (x # xs) i} = {i. bit x i} \<union> (\<lambda>i. i + 64) ` {i. lbit xs i}"
proof -
  have "i < 64" if "bit x i" for i using bit_imp_le_length [OF that] by simp
  then show ?thesis by (force simp: lbit_Cons image_iff intro: exI [of _ "_ - 64"])
qed

lemma finite_lbit: "finite {i. lbit xs i}"
  by (rule finite_subset [of _ "{..<64 * length xs}"]) (auto simp: lbit_def div_less_iff_less_mult ac_simps)

lemma card_lbit: "sum_list (map builtin_popcountll xs) = card {i. lbit xs i}"
proof (induction xs)
  case (Cons x xs)
  have "{i. bit x i} \<inter> (\<lambda>i. i + 64) ` {i. lbit xs i} = {}"
    by (auto dest: bit_imp_le_length)
  moreover have "finite {i. bit x i}" by (rule finite_subset [of _ "{..<64}"]) (auto dest: bit_imp_le_length)
  ultimately show ?case
    using Cons.IH by (simp add: lbit_Cons_set card_Un_disjoint finite_lbit card_image popcountll_card)
qed simp

lemma popcount_fold: "fold (\<lambda>w c. c + of_nat (builtin_popcountll w)) xs (of_nat c) = (of_nat (c + sum_list (map builtin_popcountll xs)) :: u64)"
proof (induction xs arbitrary: c)
  case (Cons x xs)
  then show ?case using Cons.IH [of "c + builtin_popcountll x"] by (simp add: add.assoc)
qed simp

lemma popcount_spec:
  assumes "bv_inv v" "64 dvd unat (n_bits v)"
  shows "popcount v = Inr (of_nat (card (bv_set v)))"
proof -
  have "64 * unat (n_words v) = unat (n_bits v)"
    using assms by (auto simp: bv_inv_def dvd_def)
  moreover have "unat (n_bits v) < 2 ^ LENGTH(64)" by (rule unsigned_less)
  ultimately have "bpw * n_words v = n_bits v"
    by (simp add: word_unat_eq_iff unat_word_ariths(2))
  then show ?thesis using popcount_fold [of "arr v" 0] by (simp add: popcount_def card_lbit bv_set_def)
qed

lemma bv_set_finite: "finite (bv_set v)"
  by (simp add: bv_set_def finite_lbit)

lemma words_needed: "64 * ((n + 63) div 64) < n + 64" "n \<le> 64 * ((n + 63) div 64)" for n :: nat
  by arith+

lemma find_first_unset_cases:
  assumes "bv_inv v"
  obtains "find_first_unset v = - 1" "{..<unat (n_bits v)} \<subseteq> bv_set v"
  | i where "i < unat (n_bits v)" "find_first_unset v = of_nat i" "i \<notin> bv_set v" "{..<i} \<subseteq> bv_set v"
proof -
  have len: "length (arr v) = (unat (n_bits v) + 63) div 64" "unat (n_bits v) \<le> 2 ^ 63" "0 < unat (n_bits v)"
    using assms by (simp_all add: bv_inv_def)
  have "64 * length (arr v) < unat (n_bits v) + 64" "unat (n_bits v) \<le> 64 * length (arr v)"
    unfolding len(1) by (rule words_needed)+
  moreover from this len(2) have "64 * length (arr v) < 2 ^ 64" by simp
  ultimately show ?thesis
    using first_unset_from [of 0 "arr v" "n_bits v"] that
    by (fastforce simp: find_first_unset_def bv_set_def)
qed

lemma find_first_set_cases:
  assumes "bv_inv v"
  obtains "find_first_set v = - 1" "bv_set v = {}"
  | i where "i \<in> bv_set v" "find_first_set v = of_nat i" "{..<i} \<inter> bv_set v = {}"
proof -
  have len: "length (arr v) = (unat (n_bits v) + 63) div 64" "unat (n_bits v) \<le> 2 ^ 63"
    and sub: "\<And>i. lbit (arr v) i \<Longrightarrow> i < unat (n_bits v)"
    using assms by (auto simp: bv_inv_def bv_set_def)
  have "64 * length (arr v) < unat (n_bits v) + 64" unfolding len(1) by (rule words_needed)
  then have "64 * length (arr v) < 2 ^ 64" using len(2) by simp
  then show ?thesis
    using first_set_from [of 0 "arr v" "n_bits v"] sub that
    by (fastforce simp: find_first_set_def bv_set_def)
qed

subsection \<open>The slot allocator interface\<close>

text \<open>
  How the bit vector is used: a free slot is found, taken and given back.  The laws are about the
  set of taken slots.
\<close>

locale slot_allocator =
  fixes first_free :: "'b \<Rightarrow> u64"
    and taking :: "'b \<Rightarrow> u64 \<Rightarrow> 'b result"
    and freeing :: "'b \<Rightarrow> u64 \<Rightarrow> 'b result"
    and taken :: "'b \<Rightarrow> nat set"
    and slots :: "'b \<Rightarrow> nat"
    and inv :: "'b \<Rightarrow> bool"
  assumes slots_bound: "inv b \<Longrightarrow> taken b \<subseteq> {..<slots b} \<and> slots b \<le> 2 ^ 63"
    and free_none: "inv b \<Longrightarrow> taken b = {..<slots b} \<Longrightarrow> first_free b = - 1"
    and free_some: "inv b \<Longrightarrow> taken b \<noteq> {..<slots b} \<Longrightarrow>
      unat (first_free b) < slots b \<and> unat (first_free b) \<notin> taken b \<and> {..<unat (first_free b)} \<subseteq> taken b"
    and taking: "inv b \<Longrightarrow> unat i < slots b \<Longrightarrow>
      \<exists>b'. taking b i = Inr b' \<and> inv b' \<and> taken b' = insert (unat i) (taken b) \<and> slots b' = slots b"
    and freeing: "inv b \<Longrightarrow> unat i < slots b \<Longrightarrow>
      \<exists>b'. freeing b i = Inr b' \<and> inv b' \<and> taken b' = taken b - {unat i} \<and> slots b' = slots b"
begin

lemma finite_taken: "inv b \<Longrightarrow> finite (taken b)"
  using slots_bound finite_subset by blast

lemma allocate:
  assumes "inv b" "card (taken b) < slots b"
  shows "\<exists>b'. taking b (first_free b) = Inr b' \<and> inv b' \<and> card (taken b') = Suc (card (taken b)) \<and> slots b' = slots b"
proof -
  have "taken b \<noteq> {..<slots b}"
  proof
    assume "taken b = {..<slots b}"
    with assms(2) show False by simp
  qed
  then have f: "unat (first_free b) < slots b" "unat (first_free b) \<notin> taken b"
    using free_some [OF assms(1)] by auto
  then obtain b' where "taking b (first_free b) = Inr b'" "inv b'" "slots b' = slots b"
    "taken b' = insert (unat (first_free b)) (taken b)"
    using taking [OF assms(1) f(1)] by blast
  moreover have "card (insert (unat (first_free b)) (taken b)) = Suc (card (taken b))"
    using finite_taken [OF assms(1)] f(2) by (rule card_insert_disjoint)
  ultimately show ?thesis by (intro exI [of _ b']) simp
qed

lemma release_reallocate:
  assumes "inv b" "taken b = {..<slots b}" "unat i < slots b"
  shows "\<exists>b'. freeing b i = Inr b' \<and> inv b' \<and> first_free b' = i"
proof -
  obtain b' where b': "freeing b i = Inr b'" "inv b'" "taken b' = {..<slots b} - {unat i}" "slots b' = slots b"
    using freeing [OF assms(1,3)] assms(2) by auto
  then have "taken b' \<noteq> {..<slots b'}" using assms(3) by auto
  then have "unat (first_free b') < slots b" "unat (first_free b') \<notin> {..<slots b} - {unat i}"
    using free_some [OF b'(2)] b'(3,4) by auto
  then have "first_free b' = i" by (auto simp: word_unat_eq_iff)
  with b' show ?thesis by blast
qed

end

interpretation bv: slot_allocator find_first_unset set_bit clear_bit bv_set "\<lambda>v. unat (n_bits v)" bv_inv
proof
  fix v :: sim_bitvec and i :: u64
  assume v: "bv_inv v"
  then show bound: "bv_set v \<subseteq> {..<unat (n_bits v)} \<and> unat (n_bits v) \<le> 2 ^ 63" by (simp add: bv_inv_def)
  show "bv_set v = {..<unat (n_bits v)} \<Longrightarrow> find_first_unset v = - 1"
    using v by (rule find_first_unset_cases) auto
  show "bv_set v \<noteq> {..<unat (n_bits v)} \<Longrightarrow> unat (find_first_unset v) < unat (n_bits v) \<and>
      unat (find_first_unset v) \<notin> bv_set v \<and> {..<unat (find_first_unset v)} \<subseteq> bv_set v"
    using v
  proof (rule find_first_unset_cases)
    fix j assume j: "j < unat (n_bits v)" "find_first_unset v = of_nat j" "j \<notin> bv_set v" "{..<j} \<subseteq> bv_set v"
    then have "unat (find_first_unset v) = j"
      using bound by (simp add: unsigned_of_nat take_bit_nat_eq_self)
    with j show ?thesis by simp
  qed (use bound in auto)
  show "unat i < unat (n_bits v) \<Longrightarrow> \<exists>v'. set_bit v i = Inr v' \<and> bv_inv v' \<and>
      bv_set v' = insert (unat i) (bv_set v) \<and> unat (n_bits v') = unat (n_bits v)"
    using set_bit_spec [OF v, of i] by (auto simp: word_less_nat_alt)
  show "unat i < unat (n_bits v) \<Longrightarrow> \<exists>v'. clear_bit v i = Inr v' \<and> bv_inv v' \<and>
      bv_set v' = bv_set v - {unat i} \<and> unat (n_bits v') = unat (n_bits v)"
    using clear_bit_spec [OF v, of i] by (auto simp: word_less_nat_alt)
qed

lemma sim_bitvec_new_inv:
  assumes "0 < n" "n \<le> 2 ^ 63"
  shows "\<exists>v. sim_bitvec_new n = Some v \<and> bv_inv v \<and> bv_set v = {} \<and> n_bits v = n"
proof -
  have un: "0 < unat n" "unat n \<le> 2 ^ 63" using assms by (simp_all add: unat_gt_0 word_gt_0 word_le_nat_alt)
  obtain l where "ln2 n = Some l" using ln2_loop_from [of 0 n] assms(2) by (auto simp: ln2_def)
  moreover have "unat ((n + bpw - 1) div bpw) = (unat n + 63) div 64"
    using un by (simp add: unat_div_64 unat_word_ariths(1))
  ultimately show ?thesis
    using un by (auto simp: sim_bitvec_new_def Let_def bv_inv_def bv_set_def)
qed

subsection \<open>Properties of the bit vector\<close>

text \<open>
  C14. \<open>find_first_unset\<close> returns the least index that is not set, or -1 exactly when every
  index below \<open>n_bits\<close> is set; the word-at-a-time search never reports a bit of the last
  word beyond the size.
\<close>

theorem find_first_unset_least:
  assumes "bv_inv v"
  shows "if bv_set v = {..<unat (n_bits v)} then find_first_unset v = - 1
         else unat (find_first_unset v) = (LEAST i. i \<notin> bv_set v) \<and> unat (find_first_unset v) < unat (n_bits v)"
proof -
  have "unat (find_first_unset v) = (LEAST i. i \<notin> bv_set v)"
    if "unat (find_first_unset v) \<notin> bv_set v" "{..<unat (find_first_unset v)} \<subseteq> bv_set v"
    using that by (intro Least_equality [symmetric]) (auto simp: not_le [symmetric])
  then show ?thesis
    using bv.free_none [OF assms] bv.free_some [OF assms] by auto
qed

text \<open>
  Allocation never runs dry early: while fewer than \<open>n_bits\<close> bits are set, taking the slot
  \<open>find_first_unset\<close> names succeeds and adds exactly one set bit, and \<open>popcount\<close> (for sizes
  that are whole words) counts exactly the set bits.
\<close>

theorem bitvec_allocate:
  assumes "bv_inv v" "card (bv_set v) < unat (n_bits v)" "64 dvd unat (n_bits v)"
  shows "\<exists>v'. set_bit v (find_first_unset v) = Inr v' \<and> bv_inv v'
           \<and> popcount v' = Inr (of_nat (Suc (card (bv_set v))))"
proof -
  obtain v' where v': "set_bit v (find_first_unset v) = Inr v'" "bv_inv v'"
    "card (bv_set v') = Suc (card (bv_set v))" "unat (n_bits v') = unat (n_bits v)"
    using bv.allocate [OF assms(1,2)] by blast
  then show ?thesis using popcount_spec [OF v'(2)] assms(3) by simp
qed

theorem bitvec_allocate_witness:
  "\<exists>v v'. sim_bitvec_new 64 = Some v \<and> set_bit v (find_first_unset v) = Inr v' \<and> popcount v' = Inr 1"
proof -
  obtain v where v: "sim_bitvec_new 64 = Some v" "bv_inv v" "bv_set v = {}" "n_bits v = 64"
    using sim_bitvec_new_inv [of 64] by auto
  then have "card (bv_set v) < unat (n_bits v)" "64 dvd unat (n_bits v)" by simp_all
  then obtain v' where "set_bit v (find_first_unset v) = Inr v'" "popcount v' = Inr (of_nat (Suc (card (bv_set v))))"
    using bitvec_allocate [OF v(2)] by blast
  then show ?thesis using v(1,3) by (intro exI [of _ v] exI [of _ v']) simp
qed

theorem find_first_unset_least_witness:
  "\<exists>v. sim_bitvec_new 100 = Some v \<and> unat (find_first_unset v) = (LEAST i. i \<notin> bv_set v)"
proof -
  obtain v where v: "sim_bitvec_new 100 = Some v" "bv_inv v" "bv_set v = {}" "n_bits v = 100"
    using sim_bitvec_new_inv [of 100] by auto
  have "{..<unat (n_bits v)} \<noteq> {}" unfolding v(4) lessThan_empty_iff by simp
  then have "bv_set v \<noteq> {..<unat (n_bits v)}" unfolding v(3) by (rule not_sym)
  then show ?thesis using find_first_unset_least [OF v(2)] v(1) by auto
qed

end
