(* ===== verification/Mips_State.thy ===== *)
theory Mips_State
  imports Helper Sparse_Mem "HOL-Library.Signed_Division"
begin

text \<open>
  The architectural state and the instruction format: \<open>src/interpret.hh\<close>,
  \<open>src/mips_insns.hh\<close>, the register and condition tables of \<open>src/disassemble.hh\<close> and
  \<open>src/disassemble.cc\<close>, and the condition code accessors of \<open>src/interpret.cc\<close>.

  \<open>state_t\<close> is a record; its register files are lists (32 general registers, 32 of each
  coprocessor, 5 floating point control registers), whose lengths are the invariant
  \<open>wf_state\<close>.  The field \<open>os\<close> is not in the C++ class: it is the state of the operating
  system below the simulator, which the monitor calls change; its type is a parameter.  Of
  \<open>image_info32\<close> only the fields that some code reads or writes are kept.
\<close>

subsection \<open>Constants\<close>

definition RSVD_INSTRUCTION :: u32 where "RSVD_INSTRUCTION = 0x00000005"
definition RSVD_INSTRUCTION_ARG_SHIFT :: nat where "RSVD_INSTRUCTION_ARG_SHIFT = 6"
definition RSVD_INSTRUCTION_ARG_MASK :: u32 where "RSVD_INSTRUCTION_ARG_MASK = 0xFFFFF"
definition IDT_MONITOR_BASE :: u32 where "IDT_MONITOR_BASE = 0xBFC00000"
definition IDT_MONITOR_SIZE :: nat where "IDT_MONITOR_SIZE = 2048"
definition MARGS :: nat where "MARGS = 20"
definition K1SIZE :: u32 where "K1SIZE = 0x80000000"
definition CPR0_SR :: nat where "CPR0_SR = 12"

definition R_v0 :: nat where "R_v0 = 2"
definition R_a0 :: nat where "R_a0 = 4"
definition R_a1 :: nat where "R_a1 = 5"
definition R_a2 :: nat where "R_a2 = 6"
definition R_a3 :: nat where "R_a3 = 7"
definition R_sp :: nat where "R_sp = 29"

definition FMT_S :: nat where "FMT_S = 16"
definition FMT_D :: nat where "FMT_D = 17"
definition FMT_W :: nat where "FMT_W = 20"

definition COND_UN :: nat where "COND_UN = 1"
definition COND_EQ :: nat where "COND_EQ = 2"
definition COND_LT :: nat where "COND_LT = 12"
definition COND_LE :: nat where "COND_LE = 14"

definition CP1_CR25 :: nat where "CP1_CR25 = 2"

lemmas machine_consts = RSVD_INSTRUCTION_def RSVD_INSTRUCTION_ARG_SHIFT_def RSVD_INSTRUCTION_ARG_MASK_def
  IDT_MONITOR_BASE_def IDT_MONITOR_SIZE_def MARGS_def K1SIZE_def CPR0_SR_def
  R_v0_def R_a0_def R_a1_def R_a2_def R_a3_def R_sp_def FMT_S_def FMT_D_def FMT_W_def
  COND_UN_def COND_EQ_def COND_LT_def COND_LE_def CP1_CR25_def

definition regNames :: "string list" where
  "regNames =
    [''zero'', ''at'', ''v0'', ''v1'', ''a0'', ''a1'', ''a2'', ''a3'', ''t0'', ''t1'', ''t2'', ''t3'',
     ''t4'', ''t5'', ''t6'', ''t7'', ''s0'', ''s1'', ''s2'', ''s3'', ''s4'', ''s5'', ''s6'', ''s7'',
     ''t8'', ''t9'', ''k0'', ''k1'', ''gp'', ''sp'', ''s8'', ''ra'']"

definition condNames :: "string list" where
  "condNames =
    [''f'', ''un'', ''eq'', ''ueq'', ''olt'', ''ult'', ''ole'', ''ule'',
     ''sf'', ''ngle'', ''seq'', ''ngl'', ''lt'', ''nge'', ''le'', ''ngt'']"

definition getCondName :: "u32 \<Rightarrow> string" where "getCondName c = condNames ! unat (c AND 15)"

definition getGPRName :: "u32 \<Rightarrow> string" where "getGPRName r = regNames ! unat (r AND 31)"

subsection \<open>Enumerations\<close>

datatype fpMode = mipsii | mipsiv | mips32

datatype fpOperation =
    fp_abs | fp_neg | fp_mov | fp_add | fp_sub | fp_mul | fp_div | fp_sqrt
  | fp_rsqrt | fp_recip | fp_truncl | fp_truncw | fp_cvts | fp_cvtd | fp_unknown

datatype branch_type =
    beq | bne | blez | bgtz | beql | bnel | blezl | bgtzl
  | bgez | bgezl | bltz | bltzl | bgezal | bc1f | bc1t | bc1fl | bc1tl

datatype fp_reg_state = unknown | sp | dp

text \<open>
  The enumerators of \<open>mipsInsn\<close> are generated from the list \<open>INSN_LIST\<close>; they are named by
  the strings the same list gives the output operator.
\<close>

type_synonym mipsInsn = string

definition INSN_LIST :: "mipsInsn list" where
  "INSN_LIST =
    [''SLL'', ''SRL'', ''SRA'', ''SLLV'', ''SRLV'', ''SRAV'', ''JR'', ''JALR'', ''SYSCALL'',
    ''MFHI'', ''MTHI'', ''MULT'', ''MULTU'', ''DIV'', ''DIVU'', ''ADD'', ''ADDU'', ''SUB'',
    ''SUBU'', ''AND'', ''OR'', ''XOR'', ''NOR'', ''SLT'', ''SLTU'', ''MFLO'', ''MTLO'', ''BEQ'',
    ''BNE'', ''BLEZ'', ''BGTZ'', ''ADDI'', ''ADDIU'', ''SLTI'', ''SLTIU'', ''ANDI'', ''ORI'',
    ''XORI'', ''LUI'', ''J'', ''JAL'', ''MFC0'', ''MTC0'', ''MFC1'', ''MTC1'', ''LW'', ''LB'',
    ''LBU'', ''LH'', ''LHU'', ''SB'', ''SH'', ''SW'', ''BEQL'', ''BNEL'', ''BLTZ'', ''BGEZ'',
    ''BLTZL'', ''BGEZL'', ''BGTZL'', ''BLEZL'', ''MOVN'', ''MOVZ'', ''TEQ'', ''EXT'', ''INS'',
    ''MADD'', ''MADDU'', ''MUL'', ''MSUB'', ''CLZ'', ''LWL'', ''LWR'', ''SWL'', ''SWR'', ''SEB'',
    ''SEH'', ''DADDU'', ''DADDIU'', ''DSUBU'', ''DSLL'', ''DSRL'', ''DSRA'', ''DSLL32'',
    ''DSRL32'', ''DSRA32'', ''DSLLV'', ''DSRLV'', ''DSRAV'', ''LD'', ''SD'', ''LDL'', ''LDR'',
    ''SDL'', ''SDR'', ''BAL'', ''BGEZAL'', ''BGEZALL'', ''RDHWR'', ''SC'', ''SYNC'', ''BREAK'',
    ''SDC1'', ''LDC1'', ''SWC1'', ''LWC1'', ''SP_ABS'', ''DP_ABS'', ''SP_NEG'', ''DP_NEG'',
    ''SP_SQRT'', ''DP_SQRT'', ''SP_RSQRT'', ''DP_RSQRT'', ''SP_RECIP'', ''DP_RECIP'', ''SP_ADD'',
    ''DP_ADD'', ''SP_SUB'', ''DP_SUB'', ''SP_MUL'', ''DP_MUL'', ''SP_DIV'', ''DP_DIV'',
    ''SP_MOV'', ''DP_MOV'', ''BC1TL'', ''BC1T'', ''BC1FL'', ''BC1F'', ''SP_CMP_LT'',
    ''DP_CMP_LT'', ''SP_CMP_EQ'', ''DP_CMP_EQ'', ''SP_CMP_LE'', ''DP_CMP_LE'', ''TRUNC_DP_W'',
    ''TRUNC_SP_W'', ''CVT_W_DP'', ''CVT_W_SP'', ''CVT_SP_DP'', ''CVT_DP_SP'', ''MOVF'', ''MOVT'',
    ''FP_MOVN'', ''FP_MOVZ'', ''FP_MOVF'', ''FP_MOVT'', ''ERET'', ''DI'', ''EI'', ''WAIT'',
    ''MOVI'', ''MOV'', ''MONITOR'', ''NOP'', ''II'']"

subsection \<open>State\<close>

record image_info32 =
  load_addr :: u32
  start_code :: u32
  end_code :: u32
  start_data :: u32
  end_data :: u32
  image_brk :: u32
  reserve_brk :: u32
  start_stack :: u32
  stack_limit :: u32
  entry :: u32
  elf_flags :: u32
  alignment :: u32
  nsegs :: u16
  target_brk :: u32
  target_original_brk :: u32
  brk_page :: u32
  image_pgsz :: u32

definition image_info32_zero :: image_info32 where
  "image_info32_zero =
     \<lparr>load_addr = 0, start_code = 0, end_code = 0, start_data = 0, end_data = 0, image_brk = 0,
      reserve_brk = 0, start_stack = 0, stack_limit = 0, entry = 0, elf_flags = 0, alignment = 0,
      nsegs = 0, target_brk = 0, target_original_brk = 0, brk_page = 0, image_pgsz = 0\<rparr>"

record 'w state_t =
  pc :: u32
  gpr :: "u32 list"
  lo :: u32
  hi :: u32
  cpr0 :: "u32 list"
  cpr1 :: "u32 list"
  fcr1 :: "u32 list"
  icnt :: u64
  brk :: u8
  maxicnt :: u64
  mem :: memory
  linux_image :: image_info32
  cpr1_state :: "fp_reg_state list"
  insn_histo :: "mipsInsn \<Rightarrow> u64"
  os :: 'w

definition state_t_new :: "memory \<Rightarrow> 'w \<Rightarrow> 'w state_t" where
  "state_t_new m w =
     \<lparr>pc = 0, gpr = replicate 32 0, lo = 0, hi = 0, cpr0 = replicate 32 0, cpr1 = replicate 32 0,
      fcr1 = replicate 5 0, icnt = 0, brk = 0, maxicnt = 0, mem = m, linux_image = image_info32_zero,
      cpr1_state = replicate 32 unknown, insn_histo = (\<lambda>_. 0), os = w\<rparr>"

text \<open>A concrete state for the examples: register 4 holds an unaligned address, register 5 a value.\<close>

definition sample_state :: "unit state_t" where
  "sample_state = (state_t_new sparse_mem_new ())\<lparr>gpr := (replicate 32 0)[4 := 0x1001, 5 := 0x12345678]\<rparr>"

text \<open>The register files have the sizes of the C++ arrays.\<close>

definition wf_state :: "'w state_t \<Rightarrow> bool" where
  "wf_state s \<longleftrightarrow> length (gpr s) = 32 \<and> length (cpr0 s) = 32 \<and> length (cpr1 s) = 32 \<and>
     length (fcr1 s) = 5 \<and> length (cpr1_state s) = 32"

text \<open>A write to a general register, and the end of most instructions.\<close>

definition wr_gpr :: "nat \<Rightarrow> u32 \<Rightarrow> 'w state_t \<Rightarrow> 'w state_t" where
  "wr_gpr r v s = s\<lparr>gpr := (gpr s)[r := v]\<rparr>"

definition histo_inc :: "mipsInsn \<Rightarrow> 'w state_t \<Rightarrow> 'w state_t" where
  "histo_inc i s = s\<lparr>insn_histo := (insn_histo s)(i := insn_histo s i + 1)\<rparr>"

definition pc_inc :: "'w state_t \<Rightarrow> 'w state_t" where
  "pc_inc s = s\<lparr>pc := pc s + 4\<rparr>"

definition initState :: "'w state_t \<Rightarrow> 'w state_t" where
  "initState s =
     (let s1 = s\<lparr>cpr0 := (cpr0 s)[12 := cpr0 s ! 12 OR push_bit 2 1]\<rparr>
      in s1\<lparr>cpr0 := (cpr0 s1)[12 := cpr0 s1 ! 12 OR push_bit 22 1]\<rparr>)"

subsection \<open>Instruction fields\<close>

definition inst_opcode :: "u32 \<Rightarrow> nat" where "inst_opcode inst = unat (drop_bit 26 inst)"
definition inst_funct :: "u32 \<Rightarrow> nat" where "inst_funct inst = unat (inst AND 63)"
definition inst_rs :: "u32 \<Rightarrow> nat" where "inst_rs inst = unat (drop_bit 21 inst AND 31)"
definition inst_rt :: "u32 \<Rightarrow> nat" where "inst_rt inst = unat (drop_bit 16 inst AND 31)"
definition inst_rd :: "u32 \<Rightarrow> nat" where "inst_rd inst = unat (drop_bit 11 inst AND 31)"
definition inst_sa :: "u32 \<Rightarrow> nat" where "inst_sa inst = unat (drop_bit 6 inst AND 31)"
definition inst_cc :: "u32 \<Rightarrow> nat" where "inst_cc inst = unat (drop_bit 18 inst AND 7)"

text \<open>
  \<open>himm\<close> is the low half as an \<open>int16_t\<close>; \<open>simm32\<close> its conversion to \<open>int32_t\<close>;
  \<open>uimm32\<close> the zero extended low half.
\<close>

definition himm :: "u32 \<Rightarrow> u16" where "himm inst = ucast (inst AND (push_bit 16 1 - 1))"
definition simm32 :: "u32 \<Rightarrow> u32" where "simm32 inst = scast (himm inst)"
definition uimm32 :: "u32 \<Rightarrow> u32" where "uimm32 inst = inst AND (push_bit 16 1 - 1)"

text \<open>\<open>rtype_t\<close>, \<open>itype_t\<close>, \<open>coproc1x_t\<close> and \<open>lwxc1_t\<close>: the bit fields, lowest first.\<close>

definition c1x_fmt :: "u32 \<Rightarrow> nat" where "c1x_fmt inst = unat (inst AND 7)"
definition c1x_id :: "u32 \<Rightarrow> nat" where "c1x_id inst = unat (drop_bit 3 inst AND 7)"
definition c1x_fd :: "u32 \<Rightarrow> nat" where "c1x_fd inst = unat (drop_bit 6 inst AND 31)"
definition c1x_fs :: "u32 \<Rightarrow> nat" where "c1x_fs inst = unat (drop_bit 11 inst AND 31)"
definition c1x_ft :: "u32 \<Rightarrow> nat" where "c1x_ft inst = unat (drop_bit 16 inst AND 31)"
definition c1x_fr :: "u32 \<Rightarrow> nat" where "c1x_fr inst = unat (drop_bit 21 inst AND 31)"

definition lc1x_id :: "u32 \<Rightarrow> nat" where "lc1x_id inst = unat (inst AND 63)"
definition lc1x_fd :: "u32 \<Rightarrow> nat" where "lc1x_fd inst = unat (drop_bit 6 inst AND 31)"
definition lc1x_index :: "u32 \<Rightarrow> nat" where "lc1x_index inst = unat (drop_bit 16 inst AND 31)"
definition lc1x_base :: "u32 \<Rightarrow> nat" where "lc1x_base inst = unat (drop_bit 21 inst AND 31)"

subsection \<open>Instruction classes\<close>

definition is_jr :: "u32 \<Rightarrow> bool \<Rightarrow> bool" where
  "is_jr inst r31 =
     (if inst_opcode inst = 0 \<and> inst_funct inst = 0x08
      then (if r31 then inst_rs inst = 31 else True) else False)"

definition is_jal :: "u32 \<Rightarrow> bool" where "is_jal inst \<longleftrightarrow> inst_opcode inst = 3"

definition is_jalr :: "u32 \<Rightarrow> bool" where
  "is_jalr inst \<longleftrightarrow> inst_opcode inst = 0 \<and> inst_funct inst = 0x9"

definition is_j :: "u32 \<Rightarrow> bool" where "is_j inst \<longleftrightarrow> inst_opcode inst = 2"

definition get_jump_target :: "u32 \<Rightarrow> u32 \<Rightarrow> u32 result" where
  "get_jump_target p inst =
     assertE (is_jal inst \<or> is_j inst)
       (let pc_mask = NOT (push_bit 28 1 - 1);
            jaddr = push_bit 2 (inst AND (push_bit 26 1 - 1))
        in Inr (((p + 4) AND pc_mask) OR jaddr))"

definition is_memory :: "u32 \<Rightarrow> bool" where
  "is_memory inst \<longleftrightarrow> inst_opcode inst \<in> set
     [0x20, 0x21, 0x22, 0x23, 0x24, 0x25, 0x26, 0x28, 0x29, 0x2a, 0x2b, 0x2e, 0x31, 0x35, 0x39, 0x3d]"

definition is_branch :: "u32 \<Rightarrow> bool" where
  "is_branch inst =
     (let opcode = inst_opcode inst; rt = inst_rt inst
      in if opcode = 0x01 then rt = 0 \<or> rt = 1
         else opcode \<in> set [0x04, 0x05, 0x06, 0x07])"

definition is_branch_likely :: "u32 \<Rightarrow> bool" where
  "is_branch_likely inst =
     (let opcode = inst_opcode inst; rt = inst_rt inst
      in if opcode = 0x01 then rt = 2 \<or> rt = 3
         else opcode \<in> set [0x14, 0x15, 0x16, 0x17])"

definition get_branch_target :: "u32 \<Rightarrow> u32 \<Rightarrow> u32" where
  "get_branch_target p inst = p + 4 + push_bit 2 (simm32 inst)"

definition decode_fp :: "u32 \<Rightarrow> fpOperation" where
  "decode_fp inst =
     (let opcode = inst_opcode inst; functField = inst_rs inst; lowop = inst_funct inst;
          fmt = inst_rs inst; lowbits = inst AND (push_bit 11 1 - 1)
      in if opcode \<noteq> 0x11 then fp_unknown
         else if fmt = 0x8 then fp_unknown
         else if lowbits = 0 \<and> (functField = 0x0 \<or> functField = 0x4) then fp_unknown
         else if lowop div 16 = 3 then fp_unknown
         else if lowop = 0x0 then fp_add
         else if lowop = 0x1 then fp_sub
         else if lowop = 0x2 then fp_mul
         else if lowop = 0x3 then fp_div
         else if lowop = 0x4 then fp_sqrt
         else if lowop = 0x5 then fp_abs
         else if lowop = 0x6 then fp_mov
         else if lowop = 0x7 then fp_neg
         else if lowop = 0x15 then fp_recip
         else if lowop = 0x16 then fp_rsqrt
         else fp_unknown)"

subsection \<open>Condition codes\<close>

definition getConditionCode :: "'w state_t \<Rightarrow> nat \<Rightarrow> u32" where
  "getConditionCode s cc = drop_bit cc (fcr1 s ! CP1_CR25 AND push_bit cc 1) AND 1"

definition setConditionCode :: "'w state_t \<Rightarrow> u32 \<Rightarrow> nat \<Rightarrow> 'w state_t" where
  "setConditionCode s v cc =
     (let m0 = push_bit cc 1; m1 = NOT m0; m2 = NOT (v - 1)
      in s\<lparr>fcr1 := (fcr1 s)[CP1_CR25 := (fcr1 s ! CP1_CR25 AND m1) OR (push_bit cc 1 AND m2)]\<rparr>)"

subsection \<open>Step classes\<close>

text \<open>
  What an instruction that is no control transfer leaves alone: \<open>plain_step\<close> is the frame of
  every such instruction, \<open>quiet_step\<close> that of those that do not store.
\<close>

definition plain_step :: "'w state_t \<Rightarrow> 'w state_t \<Rightarrow> bool" where
  "plain_step s s' \<longleftrightarrow> wf_state s' \<and> pc s' = pc s + 4 \<and> icnt s' = icnt s \<and> brk s' = brk s \<and>
     maxicnt s' = maxicnt s \<and> linux_image s' = linux_image s \<and> os s' = os s"

definition quiet_step :: "'w state_t \<Rightarrow> 'w state_t \<Rightarrow> bool" where
  "quiet_step s s' \<longleftrightarrow> plain_step s s' \<and> mem s' = mem s"

subsection \<open>Fields stay in range\<close>

lemma inst_fields_less [simp]:
  "inst_rs inst < 32" "inst_rt inst < 32" "inst_rd inst < 32" "inst_sa inst < 32" "inst_cc inst < 8"
  "c1x_fd inst < 32" "c1x_fs inst < 32" "c1x_ft inst < 32" "c1x_fr inst < 32"
  "lc1x_fd inst < 32" "lc1x_index inst < 32" "lc1x_base inst < 32"
  by (simp_all add: inst_rs_def inst_rt_def inst_rd_def inst_sa_def inst_cc_def c1x_fd_def c1x_fs_def
      c1x_ft_def c1x_fr_def lc1x_fd_def lc1x_index_def lc1x_base_def)

lemma inst_funct_less [simp]: "inst_funct inst < 64"
  unfolding inst_funct_def by (rule unat_and_less) simp

lemma inst_opcode_less [simp]: "inst_opcode inst < 64"
proof -
  have "unat inst < 2 ^ LENGTH(32)" by (rule unsigned_less)
  then show ?thesis
    by (simp add: inst_opcode_def unsigned_drop_bit_eq drop_bit_eq_div unat_div_distrib div_less_iff_less_mult)
qed

lemma wf_state_new [simp]: "wf_state (state_t_new m w)"
  by (simp add: wf_state_def state_t_new_def)

lemma wf_sample_state [simp]: "wf_state sample_state"
  by (simp add: wf_state_def sample_state_def state_t_new_def)

lemma wf_updates [wf_intros]:
  "wf_state s \<Longrightarrow> wf_state (wr_gpr r v s)"
  "wf_state s \<Longrightarrow> wf_state (histo_inc i s)"
  "wf_state s \<Longrightarrow> wf_state (pc_inc s)"
  "wf_state s \<Longrightarrow> wf_state (initState s)"
  "wf_state s \<Longrightarrow> wf_state (setConditionCode s x cc)"
  by (simp_all add: wf_state_def wr_gpr_def histo_inc_def pc_inc_def initState_def setConditionCode_def Let_def)

lemma wf_field_updates [wf_intros]:
  "wf_state s \<Longrightarrow> wf_state (s\<lparr>pc := p\<rparr>)"
  "wf_state s \<Longrightarrow> wf_state (s\<lparr>lo := x\<rparr>)"
  "wf_state s \<Longrightarrow> wf_state (s\<lparr>hi := x\<rparr>)"
  "wf_state s \<Longrightarrow> wf_state (s\<lparr>icnt := n\<rparr>)"
  "wf_state s \<Longrightarrow> wf_state (s\<lparr>brk := b\<rparr>)"
  "wf_state s \<Longrightarrow> wf_state (s\<lparr>mem := m\<rparr>)"
  "wf_state s \<Longrightarrow> wf_state (s\<lparr>os := w\<rparr>)"
  "wf_state s \<Longrightarrow> wf_state (s\<lparr>maxicnt := n\<rparr>)"
  "wf_state s \<Longrightarrow> wf_state (s\<lparr>linux_image := img\<rparr>)"
  "wf_state s \<Longrightarrow> wf_state (s\<lparr>cpr0 := (cpr0 s)[r := x]\<rparr>)"
  "wf_state s \<Longrightarrow> wf_state (s\<lparr>cpr1 := (cpr1 s)[r := x]\<rparr>)"
  "wf_state s \<Longrightarrow> wf_state (s\<lparr>cpr1 := (cpr1 s)[r := x, r' := y]\<rparr>)"
  "wf_state s \<Longrightarrow> wf_state (s\<lparr>fcr1 := (fcr1 s)[r := x]\<rparr>)"
  "wf_state s \<Longrightarrow> wf_state (s\<lparr>cpr1_state := (cpr1_state s)[r := f]\<rparr>)"
  by (simp_all add: wf_state_def)

text \<open>What the small updates leave alone.\<close>

lemma wr_gpr_simps [simp]:
  "pc (wr_gpr r v s) = pc s" "lo (wr_gpr r v s) = lo s" "hi (wr_gpr r v s) = hi s"
  "cpr0 (wr_gpr r v s) = cpr0 s" "cpr1 (wr_gpr r v s) = cpr1 s" "fcr1 (wr_gpr r v s) = fcr1 s"
  "icnt (wr_gpr r v s) = icnt s" "brk (wr_gpr r v s) = brk s" "mem (wr_gpr r v s) = mem s"
  "os (wr_gpr r v s) = os s" "maxicnt (wr_gpr r v s) = maxicnt s" "linux_image (wr_gpr r v s) = linux_image s"
  "cpr1_state (wr_gpr r v s) = cpr1_state s" "gpr (wr_gpr r v s) = (gpr s)[r := v]"
  by (simp_all add: wr_gpr_def)

lemma histo_inc_simps [simp]:
  "pc (histo_inc i s) = pc s" "lo (histo_inc i s) = lo s" "hi (histo_inc i s) = hi s"
  "cpr0 (histo_inc i s) = cpr0 s" "cpr1 (histo_inc i s) = cpr1 s" "fcr1 (histo_inc i s) = fcr1 s"
  "icnt (histo_inc i s) = icnt s" "brk (histo_inc i s) = brk s" "mem (histo_inc i s) = mem s"
  "os (histo_inc i s) = os s" "maxicnt (histo_inc i s) = maxicnt s" "linux_image (histo_inc i s) = linux_image s"
  "cpr1_state (histo_inc i s) = cpr1_state s" "gpr (histo_inc i s) = gpr s"
  by (simp_all add: histo_inc_def)

lemma pc_inc_simps [simp]:
  "pc (pc_inc s) = pc s + 4" "lo (pc_inc s) = lo s" "hi (pc_inc s) = hi s"
  "cpr0 (pc_inc s) = cpr0 s" "cpr1 (pc_inc s) = cpr1 s" "fcr1 (pc_inc s) = fcr1 s"
  "icnt (pc_inc s) = icnt s" "brk (pc_inc s) = brk s" "mem (pc_inc s) = mem s"
  "os (pc_inc s) = os s" "maxicnt (pc_inc s) = maxicnt s" "linux_image (pc_inc s) = linux_image s"
  "cpr1_state (pc_inc s) = cpr1_state s" "gpr (pc_inc s) = gpr s"
  by (simp_all add: pc_inc_def)

subsection \<open>Condition codes behave as bits\<close>

lemma getConditionCode_bit: "getConditionCode s cc = of_bool (bit (fcr1 s ! CP1_CR25) cc)"
  by (rule bit_word_eqI) (auto simp: getConditionCode_def bit_simps dest: bit_imp_le_length)

lemma getConditionCode_0_iff [simp]:
  "getConditionCode s cc = 0 \<longleftrightarrow> \<not> bit (fcr1 s ! CP1_CR25) cc"
  "getConditionCode s cc = 1 \<longleftrightarrow> bit (fcr1 s ! CP1_CR25) cc"
  by (simp_all add: getConditionCode_bit)

lemma get_setConditionCode:
  assumes "wf_state s" "v = 0 \<or> v = 1" "cc < 32" "cc' < 32"
  shows "getConditionCode (setConditionCode s v cc) cc' = (if cc' = cc then v else getConditionCode s cc')"
proof -
  have "CP1_CR25 < length (fcr1 s)" using assms(1) by (simp add: wf_state_def machine_consts)
  then show ?thesis
    using assms(2-) by (auto simp: getConditionCode_bit setConditionCode_def Let_def bit_simps)
qed

subsection \<open>Register names\<close>

lemma regNames_distinct: "distinct regNames" "length regNames = 32" "distinct condNames" "length condNames = 16"
  by code_simp+

lemma getGPRName_inj: "getGPRName r = getGPRName r' \<longleftrightarrow> r AND 31 = r' AND 31"
  by (simp add: getGPRName_def nth_eq_iff_index_eq regNames_distinct word_unat_eq_iff)

end
