(* ===== verification/Interp_Mem.thy ===== *)
theory Interp_Mem
  imports Mips_State
begin

text \<open>
  The load and store instructions of \<open>src/interpret.cc\<close>.  \<open>EL\<close> is the template parameter:
  true for a little endian guest.  \<open>s->mem.get<T>\<close> and \<open>set<T>\<close> are \<open>mem_get\<close> and
  \<open>mem_set\<close> at the width of \<open>T\<close>; the effective address is a \<open>uint32_t\<close>, zero
  extended to their 64 bit argument.

  A double precision register is the pair of \<open>cpr1\<close> entries at an index and its successor,
  low word first as on the little endian host; the pair at index 31 lies outside the array.
\<close>

definition ea_of :: "u32 \<Rightarrow> 'w state_t \<Rightarrow> u32" where
  "ea_of inst s = gpr s ! inst_rs inst + simm32 inst"

subsection \<open>Whole words, halves and bytes\<close>

definition insn_lw :: "bool \<Rightarrow> u32 \<Rightarrow> 'w state_t \<Rightarrow> 'w state_t result" where
  "insn_lw EL inst s =
     bindE (mem_get (mem s) (ucast (ea_of inst s))) (\<lambda>v :: u32.
     Inr (histo_inc ''LW'' (pc_inc (wr_gpr (inst_rt inst) (bswap EL v) s))))"

definition insn_lh :: "bool \<Rightarrow> u32 \<Rightarrow> 'w state_t \<Rightarrow> 'w state_t result" where
  "insn_lh EL inst s =
     bindE (mem_get (mem s) (ucast (ea_of inst s))) (\<lambda>v :: u16.
     Inr (histo_inc ''LH'' (pc_inc (wr_gpr (inst_rt inst) (scast (bswap EL v)) s))))"

definition insn_lb :: "u32 \<Rightarrow> 'w state_t \<Rightarrow> 'w state_t result" where
  "insn_lb inst s =
     bindE (mem_get (mem s) (ucast (ea_of inst s))) (\<lambda>v :: u8.
     Inr (histo_inc ''LB'' (pc_inc (wr_gpr (inst_rt inst) (scast v) s))))"

definition insn_lbu :: "u32 \<Rightarrow> 'w state_t \<Rightarrow> 'w state_t result" where
  "insn_lbu inst s =
     bindE (mem_get (mem s) (ucast (ea_of inst s))) (\<lambda>v :: u8.
     Inr (histo_inc ''LBU'' (pc_inc (wr_gpr (inst_rt inst) (ucast v) s))))"

definition insn_lhu :: "bool \<Rightarrow> u32 \<Rightarrow> 'w state_t \<Rightarrow> 'w state_t result" where
  "insn_lhu EL inst s =
     bindE (mem_get (mem s) (ucast (ea_of inst s))) (\<lambda>v :: u16.
     Inr (histo_inc ''LHU'' (pc_inc (wr_gpr (inst_rt inst) (ucast (bswap EL v)) s))))"

definition insn_sw :: "bool \<Rightarrow> u32 \<Rightarrow> 'w state_t \<Rightarrow> 'w state_t result" where
  "insn_sw EL inst s =
     bindE (mem_set (mem s) (ucast (ea_of inst s)) (bswap EL (gpr s ! inst_rt inst))) (\<lambda>m.
     Inr (histo_inc ''SW'' (pc_inc (s\<lparr>mem := m\<rparr>))))"

definition insn_sc :: "bool \<Rightarrow> u32 \<Rightarrow> 'w state_t \<Rightarrow> 'w state_t result" where
  "insn_sc EL inst s =
     bindE (mem_set (mem s) (ucast (ea_of inst s)) (bswap EL (gpr s ! inst_rt inst))) (\<lambda>m.
     Inr (histo_inc ''SC'' (pc_inc (wr_gpr (inst_rt inst) 1 (s\<lparr>mem := m\<rparr>)))))"

definition insn_sh :: "bool \<Rightarrow> u32 \<Rightarrow> 'w state_t \<Rightarrow> 'w state_t result" where
  "insn_sh EL inst s =
     bindE (mem_set (mem s) (ucast (ea_of inst s)) (bswap EL (ucast (gpr s ! inst_rt inst) :: u16))) (\<lambda>m.
     Inr (histo_inc ''SH'' (pc_inc (s\<lparr>mem := m\<rparr>))))"

definition insn_sb :: "u32 \<Rightarrow> 'w state_t \<Rightarrow> 'w state_t result" where
  "insn_sb inst s =
     bindE (mem_set (mem s) (ucast (ea_of inst s)) (ucast (gpr s ! inst_rt inst) :: u8)) (\<lambda>m.
     Inr (histo_inc ''SB'' (pc_inc (s\<lparr>mem := m\<rparr>))))"

subsection \<open>Unaligned words\<close>

text \<open>
  \<open>ma\<close> is the offset in the aligned word, counted from the most significant byte.  In
  \<open>insn_swl\<close> the shift \<open>1U << (8*(4 - ma))\<close> is by 32 when \<open>ma\<close> is 0.
\<close>

definition ma_of :: "bool \<Rightarrow> u32 \<Rightarrow> nat" where
  "ma_of EL a = (if EL then 3 - unat (a AND 3) else unat (a AND 3))"

definition swl_merge :: "nat \<Rightarrow> u32 \<Rightarrow> u32 \<Rightarrow> u32 result" where
  "swl_merge ma r x =
     (let xs = drop_bit (8 * ma) x
      in definedE (8 * (4 - ma) < 32)
        (let m = NOT (push_bit (8 * (4 - ma)) 1 - 1) in Inr ((r AND m) OR xs)))"

definition swr_merge :: "nat \<Rightarrow> u32 \<Rightarrow> u32 \<Rightarrow> u32" where
  "swr_merge ma r x =
     (let xs = 8 * (3 - ma); rm = push_bit xs 1 - 1 in push_bit xs x OR (rm AND r))"

definition lwl_merge :: "nat \<Rightarrow> u32 \<Rightarrow> u32 \<Rightarrow> u32" where
  "lwl_merge ma r x =
     (if ma = 0 then r
      else if ma = 1 then push_bit 8 (r AND 0x00ffffff) OR (x AND 0x000000ff)
      else if ma = 2 then push_bit 16 (r AND 0x0000ffff) OR (x AND 0x0000ffff)
      else push_bit 24 (r AND 0x00ffffff) OR (x AND 0x00ffffff))"

definition lwr_merge :: "nat \<Rightarrow> u32 \<Rightarrow> u32 \<Rightarrow> u32" where
  "lwr_merge ma r x =
     (if ma = 0 then (x AND 0xffffff00) OR drop_bit 24 r
      else if ma = 1 then (x AND 0xffff0000) OR drop_bit 16 r
      else if ma = 2 then (x AND 0xff000000) OR drop_bit 8 r
      else r)"

definition insn_swl :: "bool \<Rightarrow> u32 \<Rightarrow> 'w state_t \<Rightarrow> 'w state_t result" where
  "insn_swl EL inst s =
     (let ea0 = ea_of inst s; ma = ma_of EL ea0; ea = ea0 AND 0xfffffffc
      in bindE (mem_get (mem s) (ucast ea)) (\<lambda>r.
         bindE (swl_merge ma (bswap EL r) (gpr s ! inst_rt inst)) (\<lambda>xx.
         bindE (mem_set (mem s) (ucast ea) (bswap EL xx)) (\<lambda>m.
         Inr (histo_inc ''SWL'' (pc_inc (s\<lparr>mem := m\<rparr>)))))))"

definition insn_swr :: "bool \<Rightarrow> u32 \<Rightarrow> 'w state_t \<Rightarrow> 'w state_t result" where
  "insn_swr EL inst s =
     (let ea0 = ea_of inst s; ma = ma_of EL ea0; ea = ea0 AND NOT 3
      in bindE (mem_get (mem s) (ucast ea)) (\<lambda>r.
         let xx = swr_merge ma (bswap EL r) (gpr s ! inst_rt inst)
         in bindE (mem_set (mem s) (ucast ea) (bswap EL xx)) (\<lambda>m.
            Inr (histo_inc ''SWR'' (pc_inc (s\<lparr>mem := m\<rparr>))))))"

definition insn_lwl :: "bool \<Rightarrow> u32 \<Rightarrow> 'w state_t \<Rightarrow> 'w state_t result" where
  "insn_lwl EL inst s =
     (let ea0 = ea_of inst s; ma = ma_of EL ea0; ea = ea0 AND 0xfffffffc
      in bindE (mem_get (mem s) (ucast ea)) (\<lambda>r.
         let v = lwl_merge ma (bswap EL r) (gpr s ! inst_rt inst)
         in Inr (histo_inc ''LWL'' (pc_inc (wr_gpr (inst_rt inst) v s)))))"

definition insn_lwr :: "bool \<Rightarrow> u32 \<Rightarrow> 'w state_t \<Rightarrow> 'w state_t result" where
  "insn_lwr EL inst s =
     (let ea0 = ea_of inst s; ma = ma_of EL ea0; ea = ea0 AND 0xfffffffc
      in bindE (mem_get (mem s) (ucast ea)) (\<lambda>r.
         let v = lwr_merge ma (bswap EL r) (gpr s ! inst_rt inst)
         in Inr (histo_inc ''LWR'' (pc_inc (wr_gpr (inst_rt inst) v s)))))"

subsection \<open>Floating point registers\<close>

definition get_sp :: "'w state_t \<Rightarrow> nat \<Rightarrow> u32 result" where
  "get_sp s i = definedE (i < 32) (Inr (cpr1 s ! i))"

definition get_dp :: "'w state_t \<Rightarrow> nat \<Rightarrow> u64 result" where
  "get_dp s i = definedE (i + 1 < 32) (Inr (ucast (cpr1 s ! i) OR push_bit 32 (ucast (cpr1 s ! (i + 1)))))"

definition set_sp :: "nat \<Rightarrow> u32 \<Rightarrow> 'w state_t \<Rightarrow> 'w state_t result" where
  "set_sp i v s = definedE (i < 32) (Inr (s\<lparr>cpr1 := (cpr1 s)[i := v]\<rparr>))"

definition set_dp :: "nat \<Rightarrow> u64 \<Rightarrow> 'w state_t \<Rightarrow> 'w state_t result" where
  "set_dp i v s =
     definedE (i + 1 < 32) (Inr (s\<lparr>cpr1 := (cpr1 s)[i := ucast v, i + 1 := ucast (drop_bit 32 v)]\<rparr>))"

definition insn_mtc1 :: "u32 \<Rightarrow> 'w state_t \<Rightarrow> 'w state_t" where
  "insn_mtc1 inst s =
     histo_inc ''MTC1'' (pc_inc (s\<lparr>cpr1 := (cpr1 s)[inst_rd inst := gpr s ! inst_rt inst]\<rparr>))"

definition insn_mfc1 :: "u32 \<Rightarrow> 'w state_t \<Rightarrow> 'w state_t" where
  "insn_mfc1 inst s = histo_inc ''MFC1'' (pc_inc (wr_gpr (inst_rt inst) (cpr1 s ! inst_rd inst) s))"

definition insn_ldc1 :: "bool \<Rightarrow> u32 \<Rightarrow> 'w state_t \<Rightarrow> 'w state_t result" where
  "insn_ldc1 EL inst s =
     bindE (mem_get (mem s) (ucast (ea_of inst s))) (\<lambda>v :: u64.
     bindE (set_dp (inst_rt inst) (bswap EL v) s) (\<lambda>s1.
     Inr (histo_inc ''LDC1'' (pc_inc s1))))"

definition insn_sdc1 :: "bool \<Rightarrow> u32 \<Rightarrow> 'w state_t \<Rightarrow> 'w state_t result" where
  "insn_sdc1 EL inst s =
     bindE (get_dp s (inst_rt inst)) (\<lambda>v.
     bindE (mem_set (mem s) (ucast (ea_of inst s)) (bswap EL v)) (\<lambda>m.
     Inr (histo_inc ''SDC1'' (pc_inc (s\<lparr>mem := m\<rparr>)))))"

definition insn_lwc1 :: "bool \<Rightarrow> u32 \<Rightarrow> 'w state_t \<Rightarrow> 'w state_t result" where
  "insn_lwc1 EL inst s =
     bindE (mem_get (mem s) (ucast (ea_of inst s))) (\<lambda>v :: u32.
     bindE (set_sp (inst_rt inst) (bswap EL v) s) (\<lambda>s1.
     Inr (histo_inc ''LWC1'' (pc_inc s1))))"

definition insn_swc1 :: "bool \<Rightarrow> u32 \<Rightarrow> 'w state_t \<Rightarrow> 'w state_t result" where
  "insn_swc1 EL inst s =
     bindE (get_sp s (inst_rt inst)) (\<lambda>v.
     bindE (mem_set (mem s) (ucast (ea_of inst s)) (bswap EL v)) (\<lambda>m.
     Inr (histo_inc ''SWC1'' (pc_inc (s\<lparr>mem := m\<rparr>)))))"

text \<open>\<open>lxc1<EL,int32_t>\<close> and \<open>lxc1<EL,int64_t>\<close>.\<close>

definition lxc1_w :: "bool \<Rightarrow> u32 \<Rightarrow> 'w state_t \<Rightarrow> 'w state_t result" where
  "lxc1_w EL inst s =
     (let ea = gpr s ! lc1x_base inst + gpr s ! lc1x_index inst
      in bindE (mem_get (mem s) (ucast ea)) (\<lambda>v :: u32.
         bindE (set_sp (lc1x_fd inst) (bswap EL v) s) (\<lambda>s1. Inr (pc_inc s1))))"

definition lxc1_d :: "bool \<Rightarrow> u32 \<Rightarrow> 'w state_t \<Rightarrow> 'w state_t result" where
  "lxc1_d EL inst s =
     (let ea = gpr s ! lc1x_base inst + gpr s ! lc1x_index inst
      in bindE (mem_get (mem s) (ucast ea)) (\<lambda>v :: u64.
         bindE (set_dp (lc1x_fd inst) (bswap EL v) s) (\<lambda>s1. Inr (pc_inc s1))))"

lemmas mem_insn_defs = insn_lw_def insn_lh_def insn_lb_def insn_lbu_def insn_lhu_def insn_sw_def insn_sc_def
  insn_sh_def insn_sb_def insn_swl_def insn_swr_def insn_lwl_def insn_lwr_def insn_mtc1_def insn_mfc1_def
  insn_ldc1_def insn_sdc1_def insn_lwc1_def insn_swc1_def lxc1_w_def lxc1_d_def
  get_sp_def get_dp_def set_sp_def set_dp_def

subsection \<open>Frames\<close>

lemma load_insns_quiet [wf_intros]:
  assumes "wf_state s"
  shows "on_ok (quiet_step s) (insn_lw EL inst s)" "on_ok (quiet_step s) (insn_lh EL inst s)"
    "on_ok (quiet_step s) (insn_lb inst s)" "on_ok (quiet_step s) (insn_lbu inst s)"
    "on_ok (quiet_step s) (insn_lhu EL inst s)" "on_ok (quiet_step s) (insn_lwl EL inst s)"
    "on_ok (quiet_step s) (insn_lwr EL inst s)" "on_ok (quiet_step s) (insn_ldc1 EL inst s)"
    "on_ok (quiet_step s) (insn_lwc1 EL inst s)" "on_ok (quiet_step s) (lxc1_w EL inst s)"
    "on_ok (quiet_step s) (lxc1_d EL inst s)" "quiet_step s (insn_mtc1 inst s)" "quiet_step s (insn_mfc1 inst s)"
  using assms
  by (auto simp: mem_insn_defs Let_def on_ok_def quiet_step_def plain_step_def wf_state_def split: sum.splits)

lemma store_insns_plain [wf_intros]:
  assumes "wf_state s"
  shows "on_ok (plain_step s) (insn_sw EL inst s)" "on_ok (plain_step s) (insn_sc EL inst s)"
    "on_ok (plain_step s) (insn_sh EL inst s)" "on_ok (plain_step s) (insn_sb inst s)"
    "on_ok (plain_step s) (insn_swl EL inst s)" "on_ok (plain_step s) (insn_swr EL inst s)"
    "on_ok (plain_step s) (insn_sdc1 EL inst s)" "on_ok (plain_step s) (insn_swc1 EL inst s)"
  using assms
  by (auto simp: mem_insn_defs Let_def on_ok_def plain_step_def wf_state_def split: sum.splits)

subsection \<open>Bytes of a word in guest order\<close>

text \<open>A word from its bytes, least significant first.\<close>

definition le4 :: "u8 \<Rightarrow> u8 \<Rightarrow> u8 \<Rightarrow> u8 \<Rightarrow> u32" where
  "le4 b0 b1 b2 b3 = ucast b0 OR push_bit 8 (ucast b1) OR push_bit 16 (ucast b2) OR push_bit 24 (ucast b3)"

lemma bit_le4:
  "bit (le4 b0 b1 b2 b3) k \<longleftrightarrow>
     (if k < 8 then bit b0 k else if k < 16 then bit b1 (k - 8) else if k < 24 then bit b2 (k - 16)
      else k < 32 \<and> bit b3 (k - 24))"
  by (auto simp: le4_def bit_simps dest: bit_imp_le_length)

lemma byte_cases:
  fixes k :: nat
  assumes "k < 32"
  obtains "k < 8" "k div 8 = 0" "k mod 8 = k"
  | "8 \<le> k" "k < 16" "k div 8 = 1" "k mod 8 = k - 8"
  | "16 \<le> k" "k < 24" "k div 8 = 2" "k mod 8 = k - 16"
  | "24 \<le> k" "k < 32" "k div 8 = 3" "k mod 8 = k - 24"
proof -
  have k: "k = 8 * (k div 8) + k mod 8" "k mod 8 < 8" by simp_all
  have "k div 8 < 4" using assms by simp
  then consider "k div 8 = 0" | "k div 8 = 1" | "k div 8 = 2" | "k div 8 = 3" by linarith
  then show ?thesis using k that by cases simp_all
qed

lemma load_le4: "load_le 4 m a = le4 (m a) (m (a + 1)) (m (a + 2)) (m (a + 3))"
proof (rule bit_word_eqI)
  fix k assume "k < LENGTH(32)"
  then have "k < 32" by simp
  then show "bit (load_le 4 m a :: u32) k = bit (le4 (m a) (m (a + 1)) (m (a + 2)) (m (a + 3))) k"
    by (rule byte_cases) (simp_all add: bit_load_le bit_le4)
qed

lemma builtin_bswap_le4: "builtin_bswap (le4 b0 b1 b2 b3) = le4 b3 b2 b1 b0"
proof (rule bit_word_eqI)
  fix k assume "k < LENGTH(32)"
  then have "k < 32" by simp
  then show "bit (builtin_bswap (le4 b0 b1 b2 b3)) k = bit (le4 b3 b2 b1 b0) k"
    by (rule byte_cases) (auto simp: bit_builtin_bswap bit_le4)
qed

text \<open>The aligned word around an address.\<close>

lemma aligned_parts:
  fixes a :: u32
  shows "a AND 0xfffffffc = a - (a AND 3)" "a AND NOT 3 = a - (a AND 3)"
proof -
  have m: "(0xfffffffc :: u32) = NOT 3" by simp
  have "(a AND NOT 3) + (a AND 3) = a"
    by (subst disjunctive_add) (auto simp: bit_simps intro!: bit_word_eqI)
  then show "a AND NOT 3 = a - (a AND 3)" by (simp add: algebra_simps)
  then show "a AND 0xfffffffc = a - (a AND 3)" by (simp only: m)
qed

lemma aligned_in_range: "unat (a - (a AND 3)) + 4 \<le> sz" for a :: u32
proof -
  have "a - (a AND 3) \<le> 0xfffffffc"
    unfolding aligned_parts(1) [symmetric] by (rule word_and_le1)
  then show ?thesis by (simp add: word_le_nat_alt sz_def)
qed

lemma mem_get_aligned [simp]: "mem_get m (ucast (a - (a AND 3) :: u32)) = Inr (load_le 4 m (a - (a AND 3)) :: u32)"
  and mem_set_aligned [simp]: "mem_set m (ucast (a - (a AND 3) :: u32)) v = Inr (store_le 4 m (a - (a AND 3)) (v :: u32))"
  using aligned_in_range [of a] by (simp_all add: mem_get_def mem_set_def)

lemma mem_get_word: "unat a + 4 \<le> sz \<Longrightarrow> mem_get m (ucast (a :: u32)) = Inr (load_le 4 m a :: u32)"
  and mem_set_word: "unat a + 4 \<le> sz \<Longrightarrow> mem_set m (ucast (a :: u32)) v = Inr (store_le 4 m a (v :: u32))"
  by (simp_all add: mem_get_def mem_set_def)

text \<open>The merges of the four unaligned instructions, byte by byte.\<close>

lemma obtain_le4:
  obtains x0 x1 x2 x3 where "x = le4 x0 x1 x2 x3"
proof
  show "x = le4 (ucast x) (ucast (drop_bit 8 x)) (ucast (drop_bit 16 x)) (ucast (drop_bit 24 x))"
    by (rule bit_word_eqI) (auto simp: bit_le4 bit_simps)
qed

lemma word_masks:
  "(0x000000ff :: u32) = mask 8" "(0x0000ffff :: u32) = mask 16" "(0x00ffffff :: u32) = mask 24"
  "(0xffffff00 :: u32) = NOT (mask 8)" "(0xffff0000 :: u32) = NOT (mask 16)" "(0xff000000 :: u32) = NOT (mask 24)"
  by (simp_all add: mask_eq_exp_minus_1)

lemma merges_le4:
  "lwl_merge 0 r x = r"
  "lwl_merge 1 (le4 b0 b1 b2 b3) (le4 x0 x1 x2 x3) = le4 x0 b0 b1 b2"
  "lwl_merge 2 (le4 b0 b1 b2 b3) (le4 x0 x1 x2 x3) = le4 x0 x1 b0 b1"
  "lwl_merge 3 (le4 b0 b1 b2 b3) (le4 x0 x1 x2 x3) = le4 x0 x1 x2 b0"
  "lwr_merge 0 (le4 b0 b1 b2 b3) (le4 x0 x1 x2 x3) = le4 b3 x1 x2 x3"
  "lwr_merge 1 (le4 b0 b1 b2 b3) (le4 x0 x1 x2 x3) = le4 b2 b3 x2 x3"
  "lwr_merge 2 (le4 b0 b1 b2 b3) (le4 x0 x1 x2 x3) = le4 b1 b2 b3 x3"
  "lwr_merge 3 r x = r"
  by (rule bit_word_eqI;
      auto simp: lwl_merge_def lwr_merge_def word_masks bit_le4 bit_simps simp del: mask_numeral)+

lemma low_mask: "push_bit n 1 - 1 = (mask n :: u32)"
  by (simp add: mask_eq_exp_minus_1)

lemma swr_merge_mask: "swr_merge ma r x = push_bit (8 * (3 - ma)) x OR (mask (8 * (3 - ma)) AND r)"
  and swl_merge_mask: "swl_merge ma r x =
    definedE (0 < ma) (Inr ((r AND NOT (mask (8 * (4 - ma)))) OR drop_bit (8 * ma) x))"
  unfolding swr_merge_def swl_merge_def Let_def low_mask by (simp_all add: definedE_def)

lemma store_merges_le4:
  "swl_merge 1 (le4 b0 b1 b2 b3) (le4 x0 x1 x2 x3) = Inr (le4 x1 x2 x3 b3)"
  "swl_merge 2 (le4 b0 b1 b2 b3) (le4 x0 x1 x2 x3) = Inr (le4 x2 x3 b2 b3)"
  "swl_merge 3 (le4 b0 b1 b2 b3) (le4 x0 x1 x2 x3) = Inr (le4 x3 b1 b2 b3)"
  "swr_merge 0 (le4 b0 b1 b2 b3) (le4 x0 x1 x2 x3) = le4 b0 b1 b2 x0"
  "swr_merge 1 (le4 b0 b1 b2 b3) (le4 x0 x1 x2 x3) = le4 b0 b1 x0 x1"
  "swr_merge 2 (le4 b0 b1 b2 b3) (le4 x0 x1 x2 x3) = le4 b0 x0 x1 x2"
  "swr_merge 3 (le4 b0 b1 b2 b3) (le4 x0 x1 x2 x3) = le4 x0 x1 x2 x3"
  unfolding swr_merge_mask swl_merge_mask
  by (auto simp: bit_le4 bit_simps simp del: mask_numeral intro!: bit_word_eqI split: if_splits)

lemma store_le4:
  "store_le 4 m a (le4 b0 b1 b2 b3) = m(a := b0, a + 1 := b1, a + 2 := b2, a + 3 := b3)"
proof -
  have "ucast (le4 b0 b1 b2 b3) = b0" "ucast (drop_bit 8 (le4 b0 b1 b2 b3)) = b1"
    "ucast (drop_bit 16 (le4 b0 b1 b2 b3)) = b2" "ucast (drop_bit 24 (le4 b0 b1 b2 b3)) = b3"
    by (auto simp: bit_le4 bit_simps intro!: bit_word_eqI)
  then show ?thesis
    by (simp add: eval_nat_numeral drop_bit_drop_bit add.assoc)
qed

text \<open>The low two bits of the addresses of a pair.\<close>

lemma unat_and_3: "unat (a AND 3) = unat a mod 4" for a :: u32
proof -
  have "a AND 3 = take_bit 2 a" by (simp add: take_bit_eq_mask mask_eq_exp_minus_1)
  then have "unat (a AND 3) = take_bit 2 (unat a)" by (simp only: unsigned_take_bit_eq)
  then show ?thesis by (simp add: take_bit_eq_mod)
qed

lemma and_3_add: "(a + b) AND 3 = ((a AND 3) + (b AND 3)) AND 3" for a b :: u32
proof -
  have "(unat a + unat b) mod 2 ^ 32 mod 4 = (unat a mod 4 + unat b mod 4) mod 2 ^ 32 mod 4"
    by (simp add: mod_mod_cancel mod_add_eq)
  then show ?thesis by (simp add: word_unat_eq_iff unat_and_3 unat_word_ariths(1))
qed

lemma and_3_offset: "w AND 3 = 0 \<Longrightarrow> (w + j) AND 3 = j AND 3" for w j :: u32
  by (simp add: and_3_add)

lemma aligned_cases:
  fixes a :: u32
  obtains w where "w AND 3 = 0" "a = w" | w where "w AND 3 = 0" "a = w + 1"
  | w where "w AND 3 = 0" "a = w + 2" | w where "w AND 3 = 0" "a = w + 3"
proof -
  define w where "w = a - (a AND 3)"
  have "w = a AND NOT 3" by (simp only: w_def aligned_parts)
  then have "w AND 3 = 0" by (simp add: and.assoc)
  moreover have "a = w + (a AND 3)" by (simp add: w_def)
  ultimately show ?thesis by (rule_tac and_3_cases [of a]) (use that in simp_all)
qed

lemmas unaligned_simps = ma_of_def and_3_offset bswap_def load_le4 store_le4 builtin_bswap_le4 add.assoc

text \<open>
  Executing the pair at the addresses \<open>a\<close> and \<open>a + 3\<close> amounts to one access at \<open>a\<close>.
\<close>

lemma lwl_lwr_value:
  fixes m :: memory and a x :: u32 and EL :: bool
  defines "w \<equiv> \<lambda>b :: u32. b - (b AND 3)"
  defines "l \<equiv> a + (if EL then 3 else 0)" and "r \<equiv> a + (if EL then 0 else 3)"
  shows "lwr_merge (ma_of EL r) (bswap EL (load_le 4 m (w r)))
      (lwl_merge (ma_of EL l) (bswap EL (load_le 4 m (w l))) x) = bswap EL (load_le 4 m a)"
proof -
  obtain x0 x1 x2 x3 where x: "x = le4 x0 x1 x2 x3" by (rule obtain_le4)
  show ?thesis
    by (rule aligned_cases [of a]; cases EL)
      (simp_all add: x l_def r_def w_def unaligned_simps merges_le4 [simplified], simp_all only: add.commute)
qed

lemma swl_swr_value:
  fixes m :: memory and a x :: u32 and EL :: bool
  defines "w \<equiv> \<lambda>b :: u32. b - (b AND 3)"
  defines "l \<equiv> a + (if EL then 3 else 0)" and "r \<equiv> a + (if EL then 0 else 3)"
  assumes "a AND 3 \<noteq> 0"
  shows "\<exists>xx. swl_merge (ma_of EL l) (bswap EL (load_le 4 m (w l))) x = Inr xx \<and>
      (let m1 = store_le 4 m (w l) (bswap EL xx)
       in store_le 4 m1 (w r) (bswap EL (swr_merge (ma_of EL r) (bswap EL (load_le 4 m1 (w r))) x))
            = store_le 4 m a (bswap EL x))"
proof -
  obtain x0 x1 x2 x3 where x: "x = le4 x0 x1 x2 x3" by (rule obtain_le4)
  show ?thesis
    by (rule aligned_cases [of a]; cases EL)
      (use assms(4) in \<open>simp_all add: x l_def r_def w_def unaligned_simps store_merges_le4 [simplified] fun_eq_iff\<close>)
qed

lemma swl_swr_steps:
  "insn_swl EL inst s =
     (let a = ea_of inst s; w = a - (a AND 3)
      in bindE (swl_merge (ma_of EL a) (bswap EL (load_le 4 (mem s) w)) (gpr s ! inst_rt inst)) (\<lambda>xx.
         Inr (histo_inc ''SWL'' (pc_inc (s\<lparr>mem := store_le 4 (mem s) w (bswap EL xx)\<rparr>)))))"
  "insn_swr EL inst s =
     (let a = ea_of inst s; w = a - (a AND 3);
          xx = swr_merge (ma_of EL a) (bswap EL (load_le 4 (mem s) w)) (gpr s ! inst_rt inst)
      in Inr (histo_inc ''SWR'' (pc_inc (s\<lparr>mem := store_le 4 (mem s) w (bswap EL xx)\<rparr>))))"
  unfolding insn_swl_def insn_swr_def Let_def aligned_parts by simp_all

text \<open>Register pairs.\<close>

lemma get_set_dp:
  assumes "wf_state s" "i < 31"
  shows "returns (\<lambda>t. get_dp t i = Inr v) (set_dp i v s)"
  using assms join_halves [of v] by (simp add: get_dp_def set_dp_def wf_state_def)

lemma get_dp_frame [simp]:
  "get_dp (histo_inc h s) i = get_dp s i" "get_dp (pc_inc s) i = get_dp s i"
  "get_dp (s\<lparr>mem := m\<rparr>) i = get_dp s i"
  by (simp_all add: get_dp_def)

lemma sdc1_ldc1:
  assumes "wf_state s" "ea_of i2 s = ea_of i1 s" "unat (ea_of i1 s) + 8 \<le> sz"
    and "inst_rt i1 < 31" "inst_rt i2 < 31"
  shows "returns (\<lambda>s'. get_dp s' (inst_rt i2) = get_dp s (inst_rt i1)) (bindE (insn_sdc1 EL i1 s) (insn_ldc1 EL i2))"
proof -
  obtain d where d: "get_dp s (inst_rt i1) = Inr d" using assms(4) by (simp add: get_dp_def)
  have "in_range 8 (ucast (ea_of i1 s))" using assms(3) by (simp add: in_range_def)
  from mem64.wr_rd [OF this, of "bswap EL d" "mem s"] obtain m where
    m: "mem_set (mem s) (ucast (ea_of i1 s)) (bswap EL d) = Inr m" "mem_get m (ucast (ea_of i1 s)) = Inr (bswap EL d)"
    by (auto simp: returns_iff)
  define t where "t = histo_inc ''SDC1'' (pc_inc (s\<lparr>mem := m\<rparr>))"
  have "insn_sdc1 EL i1 s = Inr t" by (simp add: insn_sdc1_def d m t_def)
  moreover have "ea_of i2 t = ea_of i1 s" "mem t = m" using assms(2) by (simp_all add: t_def ea_of_def)
  moreover have "wf_state t" unfolding t_def by (intro wf_intros assms(1))
  ultimately show ?thesis
    using get_set_dp [of t "inst_rt i2" d] assms(5) by (simp add: insn_ldc1_def m d returns_bindE)
qed

subsection \<open>Properties of the memory instructions\<close>

text \<open>
  C9. An unaligned load by the pair LWL, LWR: when the two instructions use the same target and
  base register (the target is not the base) and their effective addresses are the first and
  last byte of the word (in the order of the guest's endianness), the pair leaves in the target
  the word at that unaligned address, in guest byte order, and changes nothing else but the
  counters.  It holds at every address, also when the word wraps around the end of memory.
\<close>

theorem lwl_lwr_loads_unaligned_word:
  assumes "wf_state s"
    and "inst_rt i2 = inst_rt i1" "inst_rs i2 = inst_rs i1" "inst_rs i1 \<noteq> inst_rt i1"
    and "ea_of i1 s = a + (if EL then 3 else 0)" "ea_of i2 s = a + (if EL then 0 else 3)"
  shows "\<exists>s'. bindE (insn_lwl EL i1 s) (insn_lwr EL i2) = Inr s'
     \<and> gpr s' = (gpr s)[inst_rt i1 := bswap EL (load_le 4 (mem s) a)]
     \<and> mem s' = mem s \<and> pc s' = pc s + 8"
  using assms lwl_lwr_value [of EL a "mem s"]
  by (simp add: insn_lwl_def insn_lwr_def Let_def aligned_parts ea_of_def wf_state_def)

text \<open>
  C10. An unaligned store by the pair SWL, SWR writes the four bytes of the register at the
  unaligned address, in guest byte order, and no other byte.
\<close>

theorem swl_swr_stores_unaligned_word:
  assumes "wf_state s" and "a AND 3 \<noteq> 0"
    and "inst_rt i2 = inst_rt i1" "inst_rs i2 = inst_rs i1"
    and "ea_of i1 s = a + (if EL then 3 else 0)" "ea_of i2 s = a + (if EL then 0 else 3)"
  shows "\<exists>s'. bindE (insn_swl EL i1 s) (insn_swr EL i2) = Inr s'
     \<and> mem s' = store_le 4 (mem s) a (bswap EL (gpr s ! inst_rt i1))
     \<and> gpr s' = gpr s \<and> pc s' = pc s + 8"
  using assms swl_swr_value [of a EL "mem s" "gpr s ! inst_rt i1"]
  by (auto simp: swl_swr_steps Let_def ea_of_def)

text \<open>
  On an aligned word (big endian guest) SWL has no defined result: its mask is computed by
  a shift of a 32 bit one by 32 places.
\<close>

theorem swl_aligned_undefined: "insn_swl False inst s = Inl Undefined \<longleftrightarrow> ea_of inst s AND 3 = 0"
proof -
  have "unat (ea_of inst s AND 3) = 0 \<longleftrightarrow> ea_of inst s AND 3 = 0" by (simp add: unat_eq_0)
  then show ?thesis
    by (auto simp: insn_swl_def Let_def aligned_parts swl_merge_mask ma_of_def definedE_def)
qed

text \<open>
  C30. What a store writes a load at the same address reads back, in either byte order: LW the
  register of SW, LH and LHU the sign and zero extended low half stored by SH, LB and LBU the
  extended low byte stored by SB, and LDC1 the register pair stored by SDC1.
\<close>

theorem store_load_roundtrip:
  assumes "wf_state s" "ea_of i2 s = ea_of i1 s" "unat (ea_of i1 s) + 8 \<le> sz"
    and "inst_rt i1 < 31" "inst_rt i2 < 31"
  defines "x \<equiv> gpr s ! inst_rt i1" and "back \<equiv> \<lambda>v s'. gpr s' = (gpr s)[inst_rt i2 := v]"
  shows "returns (back x) (bindE (insn_sw EL i1 s) (insn_lw EL i2))
    \<and> returns (back (scast (ucast x :: u16))) (bindE (insn_sh EL i1 s) (insn_lh EL i2))
    \<and> returns (back (ucast (ucast x :: u16))) (bindE (insn_sh EL i1 s) (insn_lhu EL i2))
    \<and> returns (back (scast (ucast x :: u8))) (bindE (insn_sb i1 s) (insn_lb i2))
    \<and> returns (back (ucast (ucast x :: u8))) (bindE (insn_sb i1 s) (insn_lbu i2))
    \<and> returns (\<lambda>s'. get_dp s' (inst_rt i2) = get_dp s (inst_rt i1))
        (bindE (insn_sdc1 EL i1 s) (insn_ldc1 EL i2))"
proof -
  have ok: "in_range 1 (ucast (ea_of i1 s))" "in_range 2 (ucast (ea_of i1 s))" "in_range 4 (ucast (ea_of i1 s))"
    using assms(3) by (simp_all add: in_range_def)
  have ea: "ea_of i2 (s\<lparr>mem := m\<rparr>) = ea_of i1 s" "ea_of i2 (histo_inc h (pc_inc (s\<lparr>mem := m\<rparr>))) = ea_of i1 s"
    for m h using assms(2) by (simp_all add: ea_of_def)
  note rt = mem8.wr_rd [OF ok(1)] mem16.wr_rd [OF ok(2)] mem32.wr_rd [OF ok(3)]
  show ?thesis
    unfolding insn_sw_def insn_lw_def insn_sh_def insn_lh_def insn_lhu_def insn_sb_def insn_lb_def insn_lbu_def
    by (intro conjI sdc1_ldc1 [OF assms(1-5)]; simp add: returns_bindE x_def back_def;
        intro returns_mono [OF rt(1)] returns_mono [OF rt(2)] returns_mono [OF rt(3)]; simp add: ea)
qed

text \<open>LWL \<open>$6, 0($4)\<close>, LWR \<open>$6, 3($4)\<close>, SWL \<open>$5, 0($4)\<close> and SWR \<open>$5, 3($4)\<close> on the sample state.\<close>

lemma sample_eas:
  "inst_rs 0x88860000 = 4" "inst_rt 0x88860000 = 6" "inst_rs 0x98860003 = 4" "inst_rt 0x98860003 = 6"
  "inst_rs 0xa8850000 = 4" "inst_rt 0xa8850000 = 5" "inst_rs 0xb8850003 = 4" "inst_rt 0xb8850003 = 5"
  "ea_of 0x88860000 sample_state = 0x1001" "ea_of 0x98860003 sample_state = 0x1004"
  "ea_of 0xa8850000 sample_state = 0x1001" "ea_of 0xb8850003 sample_state = 0x1004"
  by (simp_all add: ea_of_def inst_rs_def inst_rt_def simm32_def himm_def sample_state_def)

theorem lwl_lwr_loads_unaligned_word_witness:
  "\<exists>s'. bindE (insn_lwl False 0x88860000 sample_state) (insn_lwr False 0x98860003) = Inr s'
     \<and> gpr s' = (gpr sample_state)[6 := bswap False (load_le 4 (mem sample_state) 0x1001)]"
  using lwl_lwr_loads_unaligned_word [of sample_state "0x98860003" "0x88860000" "0x1001" False]
  by (auto simp: sample_eas)

theorem swl_swr_stores_unaligned_word_witness:
  "\<exists>s'. bindE (insn_swl False 0xa8850000 sample_state) (insn_swr False 0xb8850003) = Inr s'
     \<and> mem s' = store_le 4 (mem sample_state) 0x1001 (bswap False (gpr sample_state ! 5))"
  using swl_swr_stores_unaligned_word [of sample_state "0x1001" "0xb8850003" "0xa8850000" False]
  by (auto simp: sample_eas)

theorem store_load_roundtrip_witness:
  "returns (\<lambda>s'. gpr s' = (gpr sample_state)[6 := gpr sample_state ! 5])
     (bindE (insn_sw False 0xa8850000 sample_state) (insn_lw False 0x88860000))"
  using store_load_roundtrip [of sample_state "0x88860000" "0xa8850000" False]
  by (simp add: sample_eas sz_def)

end
