(* ===== verification/Interp_ALU.thy ===== *)
theory Interp_ALU
  imports Mips_State
begin

text \<open>
  The integer instructions of \<open>src/interpret.cc\<close>: the cases of the R-type and I-type switches
  of \<open>execMips\<close>, \<open>execSpecial2\<close>, \<open>execSpecial3\<close>, \<open>_movci\<close> and the coprocessor 0
  instructions.  \<open>(int64_t)\<close> of a signed register is \<open>scast\<close>, of an unsigned one
  \<open>ucast\<close>; \<open>>>\<close> on a signed value is \<open>signed_drop_bit\<close>.
\<close>

subsection \<open>Shifts\<close>

definition insn_sll :: "u32 \<Rightarrow> 'w state_t \<Rightarrow> 'w state_t" where
  "insn_sll inst s =
     histo_inc (if inst = 0 then ''NOP'' else ''SLL'')
       (pc_inc (wr_gpr (inst_rd inst) (push_bit (inst_sa inst) (gpr s ! inst_rt inst)) s))"

definition insn_srl :: "u32 \<Rightarrow> 'w state_t \<Rightarrow> 'w state_t" where
  "insn_srl inst s =
     histo_inc ''SRL'' (pc_inc (wr_gpr (inst_rd inst) (drop_bit (inst_sa inst) (gpr s ! inst_rt inst)) s))"

definition insn_sra :: "u32 \<Rightarrow> 'w state_t \<Rightarrow> 'w state_t" where
  "insn_sra inst s =
     histo_inc ''SRA'' (pc_inc (wr_gpr (inst_rd inst) (signed_drop_bit (inst_sa inst) (gpr s ! inst_rt inst)) s))"

definition shamt :: "u32 \<Rightarrow> 'w state_t \<Rightarrow> nat" where
  "shamt inst s = unat (gpr s ! inst_rs inst AND 0x1f)"

definition insn_sllv :: "u32 \<Rightarrow> 'w state_t \<Rightarrow> 'w state_t" where
  "insn_sllv inst s =
     histo_inc ''SLLV'' (pc_inc (wr_gpr (inst_rd inst) (push_bit (shamt inst s) (gpr s ! inst_rt inst)) s))"

definition insn_srlv :: "u32 \<Rightarrow> 'w state_t \<Rightarrow> 'w state_t" where
  "insn_srlv inst s =
     histo_inc ''SRLV'' (pc_inc (wr_gpr (inst_rd inst) (drop_bit (shamt inst s) (gpr s ! inst_rt inst)) s))"

definition insn_srav :: "u32 \<Rightarrow> 'w state_t \<Rightarrow> 'w state_t" where
  "insn_srav inst s =
     histo_inc ''SRAV'' (pc_inc (wr_gpr (inst_rd inst) (signed_drop_bit (shamt inst s) (gpr s ! inst_rt inst)) s))"

subsection \<open>System and moves\<close>

text \<open>Without system call emulation \<open>syscall\<close> falls through to \<open>break\<close>.\<close>

definition insn_break :: "'w state_t \<Rightarrow> 'w state_t" where
  "insn_break s = histo_inc ''BREAK'' (s\<lparr>brk := 1\<rparr>)"

definition insn_sync :: "'w state_t \<Rightarrow> 'w state_t" where
  "insn_sync s = histo_inc ''SYNC'' (pc_inc s)"

definition insn_mfhi :: "u32 \<Rightarrow> 'w state_t \<Rightarrow> 'w state_t" where
  "insn_mfhi inst s = histo_inc ''MFHI'' (pc_inc (wr_gpr (inst_rd inst) (hi s) s))"

definition insn_mthi :: "u32 \<Rightarrow> 'w state_t \<Rightarrow> 'w state_t" where
  "insn_mthi inst s = histo_inc ''MTHI'' (pc_inc (s\<lparr>hi := gpr s ! inst_rs inst\<rparr>))"

definition insn_mflo :: "u32 \<Rightarrow> 'w state_t \<Rightarrow> 'w state_t" where
  "insn_mflo inst s = histo_inc ''MFLO'' (pc_inc (wr_gpr (inst_rd inst) (lo s) s))"

definition insn_mtlo :: "u32 \<Rightarrow> 'w state_t \<Rightarrow> 'w state_t" where
  "insn_mtlo inst s = histo_inc ''MTLO'' (pc_inc (s\<lparr>lo := gpr s ! inst_rs inst\<rparr>))"

definition insn_movci :: "u32 \<Rightarrow> 'w state_t \<Rightarrow> 'w state_t" where
  "insn_movci inst s =
     (let cc = inst_cc inst; tf = drop_bit 16 inst AND 1; rd = inst_rd inst; rs = inst_rs inst
      in pc_inc
        (if tf = 0
         then histo_inc ''MOVF'' (wr_gpr rd (if getConditionCode s cc \<noteq> 0 then gpr s ! rd else gpr s ! rs) s)
         else histo_inc ''MOVT'' (wr_gpr rd (if getConditionCode s cc \<noteq> 0 then gpr s ! rs else gpr s ! rd) s)))"

definition insn_movn :: "u32 \<Rightarrow> 'w state_t \<Rightarrow> 'w state_t" where
  "insn_movn inst s =
     histo_inc ''MOVN'' (pc_inc (wr_gpr (inst_rd inst)
       (if gpr s ! inst_rt inst \<noteq> 0 then gpr s ! inst_rs inst else gpr s ! inst_rd inst) s))"

definition insn_movz :: "u32 \<Rightarrow> 'w state_t \<Rightarrow> 'w state_t" where
  "insn_movz inst s =
     histo_inc ''MOVZ'' (pc_inc (wr_gpr (inst_rd inst)
       (if gpr s ! inst_rt inst = 0 then gpr s ! inst_rs inst else gpr s ! inst_rd inst) s))"

definition insn_teq :: "u32 \<Rightarrow> 'w state_t \<Rightarrow> 'w state_t result" where
  "insn_teq inst s =
     (if gpr s ! inst_rs inst = gpr s ! inst_rt inst then Inl (Exit (-1))
      else Inr (histo_inc ''TEQ'' (pc_inc s)))"

subsection \<open>Multiplication and division\<close>

definition insn_mult :: "u32 \<Rightarrow> 'w state_t \<Rightarrow> 'w state_t" where
  "insn_mult inst s =
     (let y = (scast (gpr s ! inst_rs inst) :: u64) * scast (gpr s ! inst_rt inst)
      in histo_inc ''MULT'' (pc_inc (s\<lparr>lo := ucast (y AND 0xffffffff), hi := ucast (signed_drop_bit 32 y)\<rparr>)))"

definition insn_multu :: "u32 \<Rightarrow> 'w state_t \<Rightarrow> 'w state_t" where
  "insn_multu inst s =
     (let y = (ucast (gpr s ! inst_rs inst) :: u64) * ucast (gpr s ! inst_rt inst)
      in histo_inc ''MULTU'' (pc_inc (s\<lparr>lo := ucast y, hi := ucast (drop_bit 32 y)\<rparr>)))"

text \<open>The quotient of the smallest integer by -1 has no \<open>int32_t\<close> value.\<close>

definition insn_div :: "u32 \<Rightarrow> 'w state_t \<Rightarrow> 'w state_t result" where
  "insn_div inst s =
     (let a = gpr s ! inst_rs inst; b = gpr s ! inst_rt inst
      in if b \<noteq> 0
         then definedE (\<not> (a = 0x80000000 \<and> b = -1))
           (Inr (histo_inc ''DIV'' (pc_inc
             (s\<lparr>lo := word_of_int (sint a sdiv sint b), hi := word_of_int (sint a smod sint b)\<rparr>))))
         else Inr (histo_inc ''DIV'' (pc_inc s)))"

definition insn_divu :: "u32 \<Rightarrow> 'w state_t \<Rightarrow> 'w state_t" where
  "insn_divu inst s =
     (let a = gpr s ! inst_rs inst; b = gpr s ! inst_rt inst
      in histo_inc ''DIVU'' (pc_inc (if b \<noteq> 0 then s\<lparr>lo := a div b, hi := a mod b\<rparr> else s)))"

subsection \<open>Arithmetic and logic on registers\<close>

definition insn_add :: "u32 \<Rightarrow> 'w state_t \<Rightarrow> 'w state_t" where
  "insn_add inst s =
     histo_inc ''ADD'' (pc_inc (wr_gpr (inst_rd inst) (gpr s ! inst_rs inst + gpr s ! inst_rt inst) s))"

definition insn_addu :: "u32 \<Rightarrow> 'w state_t \<Rightarrow> 'w state_t" where
  "insn_addu inst s =
     histo_inc ''ADDU'' (pc_inc (wr_gpr (inst_rd inst) (gpr s ! inst_rs inst + gpr s ! inst_rt inst) s))"

definition insn_subu :: "u32 \<Rightarrow> 'w state_t \<Rightarrow> 'w state_t" where
  "insn_subu inst s =
     histo_inc ''SUBU'' (pc_inc (wr_gpr (inst_rd inst) (gpr s ! inst_rs inst - gpr s ! inst_rt inst) s))"

definition insn_and :: "u32 \<Rightarrow> 'w state_t \<Rightarrow> 'w state_t" where
  "insn_and inst s =
     histo_inc ''AND'' (pc_inc (wr_gpr (inst_rd inst) (gpr s ! inst_rs inst AND gpr s ! inst_rt inst) s))"

definition insn_or :: "u32 \<Rightarrow> 'w state_t \<Rightarrow> 'w state_t" where
  "insn_or inst s =
     histo_inc ''OR'' (pc_inc
       (if inst_rd inst \<noteq> 0 then wr_gpr (inst_rd inst) (gpr s ! inst_rs inst OR gpr s ! inst_rt inst) s else s))"

definition insn_xor :: "u32 \<Rightarrow> 'w state_t \<Rightarrow> 'w state_t" where
  "insn_xor inst s =
     histo_inc ''XOR'' (pc_inc (wr_gpr (inst_rd inst) (gpr s ! inst_rs inst XOR gpr s ! inst_rt inst) s))"

definition insn_nor :: "u32 \<Rightarrow> 'w state_t \<Rightarrow> 'w state_t" where
  "insn_nor inst s =
     histo_inc ''NOR'' (pc_inc (wr_gpr (inst_rd inst) (NOT (gpr s ! inst_rs inst OR gpr s ! inst_rt inst)) s))"

definition insn_slt :: "u32 \<Rightarrow> 'w state_t \<Rightarrow> 'w state_t" where
  "insn_slt inst s =
     histo_inc ''SLT'' (pc_inc (wr_gpr (inst_rd inst) (of_bool (gpr s ! inst_rs inst <s gpr s ! inst_rt inst)) s))"

definition insn_sltu :: "u32 \<Rightarrow> 'w state_t \<Rightarrow> 'w state_t" where
  "insn_sltu inst s =
     histo_inc ''SLTU'' (pc_inc (wr_gpr (inst_rd inst) (of_bool (gpr s ! inst_rs inst < gpr s ! inst_rt inst)) s))"

subsection \<open>Immediate instructions\<close>

definition insn_addi :: "u32 \<Rightarrow> 'w state_t \<Rightarrow> 'w state_t" where
  "insn_addi inst s =
     histo_inc ''ADDI'' (pc_inc (wr_gpr (inst_rt inst) (gpr s ! inst_rs inst + simm32 inst) s))"

definition insn_addiu :: "u32 \<Rightarrow> 'w state_t \<Rightarrow> 'w state_t" where
  "insn_addiu inst s =
     histo_inc ''ADDIU'' (pc_inc (wr_gpr (inst_rt inst) (gpr s ! inst_rs inst + simm32 inst) s))"

definition insn_slti :: "u32 \<Rightarrow> 'w state_t \<Rightarrow> 'w state_t" where
  "insn_slti inst s =
     histo_inc ''SLTI'' (pc_inc (wr_gpr (inst_rt inst) (of_bool (gpr s ! inst_rs inst <s simm32 inst)) s))"

definition insn_sltiu :: "u32 \<Rightarrow> 'w state_t \<Rightarrow> 'w state_t" where
  "insn_sltiu inst s =
     histo_inc ''SLTIU'' (pc_inc (wr_gpr (inst_rt inst) (of_bool (gpr s ! inst_rs inst < simm32 inst)) s))"

definition insn_andi :: "u32 \<Rightarrow> 'w state_t \<Rightarrow> 'w state_t" where
  "insn_andi inst s =
     histo_inc ''ANDI'' (pc_inc (wr_gpr (inst_rt inst) (gpr s ! inst_rs inst AND uimm32 inst) s))"

definition insn_ori :: "u32 \<Rightarrow> 'w state_t \<Rightarrow> 'w state_t" where
  "insn_ori inst s =
     histo_inc ''ORI'' (pc_inc (wr_gpr (inst_rt inst) (gpr s ! inst_rs inst OR uimm32 inst) s))"

definition insn_xori :: "u32 \<Rightarrow> 'w state_t \<Rightarrow> 'w state_t" where
  "insn_xori inst s =
     histo_inc ''XORI'' (pc_inc (wr_gpr (inst_rt inst) (gpr s ! inst_rs inst XOR uimm32 inst) s))"

definition insn_lui :: "u32 \<Rightarrow> 'w state_t \<Rightarrow> 'w state_t" where
  "insn_lui inst s =
     histo_inc ''LUI'' (pc_inc (wr_gpr (inst_rt inst) (push_bit 16 (uimm32 inst)) s))"

subsection \<open>Special2\<close>

text \<open>
  \<open>acc_of\<close> is the accumulator as \<open>madd\<close>, \<open>maddu\<close> and \<open>msub\<close> compute it: both halves
  are signed, so the low one is sign extended before it is combined with the high one.
\<close>

definition acc_of :: "'w state_t \<Rightarrow> u64" where
  "acc_of s = push_bit 32 (scast (hi s)) OR scast (lo s)"

definition builtin_clz :: "u32 \<Rightarrow> nat" where
  "builtin_clz x = length (takeWhile Not (rev (map (bit x) [0..<32])))"

definition insn_madd :: "u32 \<Rightarrow> 'w state_t \<Rightarrow> 'w state_t" where
  "insn_madd inst s =
     (let y = scast (gpr s ! inst_rs inst) * scast (gpr s ! inst_rt inst) + acc_of s
      in histo_inc ''MADD'' (s\<lparr>lo := ucast (y AND 0xffffffff), hi := ucast (signed_drop_bit 32 y)\<rparr>))"

definition insn_maddu :: "u32 \<Rightarrow> 'w state_t \<Rightarrow> 'w state_t" where
  "insn_maddu inst s =
     (let y = ucast (gpr s ! inst_rs inst) * ucast (gpr s ! inst_rt inst) + acc_of s
      in histo_inc ''MADDU'' (s\<lparr>lo := ucast (y AND 0xffffffff), hi := ucast (drop_bit 32 y)\<rparr>))"

definition insn_mul :: "u32 \<Rightarrow> 'w state_t \<Rightarrow> 'w state_t" where
  "insn_mul inst s =
     (let y = (scast (gpr s ! inst_rs inst) :: u64) * scast (gpr s ! inst_rt inst)
      in histo_inc ''MUL'' (wr_gpr (inst_rd inst) (ucast y) s))"

definition insn_msub :: "u32 \<Rightarrow> 'w state_t \<Rightarrow> 'w state_t" where
  "insn_msub inst s =
     (let y = acc_of s - scast (gpr s ! inst_rs inst) * scast (gpr s ! inst_rt inst)
      in histo_inc ''MSUB'' (s\<lparr>lo := ucast (y AND 0xffffffff), hi := ucast (signed_drop_bit 32 y)\<rparr>))"

definition insn_clz :: "u32 \<Rightarrow> 'w state_t \<Rightarrow> 'w state_t" where
  "insn_clz inst s =
     (let x = gpr s ! inst_rs inst
      in histo_inc ''CLZ'' (wr_gpr (inst_rd inst) (if x = 0 then 32 else of_nat (builtin_clz x)) s))"

definition execSpecial2 :: "u32 \<Rightarrow> 'w state_t \<Rightarrow> 'w state_t result" where
  "execSpecial2 inst s =
     (let funct = inst_funct inst
      in if funct = 0x0 then Inr (pc_inc (insn_madd inst s))
         else if funct = 0x1 then Inr (pc_inc (insn_maddu inst s))
         else if funct = 0x2 then Inr (pc_inc (insn_mul inst s))
         else if funct = 0x4 then Inr (pc_inc (insn_msub inst s))
         else if funct = 0x20 then Inr (pc_inc (insn_clz inst s))
         else Inl (Exit (-1)))"

subsection \<open>Special3\<close>

definition insn_seb :: "u32 \<Rightarrow> 'w state_t \<Rightarrow> 'w state_t" where
  "insn_seb inst s = histo_inc ''SEB'' (wr_gpr (inst_rd inst) (scast (ucast (gpr s ! inst_rt inst) :: u8)) s)"

definition insn_seh :: "u32 \<Rightarrow> 'w state_t \<Rightarrow> 'w state_t" where
  "insn_seh inst s = histo_inc ''SEH'' (wr_gpr (inst_rd inst) (scast (ucast (gpr s ! inst_rt inst) :: u16)) s)"

definition insn_ext :: "u32 \<Rightarrow> 'w state_t \<Rightarrow> 'w state_t result" where
  "insn_ext inst s =
     (let pos = inst_sa inst; size = inst_rd inst + 1
      in definedE (size < 32)
        (Inr (histo_inc ''EXT'' (wr_gpr (inst_rt inst)
          (signed_drop_bit pos (gpr s ! inst_rs inst) AND (push_bit size 1 - 1)) s))))"

text \<open>\<open>size\<close> is computed in \<open>uint32_t\<close>: it wraps when the field ends before it starts.\<close>

definition insn_ins :: "u32 \<Rightarrow> 'w state_t \<Rightarrow> 'w state_t result" where
  "insn_ins inst s =
     (let op = inst_sa inst; rd = inst_rd inst;
          size = (of_nat rd :: u32) - of_nat op + 1
      in definedE (size < 32)
        (let mask = push_bit (unat size) 1 - 1;
             cmask = NOT (push_bit op mask);
             v = push_bit op (gpr s ! inst_rs inst AND mask);
             c = (gpr s ! inst_rt inst AND cmask) OR v
         in Inr (histo_inc ''INS'' (wr_gpr (inst_rt inst) c s))))"

definition insn_rdhwr :: "u32 \<Rightarrow> 'w state_t \<Rightarrow> 'w state_t result" where
  "insn_rdhwr inst s =
     (if inst_rd inst = 29 then Inr (histo_inc ''RDHWR'' (wr_gpr (inst_rt inst) (cpr0 s ! 29) s))
      else Inl Abort)"

definition execSpecial3 :: "u32 \<Rightarrow> 'w state_t \<Rightarrow> 'w state_t result" where
  "execSpecial3 inst s =
     (let funct = inst_funct inst; op = inst_sa inst
      in bindE
        (if funct = 32 then
           (if op = 0x10 then Inr (insn_seb inst s)
            else if op = 0x18 then Inr (insn_seh inst s)
            else Inl (Exit (-1)))
         else if funct = 0 then insn_ext inst s
         else if funct = 0x4 then insn_ins inst s
         else if funct = 0x3b then insn_rdhwr inst s
         else Inl (Exit (-1)))
        (\<lambda>s1. Inr (pc_inc s1)))"

subsection \<open>Coprocessor 0\<close>

definition insn_wait :: "'w state_t \<Rightarrow> 'w state_t result" where
  "insn_wait s = (if cpr0 s ! CPR0_SR AND 1 = 0 then Inl (Exit (-1)) else Inr (histo_inc ''WAIT'' s))"

definition insn_di :: "u32 \<Rightarrow> 'w state_t \<Rightarrow> 'w state_t" where
  "insn_di inst s =
     (let s1 = (if inst_rt inst \<noteq> 0 then wr_gpr (inst_rt inst) (cpr0 s ! CPR0_SR) s else s)
      in histo_inc ''DI'' (s1\<lparr>cpr0 := (cpr0 s1)[CPR0_SR := cpr0 s1 ! CPR0_SR AND NOT 1]\<rparr>))"

definition insn_ei :: "u32 \<Rightarrow> 'w state_t \<Rightarrow> 'w state_t" where
  "insn_ei inst s =
     (let s1 = (if inst_rt inst \<noteq> 0 then wr_gpr (inst_rt inst) (cpr0 s ! CPR0_SR) s else s)
      in histo_inc ''EI'' (s1\<lparr>cpr0 := (cpr0 s1)[CPR0_SR := cpr0 s1 ! CPR0_SR OR 1]\<rparr>))"

definition insn_mfc0 :: "u32 \<Rightarrow> 'w state_t \<Rightarrow> 'w state_t" where
  "insn_mfc0 inst s = histo_inc ''MFC0'' (wr_gpr (inst_rt inst) (cpr0 s ! inst_rd inst) s)"

definition insn_mtc0 :: "u32 \<Rightarrow> 'w state_t \<Rightarrow> 'w state_t" where
  "insn_mtc0 inst s = histo_inc ''MTC0'' (s\<lparr>cpr0 := (cpr0 s)[inst_rd inst := gpr s ! inst_rt inst]\<rparr>)"

definition exec_coproc0 :: "u32 \<Rightarrow> 'w state_t \<Rightarrow> 'w state_t result" where
  "exec_coproc0 inst s =
     bindE
       (if drop_bit 25 inst AND 1 \<noteq> 0 then
          (if inst_funct inst = 24 then Inl (Exit (-1))
           else if inst_funct inst = 32 then insn_wait s
           else Inl (Exit (-1)))
        else if inst_rs inst = 11 \<and> inst AND 65535 = 0x6000 then Inr (insn_di inst s)
        else if inst_rs inst = 11 \<and> inst AND 65535 = 0x6020 then Inr (insn_ei inst s)
        else if inst_rs inst = 0x0 then Inr (insn_mfc0 inst s)
        else if inst_rs inst = 0x4 then Inr (insn_mtc0 inst s)
        else Inl (Exit (-1)))
       (\<lambda>s1. Inr (pc_inc s1))"

text \<open>The accumulator as the architecture defines it.\<close>

definition hilo :: "'w state_t \<Rightarrow> u64" where
  "hilo s = ucast (lo s) OR push_bit 32 (ucast (hi s))"

lemmas alu_insn_defs =
  insn_sll_def insn_srl_def insn_sra_def insn_sllv_def insn_srlv_def insn_srav_def insn_break_def
  insn_sync_def insn_mfhi_def insn_mthi_def insn_mflo_def insn_mtlo_def insn_movci_def
  insn_movn_def insn_movz_def insn_teq_def insn_mult_def insn_multu_def insn_div_def
  insn_divu_def insn_add_def insn_addu_def insn_subu_def insn_and_def insn_or_def insn_xor_def
  insn_nor_def insn_slt_def insn_sltu_def insn_addi_def insn_addiu_def insn_slti_def
  insn_sltiu_def insn_andi_def insn_ori_def insn_xori_def insn_lui_def insn_madd_def
  insn_maddu_def insn_mul_def insn_msub_def insn_clz_def insn_seb_def insn_seh_def insn_ext_def
  insn_ins_def insn_rdhwr_def insn_wait_def insn_di_def insn_ei_def insn_mfc0_def insn_mtc0_def

subsection \<open>Frames\<close>

lemma shift_insns_quiet [wf_intros]:
  assumes "wf_state s"
  shows "quiet_step s (insn_sll inst s)" "quiet_step s (insn_srl inst s)" "quiet_step s (insn_sra inst s)"
    "quiet_step s (insn_sllv inst s)" "quiet_step s (insn_srlv inst s)" "quiet_step s (insn_srav inst s)"
    "quiet_step s (insn_sync s)" "quiet_step s (insn_mfhi inst s)" "quiet_step s (insn_mthi inst s)"
    "quiet_step s (insn_mflo inst s)" "quiet_step s (insn_mtlo inst s)" "quiet_step s (insn_movci inst s)"
    "quiet_step s (insn_movn inst s)" "quiet_step s (insn_movz inst s)" "on_ok (quiet_step s) (insn_teq inst s)"
    "quiet_step s (insn_mult inst s)" "quiet_step s (insn_multu inst s)" "on_ok (quiet_step s) (insn_div inst s)"
    "quiet_step s (insn_divu inst s)"
  using assms by (simp_all add: alu_insn_defs Let_def quiet_step_def plain_step_def wf_state_def definedE_def)

lemma arith_insns_quiet [wf_intros]:
  assumes "wf_state s"
  shows "quiet_step s (insn_add inst s)" "quiet_step s (insn_addu inst s)" "quiet_step s (insn_subu inst s)"
    "quiet_step s (insn_and inst s)" "quiet_step s (insn_or inst s)" "quiet_step s (insn_xor inst s)"
    "quiet_step s (insn_nor inst s)" "quiet_step s (insn_slt inst s)" "quiet_step s (insn_sltu inst s)"
    "quiet_step s (insn_addi inst s)" "quiet_step s (insn_addiu inst s)" "quiet_step s (insn_slti inst s)"
    "quiet_step s (insn_sltiu inst s)" "quiet_step s (insn_andi inst s)" "quiet_step s (insn_ori inst s)"
    "quiet_step s (insn_xori inst s)" "quiet_step s (insn_lui inst s)"
  using assms by (simp_all add: alu_insn_defs quiet_step_def plain_step_def wf_state_def)

lemma special_insns_quiet [wf_intros]:
  assumes "wf_state s"
  shows "on_ok (quiet_step s) (execSpecial2 inst s)" "on_ok (quiet_step s) (execSpecial3 inst s)"
    "on_ok (quiet_step s) (exec_coproc0 inst s)"
  using assms
  by (simp_all add: execSpecial2_def execSpecial3_def exec_coproc0_def alu_insn_defs Let_def quiet_step_def
      plain_step_def wf_state_def definedE_def)

subsection \<open>Multiplication, division and the accumulator\<close>

lemma hilo_split [simp]:
  "hilo (s\<lparr>lo := ucast (y AND 0xffffffff), hi := ucast (signed_drop_bit 32 y)\<rparr>) = (y :: u64)"
  "hilo (s\<lparr>lo := ucast (y AND 0xffffffff), hi := ucast (drop_bit 32 y)\<rparr>) = (y :: u64)"
  "hilo (s\<lparr>lo := ucast y, hi := ucast (drop_bit 32 y)\<rparr>) = (y :: u64)"
proof -
  have "ucast (y AND 0xffffffff) = (ucast y :: u32)"
  proof -
    have m: "(0xffffffff :: u64) = mask 32" by (simp add: mask_eq_exp_minus_1)
    show ?thesis unfolding m by (auto simp: bit_simps simp del: mask_numeral intro!: bit_word_eqI)
  qed
  moreover have "ucast (signed_drop_bit 32 y) = (ucast (drop_bit 32 y) :: u32)"
    by (rule bit_word_eqI) (auto simp: bit_simps)
  ultimately show "hilo (s\<lparr>lo := ucast (y AND 0xffffffff), hi := ucast (signed_drop_bit 32 y)\<rparr>) = y"
    "hilo (s\<lparr>lo := ucast (y AND 0xffffffff), hi := ucast (drop_bit 32 y)\<rparr>) = y"
    "hilo (s\<lparr>lo := ucast y, hi := ucast (drop_bit 32 y)\<rparr>) = y"
    using join_halves [of y] by (simp_all add: hilo_def)
qed

lemma hilo_frame [simp]: "hilo (histo_inc h s) = hilo s" "hilo (pc_inc s) = hilo s"
  by (simp_all add: hilo_def)

lemma sint_product:
  fixes a b :: u32
  shows "sint ((scast a :: u64) * scast b) = sint a * sint b"
proof -
  have ab: "\<bar>sint a\<bar> \<le> 2 ^ 31" "\<bar>sint b\<bar> \<le> 2 ^ 31"
    using sint_bounds_32 [of a] sint_bounds_32 [of b] by linarith+
  have "\<bar>sint a * sint b\<bar> \<le> 2 ^ 31 * 2 ^ 31"
    unfolding abs_mult by (rule mult_mono [OF ab]) simp_all
  then have "sint (word_of_int (sint a * sint b) :: u64) = sint a * sint b"
    by (intro sint_word_of_int_eq) simp_all
  then show ?thesis unfolding scast_eq of_int_mult .
qed

lemma unat_product:
  fixes a b :: u32
  shows "unat ((ucast a :: u64) * ucast b) = unat a * unat b"
proof -
  have "unat a < 2 ^ LENGTH(32)" "unat b < 2 ^ LENGTH(32)" by (rule unsigned_less)+
  then have "unat a * unat b < 2 ^ LENGTH(32) * 2 ^ LENGTH(32)" by (rule mult_strict_mono) simp_all
  then show ?thesis by (simp add: unat_word_ariths(2))
qed

lemma bit_accumulators:
  assumes "n < 64"
  shows "bit (hilo s) n = (if n < 32 then bit (lo s) n else bit (hi s) (n - 32))"
    and "bit (acc_of s) n = (if n < 32 then bit (lo s) n else bit (hi s) (n - 32) \<or> bit (lo s) 31)"
proof -
  have "\<not> bit (lo s) n" "min 31 n = 31" "min 31 (n - 32) = n - 32" if "32 \<le> n"
    using that assms by (auto dest: bit_imp_le_length)
  moreover have "min 31 n = n" if "n < 32" using that by simp
  ultimately show "bit (hilo s) n = (if n < 32 then bit (lo s) n else bit (hi s) (n - 32))"
    "bit (acc_of s) n = (if n < 32 then bit (lo s) n else bit (hi s) (n - 32) \<or> bit (lo s) 31)"
    using assms by (auto simp: hilo_def acc_of_def bit_simps)
qed

lemma acc_of_eq_hilo_iff: "acc_of s = hilo s \<longleftrightarrow> \<not> bit (lo s) 31 \<or> hi s = - 1"
proof
  assume eq: "acc_of s = hilo s"
  have "hi s = - 1" if "bit (lo s) 31"
  proof (rule bit_word_eqI)
    fix n assume "n < LENGTH(32)"
    moreover have "bit (acc_of s) (n + 32) = bit (hilo s) (n + 32)" by (simp add: eq)
    ultimately show "bit (hi s) n = bit (- 1 :: u32) n" using that by (simp add: bit_accumulators)
  qed
  then show "\<not> bit (lo s) 31 \<or> hi s = - 1" by blast
next
  assume "\<not> bit (lo s) 31 \<or> hi s = - 1"
  then show "acc_of s = hilo s" by (intro bit_word_eqI) (auto simp: bit_accumulators)
qed

lemma sint_minimum: "sint (x :: u32) = - (2 ^ 31) \<longleftrightarrow> x = 0x80000000"
proof -
  have "sint (0x80000000 :: u32) = - (2 ^ 31)" by simp
  then show ?thesis using signed_word_eqI [of x "0x80000000"] by auto
qed

lemma sdiv_fits:
  fixes a b :: u32
  assumes "b \<noteq> 0" "\<not> (a = 0x80000000 \<and> b = - 1)"
  shows "sint (word_of_int (sint a sdiv sint b) :: u32) = sint a sdiv sint b"
proof (rule sint_word_of_int_eq)
  have r: "sint a sdiv sint b \<in> {- \<bar>sint a\<bar>..\<bar>sint a\<bar>}" by (rule sdiv_int_range)
  then show "- (2 ^ (LENGTH(32) - 1)) \<le> sint a sdiv sint b" using sint_bounds_32 [of a] by (simp, linarith)
  show "sint a sdiv sint b < 2 ^ (LENGTH(32) - 1)"
  proof (cases "a = 0x80000000")
    case True
    then have a: "sint a = - (2 ^ 31)" by (simp only: sint_minimum)
    have "sint b \<noteq> 0" using assms(1) by (simp add: signed_eq_0_iff)
    moreover have "sint b \<noteq> - 1" using assms(2) True signed_word_eqI [of b "- 1"] by auto
    ultimately consider "sint b \<le> - 2" | "0 < sint b" by linarith
    then show ?thesis
    proof cases
      case 1
      then have "(2 ^ 31 :: int) div \<bar>sint b\<bar> < 2 ^ 31" by (intro int_div_less_self) simp_all
      with 1 show ?thesis by (simp add: signed_divide_int_def a)
    next
      case 2
      then have "0 \<le> (2 ^ 31 :: int) div \<bar>sint b\<bar>" by (simp add: pos_imp_zdiv_nonneg_iff)
      with 2 show ?thesis by (simp add: signed_divide_int_def a)
    qed
  next
    case False
    then have "- (2 ^ 31) < sint a" using sint_minimum [of a] sint_bounds_32(1) [of a] by linarith
    then show ?thesis using r sint_bounds_32(2) [of a] by (simp, linarith)
  qed
qed

lemma smod_fits:
  fixes a b :: u32
  assumes "b \<noteq> 0"
  shows "sint (word_of_int (sint a smod sint b) :: u32) = sint a smod sint b"
proof (rule sint_word_of_int_eq)
  have "sint b \<noteq> 0" using assms by (simp add: signed_eq_0_iff)
  then have "sint a smod sint b \<in> {- \<bar>sint b\<bar> + 1..\<bar>sint b\<bar> - 1}" by (rule smod_int_range)
  then show "- (2 ^ (LENGTH(32) - 1)) \<le> sint a smod sint b" "sint a smod sint b < 2 ^ (LENGTH(32) - 1)"
    using sint_bounds_32 [of b] by (simp_all, linarith+)
qed

lemma builtin_clz_eq:
  assumes "x \<noteq> 0"
  shows "builtin_clz x < 32" "bit x (31 - builtin_clz x)" "\<And>k. 31 - builtin_clz x < k \<Longrightarrow> \<not> bit x k"
proof -
  define bs where "bs = rev (map (bit x) [0..<32])"
  have len: "length bs = 32" and nth: "\<And>i. i < 32 \<Longrightarrow> bs ! i = bit x (31 - i)"
    by (simp_all add: bs_def rev_nth)
  have clz: "builtin_clz x = length (takeWhile Not bs)" by (simp add: builtin_clz_def bs_def)
  obtain k where k: "bit x k" "k < 32" using assms bit_word_eqI [of x 0] by auto
  then have "bs ! (31 - k)" using nth [of "31 - k"] by simp
  then have "True \<in> set bs" using len nth_mem [of "31 - k" bs] by auto
  then have "takeWhile Not bs \<noteq> bs" by (metis takeWhile_eq_all_conv)
  then have lt: "builtin_clz x < 32"
    using length_takeWhile_le [of Not bs] takeWhile_eq_take [of Not bs] len unfolding clz
    by (cases "length (takeWhile Not bs) = 32") (simp_all, blast)
  then show "builtin_clz x < 32" .
  show "bit x (31 - builtin_clz x)"
    using nth_length_takeWhile [of Not bs] nth [OF lt] lt len clz by simp
  show "\<not> bit x k" if "31 - builtin_clz x < k" for k
  proof (cases "k < 32")
    case True
    then have "31 - k < length (takeWhile Not bs)" using that lt clz by simp
    then have "takeWhile Not bs ! (31 - k) = bs ! (31 - k)" "\<not> takeWhile Not bs ! (31 - k)"
      using set_takeWhileD [OF nth_mem, of "31 - k" Not bs] by (simp_all add: takeWhile_nth)
    then show ?thesis using nth [of "31 - k"] True by simp
  qed (auto dest: bit_imp_le_length)
qed

lemma low_bits_mask: "push_bit n 1 - 1 = (mask n :: u32)"
  by (simp add: mask_eq_exp_minus_1)

lemma ext_value:
  assumes "wf_state s" "inst_rd inst + 1 < 32"
  shows "returns (\<lambda>s'. gpr s' = (gpr s)[inst_rt inst :=
    signed_drop_bit (inst_sa inst) (gpr s ! inst_rs inst) AND mask (inst_rd inst + 1)]) (insn_ext inst s)"
  using assms unfolding insn_ext_def Let_def low_bits_mask by simp

lemma ins_size:
  assumes "p \<le> q" "q < 32"
  shows "unat ((of_nat q :: u32) - of_nat p + 1) = q - p + 1"
proof -
  have "(of_nat q :: u32) - of_nat p + 1 = of_nat (q - p + 1)" using assms by simp
  moreover have "q - p + 1 < 2 ^ 32" using assms(2) by simp
  ultimately show ?thesis by (simp only: unsigned_of_nat len_bit0) (simp add: take_bit_nat_eq_self)
qed

lemma ins_value:
  assumes "inst_sa inst \<le> inst_rd inst" "inst_rd inst - inst_sa inst < 31"
  defines "n \<equiv> inst_rd inst - inst_sa inst + 1"
  shows "insn_ins inst s = Inr (histo_inc ''INS'' (wr_gpr (inst_rt inst)
    ((gpr s ! inst_rt inst AND NOT (push_bit (inst_sa inst) (mask n)))
       OR push_bit (inst_sa inst) (gpr s ! inst_rs inst AND mask n)) s))"
proof -
  have u: "unat ((of_nat (inst_rd inst) :: u32) - of_nat (inst_sa inst) + 1) = n"
    unfolding n_def by (rule ins_size [OF assms(1)]) simp
  then have "(of_nat (inst_rd inst) :: u32) - of_nat (inst_sa inst) + 1 < 32"
    using assms(2) by (simp add: word_less_nat_alt n_def)
  then show ?thesis unfolding insn_ins_def Let_def low_bits_mask u by simp
qed

subsection \<open>Properties of the integer instructions\<close>

text \<open>
  MULT and MULTU leave the full 64 bit product in HI and LO, read as a signed and as an
  unsigned number; no operand overflows.
\<close>

theorem mult_full_product:
  "sint (hilo (insn_mult inst s)) = sint (gpr s ! inst_rs inst) * sint (gpr s ! inst_rt inst)
   \<and> unat (hilo (insn_multu inst s)) = unat (gpr s ! inst_rs inst) * unat (gpr s ! inst_rt inst)"
  by (simp add: insn_mult_def insn_multu_def Let_def sint_product unat_product)

lemma lo_nonneg_iff: "0 \<le> sint (x :: u32) \<longleftrightarrow> \<not> bit x 31"
  using bit_last_iff [of x] by auto

text \<open>
  C40. MADD adds the product to the accumulator, and MSUB subtracts it, exactly when the sign
  extension of LO does no harm: LO is not negative, or HI is all ones already.  For every other
  accumulator the result is wrong.
\<close>

theorem madd_accumulates_iff:
  "(hilo (insn_madd inst s) = hilo s + scast (gpr s ! inst_rs inst) * scast (gpr s ! inst_rt inst)
      \<longleftrightarrow> 0 \<le> sint (lo s) \<or> hi s = - 1)
   \<and> (hilo (insn_maddu inst s) = hilo s + ucast (gpr s ! inst_rs inst) * ucast (gpr s ! inst_rt inst)
      \<longleftrightarrow> 0 \<le> sint (lo s) \<or> hi s = - 1)
   \<and> (hilo (insn_msub inst s) = hilo s - scast (gpr s ! inst_rs inst) * scast (gpr s ! inst_rt inst)
      \<longleftrightarrow> 0 \<le> sint (lo s) \<or> hi s = - 1)"
  unfolding lo_nonneg_iff acc_of_eq_hilo_iff [symmetric]
  by (simp add: insn_madd_def insn_maddu_def insn_msub_def Let_def algebra_simps)

text \<open>
  DIV is the division of the C language: for a divisor other than zero LO and HI hold the
  quotient rounded towards zero and the remainder with the sign of the dividend; it leaves both
  alone when the divisor is zero; it has no defined result exactly when the smallest integer is
  divided by -1.
\<close>

theorem div_truncates:
  fixes s :: "'w state_t" and inst :: u32
  defines "a \<equiv> gpr s ! inst_rs inst" and "b \<equiv> gpr s ! inst_rt inst"
  shows "if b = 0 then returns (\<lambda>s'. lo s' = lo s \<and> hi s' = hi s) (insn_div inst s)
    else if a = 0x80000000 \<and> b = - 1 then insn_div inst s = Inl Undefined
    else returns (\<lambda>s'. sint (lo s') * sint b + sint (hi s') = sint a
      \<and> \<bar>sint (hi s')\<bar> < \<bar>sint b\<bar> \<and> (sint (hi s') = 0 \<or> sgn (sint (hi s')) = sgn (sint a))) (insn_div inst s)"
proof -
  have "sint a sdiv sint b * sint b + sint a smod sint b = sint a" by (rule sdiv_mult_smod_eq)
  moreover have "\<bar>sint a smod sint b\<bar> < \<bar>sint b\<bar>" if "b \<noteq> 0"
    using smod_int_range [of "sint b" "sint a"] that by (simp add: signed_eq_0_iff, linarith)
  moreover have "sint a smod sint b = 0 \<or> sgn (sint a smod sint b) = sgn (sint a)" if "b \<noteq> 0"
  proof -
    have "0 \<le> \<bar>sint a\<bar> mod \<bar>sint b\<bar>" using that by (simp add: signed_eq_0_iff)
    then show ?thesis by (auto simp: smod_int_alt_def sgn_mult le_less)
  qed
  ultimately show ?thesis
    using sdiv_fits [of b a] smod_fits [of b a]
    by (simp add: insn_div_def Let_def a_def [symmetric] b_def [symmetric] definedE_def)
qed

text \<open>
  CLZ counts the leading zeros: the value it writes is 32 for zero, and otherwise the
  distance from bit 31 down to the highest set bit.
\<close>

theorem clz_counts:
  fixes inst :: u32
  assumes "wf_state s"
  defines "x \<equiv> gpr s ! inst_rs inst" and "n \<equiv> unat (gpr (insn_clz inst s) ! inst_rd inst)"
  shows "n \<le> 32 \<and> (n < 32 \<longrightarrow> bit x (31 - n)) \<and> (\<forall>k. 32 - n \<le> k \<longrightarrow> \<not> bit x k)"
proof (cases "x = 0")
  case True
  then have "n = 32" using assms(1) by (simp add: n_def insn_clz_def x_def wf_state_def)
  with True show ?thesis by simp
next
  case False
  note clz = builtin_clz_eq [OF False]
  have "n = builtin_clz x"
    using assms(1) False clz(1)
    by (simp add: n_def insn_clz_def x_def wf_state_def unsigned_of_nat take_bit_nat_eq_self)
  then show ?thesis using clz by simp
qed

text \<open>
  EXT inverts INS: after INS puts the low bits of one register into a field of another,
  EXT of that field gives those bits back, and INS leaves the bits outside the field alone.
  The field is given by its position and size, shorter than the register.
\<close>

theorem ins_then_ext:
  assumes "wf_state s" "p = inst_sa i1" "inst_rd i1 = p + n" "n < 31"
    and "inst_sa i2 = p" "inst_rd i2 = n" "inst_rs i2 = inst_rt i1"
  shows "returns (\<lambda>s'. gpr s' ! inst_rt i2 = gpr s ! inst_rs i1 AND mask (n + 1)) (bindE (insn_ins i1 s) (insn_ext i2))
    \<and> returns (\<lambda>s'. \<forall>k. k < p \<or> p + n < k \<longrightarrow> bit (gpr s' ! inst_rt i1) k = bit (gpr s ! inst_rt i1) k) (insn_ins i1 s)"
proof -
  define v where "v = (gpr s ! inst_rt i1 AND NOT (push_bit p (mask (n + 1))))
       OR push_bit p (gpr s ! inst_rs i1 AND mask (n + 1))"
  define t where "t = histo_inc ''INS'' (wr_gpr (inst_rt i1) v s)"
  have i: "insn_ins i1 s = Inr t" using ins_value [of i1 s] assms by (simp add: t_def v_def)
  have t: "gpr t = (gpr s)[inst_rt i1 := v]" "wf_state t"
    using assms(1) by (simp_all add: t_def wf_state_def histo_inc_def wr_gpr_def)
  have len: "inst_rt i1 < length (gpr s)" "inst_rt i2 < length (gpr s)" using assms(1) by (simp_all add: wf_state_def)
  have "p + n < 32" using inst_fields_less(3) [of i1] assms(3) by simp
  then have "signed_drop_bit p v AND mask (n + 1) = gpr s ! inst_rs i1 AND mask (n + 1)"
    by (intro bit_word_eqI) (auto simp: v_def bit_simps)
  then have "returns (\<lambda>s'. gpr s' ! inst_rt i2 = gpr s ! inst_rs i1 AND mask (n + 1)) (insn_ext i2 t)"
    using ext_value [OF t(2), of i2] assms(4-7) len t(1) by (auto elim!: returns_mono)
  moreover have "\<forall>k. k < p \<or> p + n < k \<longrightarrow> bit (gpr t ! inst_rt i1) k = bit (gpr s ! inst_rt i1) k"
    using len by (auto simp: t(1) v_def bit_simps dest: bit_imp_le_length)
  ultimately show ?thesis by (simp add: i)
qed

text \<open>CLZ \<open>$7, $5\<close>; INS and EXT of an eight bit field at bit 4 of \<open>$6\<close>.\<close>

theorem clz_counts_witness:
  "gpr (insn_clz 0x70a73820 sample_state) ! 7 = 3 \<and> bit (gpr sample_state ! 5) 28"
proof -
  have f: "inst_rs 0x70a73820 = 5" "inst_rd 0x70a73820 = 7" by (simp_all add: inst_rs_def inst_rd_def)
  have "builtin_clz 0x12345678 = 3" by code_simp
  then have "gpr (insn_clz 0x70a73820 sample_state) ! 7 = 3"
    by (simp add: insn_clz_def f sample_state_def Let_def)
  then show ?thesis using clz_counts [OF wf_sample_state, of "0x70a73820"] f by simp
qed

theorem ins_then_ext_witness:
  "returns (\<lambda>s'. gpr s' ! 7 = 0x78) (bindE (insn_ins 0x7ca65904 sample_state) (insn_ext 0x7cc73900))"
proof -
  have f: "inst_sa 0x7ca65904 = 4" "inst_rd 0x7ca65904 = 4 + 7" "inst_rs 0x7ca65904 = 5" "inst_rt 0x7ca65904 = 6"
    "inst_sa 0x7cc73900 = 4" "inst_rd 0x7cc73900 = 7" "inst_rs 0x7cc73900 = 6" "inst_rt 0x7cc73900 = 7"
    by (simp_all add: inst_sa_def inst_rd_def inst_rs_def inst_rt_def)
  have "gpr sample_state ! 5 AND mask 8 = 0x78" by (simp add: sample_state_def mask_eq_exp_minus_1)
  then show ?thesis
    using ins_then_ext [of sample_state 4 "0x7ca65904" 7 "0x7cc73900"] f by simp
qed

end
