(* ===== verification/Interp_FP.thy ===== *)
theory Interp_FP
  imports Interp_Mem
begin

text \<open>
  The floating point instructions of \<open>src/interpret.cc\<close>.  Arithmetic on \<open>float\<close> and
  \<open>double\<close> is done by the host's floating point unit: its operations on the bit patterns are
  the record \<open>fpu\<close>, a parameter of the model.  Changing the sign is \<open>fneg\<close> and
  \<open>fabs\<close> on the sign bit, as IEEE 754 has it.  A conversion to \<open>int32_t\<close> of a value that
  does not fit has no defined result, which \<open>f32_to_i32\<close> and \<open>f64_to_i32\<close> report as
  \<open>None\<close>.

  A template over \<open>float\<close> and \<open>double\<close> is two definitions, with the suffixes \<open>_s\<close>
  and \<open>_d\<close>.
\<close>

record fpu =
  f32_add :: "u32 \<Rightarrow> u32 \<Rightarrow> u32"
  f32_sub :: "u32 \<Rightarrow> u32 \<Rightarrow> u32"
  f32_mul :: "u32 \<Rightarrow> u32 \<Rightarrow> u32"
  f32_div :: "u32 \<Rightarrow> u32 \<Rightarrow> u32"
  f32_sqrt :: "u32 \<Rightarrow> u32"
  f32_eq :: "u32 \<Rightarrow> u32 \<Rightarrow> bool"
  f32_lt :: "u32 \<Rightarrow> u32 \<Rightarrow> bool"
  f32_le :: "u32 \<Rightarrow> u32 \<Rightarrow> bool"
  f64_add :: "u64 \<Rightarrow> u64 \<Rightarrow> u64"
  f64_sub :: "u64 \<Rightarrow> u64 \<Rightarrow> u64"
  f64_mul :: "u64 \<Rightarrow> u64 \<Rightarrow> u64"
  f64_div :: "u64 \<Rightarrow> u64 \<Rightarrow> u64"
  f64_sqrt :: "u64 \<Rightarrow> u64"
  f64_eq :: "u64 \<Rightarrow> u64 \<Rightarrow> bool"
  f64_lt :: "u64 \<Rightarrow> u64 \<Rightarrow> bool"
  f64_le :: "u64 \<Rightarrow> u64 \<Rightarrow> bool"
  f64_to_f32 :: "u64 \<Rightarrow> u32"
  f32_to_f64 :: "u32 \<Rightarrow> u64"
  i32_to_f32 :: "u32 \<Rightarrow> u32"
  i32_to_f64 :: "u32 \<Rightarrow> u64"
  f32_to_i32 :: "u32 \<Rightarrow> u32 option"
  f64_to_i32 :: "u64 \<Rightarrow> u32 option"

definition fneg :: "'a::len word \<Rightarrow> 'a word" where
  "fneg x = x XOR push_bit (LENGTH('a) - 1) 1"

definition fabs :: "'a::len word \<Rightarrow> 'a word" where
  "fabs x = x AND NOT (push_bit (LENGTH('a) - 1) 1)"

text \<open>\<open>1.0\<close> and \<open>std::numeric_limits<T>::max()\<close>.\<close>

definition f32_one :: u32 where "f32_one = 0x3f800000"
definition f32_max :: u32 where "f32_max = 0x7f7fffff"
definition f64_one :: u64 where "f64_one = 0x3ff0000000000000"
definition f64_max :: u64 where "f64_max = 0x7fefffffffffffff"

text \<open>\<open>currFpMode\<close> is a static variable that nothing assigns.\<close>

definition currFpMode :: fpMode where "currFpMode = mipsii"

definition inst_fmt :: "u32 \<Rightarrow> nat" where "inst_fmt inst = unat (drop_bit 21 inst AND 31)"
definition inst_ft :: "u32 \<Rightarrow> nat" where "inst_ft inst = unat (drop_bit 16 inst AND 31)"
definition inst_fs :: "u32 \<Rightarrow> nat" where "inst_fs inst = unat (drop_bit 11 inst AND 31)"
definition inst_fd :: "u32 \<Rightarrow> nat" where "inst_fd inst = unat (drop_bit 6 inst AND 31)"

definition set_cpr1_state :: "nat \<Rightarrow> fp_reg_state \<Rightarrow> 'w state_t \<Rightarrow> 'w state_t result" where
  "set_cpr1_state i v s = definedE (i < 32) (Inr (s\<lparr>cpr1_state := (cpr1_state s)[i := v]\<rparr>))"

definition of_conversion :: "'a option \<Rightarrow> 'a result" where
  "of_conversion r = (case r of None \<Rightarrow> Inl Undefined | Some x \<Rightarrow> Inr x)"

subsection \<open>Conversions\<close>

definition insn_truncl :: "u32 \<Rightarrow> 'w state_t \<Rightarrow> 'w state_t result" where
  "insn_truncl inst s = Inl (Exit (-1))"

definition insn_truncw :: "fpu \<Rightarrow> u32 \<Rightarrow> 'w state_t \<Rightarrow> 'w state_t result" where
  "insn_truncw F inst s =
     (let fmt = inst_fmt inst; fd = inst_fd inst; fs = inst_fs inst
      in assertE (currFpMode \<noteq> mips32 \<longrightarrow> even fd \<and> even fs)
        (bindE
          (if fmt = FMT_S then
             bindE (get_sp s fs) (\<lambda>f. bindE (of_conversion (f32_to_i32 F f)) (\<lambda>v.
             bindE (set_sp fd v s) (\<lambda>s1. Inr (histo_inc ''TRUNC_SP_W'' s1))))
           else if fmt = FMT_D then
             bindE (get_dp s fs) (\<lambda>d. bindE (of_conversion (f64_to_i32 F d)) (\<lambda>v.
             bindE (set_sp fd v s) (\<lambda>s1. Inr (histo_inc ''TRUNC_DP_W'' s1))))
           else Inl (Exit (-1)))
          (\<lambda>s1. bindE (if currFpMode \<noteq> mips32 then set_sp (fd + 1) 0 s1 else Inr s1) (\<lambda>s2.
           Inr (pc_inc s2)))))"

definition insn_cvts :: "fpu \<Rightarrow> u32 \<Rightarrow> 'w state_t \<Rightarrow> 'w state_t result" where
  "insn_cvts F inst s =
     (let fmt = inst_fmt inst; fd = inst_fd inst; fs = inst_fs inst
      in assertE (currFpMode \<noteq> mips32 \<longrightarrow> even fd \<and> even fs)
        (bindE
          (if fmt = FMT_D then
             bindE (get_dp s fs) (\<lambda>d.
             bindE (set_sp fd (f64_to_f32 F d) s) (\<lambda>s1.
             bindE (if currFpMode \<noteq> mips32 then set_sp (fd + 1) 0 s1 else Inr s1) (\<lambda>s2.
             set_cpr1_state fd sp s2)))
           else if fmt = FMT_W then
             bindE (get_sp s fs) (\<lambda>w.
             bindE (set_sp fd (i32_to_f32 F w) s) (\<lambda>s1.
             if currFpMode \<noteq> mips32 then set_sp (fd + 1) 0 s1 else Inr s1))
           else Inl (Exit (-1)))
          (\<lambda>s1. Inr (pc_inc s1))))"

definition insn_cvtd :: "fpu \<Rightarrow> u32 \<Rightarrow> 'w state_t \<Rightarrow> 'w state_t result" where
  "insn_cvtd F inst s =
     (let fmt = inst_fmt inst; fd = inst_fd inst; fs = inst_fs inst
      in bindE
        (if fmt = FMT_S then
           bindE (get_sp s fs) (\<lambda>f.
           bindE (set_dp fd (f32_to_f64 F f) s) (\<lambda>s1.
           set_cpr1_state fd dp s1))
         else if fmt = FMT_W then
           bindE (get_sp s fs) (\<lambda>w. set_dp fd (i32_to_f64 F w) s)
         else Inl (Exit (-1)))
        (\<lambda>s1. Inr (pc_inc s1)))"

subsection \<open>Conditional moves\<close>

text \<open>
  \<open>move_sp c fd fs\<close> is \<open>s->cpr1[fd] = c ? s->cpr1[fs] : s->cpr1[fd]\<close>; \<open>move_dp\<close> the two
  assignments for a pair, where the source pair is only read when it is moved.
\<close>

definition move_sp :: "bool \<Rightarrow> nat \<Rightarrow> nat \<Rightarrow> 'w state_t \<Rightarrow> 'w state_t result" where
  "move_sp c fd fs s = bindE (get_sp s (if c then fs else fd)) (\<lambda>v. set_sp fd v s)"

definition move_dp :: "bool \<Rightarrow> nat \<Rightarrow> nat \<Rightarrow> 'w state_t \<Rightarrow> 'w state_t result" where
  "move_dp c fd fs s = bindE (move_sp c fd fs s) (move_sp c (fd + 1) (fs + 1))"

definition insn_movnd :: "u32 \<Rightarrow> 'w state_t \<Rightarrow> 'w state_t result" where
  "insn_movnd inst s =
     (let notZero = gpr s ! inst_rt inst \<noteq> 0
      in bindE (move_dp notZero (inst_fd inst) (inst_fs inst) s) (\<lambda>s1. Inr (pc_inc s1)))"

definition insn_movns :: "u32 \<Rightarrow> 'w state_t \<Rightarrow> 'w state_t result" where
  "insn_movns inst s =
     (let notZero = gpr s ! inst_rt inst \<noteq> 0
      in bindE (move_sp notZero (inst_fd inst) (inst_fs inst) s) (\<lambda>s1. Inr (pc_inc s1)))"

definition insn_movzd :: "u32 \<Rightarrow> 'w state_t \<Rightarrow> 'w state_t result" where
  "insn_movzd inst s =
     bindE (move_dp (gpr s ! inst_rt inst = 0) (inst_fd inst) (inst_fs inst) s) (\<lambda>s1. Inr (pc_inc s1))"

definition insn_movzs :: "u32 \<Rightarrow> 'w state_t \<Rightarrow> 'w state_t result" where
  "insn_movzs inst s =
     bindE (move_sp (gpr s ! inst_rt inst = 0) (inst_fd inst) (inst_fs inst) s) (\<lambda>s1. Inr (pc_inc s1))"

text \<open>
  \<open>insn_histo[mipsInsn::FP_MOVF]\<close> without an increment leaves the counter as it is.
\<close>

definition insn_movcd :: "u32 \<Rightarrow> 'w state_t \<Rightarrow> 'w state_t result" where
  "insn_movcd inst s =
     (let cc = inst_cc inst; tf = drop_bit 16 inst AND 1;
          c = (if tf = 0 then getConditionCode s cc = 0 else getConditionCode s cc = 1)
      in bindE (if c then move_dp True (inst_fd inst) (inst_fs inst) s else Inr s) (\<lambda>s1. Inr (pc_inc s1)))"

definition insn_movcs :: "u32 \<Rightarrow> 'w state_t \<Rightarrow> 'w state_t result" where
  "insn_movcs inst s =
     (let cc = inst_cc inst; tf = drop_bit 16 inst AND 1;
          c = (if tf = 0 then getConditionCode s cc = 0 else getConditionCode s cc \<noteq> 0)
      in bindE (move_sp c (inst_fd inst) (inst_fs inst) s) (\<lambda>s1. Inr (pc_inc s1)))"

definition insn_fmovn :: "u32 \<Rightarrow> 'w state_t \<Rightarrow> 'w state_t result" where
  "insn_fmovn inst s =
     (if inst_fmt inst = FMT_S then insn_movns inst s
      else if inst_fmt inst = FMT_D then insn_movnd inst s
      else Inl (Exit (-1)))"

definition insn_fmovz :: "u32 \<Rightarrow> 'w state_t \<Rightarrow> 'w state_t result" where
  "insn_fmovz inst s =
     (if inst_fmt inst = FMT_S then insn_movzs inst s
      else if inst_fmt inst = FMT_D then insn_movzd inst s
      else Inl (Exit (-1)))"

definition insn_fmovc :: "u32 \<Rightarrow> 'w state_t \<Rightarrow> 'w state_t result" where
  "insn_fmovc inst s =
     (if inst_fmt inst = FMT_S then insn_movcs inst s
      else if inst_fmt inst = FMT_D then insn_movcd inst s
      else Inl (Exit (-1)))"

subsection \<open>Comparison\<close>

text \<open>The body of \<open>fpCmp<T>\<close>, given the comparisons of the two operands as the host evaluates them.\<close>

definition fpCmp_body :: "mipsInsn \<Rightarrow> mipsInsn \<Rightarrow> mipsInsn \<Rightarrow> bool \<Rightarrow> bool \<Rightarrow> bool \<Rightarrow> u32 \<Rightarrow> 'w state_t \<Rightarrow> 'w state_t result" where
  "fpCmp_body h_eq h_lt h_le eq lt le inst s =
     (let cond = unat (inst AND 15); cc = unat (drop_bit 8 inst AND 7);
          put = (\<lambda>v s. s\<lparr>fcr1 := (fcr1 s)[CP1_CR25 := setBit (fcr1 s ! CP1_CR25) (of_bool v) cc]\<rparr>)
      in if cond = COND_UN then Inr (pc_inc (put eq s))
         else if cond = COND_EQ then Inr (pc_inc (put eq (histo_inc h_eq s)))
         else if cond = COND_LT then Inr (pc_inc (put lt (histo_inc h_lt s)))
         else if cond = COND_LE then Inr (pc_inc (put le (histo_inc h_le s)))
         else Inl (Exit (-1)))"

definition fpCmp_s :: "fpu \<Rightarrow> u32 \<Rightarrow> 'w state_t \<Rightarrow> 'w state_t result" where
  "fpCmp_s F inst s =
     bindE (get_sp s (inst_fs inst)) (\<lambda>a. bindE (get_sp s (inst_ft inst)) (\<lambda>b.
     fpCmp_body ''SP_CMP_EQ'' ''SP_CMP_LT'' ''SP_CMP_LE'' (f32_eq F a b) (f32_lt F a b) (f32_le F a b) inst s))"

definition fpCmp_d :: "fpu \<Rightarrow> u32 \<Rightarrow> 'w state_t \<Rightarrow> 'w state_t result" where
  "fpCmp_d F inst s =
     bindE (get_dp s (inst_fs inst)) (\<lambda>a. bindE (get_dp s (inst_ft inst)) (\<lambda>b.
     fpCmp_body ''DP_CMP_EQ'' ''DP_CMP_LT'' ''DP_CMP_LE'' (f64_eq F a b) (f64_lt F a b) (f64_le F a b) inst s))"

definition insn_c :: "fpu \<Rightarrow> u32 \<Rightarrow> 'w state_t \<Rightarrow> 'w state_t result" where
  "insn_c F inst s =
     (if inst_fmt inst = FMT_S then fpCmp_s F inst s
      else if inst_fmt inst = FMT_D then fpCmp_d F inst s
      else Inl (Exit (-1)))"

subsection \<open>Arithmetic\<close>

text \<open>The value each operation assigns to \<open>_fd\<close> and the counter it increments.\<close>

fun fp_value_s :: "fpu \<Rightarrow> fpOperation \<Rightarrow> u32 \<Rightarrow> u32 \<Rightarrow> (u32 \<times> mipsInsn) result" where
  "fp_value_s F fp_abs a b = Inr (fabs a, ''SP_ABS'')"
| "fp_value_s F fp_neg a b = Inr (fneg a, ''SP_NEG'')"
| "fp_value_s F fp_mov a b = Inr (a, ''SP_MOV'')"
| "fp_value_s F fp_add a b = Inr (f32_add F a b, ''SP_ADD'')"
| "fp_value_s F fp_sub a b = Inr (f32_sub F a b, ''SP_SUB'')"
| "fp_value_s F fp_mul a b = Inr (f32_mul F a b, ''SP_MUL'')"
| "fp_value_s F fp_div a b = Inr (if f32_eq F b 0 then f32_max else f32_div F a b, ''SP_DIV'')"
| "fp_value_s F fp_sqrt a b = Inr (f32_sqrt F a, ''SP_SQRT'')"
| "fp_value_s F fp_rsqrt a b = Inr (f32_div F f32_one (f32_sqrt F a), ''SP_RSQRT'')"
| "fp_value_s F fp_recip a b = Inr (f32_div F f32_one a, ''SP_RECIP'')"
| "fp_value_s F _ a b = Inl Undefined"

fun fp_value_d :: "fpu \<Rightarrow> fpOperation \<Rightarrow> u64 \<Rightarrow> u64 \<Rightarrow> (u64 \<times> mipsInsn) result" where
  "fp_value_d F fp_abs a b = Inr (fabs a, ''DP_ABS'')"
| "fp_value_d F fp_neg a b = Inr (fneg a, ''DP_NEG'')"
| "fp_value_d F fp_mov a b = Inr (a, ''DP_MOV'')"
| "fp_value_d F fp_add a b = Inr (f64_add F a b, ''DP_ADD'')"
| "fp_value_d F fp_sub a b = Inr (f64_sub F a b, ''DP_SUB'')"
| "fp_value_d F fp_mul a b = Inr (f64_mul F a b, ''DP_MUL'')"
| "fp_value_d F fp_div a b = Inr (if f64_eq F b 0 then f64_max else f64_div F a b, ''DP_DIV'')"
| "fp_value_d F fp_sqrt a b = Inr (f64_sqrt F a, ''DP_SQRT'')"
| "fp_value_d F fp_rsqrt a b = Inr (f64_div F f64_one (f64_sqrt F a), ''DP_RSQRT'')"
| "fp_value_d F fp_recip a b = Inr (f64_div F f64_one a, ''DP_RECIP'')"
| "fp_value_d F _ a b = Inl Undefined"

definition execFP_s :: "fpu \<Rightarrow> fpOperation \<Rightarrow> u32 \<Rightarrow> 'w state_t \<Rightarrow> 'w state_t result" where
  "execFP_s F op inst s =
     bindE (get_sp s (inst_fs inst)) (\<lambda>a. bindE (get_sp s (inst_ft inst)) (\<lambda>b.
     bindE (fp_value_s F op a b) (\<lambda>(v, h).
     bindE (set_sp (inst_fd inst) v s) (\<lambda>s1. Inr (pc_inc (histo_inc h s1))))))"

definition execFP_d :: "fpu \<Rightarrow> fpOperation \<Rightarrow> u32 \<Rightarrow> 'w state_t \<Rightarrow> 'w state_t result" where
  "execFP_d F op inst s =
     bindE (get_dp s (inst_fs inst)) (\<lambda>a. bindE (get_dp s (inst_ft inst)) (\<lambda>b.
     bindE (fp_value_d F op a b) (\<lambda>(v, h).
     bindE (set_dp (inst_fd inst) v s) (\<lambda>s1. Inr (pc_inc (histo_inc h s1))))))"

definition do_fp_op :: "fpu \<Rightarrow> fpOperation \<Rightarrow> u32 \<Rightarrow> 'w state_t \<Rightarrow> 'w state_t result" where
  "do_fp_op F op inst s =
     (let fd = inst_fd inst
      in if inst_fmt inst = FMT_S then
           assertE (even fd)
             (bindE (execFP_s F op inst s) (\<lambda>s1.
              bindE (set_sp (fd + 1) 0 s1) (\<lambda>s2.
              bindE (set_cpr1_state fd sp s2) (\<lambda>s3.
              set_cpr1_state (fd + 1) unknown s3))))
         else if inst_fmt inst = FMT_D then
           bindE (execFP_d F op inst s) (\<lambda>s1. set_cpr1_state fd dp s1)
         else Inl Undefined)"

text \<open>The switch on \<open>lowop\<close> in \<open>execCoproc1\<close>.\<close>

definition exec_fp_lowop :: "fpu \<Rightarrow> u32 \<Rightarrow> 'w state_t \<Rightarrow> 'w state_t result" where
  "exec_fp_lowop F inst s =
     (let lowop = inst_funct inst
      in if lowop div 16 = 3 then insn_c F inst s
         else if lowop = 0x0 then do_fp_op F fp_add inst s
         else if lowop = 0x1 then do_fp_op F fp_sub inst s
         else if lowop = 0x2 then do_fp_op F fp_mul inst s
         else if lowop = 0x3 then do_fp_op F fp_div inst s
         else if lowop = 0x4 then do_fp_op F fp_sqrt inst s
         else if lowop = 0x5 then do_fp_op F fp_abs inst s
         else if lowop = 0x6 then do_fp_op F fp_mov inst s
         else if lowop = 0x7 then do_fp_op F fp_neg inst s
         else if lowop = 0x9 then insn_truncl inst s
         else if lowop = 0xd then insn_truncw F inst s
         else if lowop = 0x11 then insn_fmovc inst s
         else if lowop = 0x12 then insn_fmovz inst s
         else if lowop = 0x13 then insn_fmovn inst s
         else if lowop = 0x15 then do_fp_op F fp_recip inst s
         else if lowop = 0x16 then do_fp_op F fp_rsqrt inst s
         else if lowop = 0x20 then insn_cvts F inst s
         else if lowop = 0x21 then insn_cvtd F inst s
         else Inl (Exit (-1)))"

subsection \<open>Coprocessor 1x\<close>

definition c1xExec_s :: "fpu \<Rightarrow> u32 \<Rightarrow> 'w state_t \<Rightarrow> 'w state_t result" where
  "c1xExec_s F inst s =
     bindE (get_sp s (c1x_fr inst)) (\<lambda>r. bindE (get_sp s (c1x_fs inst)) (\<lambda>a. bindE (get_sp s (c1x_ft inst)) (\<lambda>b.
     bindE
       (if c1x_id inst = 4 then set_sp (c1x_fd inst) (f32_add F (f32_mul F a b) r) s
        else if c1x_id inst = 5 then set_sp (c1x_fd inst) (f32_sub F (f32_mul F a b) r) s
        else Inl (Exit (-1)))
       (\<lambda>s1. Inr (pc_inc s1)))))"

definition c1xExec_d :: "fpu \<Rightarrow> u32 \<Rightarrow> 'w state_t \<Rightarrow> 'w state_t result" where
  "c1xExec_d F inst s =
     bindE (get_dp s (c1x_fr inst)) (\<lambda>r. bindE (get_dp s (c1x_fs inst)) (\<lambda>a. bindE (get_dp s (c1x_ft inst)) (\<lambda>b.
     bindE
       (if c1x_id inst = 4 then set_dp (c1x_fd inst) (f64_add F (f64_mul F a b) r) s
        else if c1x_id inst = 5 then set_dp (c1x_fd inst) (f64_sub F (f64_mul F a b) r) s
        else Inl (Exit (-1)))
       (\<lambda>s1. Inr (pc_inc s1)))))"

definition execCoproc1x :: "bool \<Rightarrow> fpu \<Rightarrow> u32 \<Rightarrow> 'w state_t \<Rightarrow> 'w state_t result" where
  "execCoproc1x EL F inst s =
     (if lc1x_id inst = 0 then lxc1_w EL inst s
      else if lc1x_id inst = 1 then lxc1_d EL inst s
      else if c1x_fmt inst = 0 then c1xExec_s F inst s
      else if c1x_fmt inst = 1 then c1xExec_d F inst s
      else Inl (Exit (-1)))"

subsection \<open>Frames\<close>

lemmas fp_insn_defs = insn_truncl_def insn_truncw_def insn_cvts_def insn_cvtd_def insn_movns_def insn_movnd_def
  insn_movzs_def insn_movzd_def insn_movcs_def insn_movcd_def insn_fmovn_def insn_fmovz_def insn_fmovc_def
  move_sp_def move_dp_def get_sp_def get_dp_def set_sp_def set_dp_def set_cpr1_state_def of_conversion_def

lemma fp_moves_quiet [wf_intros]:
  assumes "wf_state s"
  shows "on_ok (quiet_step s) (insn_fmovn inst s)" "on_ok (quiet_step s) (insn_fmovz inst s)"
    "on_ok (quiet_step s) (insn_fmovc inst s)"
  using assms
  by (auto simp: fp_insn_defs Let_def quiet_step_def plain_step_def wf_state_def definedE_def)

lemma fp_conversions_quiet [wf_intros]:
  assumes "wf_state s"
  shows "on_ok (quiet_step s) (insn_truncl inst s)" "on_ok (quiet_step s) (insn_truncw F inst s)"
    "on_ok (quiet_step s) (insn_cvts F inst s)" "on_ok (quiet_step s) (insn_cvtd F inst s)"
  using assms
  by (auto simp: fp_insn_defs Let_def quiet_step_def plain_step_def wf_state_def definedE_def assertE_def
      split: option.splits)

lemma fp_compare_quiet [wf_intros]: "wf_state s \<Longrightarrow> on_ok (quiet_step s) (insn_c F inst s)"
  by (auto simp: insn_c_def fpCmp_s_def fpCmp_d_def fpCmp_body_def fp_insn_defs Let_def quiet_step_def
      plain_step_def wf_state_def definedE_def)

lemma execFP_quiet:
  assumes "wf_state s"
  shows "on_ok (quiet_step s) (execFP_s F op inst s)" "on_ok (quiet_step s) (execFP_d F op inst s)"
  using assms
  by (cases op; auto simp: execFP_s_def execFP_d_def fp_insn_defs quiet_step_def plain_step_def wf_state_def
      definedE_def)+

lemma set_fp_quiet:
  "quiet_step s t \<Longrightarrow> on_ok (quiet_step s) (set_sp i v t)"
  "quiet_step s t \<Longrightarrow> on_ok (quiet_step s) (set_cpr1_state i x t)"
  by (auto simp: fp_insn_defs quiet_step_def plain_step_def wf_state_def definedE_def)

lemma do_fp_op_quiet [wf_intros]:
  assumes "wf_state s"
  shows "on_ok (quiet_step s) (do_fp_op F op inst s)"
  using execFP_quiet [OF assms, of F op inst]
  by (auto simp: do_fp_op_def Let_def assertE_def intro!: set_fp_quiet on_ok_bindE [where Q = "quiet_step s"])

lemma c1x_quiet:
  assumes "wf_state s"
  shows "on_ok (quiet_step s) (c1xExec_s F inst s)" "on_ok (quiet_step s) (c1xExec_d F inst s)"
  using assms
  by (auto simp: c1xExec_s_def c1xExec_d_def fp_insn_defs quiet_step_def plain_step_def wf_state_def definedE_def)

lemma coproc1_quiet [wf_intros]:
  assumes "wf_state s"
  shows "on_ok (quiet_step s) (exec_fp_lowop F inst s)" "on_ok (quiet_step s) (execCoproc1x EL F inst s)"
  unfolding exec_fp_lowop_def execCoproc1x_def Let_def
  by (intro on_ok_if on_ok_simps do_fp_op_quiet fp_compare_quiet fp_conversions_quiet fp_moves_quiet c1x_quiet
      load_insns_quiet assms)+

subsection \<open>Properties of the floating point instructions\<close>

lemma fp_fields_less [simp]: "inst_ft inst < 32" "inst_fs inst < 32" "inst_fd inst < 32"
  by (simp_all add: inst_ft_def inst_fs_def inst_fd_def)

lemma fpCmp_body_sets:
  assumes "wf_state s" "unat (inst AND 15) \<in> {COND_UN, COND_EQ, COND_LT, COND_LE}"
  defines "cc \<equiv> unat (drop_bit 8 inst AND 7)" and "cond \<equiv> unat (inst AND 15)"
  shows "returns (\<lambda>s'. (\<forall>k < 32. getConditionCode s' k =
      (if k = cc then of_bool (if cond = COND_LT then lt else if cond = COND_LE then le else eq)
       else getConditionCode s k)) \<and> cpr1 s' = cpr1 s \<and> gpr s' = gpr s) (fpCmp_body h1 h2 h3 eq lt le inst s)"
proof -
  have "cc < 8" by (simp add: cc_def)
  then show ?thesis
    using assms(1,2) unfolding cond_def
    by (auto simp: fpCmp_body_def Let_def machine_consts wf_state_def getConditionCode_bit bit_setBit cc_def [symmetric])
qed


text \<open>
  A double precision operation writes its result into the destination pair, counts the
  instruction, and leaves the other 30 floating point registers and the integer registers alone.
\<close>

theorem fp_double_op:
  assumes "wf_state s" "inst_fmt inst = FMT_D" "inst_fs inst < 31" "inst_ft inst < 31" "inst_fd inst < 31"
    and "get_dp s (inst_fs inst) = Inr a" "get_dp s (inst_ft inst) = Inr b" "fp_value_d F op a b = Inr (v, h)"
  shows "returns (\<lambda>s'. get_dp s' (inst_fd inst) = Inr v \<and> gpr s' = gpr s
      \<and> (\<forall>i. i \<noteq> inst_fd inst \<and> i \<noteq> inst_fd inst + 1 \<longrightarrow> cpr1 s' ! i = cpr1 s ! i)
      \<and> insn_histo s' = (insn_histo s)(h := insn_histo s h + 1)) (do_fp_op F op inst s)"
  using assms join_halves [of v]
  by (simp add: do_fp_op_def execFP_d_def Let_def machine_consts set_dp_def set_cpr1_state_def get_dp_def wf_state_def
      histo_inc_def pc_inc_def)

text \<open>C.EQ.D \<open>$f0, $f2\<close> and C.EQ.S \<open>$f0, $f2\<close> into condition code 1, and NEG.D \<open>$f4, $f2\<close>.\<close>

lemma sample_fp_fields:
  "inst_fmt 0x46220132 = FMT_D" "inst_fs 0x46220132 = 0" "inst_ft 0x46220132 = 2"
  "inst_fmt 0x46201107 = FMT_D" "inst_fs 0x46201107 = 2" "inst_ft 0x46201107 = 0" "inst_fd 0x46201107 = 4"
  "get_dp sample_state 0 = Inr 0" "get_dp sample_state 2 = Inr 0"
  "inst_fmt 0x46020132 = FMT_S" "inst_fs 0x46020132 = 0" "inst_ft 0x46020132 = 2"
  "get_sp sample_state 0 = Inr 0" "get_sp sample_state 2 = Inr 0"
  by (simp_all add: inst_fmt_def inst_fs_def inst_ft_def inst_fd_def machine_consts get_dp_def get_sp_def sample_state_def
      state_t_new_def)


theorem fp_double_op_witness:
  "\<forall>F. returns (\<lambda>s'. get_dp s' 4 = Inr 0x8000000000000000) (do_fp_op F fp_neg 0x46201107 sample_state)"
proof
  fix F
  have v: "fp_value_d F fp_neg 0 0 = Inr (0x8000000000000000, ''DP_NEG'')" by (simp add: fneg_def)
  show "returns (\<lambda>s'. get_dp s' 4 = Inr 0x8000000000000000) (do_fp_op F fp_neg 0x46201107 sample_state)"
    using fp_double_op [OF wf_sample_state, of "0x46201107" 0 0 F fp_neg] v
    by (auto simp: sample_fp_fields elim: returns_mono)
qed

end
