(* ===== verification/Monitor.thy ===== *)
theory Monitor
  imports Interp_Mem
begin

text \<open>
  The monitor calls of \<open>src/interpret.cc\<close> (\<open>_monitorBody\<close>, \<open>mkMonitorVectors\<close>) and
  \<open>per_page_rdwr\<close> of \<open>src/sparse_mem.hh\<close>.

  The operating system is the record \<open>host_os\<close>, a parameter: each system call takes and
  returns the state of the system, and returns the C result (\<open>int32_t\<close> after conversion);
  \<open>os_read\<close> and \<open>os_getcwd\<close> also return the bytes the kernel stores in the buffer.  That a
  call stores at most the number of bytes it was given is the named assumption \<open>host_ok\<close>,
  where a property needs it.  The global variables the calls read are the record \<open>globals\<close>.
\<close>

record 'w host_os =
  os_open :: "u8 list \<Rightarrow> u32 \<Rightarrow> 'w \<Rightarrow> u32 \<times> 'w"
  os_read :: "u32 \<Rightarrow> u64 \<Rightarrow> 'w \<Rightarrow> u8 list \<times> u32 \<times> 'w"
  os_write :: "u32 \<Rightarrow> u8 list \<Rightarrow> 'w \<Rightarrow> u32 \<times> 'w"
  os_lseek :: "u32 \<Rightarrow> u64 \<Rightarrow> u32 \<Rightarrow> 'w \<Rightarrow> u64 \<times> 'w"
  os_close :: "u32 \<Rightarrow> 'w \<Rightarrow> u32 \<times> 'w"
  os_getcwd :: "u64 \<Rightarrow> 'w \<Rightarrow> u8 list \<times> 'w"
  os_chdir :: "u8 list \<Rightarrow> 'w \<Rightarrow> u32 \<times> 'w"
  os_stdin_file :: "'w \<Rightarrow> u8 list option"

definition host_ok :: "'w host_os \<Rightarrow> bool" where
  "host_ok H \<longleftrightarrow> (\<forall>fd n w. length (fst (os_read H fd n w)) \<le> unat n)
     \<and> (\<forall>n w. length (fst (os_getcwd H n w)) \<le> unat n)"

record globals =
  sysArgc :: int
  sysArgv :: "u8 list list"
  isMipsEL :: bool
  cycle :: u64

subsection \<open>Bytes and strings in memory\<close>

definition store_bytes :: "memory \<Rightarrow> nat \<Rightarrow> u8 list \<Rightarrow> memory result" where
  "store_bytes m a bs =
     definedE (a + length bs \<le> sz)
       (Inr (\<lambda>b. if a \<le> unat b \<and> unat b < a + length bs then bs ! (unat b - a) else m b))"

definition load_bytes :: "memory \<Rightarrow> nat \<Rightarrow> nat \<Rightarrow> u8 list result" where
  "load_bytes m a n = definedE (a + n \<le> sz) (Inr (map (\<lambda>i. m (of_nat (a + i))) [0..<n]))"

text \<open>The C string at an address: the bytes up to the first zero, which has to be inside the mapping.\<close>

function c_string :: "memory \<Rightarrow> nat \<Rightarrow> u8 list result" where
  "c_string m a =
     (if a < sz then
        (if m (of_nat a) = 0 then Inr []
         else bindE (c_string m (Suc a)) (\<lambda>r. Inr (m (of_nat a) # r)))
      else Inl Undefined)"
  by pat_completeness auto
termination by (relation "measure (\<lambda>(m, a). sz - a)") auto

declare c_string.simps [simp del]

text \<open>\<open>strcpy\<close>.\<close>

definition strcpy :: "memory \<Rightarrow> nat \<Rightarrow> u8 list \<Rightarrow> memory result" where
  "strcpy m a str = store_bytes m a (str @ [0])"

definition per_page_rdwr_write :: "'w host_os \<Rightarrow> memory \<Rightarrow> u32 \<Rightarrow> u64 \<Rightarrow> u64 \<Rightarrow> 'w \<Rightarrow> (u32 \<times> 'w) result" where
  "per_page_rdwr_write H m fd offset nbytes w =
     bindE (load_bytes m (unat offset) (unat nbytes)) (\<lambda>bs. Inr (os_write H fd bs w))"

definition per_page_rdwr_read :: "'w host_os \<Rightarrow> memory \<Rightarrow> u32 \<Rightarrow> u64 \<Rightarrow> u64 \<Rightarrow> 'w \<Rightarrow> (memory \<times> u32 \<times> 'w) result" where
  "per_page_rdwr_read H m fd offset nbytes w =
     (case os_read H fd nbytes w of (bs, rc, w') \<Rightarrow>
        bindE (store_bytes m (unat offset) bs) (\<lambda>m'. Inr (m', rc, w')))"

subsection \<open>The calls\<close>

text \<open>Each takes the state and returns it with \<open>v0\<close>, the memory and the system updated.\<close>

definition mon_open :: "'w host_os \<Rightarrow> 'w state_t \<Rightarrow> 'w state_t result" where
  "mon_open H s =
     bindE (c_string (mem s) (unat (get_raw_ptr (scast (gpr s ! R_a0))))) (\<lambda>path.
     let flags = remapIOFlags (gpr s ! R_a1)
     in case os_open H path flags (os s) of (fd, w) \<Rightarrow> Inr (wr_gpr R_v0 fd (s\<lparr>os := w\<rparr>)))"

definition mon_rdwr_read :: "'w host_os \<Rightarrow> u32 \<Rightarrow> u64 \<Rightarrow> 'w state_t \<Rightarrow> 'w state_t result" where
  "mon_rdwr_read H fd n s =
     bindE (per_page_rdwr_read H (mem s) fd (scast (gpr s ! R_a1)) n (os s)) (\<lambda>(m, rc, w).
     Inr (wr_gpr R_v0 rc (s\<lparr>mem := m, os := w\<rparr>)))"

definition mon_read :: "'w host_os \<Rightarrow> 'w state_t \<Rightarrow> 'w state_t result" where
  "mon_read H s =
     (let fd = gpr s ! R_a0; nr = gpr s ! R_a2;
          s0 = s\<lparr>mem := coalesce (mem s) (scast (gpr s ! R_a1)) (scast nr)\<rparr>
      in if fd = 0 then
           (case os_stdin_file H (os s0) of
              None \<Rightarrow> Inl Assert
            | Some path \<Rightarrow>
               (case os_open H path (hostIOFlags ! 0) (os s0) of (fd', w) \<Rightarrow>
                  bindE (mon_rdwr_read H fd' (scast nr) (s0\<lparr>os := w\<rparr>)) (\<lambda>s1.
                  case os_close H fd' (os s1) of (_, w') \<Rightarrow> Inr (s1\<lparr>os := w'\<rparr>))))
         else mon_rdwr_read H fd (scast nr) s0)"

definition mon_write :: "'w host_os \<Rightarrow> 'w state_t \<Rightarrow> 'w state_t result" where
  "mon_write H s =
     (let fd = gpr s ! R_a0; nr = gpr s ! R_a2
      in bindE (per_page_rdwr_write H (mem s) fd (scast (gpr s ! R_a1)) (scast nr) (os s)) (\<lambda>(rc, w).
         Inr (wr_gpr R_v0 rc (s\<lparr>os := w\<rparr>))))"

definition mon_lseek :: "'w host_os \<Rightarrow> 'w state_t \<Rightarrow> 'w state_t result" where
  "mon_lseek H s =
     (case os_lseek H (gpr s ! R_a0) (scast (gpr s ! R_a1)) (gpr s ! R_a2) (os s) of (rc, w) \<Rightarrow>
        Inr (wr_gpr R_v0 (ucast rc) (s\<lparr>os := w\<rparr>)))"

definition mon_close :: "'w host_os \<Rightarrow> 'w state_t \<Rightarrow> 'w state_t result" where
  "mon_close H s =
     (let fd = gpr s ! R_a0
      in if 2 <s fd then (case os_close H fd (os s) of (rc, w) \<Rightarrow> Inr (wr_gpr R_v0 rc (s\<lparr>os := w\<rparr>)))
         else Inr (wr_gpr R_v0 0 s))"

definition mon_gettimeofday :: "'w state_t \<Rightarrow> 'w state_t result" where
  "mon_gettimeofday s =
     (let uptr = gpr s ! R_a0
      in bindE (mem_set (mem s) (ucast uptr) (0 :: u32)) (\<lambda>m.
         bindE (mem_set m (ucast (uptr + 4)) (0 :: u32)) (\<lambda>m'.
         Inr (wr_gpr R_v0 0 (s\<lparr>mem := m'\<rparr>)))))"

definition mon_times :: "'w state_t \<Rightarrow> 'w state_t result" where
  "mon_times s =
     (let uptr = gpr s ! R_a0
      in bindE (foldE (\<lambda>i m. mem_set m (ucast (uptr + i)) (0 :: u32)) [0, 1, 2, 3] (mem s)) (\<lambda>m.
         Inr (wr_gpr R_v0 0 (s\<lparr>mem := m\<rparr>))))"

definition getarg :: "bool \<Rightarrow> globals \<Rightarrow> u32 \<Rightarrow> nat \<Rightarrow> memory \<Rightarrow> memory result" where
  "getarg EL G a0 i m =
     (let arrayAddr = a0 + 4 * of_nat i
      in bindE (mem_get m (ucast arrayAddr)) (\<lambda>p.
         definedE (i < length (sysArgv G)) (strcpy m (unat (bswap EL p :: u32)) (sysArgv G ! i))))"

definition mon_getargs :: "bool \<Rightarrow> globals \<Rightarrow> 'w state_t \<Rightarrow> 'w state_t result" where
  "mon_getargs EL G s =
     bindE (foldE (getarg EL G (gpr s ! R_a0)) [0..<nat (min (int MARGS) (sysArgc G))] (mem s)) (\<lambda>m.
     Inr (wr_gpr R_v0 (word_of_int (sysArgc G)) (s\<lparr>mem := m\<rparr>)))"

definition mon_getcwd :: "'w host_os \<Rightarrow> 'w state_t \<Rightarrow> 'w state_t result" where
  "mon_getcwd H s =
     (case os_getcwd H (ucast (gpr s ! R_a1)) (os s) of (bs, w) \<Rightarrow>
        bindE (store_bytes (mem s) (unat (gpr s ! R_a0)) bs) (\<lambda>m.
        Inr (wr_gpr R_v0 (gpr s ! R_a0) (s\<lparr>mem := m, os := w\<rparr>))))"

definition mon_chdir :: "'w host_os \<Rightarrow> 'w state_t \<Rightarrow> 'w state_t result" where
  "mon_chdir H s =
     bindE (c_string (mem s) (unat (get_raw_ptr (scast (gpr s ! R_a0))))) (\<lambda>path.
     case os_chdir H path (os s) of (rc, w) \<Rightarrow> Inr (wr_gpr R_v0 rc (s\<lparr>os := w\<rparr>)))"

definition mon_get_mem_info :: "bool \<Rightarrow> 'w state_t \<Rightarrow> 'w state_t result" where
  "mon_get_mem_info EL s =
     (let a0 = gpr s ! R_a0
      in bindE (mem_set (mem s) (ucast (a0 + 0)) (bswap EL K1SIZE)) (\<lambda>m.
         bindE (mem_set m (ucast (a0 + 4)) (0 :: u32)) (\<lambda>m'.
         bindE (mem_set m' (ucast (a0 + 8)) (0 :: u32)) (\<lambda>m''.
         Inr (wr_gpr R_v0 0 (s\<lparr>mem := m''\<rparr>))))))"

definition monitor_reason :: "u32 \<Rightarrow> nat" where
  "monitor_reason inst =
     unat (drop_bit 1 (drop_bit RSVD_INSTRUCTION_ARG_SHIFT inst AND RSVD_INSTRUCTION_ARG_MASK))"

definition monitor_call :: "bool \<Rightarrow> globals \<Rightarrow> 'w host_os \<Rightarrow> nat \<Rightarrow> 'w state_t \<Rightarrow> 'w state_t result" where
  "monitor_call EL G H reason s =
     (if reason = 6 then mon_open H s
      else if reason = 7 then mon_read H s
      else if reason = 8 then mon_write H s
      else if reason = 9 then mon_lseek H s
      else if reason = 10 then mon_close H s
      else if reason = 33 then mon_gettimeofday s
      else if reason = 34 then mon_times s
      else if reason = 35 then mon_getargs EL G s
      else if reason = 37 then mon_getcwd H s
      else if reason = 38 then mon_chdir H s
      else if reason = 50 then Inr (wr_gpr R_v0 (ucast (cycle G)) s)
      else if reason = 55 then mon_get_mem_info EL s
      else Inl (Exit (-1)))"

definition monitorBody :: "bool \<Rightarrow> globals \<Rightarrow> 'w host_os \<Rightarrow> u32 \<Rightarrow> 'w state_t \<Rightarrow> 'w state_t result" where
  "monitorBody EL G H inst s =
     bindE (monitor_call EL G H (monitor_reason inst) s) (\<lambda>s1.
     Inr (histo_inc ''MONITOR'' (s1\<lparr>pc := gpr s1 ! 31\<rparr>)))"

subsection \<open>The vectors\<close>

definition monitor_insn :: "u32 \<Rightarrow> u32" where
  "monitor_insn loop =
     RSVD_INSTRUCTION OR push_bit RSVD_INSTRUCTION_ARG_SHIFT (drop_bit 2 loop AND RSVD_INSTRUCTION_ARG_MASK)"

definition monitor_loops :: "u32 list" where
  "monitor_loops = map (\<lambda>i. 4 * of_nat i) [0..<IDT_MONITOR_SIZE div 4]"

definition mkMonitorVectors :: "globals \<Rightarrow> 'w state_t \<Rightarrow> 'w state_t result" where
  "mkMonitorVectors G s =
     bindE (foldE (\<lambda>loop m. mem_set m (ucast (IDT_MONITOR_BASE + loop)) (bswap (isMipsEL G) (monitor_insn loop)))
        monitor_loops (mem s)) (\<lambda>m.
     Inr (s\<lparr>mem := m\<rparr>))"

subsection \<open>Frames\<close>

text \<open>What every monitor call keeps, and that only some of them touch the memory.\<close>

definition monitor_frame :: "'w state_t \<Rightarrow> 'w state_t \<Rightarrow> bool" where
  "monitor_frame s s' \<longleftrightarrow> wf_state s' \<and> pc s' = pc s \<and> icnt s' = icnt s \<and> brk s' = brk s \<and> maxicnt s' = maxicnt s \<and>
     linux_image s' = linux_image s \<and> (\<forall>r. r \<noteq> R_v0 \<longrightarrow> gpr s' ! r = gpr s ! r) \<and> lo s' = lo s \<and> hi s' = hi s \<and>
     cpr0 s' = cpr0 s \<and> cpr1 s' = cpr1 s \<and> fcr1 s' = fcr1 s"

lemmas monitor_defs = mon_open_def mon_rdwr_read_def mon_read_def mon_write_def mon_lseek_def mon_close_def
  mon_gettimeofday_def mon_times_def mon_getargs_def mon_getcwd_def mon_chdir_def mon_get_mem_info_def

lemma monitor_frame_updates:
  assumes "wf_state s"
  shows "monitor_frame s (wr_gpr R_v0 v s)" "monitor_frame s (wr_gpr R_v0 v (s\<lparr>os := w\<rparr>))"
    "monitor_frame s (wr_gpr R_v0 v (s\<lparr>mem := m\<rparr>))" "monitor_frame s (wr_gpr R_v0 v (s\<lparr>mem := m, os := w\<rparr>))"
  using assms by (simp_all add: monitor_frame_def wf_state_def)

lemma monitor_frame_os: "monitor_frame s s' \<Longrightarrow> monitor_frame s (s'\<lparr>os := w\<rparr>)"
  and monitor_frame_from_os: "monitor_frame (s\<lparr>os := w\<rparr>) s' \<Longrightarrow> monitor_frame s s'"
  unfolding monitor_frame_def wf_state_def by auto

lemma on_ok_prod: "(\<And>x y. p = (x, y) \<Longrightarrow> on_ok P (f x y)) \<Longrightarrow> on_ok P (case p of (x, y) \<Rightarrow> f x y)"
  by (cases p) simp

lemma monitor_calls_frame:
  assumes "wf_state s"
  shows "on_ok (monitor_frame s) (mon_open H s)" "on_ok (monitor_frame s) (mon_rdwr_read H fd n s)"
    "on_ok (monitor_frame s) (mon_write H s)" "on_ok (monitor_frame s) (mon_lseek H s)"
    "on_ok (monitor_frame s) (mon_close H s)" "on_ok (monitor_frame s) (mon_gettimeofday s)"
    "on_ok (monitor_frame s) (mon_times s)" "on_ok (monitor_frame s) (mon_getargs EL G s)"
    "on_ok (monitor_frame s) (mon_getcwd H s)" "on_ok (monitor_frame s) (mon_chdir H s)"
    "on_ok (monitor_frame s) (mon_get_mem_info EL s)"
  unfolding monitor_defs Let_def
  by (intro on_ok_bindE_any on_ok_prod on_ok_if on_ok_simps(2) [THEN iffD2] monitor_frame_updates [OF assms])+

lemma mon_read_frame:
  assumes "wf_state s"
  shows "on_ok (monitor_frame s) (mon_read H s)"
proof -
  have wf: "wf_state (s\<lparr>os := w\<rparr>)" for w using assms by (simp add: wf_state_def)
  have "on_ok (monitor_frame s) (mon_rdwr_read H fd n (s\<lparr>os := w\<rparr>))" for fd n w
    using monitor_calls_frame(2) [OF wf, of w H fd n] by (auto simp: on_ok_def intro: monitor_frame_from_os split: sum.splits)
  then show ?thesis
    using monitor_calls_frame(2) [OF assms]
    by (auto simp: mon_read_def Let_def coalesce_def split: option.split
        intro!: on_ok_prod monitor_frame_os on_ok_bindE [where Q = "monitor_frame s"])
qed

lemma monitor_call_frame: "wf_state s \<Longrightarrow> on_ok (monitor_frame s) (monitor_call EL G H r s)"
  unfolding monitor_call_def
  by (intro on_ok_if monitor_calls_frame mon_read_frame on_ok_simps(1) on_ok_simps(2) [THEN iffD2] monitor_frame_updates)

subsection \<open>Strings and the vectors\<close>

lemma c_stringI:
  assumes "a + length str < sz" "\<And>i. i < length str \<Longrightarrow> m (of_nat (a + i)) = str ! i" "m (of_nat (a + length str)) = 0"
    and "0 \<notin> set str"
  shows "c_string m a = Inr str"
  using assms
proof (induction str arbitrary: a)
  case Nil
  then show ?case by (simp add: c_string.simps)
next
  case (Cons x str)
  have "c_string m (Suc a) = Inr str"
    using Cons.prems(2) [of "Suc _"] Cons.prems by (intro Cons.IH) (auto simp: algebra_simps)
  moreover have "m (of_nat a) = x" "x \<noteq> 0" using Cons.prems(2) [of 0] Cons.prems(4) by auto
  ultimately show ?case using Cons.prems(1) by (subst c_string.simps) simp
qed

lemma c_string_stored:
  assumes "0 \<notin> set str" "strcpy m a str = Inr m'"
  shows "c_string m' a = Inr str"
proof -
  have le: "a + length str < sz" and m': "m' = (\<lambda>b. if a \<le> unat b \<and> unat b < a + length (str @ [0])
      then (str @ [0]) ! (unat b - a) else m b)"
    using assms(2) by (auto simp: strcpy_def store_bytes_def)
  have "m' (of_nat (a + i)) = (str @ [0]) ! i" if "i \<le> length str" for i
  proof -
    have "a + i < 2 ^ LENGTH(32)" using le that by (simp add: sz_def)
    then have "unat (of_nat (a + i) :: u32) = a + i"
      by (simp only: unsigned_of_nat take_bit_nat_eq_self of_nat_id)
    with that show ?thesis by (simp add: m')
  qed
  with le assms(1) show ?thesis by (intro c_stringI) (auto simp: nth_append)
qed

lemma monitor_insn_value:
  assumes "i < 512"
  shows "unat (monitor_insn (4 * of_nat i)) = 64 * i + 5"
proof -
  have i: "unat (of_nat i :: u32) = i" "unat (4 * of_nat i :: u32) = 4 * i"
    using assms by (simp_all add: unsigned_of_nat take_bit_nat_eq_self unat_word_ariths(2))
  have "drop_bit 2 (4 * of_nat i :: u32) = of_nat i"
    by (simp only: word_unat_eq_iff unat_drop_bit i) simp
  moreover have "of_nat i AND RSVD_INSTRUCTION_ARG_MASK = (of_nat i :: u32)"
  proof -
    have "(0xFFFFF :: u32) = mask 20" by (simp add: mask_eq_exp_minus_1)
    moreover have "take_bit 20 (of_nat i :: u32) = of_nat i"
      using assms by (simp only: word_unat_eq_iff unat_take_bit i) simp
    ultimately show ?thesis by (simp only: machine_consts take_bit_eq_mask)
  qed
  ultimately have m: "monitor_insn (4 * of_nat i) = 5 OR push_bit 6 (of_nat i)"
    by (simp add: monitor_insn_def machine_consts)
  have "5 OR push_bit 6 (of_nat i :: u32) = 5 + push_bit 6 (of_nat i)"
  proof (rule disjunctive_add [symmetric])
    have "(5 :: u32) = take_bit 3 5" by simp
    then have "bit (5 :: u32) n \<Longrightarrow> n < 3" for n using bit_take_bit_iff [of 3 "5 :: u32" n] by simp
    then show "\<not> bit (5 :: u32) n \<or> \<not> bit (push_bit 6 (of_nat i :: u32)) n" for n
      by (force simp: bit_push_bit_iff)
  qed
  with m have "unat (monitor_insn (4 * of_nat i)) = unat (5 + 64 * of_nat i :: u32)" by (simp add: push_bit_eq_mult mult.commute)
  also have "\<dots> = 64 * i + 5" using assms by (simp add: unat_word_ariths i)
  finally show ?thesis .
qed

lemma monitor_insn_fields:
  assumes "i < 512"
  shows "inst_opcode (monitor_insn (4 * of_nat i)) = 0" "inst_funct (monitor_insn (4 * of_nat i)) = 5"
    "monitor_reason (monitor_insn (4 * of_nat i)) = i div 2"
proof -
  note v = monitor_insn_value [OF assms]
  have masks: "(63 :: u32) = mask 6" "(0xFFFFF :: u32) = mask 20" by (simp_all add: mask_eq_exp_minus_1)
  show "inst_opcode (monitor_insn (4 * of_nat i)) = 0"
    using assms by (simp only: inst_opcode_def unat_drop_bit v) simp
  have "inst_funct (monitor_insn (4 * of_nat i)) = (64 * i + 5) mod 2 ^ 6"
    by (simp only: inst_funct_def masks take_bit_eq_mask [symmetric] unat_take_bit v)
  then show "inst_funct (monitor_insn (4 * of_nat i)) = 5" by simp
  have "monitor_reason (monitor_insn (4 * of_nat i)) = (64 * i + 5) div 2 ^ 6 mod 2 ^ 20 div 2 ^ 1"
    by (simp only: monitor_reason_def machine_consts masks take_bit_eq_mask [symmetric] unat_take_bit
        unat_drop_bit v)
  then show "monitor_reason (monitor_insn (4 * of_nat i)) = i div 2" using assms by simp
qed

text \<open>
  C27. After \<open>mkMonitorVectors\<close> every word of the vector table, fetched in the byte order of
  the guest, is the reserved instruction, and the call it stands for is half its index: the
  monitor routines are eight bytes apart.
\<close>

theorem monitor_vectors_decode:
  "returns (\<lambda>s'. \<forall>i < 512. \<exists>w. mem_get (mem s') (ucast (IDT_MONITOR_BASE + 4 * of_nat i)) = Inr w
     \<and> inst_opcode (bswap (isMipsEL G) w) = 0 \<and> inst_funct (bswap (isMipsEL G) w) = 5
     \<and> monitor_reason (bswap (isMipsEL G) w) = i div 2) (mkMonitorVectors G s)"
proof -
  define addr :: "nat \<Rightarrow> u64" where "addr i = ucast (IDT_MONITOR_BASE + 4 * of_nat i)" for i
  define val where "val i = bswap (isMipsEL G) (monitor_insn (4 * of_nat i))" for i :: nat
  define ws where "ws = map (\<lambda>i. (addr i, val i)) [0..<512]"
  have u: "unat (addr i) = 0xBFC00000 + 4 * i" if "i < 512" for i
  proof -
    have "unat (4 * of_nat i :: u32) = 4 * i"
      using that by (simp add: unsigned_of_nat take_bit_nat_eq_self unat_word_ariths(2))
    then show ?thesis using that by (simp add: addr_def machine_consts unat_word_ariths(1))
  qed
  have "\<forall>(a, v) \<in> set ws. in_range 4 a"
    by (auto simp: ws_def in_range_def u sz_def) (simp add: addr_def)
  then obtain m where m: "foldE (\<lambda>(a, v) m. mem_set m a v) ws (mem s) = Inr m" using mem32.wr_all_ok by blast
  have "sorted_wrt (\<lambda>x y. apart 4 (fst x) (fst y)) ws"
    by (auto simp: ws_def sorted_wrt_map sorted_wrt_iff_nth_less apart_def u)
  then have rd: "mem_get m (addr i) = Inr (val i)" if "i < 512" for i
    using that by (intro mem32.rd_wr_all_same [OF m]) (auto simp: ws_def)
  have "foldE (\<lambda>loop m. mem_set m (ucast (IDT_MONITOR_BASE + loop)) (bswap (isMipsEL G) (monitor_insn loop)))
        monitor_loops (mem s) = Inr m"
    using m by (simp add: monitor_loops_def ws_def foldE_map addr_def val_def machine_consts)
  then have "mkMonitorVectors G s = Inr (s\<lparr>mem := m\<rparr>)" by (simp add: mkMonitorVectors_def)
  then show ?thesis
    using rd monitor_insn_fields by (auto simp: addr_def [symmetric] val_def)
qed

theorem monitor_vectors_decode_witness:
  "returns (\<lambda>s'. \<exists>w. mem_get (mem s') (ucast (IDT_MONITOR_BASE + 4 * of_nat 14)) = Inr w
     \<and> inst_opcode (bswap True w) = 0 \<and> inst_funct (bswap True w) = 5
     \<and> monitor_reason (bswap True w) = 7)
   (mkMonitorVectors \<lparr>sysArgc = 0, sysArgv = [], isMipsEL = True, cycle = 0\<rparr> sample_state)"
  using monitor_vectors_decode [of "\<lparr>sysArgc = 0, sysArgv = [], isMipsEL = True, cycle = 0\<rparr>" sample_state]
  by (rule returns_mono) (drule spec [of _ 14], simp)

lemma mem_set_zero:
  fixes a :: u32
  assumes "unat a + 4 \<le> sz"
  shows "mem_set m (ucast a) (0 :: u32) = Inr (\<lambda>b. if unat a \<le> unat b \<and> unat b < unat a + 4 then 0 else m b)"
proof -
  have "unat (b - a) < 4 \<longleftrightarrow> unat a \<le> unat b \<and> unat b < unat a + 4" for b
    using assms unsigned_less [of b] by (auto simp: unat_sub_if' sz_def)
  moreover have "4 \<le> sz" using assms by simp
  ultimately have "store_le 4 m a (0 :: u32) = (\<lambda>b. if unat a \<le> unat b \<and> unat b < unat a + 4 then 0 else m b)"
    by (auto simp: store_le_byte)
  then show ?thesis using assms by (simp add: mem_set_def)
qed

text \<open>
  The monitor call for \<open>times\<close> clears only the first seven bytes of the sixteen byte
  structure it is given: the four words are written one byte apart.
\<close>

theorem mon_times_writes:
  assumes "unat (gpr s ! R_a0) + 7 \<le> sz"
  shows "returns (\<lambda>s'. \<forall>b. mem s' b = (if unat (gpr s ! R_a0) \<le> unat b \<and> unat b < unat (gpr s ! R_a0) + 7
      then 0 else mem s b)) (mon_times s)"
proof -
  define a where "a = gpr s ! R_a0"
  have u: "unat (a + 1) = unat a + 1" "unat (a + 2) = unat a + 2" "unat (a + 3) = unat a + 3"
    using assms by (simp_all add: a_def unat_word_ariths(1) sz_def)
  have "unat a + 4 \<le> sz" "unat (a + 1) + 4 \<le> sz" "unat (a + 2) + 4 \<le> sz" "unat (a + 3) + 4 \<le> sz"
    using assms by (simp_all only: u a_def [symmetric])
  note z = this [THEN mem_set_zero]
  show ?thesis by (simp add: mon_times_def Let_def a_def [symmetric] z) (auto simp: u)
qed

text \<open>Copying several strings to places that do not overlap.\<close>

lemma unat_of_nat_sz: "k < sz \<Longrightarrow> unat (of_nat k :: u32) = k"
proof -
  assume "k < sz"
  then have "k < 2 ^ LENGTH(32)" by (simp add: sz_def)
  then show ?thesis by (simp only: unsigned_of_nat take_bit_nat_eq_self of_nat_id)
qed

lemma strcpy_frame:
  assumes "strcpy m a str = Inr m'" "unat b < a \<or> a + length str < unat b"
  shows "m' b = m b"
  using assms by (auto simp: strcpy_def store_bytes_def)

lemma c_string_frame:
  assumes "c_string m a = Inr str" "\<And>i. i \<le> length str \<Longrightarrow> m' (of_nat (a + i)) = m (of_nat (a + i))"
  shows "c_string m' a = Inr str"
  using assms
proof (induction str arbitrary: a)
  case Nil
  then show ?case using Nil(2) [of 0] by (auto simp: c_string.simps [of _ a] split: if_splits)
next
  case (Cons x str)
  from Cons.prems(1) have a: "a < sz" "m (of_nat a) = x" "x \<noteq> 0" and t: "c_string m (Suc a) = Inr str"
    by (auto simp: c_string.simps [of _ a] split: if_splits)
  have "c_string m' (Suc a) = Inr str"
    using Cons.prems(2) [of "Suc _"] by (intro Cons.IH t) (simp add: algebra_simps)
  moreover have "m' (of_nat a) = x" using Cons.prems(2) [of 0] a by simp
  ultimately show ?case using a by (subst c_string.simps) simp
qed

lemma strcpy_other_string:
  assumes "c_string m a = Inr str" "strcpy m b str' = Inr m'"
    and "a + length str < sz" "a + length str < b \<or> b + length str' < a"
  shows "c_string m' a = Inr str"
proof (rule c_string_frame [OF assms(1)])
  fix i assume "i \<le> length str"
  then have "unat (of_nat (a + i) :: u32) = a + i" using assms(3) by (intro unat_of_nat_sz) simp
  then show "m' (of_nat (a + i)) = m (of_nat (a + i))"
    using \<open>i \<le> length str\<close> assms(4) by (intro strcpy_frame [OF assms(2)]) auto
qed

lemma strcpy_other_word:
  fixes a :: u32
  assumes "strcpy m b str = Inr m'" "unat a + 4 \<le> sz" "unat a + 4 \<le> b \<or> b + length str < unat a"
  shows "(mem_get m' (ucast a) :: u32 result) = mem_get m (ucast a)"
proof -
  have "m' (a + of_nat i) = m (a + of_nat i)" if "i < 4" for i
  proof -
    have "unat (of_nat i :: u32) = i" using that by (simp add: unat_of_nat_sz sz_def)
    then have "unat (a + of_nat i) = unat a + i" using that assms(2) by (simp add: unat_word_ariths(1) sz_def)
    then show ?thesis using that assms(3) by (intro strcpy_frame [OF assms(1)]) auto
  qed
  then have "(load_le 4 m' a :: u32) = load_le 4 m a" by (intro load_le_bytes_eq) simp_all
  then show ?thesis using assms(2) by (simp add: mem_get_word)
qed

text \<open>The places the guest gives for the arguments: \<open>n\<close> pointers at \<open>a0\<close>, apart from each other and the array.\<close>

definition arg_places :: "globals \<Rightarrow> bool \<Rightarrow> memory \<Rightarrow> u32 \<Rightarrow> (nat \<Rightarrow> u32) \<Rightarrow> bool" where
  "arg_places G EL m a0 p \<longleftrightarrow>
     (let n = length (sysArgv G); len = (\<lambda>i. length (sysArgv G ! i))
      in unat a0 + 4 * n \<le> sz \<and>
        (\<forall>i < n. mem_get m (ucast (a0 + 4 * of_nat i)) = Inr (bswap EL (p i)) \<and> unat (p i) + len i < sz \<and>
           (unat (p i) + len i < unat a0 \<or> unat a0 + 4 * n \<le> unat (p i)) \<and>
           (\<forall>j < n. i \<noteq> j \<longrightarrow> unat (p i) + len i < unat (p j) \<or> unat (p j) + len j < unat (p i))))"

lemma arg_places_strcpy:
  assumes "arg_places G EL m a0 p" "k < length (sysArgv G)" "strcpy m (unat (p k)) (sysArgv G ! k) = Inr m'"
    and "length (sysArgv G) \<le> 20"
  shows "arg_places G EL m' a0 p"
proof -
  have "mem_get m' (ucast (a0 + 4 * of_nat i)) = Inr (bswap EL (p i))" if i: "i < length (sysArgv G)" for i
  proof -
    have "unat (4 * of_nat i :: u32) = 4 * i" using i assms(4) by (simp add: unat_of_nat_sz sz_def unat_word_ariths(2))
    then have "unat (a0 + 4 * of_nat i) = unat a0 + 4 * i"
      using i assms(1) by (simp add: unat_word_ariths(1) arg_places_def Let_def sz_def)
    then have "(mem_get m' (ucast (a0 + 4 * of_nat i)) :: u32 result) = mem_get m (ucast (a0 + 4 * of_nat i))"
      using i assms(1,2) by (intro strcpy_other_word [OF assms(3)]) (auto simp: arg_places_def Let_def)
    then show ?thesis using assms(1) i by (simp add: arg_places_def Let_def)
  qed
  then show ?thesis using assms(1) by (simp add: arg_places_def Let_def)
qed

lemma getargs_prefix:
  assumes "arg_places G EL m a0 p" "\<forall>str \<in> set (sysArgv G). 0 \<notin> set str" "length (sysArgv G) \<le> 20"
    and "k \<le> length (sysArgv G)"
  shows "returns (\<lambda>m'. arg_places G EL m' a0 p \<and> (\<forall>i < k. c_string m' (unat (p i)) = Inr (sysArgv G ! i)))
    (foldE (getarg EL G a0) [0..<k] m)"
  using assms(4)
proof (induction k)
  case 0
  then show ?case using assms(1) by simp
next
  case (Suc k)
  then obtain m1 where m1: "foldE (getarg EL G a0) [0..<k] m = Inr m1" "arg_places G EL m1 a0 p"
    and str: "\<And>i. i < k \<Longrightarrow> c_string m1 (unat (p i)) = Inr (sysArgv G ! i)"
    by (auto simp: returns_iff)
  have k: "k < length (sysArgv G)" "0 \<notin> set (sysArgv G ! k)" using Suc.prems assms(2) by auto
  have pk: "unat (p k) + length (sysArgv G ! k) < sz" "mem_get m1 (ucast (a0 + 4 * of_nat k)) = Inr (bswap EL (p k))"
    using m1(2) k(1) by (simp_all add: arg_places_def Let_def)
  then obtain m2 where m2: "strcpy m1 (unat (p k)) (sysArgv G ! k) = Inr m2" by (simp add: strcpy_def store_bytes_def)
  have "getarg EL G a0 k m1 = Inr m2" using pk(2) k(1) m2 by (simp add: getarg_def)
  moreover have "c_string m2 (unat (p i)) = Inr (sysArgv G ! i)" if "i < Suc k" for i
  proof (cases "i = k")
    case True
    then show ?thesis using c_string_stored [OF k(2) m2] by simp
  next
    case False
    with that m1(2) k(1) show ?thesis
      by (intro strcpy_other_string [OF str m2]) (auto simp: arg_places_def Let_def)
  qed
  ultimately show ?case
    using m1(1) arg_places_strcpy [OF m1(2) k(1) m2 assms(3)] by (simp add: foldE_append)
qed

text \<open>
  \<open>getargs\<close> hands the guest its arguments: when the array at \<open>a0\<close> points to places
  with room for the arguments (at most 20, without embedded zeros) that overlap neither each
  other nor the array, then afterwards the C string at each pointer is the argument, and
  \<open>v0\<close> is their number.
\<close>

theorem getargs_strings:
  assumes "wf_state s" "sysArgc G = int (length (sysArgv G))" "length (sysArgv G) \<le> 20"
    and "\<forall>str \<in> set (sysArgv G). 0 \<notin> set str" "arg_places G EL (mem s) (gpr s ! R_a0) p"
  shows "returns (\<lambda>s'. (\<forall>i < length (sysArgv G). c_string (mem s') (unat (p i)) = Inr (sysArgv G ! i))
      \<and> gpr s' ! R_v0 = of_nat (length (sysArgv G))) (mon_getargs EL G s)"
proof -
  have "nat (min (int MARGS) (sysArgc G)) = length (sysArgv G)" using assms(2,3) by (simp add: machine_consts)
  then show ?thesis
    using getargs_prefix [OF assms(5,4,3) order_refl] assms(1,2)
    by (auto simp: mon_getargs_def returns_iff wf_state_def machine_consts)
qed

theorem mon_times_writes_witness:
  "returns (\<lambda>s'. mem s' 0x1002 = 0 \<and> mem s' 0x1008 = mem sample_state 0x1008) (mon_times sample_state)"
proof -
  have a0: "gpr sample_state ! R_a0 = 0x1001" by (simp add: sample_state_def machine_consts)
  then have "unat (gpr sample_state ! R_a0) + 7 \<le> sz" by (simp add: sz_def)
  from mon_times_writes [OF this] show ?thesis by (rule returns_mono) (simp add: a0)
qed

theorem getargs_strings_witness:
  "returns (\<lambda>s'. c_string (mem s') 0 = Inr [0x61, 0x62])
     (mon_getargs False \<lparr>sysArgc = 1, sysArgv = [[0x61, 0x62]], isMipsEL = False, cycle = 0\<rparr> sample_state)"
proof -
  define G where "G = \<lparr>sysArgc = 1, sysArgv = [[0x61, 0x62]], isMipsEL = False, cycle = 0\<rparr>"
  have a0: "gpr sample_state ! R_a0 = 0x1001" by (simp add: sample_state_def machine_consts)
  have "load_le 4 (mem sample_state) 0x1001 = (0 :: u32)"
    by (simp add: load_le4 le4_def sample_state_def state_t_new_def sparse_mem_new_def)
  moreover have "bswap False 0 = (0 :: u32)" by (rule bit_word_eqI) (simp add: bswap_def bit_builtin_bswap)
  ultimately have "arg_places G False (mem sample_state) (gpr sample_state ! R_a0) (\<lambda>_. 0)"
    by (simp add: arg_places_def Let_def G_def a0 sz_def mem_get_def)
  from getargs_strings [OF wf_sample_state _ _ _ this] show ?thesis
    unfolding G_def [symmetric] by (rule returns_mono) (simp_all add: G_def)
qed

end
