(* ===== verification/Interp.thy ===== *)
theory Interp
  imports Interp_ALU Interp_FP Monitor
begin

text \<open>
  Instruction dispatch of \<open>src/interpret.cc\<close>: branches and jumps with their delay slots,
  \<open>execCoproc1\<close>, \<open>is_store_insn\<close> and \<open>execMips\<close>.

  A control transfer of the source calls \<open>execMips\<close> again for the instruction in its delay
  slot.  Here that call is the parameter \<open>k\<close> of the dispatch functions, and \<open>execMips\<close>
  ties the knot on a fuel argument: one unit per nested call.  A control transfer in a delay
  slot nests again, so no bound holds for every memory; two units are enough whenever the
  instruction in the delay slot is no control transfer itself (\<open>execMips_fuel_2\<close>), and more
  fuel never changes a result (\<open>execMips_fuel_mono\<close>).

  The build defines no \<open>LINUX_SYSCALL_EMULATION\<close>: the reserved instruction enters the
  monitor, and \<open>syscall\<close> is \<open>break\<close>.
\<close>

record 'w env =
  little :: bool
  fpu_of :: fpu
  globs :: globals
  host :: "'w host_os"

subsection \<open>Branches\<close>

text \<open>Likely, taken, saves the return address, and the counter.\<close>

fun branch_case :: "branch_type \<Rightarrow> u32 \<Rightarrow> 'w state_t \<Rightarrow> bool \<times> bool \<times> bool \<times> mipsInsn" where
  "branch_case beql inst s = (True, gpr s ! inst_rt inst = gpr s ! inst_rs inst, False, ''BEQL'')"
| "branch_case beq inst s = (False, gpr s ! inst_rt inst = gpr s ! inst_rs inst, False, ''BEQ'')"
| "branch_case bnel inst s = (True, gpr s ! inst_rt inst \<noteq> gpr s ! inst_rs inst, False, ''BNEL'')"
| "branch_case bne inst s = (False, gpr s ! inst_rt inst \<noteq> gpr s ! inst_rs inst, False, ''BNE'')"
| "branch_case blezl inst s = (True, gpr s ! inst_rs inst \<le>s 0, False, ''BLEZL'')"
| "branch_case blez inst s = (False, gpr s ! inst_rs inst \<le>s 0, False, ''BLEZ'')"
| "branch_case bgtzl inst s = (True, 0 <s gpr s ! inst_rs inst, False, ''BGTZL'')"
| "branch_case bgtz inst s = (False, 0 <s gpr s ! inst_rs inst, False, ''BGTZ'')"
| "branch_case bgezl inst s = (True, 0 \<le>s gpr s ! inst_rs inst, False, ''BGEZL'')"
| "branch_case bgez inst s = (False, 0 \<le>s gpr s ! inst_rs inst, False, ''BGEZ'')"
| "branch_case bltzl inst s = (True, gpr s ! inst_rs inst <s 0, False, ''BLTZL'')"
| "branch_case bltz inst s = (False, gpr s ! inst_rs inst <s 0, False, ''BLTZ'')"
| "branch_case bgezal inst s = (False, 0 \<le>s gpr s ! inst_rs inst, True, ''BGEZAL'')"
| "branch_case bc1tl inst s = (True, getConditionCode s (inst_cc inst) = 1, False, ''BC1TL'')"
| "branch_case bc1t inst s = (False, getConditionCode s (inst_cc inst) = 1, False, ''BC1T'')"
| "branch_case bc1fl inst s = (True, getConditionCode s (inst_cc inst) = 0, False, ''BC1FL'')"
| "branch_case bc1f inst s = (False, getConditionCode s (inst_cc inst) = 0, False, ''BC1F'')"

definition branch :: "('w state_t \<Rightarrow> 'w state_t result) \<Rightarrow> branch_type \<Rightarrow> u32 \<Rightarrow> 'w state_t \<Rightarrow> 'w state_t result" where
  "branch k bt inst s =
     (let imm = push_bit 2 (simm32 inst); npc = pc s + 4
      in case branch_case bt inst s of (isLikely, takeBranch, saveReturn, h) \<Rightarrow>
        (let s1 = pc_inc (histo_inc h s)
         in if isLikely then
              (if takeBranch then bindE (k s1) (\<lambda>s2. Inr (s2\<lparr>pc := imm + npc\<rparr>))
               else Inr (pc_inc s1))
            else
              bindE (k s1) (\<lambda>s2.
              if takeBranch then
                Inr ((if saveReturn then wr_gpr 31 (npc + 4) s2 else s2)\<lparr>pc := imm + npc\<rparr>)
              else Inr s2)))"

definition bgez_bltz :: "('w state_t \<Rightarrow> 'w state_t result) \<Rightarrow> u32 \<Rightarrow> 'w state_t \<Rightarrow> 'w state_t result" where
  "bgez_bltz k inst s =
     (let rt = inst_rt inst
      in if rt = 0 then branch k bltz inst s
         else if rt = 1 then branch k bgez inst s
         else if rt = 2 then branch k bltzl inst s
         else if rt = 3 then branch k bgezl inst s
         else if rt = 17 then branch k bgezal inst s
         else Inl (Exit (-1)))"

subsection \<open>Jumps\<close>

definition insn_jr :: "('w state_t \<Rightarrow> 'w state_t result) \<Rightarrow> u32 \<Rightarrow> 'w state_t \<Rightarrow> 'w state_t result" where
  "insn_jr k inst s =
     (let jaddr = gpr s ! inst_rs inst
      in bindE (k (pc_inc s)) (\<lambda>s1. Inr (histo_inc ''JR'' (s1\<lparr>pc := jaddr\<rparr>))))"

definition insn_jalr :: "('w state_t \<Rightarrow> 'w state_t result) \<Rightarrow> u32 \<Rightarrow> 'w state_t \<Rightarrow> 'w state_t result" where
  "insn_jalr k inst s =
     (let jaddr = gpr s ! inst_rs inst
      in bindE (k (pc_inc (wr_gpr 31 (pc s + 8) s))) (\<lambda>s1. Inr (histo_inc ''JALR'' (s1\<lparr>pc := jaddr\<rparr>))))"

definition exec_jtype :: "('w state_t \<Rightarrow> 'w state_t result) \<Rightarrow> u32 \<Rightarrow> 'w state_t \<Rightarrow> 'w state_t result" where
  "exec_jtype k inst s =
     (let jaddr = push_bit 2 (inst AND (push_bit 26 1 - 1)); opcode = inst_opcode inst
      in bindE
        (if opcode = 0x2 then Inr (histo_inc ''J'' (pc_inc s))
         else if opcode = 0x3 then Inr (histo_inc ''JAL'' (pc_inc (wr_gpr 31 (pc s + 8) s)))
         else Inl (Exit (-1)))
        (\<lambda>s1. let target = jaddr OR (pc s1 AND NOT (push_bit 28 1 - 1))
              in bindE (k s1) (\<lambda>s2. Inr (s2\<lparr>pc := target\<rparr>))))"

subsection \<open>Dispatch\<close>

definition exec_rtype :: "'w env \<Rightarrow> ('w state_t \<Rightarrow> 'w state_t result) \<Rightarrow> u32 \<Rightarrow> 'w state_t \<Rightarrow> 'w state_t result" where
  "exec_rtype E k inst s =
     (let funct = inst_funct inst
      in if funct = 0x00 then Inr (insn_sll inst s)
         else if funct = 0x01 then Inr (insn_movci inst s)
         else if funct = 0x02 then Inr (insn_srl inst s)
         else if funct = 0x03 then Inr (insn_sra inst s)
         else if funct = 0x04 then Inr (insn_sllv inst s)
         else if funct = 0x05 then monitorBody (little E) (globs E) (host E) inst s
         else if funct = 0x06 then Inr (insn_srlv inst s)
         else if funct = 0x07 then Inr (insn_srav inst s)
         else if funct = 0x08 then insn_jr k inst s
         else if funct = 0x09 then insn_jalr k inst s
         else if funct = 0x0C then Inr (insn_break s)
         else if funct = 0x0D then Inr (insn_break s)
         else if funct = 0x0f then Inr (insn_sync s)
         else if funct = 0x10 then Inr (insn_mfhi inst s)
         else if funct = 0x11 then Inr (insn_mthi inst s)
         else if funct = 0x12 then Inr (insn_mflo inst s)
         else if funct = 0x13 then Inr (insn_mtlo inst s)
         else if funct = 0x18 then Inr (insn_mult inst s)
         else if funct = 0x19 then Inr (insn_multu inst s)
         else if funct = 0x1A then insn_div inst s
         else if funct = 0x1B then Inr (insn_divu inst s)
         else if funct = 0x20 then Inr (insn_add inst s)
         else if funct = 0x21 then Inr (insn_addu inst s)
         else if funct = 0x22 then Inl (Exit (-1))
         else if funct = 0x23 then Inr (insn_subu inst s)
         else if funct = 0x24 then Inr (insn_and inst s)
         else if funct = 0x25 then Inr (insn_or inst s)
         else if funct = 0x26 then Inr (insn_xor inst s)
         else if funct = 0x27 then Inr (insn_nor inst s)
         else if funct = 0x2A then Inr (insn_slt inst s)
         else if funct = 0x2B then Inr (insn_sltu inst s)
         else if funct = 0x0B then Inr (insn_movn inst s)
         else if funct = 0x0A then Inr (insn_movz inst s)
         else if funct = 0x34 then insn_teq inst s
         else Inl (Exit (-1)))"

definition execCoproc1 :: "'w env \<Rightarrow> ('w state_t \<Rightarrow> 'w state_t result) \<Rightarrow> u32 \<Rightarrow> 'w state_t \<Rightarrow> 'w state_t result" where
  "execCoproc1 E k inst s =
     (let functField = inst_rs inst; fmt = inst_rs inst; nd_tf = drop_bit 16 inst AND 3;
          lowbits = inst AND (push_bit 11 1 - 1)
      in if fmt = 0x8 then
           (if nd_tf = 0x0 then branch k bc1f inst s
            else if nd_tf = 0x1 then branch k bc1t inst s
            else if nd_tf = 0x2 then branch k bc1fl inst s
            else branch k bc1tl inst s)
         else if lowbits = 0 \<and> (functField = 0x0 \<or> functField = 0x4) then
           (if functField = 0x0 then Inr (insn_mfc1 inst s) else Inr (insn_mtc1 inst s))
         else exec_fp_lowop (fpu_of E) inst s)"

definition exec_itype :: "'w env \<Rightarrow> ('w state_t \<Rightarrow> 'w state_t result) \<Rightarrow> u32 \<Rightarrow> 'w state_t \<Rightarrow> 'w state_t result" where
  "exec_itype E k inst s =
     (let opcode = inst_opcode inst; EL = little E
      in if opcode = 0x01 then bgez_bltz k inst s
         else if opcode = 0x04 then branch k beq inst s
         else if opcode = 0x05 then branch k bne inst s
         else if opcode = 0x06 then branch k blez inst s
         else if opcode = 0x07 then branch k bgtz inst s
         else if opcode = 0x08 then Inr (insn_addi inst s)
         else if opcode = 0x09 then Inr (insn_addiu inst s)
         else if opcode = 0x0A then Inr (insn_slti inst s)
         else if opcode = 0x0B then Inr (insn_sltiu inst s)
         else if opcode = 0x0c then Inr (insn_andi inst s)
         else if opcode = 0x0d then Inr (insn_ori inst s)
         else if opcode = 0x0e then Inr (insn_xori inst s)
         else if opcode = 0x0F then Inr (insn_lui inst s)
         else if opcode = 0x14 then branch k beql inst s
         else if opcode = 0x16 then branch k blezl inst s
         else if opcode = 0x15 then branch k bnel inst s
         else if opcode = 0x17 then branch k bgtzl inst s
         else if opcode = 0x20 then insn_lb inst s
         else if opcode = 0x21 then insn_lh EL inst s
         else if opcode = 0x22 then insn_lwl EL inst s
         else if opcode = 0x23 then insn_lw EL inst s
         else if opcode = 0x24 then insn_lbu inst s
         else if opcode = 0x25 then insn_lhu EL inst s
         else if opcode = 0x26 then insn_lwr EL inst s
         else if opcode = 0x28 then insn_sb inst s
         else if opcode = 0x29 then insn_sh EL inst s
         else if opcode = 0x2a then insn_swl EL inst s
         else if opcode = 0x2B then insn_sw EL inst s
         else if opcode = 0x2e then insn_swr EL inst s
         else if opcode = 0x31 then insn_lwc1 EL inst s
         else if opcode = 0x33 then Inr (pc_inc s)
         else if opcode = 0x35 then insn_ldc1 EL inst s
         else if opcode = 0x39 then insn_swc1 EL inst s
         else if opcode = 0x3D then insn_sdc1 EL inst s
         else Inl (Exit (-1)))"

definition exec_insn :: "'w env \<Rightarrow> ('w state_t \<Rightarrow> 'w state_t result) \<Rightarrow> u32 \<Rightarrow> 'w state_t \<Rightarrow> 'w state_t result" where
  "exec_insn E k inst s =
     (let opcode = inst_opcode inst
      in if opcode = 0 then exec_rtype E k inst s
         else if opcode = 0x1c then execSpecial2 inst s
         else if opcode = 0x1f then execSpecial3 inst s
         else if opcode div 2 = 1 then exec_jtype k inst s
         else if opcode = 0x10 then exec_coproc0 inst s
         else if opcode = 0x11 then execCoproc1 E k inst s
         else if opcode = 0x13 then execCoproc1x (little E) (fpu_of E) inst s
         else if opcode = 0x12 then Inl (Exit (-1))
         else if opcode = 0x30 then insn_lw (little E) inst s
         else if opcode = 0x38 then insn_sc (little E) inst s
         else exec_itype E k inst s)"

definition fetch :: "'w env \<Rightarrow> 'w state_t \<Rightarrow> u32 result" where
  "fetch E s = bindE (mem_get (mem s) (ucast (pc s))) (\<lambda>w. Inr (bswap (little E) w))"

fun execMips :: "'w env \<Rightarrow> nat \<Rightarrow> 'w state_t \<Rightarrow> 'w state_t result" where
  "execMips E 0 s = Inl OutOfFuel"
| "execMips E (Suc n) s =
     bindE (fetch E s) (\<lambda>inst. exec_insn E (execMips E n) inst (s\<lparr>icnt := icnt s + 1\<rparr>))"

text \<open>The instructions \<open>is_store_insn\<close> lists.\<close>

definition is_store_opcode :: "u32 \<Rightarrow> bool" where
  "is_store_opcode inst \<longleftrightarrow> inst_opcode inst \<in> set [0x28, 0x29, 0x2a, 0x2B, 0x2e, 0x39, 0x38, 0x3D]"

definition is_store_insn :: "'w env \<Rightarrow> 'w state_t \<Rightarrow> bool result" where
  "is_store_insn E s = bindE (fetch E s) (\<lambda>inst. Inr (is_store_opcode inst))"

text \<open>
  The instructions that call \<open>execMips\<close> for their delay slot, as the dispatch has them; the
  instructions that enter the monitor, and those that stop.
\<close>

definition is_control :: "u32 \<Rightarrow> bool" where
  "is_control inst \<longleftrightarrow>
     (inst_opcode inst = 0 \<and> inst_funct inst \<in> {0x08, 0x09}) \<or> inst_opcode inst \<in> {0x01, 0x02, 0x03, 0x04, 0x05, 0x06, 0x07}
     \<or> inst_opcode inst \<in> {0x14, 0x15, 0x16, 0x17} \<or> (inst_opcode inst = 0x11 \<and> inst_rs inst = 0x8)"

definition is_monitor :: "u32 \<Rightarrow> bool" where
  "is_monitor inst \<longleftrightarrow> inst_opcode inst = 0 \<and> inst_funct inst = 0x05"

definition is_stop :: "u32 \<Rightarrow> bool" where
  "is_stop inst \<longleftrightarrow> inst_opcode inst = 0 \<and> inst_funct inst \<in> {0x0C, 0x0D}"

text \<open>
  What the code after a delay slot leaves alone: it sets the program counter, perhaps the
  return address, and counters of the histogram.
\<close>

definition after_slot :: "'w state_t \<Rightarrow> 'w state_t \<Rightarrow> bool" where
  "after_slot s s' \<longleftrightarrow> wf_state s' \<and> icnt s' = icnt s \<and> brk s' = brk s \<and> maxicnt s' = maxicnt s \<and>
     linux_image s' = linux_image s \<and> os s' = os s \<and> mem s' = mem s \<and> lo s' = lo s \<and> hi s' = hi s \<and>
     (\<forall>r. r \<noteq> 31 \<longrightarrow> gpr s' ! r = gpr s ! r)"

text \<open>
  When the architecture takes a conditional branch, on signed register values: the reference
  for the branches that \<open>is_branch\<close> and \<open>is_branch_likely\<close> list.
\<close>

definition branch_taken :: "u32 \<Rightarrow> 'w state_t \<Rightarrow> bool" where
  "branch_taken inst s \<longleftrightarrow>
     (let a = sint (gpr s ! inst_rs inst); b = sint (gpr s ! inst_rt inst); opcode = inst_opcode inst mod 16
      in if opcode = 1 then (if even (inst_rt inst) then a < 0 else 0 \<le> a)
         else if opcode = 4 then a = b
         else if opcode = 5 then a \<noteq> b
         else if opcode = 6 then a \<le> 0
         else 0 < a)"

text \<open>The state in which a delay slot runs: the branch is counted and the program counter moved on.\<close>

definition delay_state :: "mipsInsn \<Rightarrow> 'w state_t \<Rightarrow> 'w state_t" where
  "delay_state h s = histo_inc h (s\<lparr>pc := pc s + 4, icnt := icnt s + 1\<rparr>)"

lemma opcode_jtype: "n div 2 = Suc 0 \<longleftrightarrow> n = 2 \<or> n = 3" for n :: nat
  by auto

lemma exec_insn_no_slot:
  assumes "\<not> is_control inst"
  shows "exec_insn E k inst s = exec_insn E k' inst s"
proof (cases "inst_opcode inst = 0")
  case True
  with assms have "inst_funct inst \<noteq> 0x08" "inst_funct inst \<noteq> 0x09" by (auto simp: is_control_def)
  then have "exec_rtype E k inst s = exec_rtype E k' inst s" unfolding exec_rtype_def Let_def by (simp only: if_False)
  with True show ?thesis by (simp add: exec_insn_def Let_def)
next
  case False
  with assms show ?thesis
    by (simp add: is_control_def exec_insn_def execCoproc1_def exec_itype_def opcode_jtype Let_def)
qed

subsection \<open>Frames of the dispatch\<close>

lemma quiet_plain: "quiet_step s s' \<Longrightarrow> plain_step s s'"
  by (simp add: quiet_step_def)

lemma on_ok_quiet_plain: "on_ok (quiet_step s) r \<Longrightarrow> on_ok (plain_step s) r"
  by (cases r) (auto intro: quiet_plain)

lemma quiet_pc_inc [wf_intros]: "wf_state s \<Longrightarrow> quiet_step s (pc_inc s)"
  by (simp add: quiet_step_def plain_step_def wf_state_def pc_inc_def)

lemma exec_rtype_quiet:
  assumes "wf_state s" "inst_opcode inst = 0" "\<not> is_control inst" "\<not> is_monitor inst" "\<not> is_stop inst"
  shows "on_ok (quiet_step s) (exec_rtype E k inst s)"
proof -
  have "inst_funct inst \<noteq> 0x05" "inst_funct inst \<noteq> 0x08" "inst_funct inst \<noteq> 0x09" "inst_funct inst \<noteq> 0x0C"
    "inst_funct inst \<noteq> 0x0D"
    using assms(2-) by (auto simp: is_control_def is_monitor_def is_stop_def)
  then show ?thesis
    unfolding exec_rtype_def Let_def
    by (simp only: if_False) (intro on_ok_if on_ok_simps(1) on_ok_simps(2) [THEN iffD2] shift_insns_quiet
        arith_insns_quiet assms(1))
qed

lemma execCoproc1_quiet:
  assumes "wf_state s" "inst_rs inst \<noteq> 8"
  shows "on_ok (quiet_step s) (execCoproc1 E k inst s)"
  using assms(2) unfolding execCoproc1_def Let_def
  by (simp only: if_False) (intro on_ok_if on_ok_simps(2) [THEN iffD2] load_insns_quiet coproc1_quiet assms(1))

lemma exec_itype_plain:
  assumes "wf_state s" "inst_opcode inst \<notin> {0x01, 0x04, 0x05, 0x06, 0x07, 0x14, 0x15, 0x16, 0x17}"
  shows "on_ok (plain_step s) (exec_itype E k inst s)"
    and "\<not> is_store_opcode inst \<Longrightarrow> on_ok (quiet_step s) (exec_itype E k inst s)"
proof -
  have n: "inst_opcode inst \<noteq> 0x01" "inst_opcode inst \<noteq> 0x04" "inst_opcode inst \<noteq> 0x05" "inst_opcode inst \<noteq> 0x06"
    "inst_opcode inst \<noteq> 0x07" "inst_opcode inst \<noteq> 0x14" "inst_opcode inst \<noteq> 0x15" "inst_opcode inst \<noteq> 0x16"
    "inst_opcode inst \<noteq> 0x17"
    using assms(2) by auto
  then show "on_ok (plain_step s) (exec_itype E k inst s)"
    unfolding exec_itype_def Let_def
    by (simp only: if_False) (intro on_ok_if on_ok_simps(1) on_ok_simps(2) [THEN iffD2] store_insns_plain
        load_insns_quiet(1-11) [THEN on_ok_quiet_plain] arith_insns_quiet [THEN quiet_plain] quiet_pc_inc [THEN quiet_plain]
        assms(1))
  assume "\<not> is_store_opcode inst"
  then have "inst_opcode inst \<noteq> 0x28" "inst_opcode inst \<noteq> 0x29" "inst_opcode inst \<noteq> 0x2a" "inst_opcode inst \<noteq> 0x2B"
    "inst_opcode inst \<noteq> 0x2e" "inst_opcode inst \<noteq> 0x39" "inst_opcode inst \<noteq> 0x3D"
    by (auto simp: is_store_opcode_def)
  with n show "on_ok (quiet_step s) (exec_itype E k inst s)"
    unfolding exec_itype_def Let_def
    by (simp only: if_False) (intro on_ok_if on_ok_simps(1) on_ok_simps(2) [THEN iffD2] load_insns_quiet
        arith_insns_quiet quiet_pc_inc assms(1))
qed

lemma exec_insn_plain:
  assumes "wf_state s" "\<not> is_control inst" "\<not> is_monitor inst" "\<not> is_stop inst"
  shows "on_ok (plain_step s) (exec_insn E k inst s)"
    and "\<not> is_store_opcode inst \<Longrightarrow> on_ok (quiet_step s) (exec_insn E k inst s)"
proof -
  have op: "inst_opcode inst \<notin> {0x01, 0x04, 0x05, 0x06, 0x07, 0x14, 0x15, 0x16, 0x17}" "inst_opcode inst div 2 \<noteq> 1"
    "inst_opcode inst = 0x11 \<Longrightarrow> inst_rs inst \<noteq> 8"
    using assms(2) by (auto simp: is_control_def opcode_jtype)
  note quiet = exec_rtype_quiet [OF assms(1) _ assms(2-4)] special_insns_quiet [OF assms(1)]
    coproc1_quiet(2) [OF assms(1)] load_insns_quiet(1) [OF assms(1)] execCoproc1_quiet [OF assms(1) op(3)]
  show "on_ok (plain_step s) (exec_insn E k inst s)"
    using op quiet [THEN on_ok_quiet_plain] store_insns_plain(2) [OF assms(1)] exec_itype_plain(1) [OF assms(1) op(1)]
    unfolding exec_insn_def Let_def by simp
  show "on_ok (quiet_step s) (exec_insn E k inst s)" if "\<not> is_store_opcode inst"
    using op quiet exec_itype_plain(2) [OF assms(1) op(1) that] that
    unfolding exec_insn_def Let_def by (simp add: is_store_opcode_def)
qed

lemma after_slot_updates:
  assumes "wf_state s"
  shows "after_slot s (s\<lparr>pc := p\<rparr>)" "after_slot s ((wr_gpr 31 v s)\<lparr>pc := p\<rparr>)" "after_slot s (histo_inc h (s\<lparr>pc := p\<rparr>))"
    "after_slot s s"
  using assms by (simp_all add: after_slot_def wf_state_def)

text \<open>
  The shape of a control transfer: it fails at once, or (a likely branch that is not taken)
  skips its delay slot, or runs the delay slot in a state that is a quiet step away and then
  adjusts the result.
\<close>

definition slot_shape :: "(('w state_t \<Rightarrow> 'w state_t result) \<Rightarrow> 'w state_t result) \<Rightarrow> 'w state_t \<Rightarrow> bool" where
  "slot_shape c s \<longleftrightarrow>
     (\<exists>n. \<forall>k. c k = Inl (Exit n)) \<or>
     (\<exists>s'. after_slot s s' \<and> pc s' = pc s + 8 \<and> (\<forall>k. c k = Inr s')) \<or>
     (\<exists>s1 f. quiet_step s s1 \<and> (\<forall>k. c k = bindE (k s1) (\<lambda>s2. Inr (f s2))) \<and> (\<forall>s2. wf_state s2 \<longrightarrow> after_slot s2 (f s2)))"

lemma slot_shapeI:
  assumes "quiet_step s s1" "\<And>k. c k = bindE (k s1) (\<lambda>s2. Inr (f s2))" "\<And>s2. wf_state s2 \<Longrightarrow> after_slot s2 (f s2)"
  shows "slot_shape c s"
  using assms unfolding slot_shape_def by blast

lemma slot_shape_on_ok:
  assumes "slot_shape c s" "\<And>s'. after_slot s s' \<Longrightarrow> P s'"
    and "\<And>s1. quiet_step s s1 \<Longrightarrow> on_ok (\<lambda>s2. wf_state s2 \<and> Q s2) (k s1)"
    and "\<And>s2 s3. after_slot s2 s3 \<Longrightarrow> Q s2 \<Longrightarrow> P s3"
  shows "on_ok P (c k)"
proof -
  have "on_ok P (bindE (k s1) (\<lambda>s2. Inr (f s2)))"
    if "quiet_step s s1" "\<forall>s2. wf_state s2 \<longrightarrow> after_slot s2 (f s2)" for s1 f
    using assms(3) [OF that(1)] that(2) assms(4) by (cases "k s1") auto
  with assms(1,2) show ?thesis unfolding slot_shape_def by auto
qed

lemma slot_shape_if:
  "slot_shape c s \<Longrightarrow> slot_shape c' s \<Longrightarrow> slot_shape (\<lambda>k. if b then c k else c' k) s"
  by (cases b) simp_all

lemma branch_shape:
  assumes "wf_state s"
  shows "slot_shape (\<lambda>k. branch k bt inst s) s"
proof -
  obtain l t r h where b: "branch_case bt inst s = (l, t, r, h)" by (cases "branch_case bt inst s") auto
  define s1 where "s1 = pc_inc (histo_inc h s)"
  have q: "quiet_step s s1" using assms by (simp add: s1_def quiet_step_def plain_step_def wf_state_def)
  have "after_slot s (pc_inc s1)" "pc (pc_inc s1) = pc s + 8"
    using assms by (simp_all add: s1_def after_slot_def wf_state_def)
  then have "slot_shape (\<lambda>k. branch k bt inst s) s" if "l" "\<not> t"
    using that unfolding slot_shape_def branch_def Let_def b s1_def by auto
  moreover have "slot_shape (\<lambda>k. branch k bt inst s) s" if "l" "t"
    using that after_slot_updates(1)
    by (intro slot_shapeI [OF q, where f = "\<lambda>s2. s2\<lparr>pc := push_bit 2 (simm32 inst) + (pc s + 4)\<rparr>"])
      (simp_all add: branch_def b s1_def)
  moreover have "slot_shape (\<lambda>k. branch k bt inst s) s" if "\<not> l"
    using that after_slot_updates
    by (intro slot_shapeI [OF q, where f = "\<lambda>s2. if t then
          (if r then wr_gpr 31 (pc s + 8) s2 else s2)\<lparr>pc := push_bit 2 (simm32 inst) + (pc s + 4)\<rparr> else s2"])
      (auto simp: branch_def b s1_def add.assoc Let_def intro!: bindE_cong)
  ultimately show ?thesis by blast
qed

lemma jump_shapes:
  assumes "wf_state s"
  shows "slot_shape (\<lambda>k. insn_jr k inst s) s" "slot_shape (\<lambda>k. insn_jalr k inst s) s"
    "slot_shape (\<lambda>k. exec_jtype k inst s) s"
proof -
  have q: "quiet_step s (pc_inc s)" "quiet_step s (pc_inc (wr_gpr 31 (pc s + 8) s))" "quiet_step s (histo_inc h (pc_inc s))"
    "quiet_step s (histo_inc h (pc_inc (wr_gpr 31 (pc s + 8) s)))" for h
    using assms by (simp_all add: quiet_step_def plain_step_def wf_state_def)
  show "slot_shape (\<lambda>k. insn_jr k inst s) s"
    unfolding insn_jr_def Let_def by (rule slot_shapeI [OF q(1) refl]) (rule after_slot_updates)
  show "slot_shape (\<lambda>k. insn_jalr k inst s) s"
    unfolding insn_jalr_def Let_def by (rule slot_shapeI [OF q(2) refl]) (rule after_slot_updates)
  define t where "t s1 = push_bit 2 (inst AND (push_bit 26 1 - 1)) OR (pc s1 AND NOT (push_bit 28 1 - 1))"
    for s1 :: "'a state_t"
  show "slot_shape (\<lambda>k. exec_jtype k inst s) s"
  proof -
    consider "inst_opcode inst = 2" | "inst_opcode inst = 3" | "inst_opcode inst \<noteq> 2" "inst_opcode inst \<noteq> 3" by blast
    then show ?thesis
    proof cases
      case 1
      then show ?thesis
        by (intro slot_shapeI [OF q(3) [of "''J''"], where f = "\<lambda>s2. s2\<lparr>pc := t (histo_inc ''J'' (pc_inc s))\<rparr>"])
          (simp_all add: exec_jtype_def Let_def after_slot_updates t_def)
    next
      case 2
      then show ?thesis
        by (intro slot_shapeI [OF q(4) [of "''JAL''"],
              where f = "\<lambda>s2. s2\<lparr>pc := t (histo_inc ''JAL'' (pc_inc (wr_gpr 31 (pc s + 8) s)))\<rparr>"])
          (simp_all add: exec_jtype_def Let_def after_slot_updates t_def)
    next
      case 3
      then show ?thesis by (simp add: slot_shape_def exec_jtype_def Let_def)
    qed
  qed
qed

lemma exec_insn_control_shape:
  assumes "wf_state s" "is_control inst"
  shows "slot_shape (\<lambda>k. exec_insn E k inst s) s"
proof -
  have fail: "slot_shape (\<lambda>k. Inl (Exit n)) s" for n by (simp add: slot_shape_def)
  have bz: "slot_shape (\<lambda>k. bgez_bltz k inst s) s"
    unfolding bgez_bltz_def Let_def by (intro slot_shape_if branch_shape [OF assms(1)] fail)
  have "slot_shape (\<lambda>k. exec_insn E k inst s) s" if "inst_opcode inst = 0" "inst_funct inst \<in> {8, 9}"
    using that jump_shapes(1,2) [OF assms(1), of inst] by (auto simp: exec_insn_def exec_rtype_def)
  moreover have "slot_shape (\<lambda>k. exec_insn E k inst s) s" if "inst_opcode inst = 0x11" "inst_rs inst = 8"
    using that by (simp add: exec_insn_def execCoproc1_def Let_def) (intro slot_shape_if branch_shape [OF assms(1)])
  moreover have "slot_shape (\<lambda>k. exec_insn E k inst s) s" if "inst_opcode inst \<in> {2, 3}"
    using that jump_shapes(3) [OF assms(1), of inst] by (auto simp: exec_insn_def)
  moreover have "slot_shape (\<lambda>k. exec_insn E k inst s) s"
    if "inst_opcode inst \<in> {0x01, 0x04, 0x05, 0x06, 0x07, 0x14, 0x15, 0x16, 0x17}"
    using that branch_shape [OF assms(1), of _ inst] bz by (auto simp: exec_insn_def exec_itype_def)
  ultimately show ?thesis using assms(2) unfolding is_control_def by auto
qed

subsection \<open>Execution\<close>

lemma exec_insn_monitor_stop:
  "is_monitor inst \<Longrightarrow> exec_insn E k inst s = monitorBody (little E) (globs E) (host E) inst s"
  "is_stop inst \<Longrightarrow> exec_insn E k inst s = Inr (insn_break s)"
  by (auto simp: is_monitor_def is_stop_def exec_insn_def exec_rtype_def)

lemma monitorBody_frame:
  assumes "wf_state s"
  shows "on_ok (\<lambda>s'. wf_state s' \<and> icnt s' = icnt s \<and> brk s' = brk s) (monitorBody EL G H inst s)"
  unfolding monitorBody_def
  by (rule on_ok_bindE [OF monitor_call_frame [OF assms]]) (auto simp: monitor_frame_def wf_state_def)

text \<open>Every instruction keeps the register files, given that the delay slot does.\<close>

lemma exec_insn_wf:
  assumes "wf_state s" "\<And>t. wf_state t \<Longrightarrow> on_ok wf_state (k t)"
  shows "on_ok wf_state (exec_insn E k inst s)"
proof -
  consider "is_control inst" | "is_monitor inst" | "is_stop inst" | "\<not> is_control inst" "\<not> is_monitor inst" "\<not> is_stop inst"
    by blast
  then show ?thesis
  proof cases
    case 1
    from exec_insn_control_shape [OF assms(1) this, of E] assms(2) show ?thesis
      unfolding slot_shape_def
      by (auto simp: after_slot_def quiet_step_def plain_step_def intro!: on_ok_bindE [where Q = wf_state])
  next
    case 2
    then show ?thesis
      using monitorBody_frame [OF assms(1), of "little E" "globs E" "host E" inst]
      by (auto simp: exec_insn_monitor_stop on_ok_def split: sum.splits)
  next
    case 3
    then show ?thesis using assms(1) by (simp add: exec_insn_monitor_stop insn_break_def wf_state_def)
  next
    case 4
    then show ?thesis
      using exec_insn_plain(1) [OF assms(1), of inst E k] by (auto simp: on_ok_def plain_step_def split: sum.splits)
  qed
qed

text \<open>
  More fuel never changes a result: running out is the only outcome that more fuel can improve.
\<close>

lemma exec_insn_more_fuel:
  assumes "wf_state s" "\<And>t. wf_state t \<Longrightarrow> k t \<noteq> Inl OutOfFuel \<Longrightarrow> k' t = k t" "exec_insn E k inst s \<noteq> Inl OutOfFuel"
  shows "exec_insn E k' inst s = exec_insn E k inst s"
proof (cases "is_control inst")
  case True
  from exec_insn_control_shape [OF assms(1) True, of E] assms(2,3) show ?thesis
    unfolding slot_shape_def by (elim disjE exE conjE) (auto simp: quiet_step_def plain_step_def bindE_def split: sum.splits)
qed (rule exec_insn_no_slot)

lemma execMips_wf: "wf_state s \<Longrightarrow> on_ok wf_state (execMips E n s)"
proof (induction n arbitrary: s)
  case (Suc n)
  have "wf_state (s\<lparr>icnt := icnt s + 1\<rparr>)" using Suc.prems by (simp add: wf_state_def)
  then show ?case using Suc.IH by (auto intro!: on_ok_bindE_any exec_insn_wf)
qed simp

lemma execMips_more_fuel:
  "wf_state s \<Longrightarrow> execMips E n s \<noteq> Inl OutOfFuel \<Longrightarrow> execMips E (n + m) s = execMips E n s"
proof (induction n arbitrary: s)
  case (Suc n)
  show ?case
  proof (cases "fetch E s")
    case (Inr inst)
    have "wf_state (s\<lparr>icnt := icnt s + 1\<rparr>)" using Suc.prems(1) by (simp add: wf_state_def)
    then show ?thesis
      using Suc.IH Suc.prems(2) Inr by (auto intro!: exec_insn_more_fuel)
  qed simp
qed simp

text \<open>No instruction other than a control transfer can run out of fuel.\<close>

lemma mem_fuel_free [fuel_intros]: "fuel_free (mem_get m a)" "fuel_free (mem_set m a v)"
  "fuel_free (store_bytes m b bs)" "fuel_free (load_bytes m b n)" "fuel_free (strcpy m b bs)"
  unfolding mem_get_def mem_set_def store_bytes_def load_bytes_def strcpy_def by (intro fuel_intros)+

lemma c_string_fuel_free [fuel_intros]: "fuel_free (c_string m a)"
proof (induction m a rule: c_string.induct)
  case (1 m a)
  then show ?case by (subst c_string.simps) (auto intro: fuel_intros)
qed

lemma load_store_fuel_free [fuel_intros]:
  "fuel_free (insn_lw EL inst s)" "fuel_free (insn_lh EL inst s)" "fuel_free (insn_lb inst s)"
  "fuel_free (insn_lbu inst s)" "fuel_free (insn_lhu EL inst s)" "fuel_free (insn_lwl EL inst s)"
  "fuel_free (insn_lwr EL inst s)" "fuel_free (insn_ldc1 EL inst s)" "fuel_free (insn_lwc1 EL inst s)"
  "fuel_free (lxc1_w EL inst s)" "fuel_free (lxc1_d EL inst s)" "fuel_free (insn_sw EL inst s)"
  "fuel_free (insn_sc EL inst s)" "fuel_free (insn_sh EL inst s)" "fuel_free (insn_sb inst s)"
  "fuel_free (insn_swl EL inst s)" "fuel_free (insn_swr EL inst s)" "fuel_free (insn_sdc1 EL inst s)"
  "fuel_free (insn_swc1 EL inst s)"
  unfolding mem_insn_defs swl_merge_def Let_def by (intro fuel_intros)+

lemma special_fuel_free [fuel_intros]:
  "fuel_free (execSpecial2 inst s)" "fuel_free (execSpecial3 inst s)" "fuel_free (exec_coproc0 inst s)"
  "fuel_free (insn_teq inst s)" "fuel_free (insn_div inst s)"
  unfolding execSpecial2_def execSpecial3_def exec_coproc0_def insn_teq_def insn_div_def insn_ext_def insn_ins_def
    insn_rdhwr_def insn_wait_def Let_def
  by (intro fuel_intros)+

lemma fp_value_fuel_free [fuel_intros]: "fuel_free (fp_value_s F op a b)" "fuel_free (fp_value_d F op x y)"
  by (cases op; simp add: fuel_intros)+

lemma fp_fuel_free [fuel_intros]:
  "fuel_free (exec_fp_lowop F inst s)" "fuel_free (execCoproc1x EL F inst s)"
  unfolding exec_fp_lowop_def execCoproc1x_def c1xExec_s_def c1xExec_d_def do_fp_op_def execFP_s_def execFP_d_def
    insn_c_def fpCmp_s_def fpCmp_d_def fpCmp_body_def fp_insn_defs Let_def
  by (intro fuel_intros)+

lemma monitor_fuel_free [fuel_intros]: "fuel_free (monitorBody EL G H inst s)"
  unfolding monitorBody_def monitor_call_def monitor_defs per_page_rdwr_read_def per_page_rdwr_write_def getarg_def Let_def
  by (intro fuel_intros)

lemma exec_insn_fuel_free:
  assumes "\<And>t. fuel_free (k t)"
  shows "fuel_free (exec_insn E k inst s)"
  unfolding exec_insn_def exec_rtype_def exec_itype_def execCoproc1_def exec_jtype_def insn_jr_def insn_jalr_def
    bgez_bltz_def branch_def Let_def
  by (intro fuel_intros assms)

lemma exec_insn_no_fuel: "\<not> is_control inst \<Longrightarrow> fuel_free (exec_insn E k inst s)"
  using exec_insn_fuel_free [of "\<lambda>_. Inl Abort" E inst s] exec_insn_no_slot [of inst E k s "\<lambda>_. Inl Abort"]
  by (simp add: fuel_intros)

lemma fetch_fuel_free [fuel_intros]: "fuel_free (fetch E s)"
  unfolding fetch_def by (intro fuel_intros)

subsection \<open>Properties of execution\<close>

lemma fetch_cong: "mem t = mem s \<Longrightarrow> pc t = pc s \<Longrightarrow> fetch E t = fetch E s"
  by (simp add: fetch_def)

lemma execMips_1_fuel_free: "(\<And>inst. fetch E s = Inr inst \<Longrightarrow> \<not> is_control inst) \<Longrightarrow> fuel_free (execMips E (Suc n) s)"
  using fetch_fuel_free [of E s] exec_insn_no_fuel [of _ E "execMips E n" "s\<lparr>icnt := icnt s + 1\<rparr>"]
  by (cases "fetch E s") (auto simp: fuel_free_def)

lemma execMips_2_fuel_free:
  assumes "wf_state s"
    and "\<And>i0 i1. fetch E s = Inr i0 \<Longrightarrow> is_control i0 \<Longrightarrow> fetch E (s\<lparr>pc := pc s + 4\<rparr>) = Inr i1 \<Longrightarrow> \<not> is_control i1"
  shows "fuel_free (execMips E (Suc (Suc n)) s)"
proof (cases "\<exists>i0. fetch E s = Inr i0 \<and> is_control i0")
  case True
  then obtain i0 where i0: "fetch E s = Inr i0" "is_control i0" by blast
  define s0 where "s0 = s\<lparr>icnt := icnt s + 1\<rparr>"
  have wf: "wf_state s0" using assms(1) by (simp add: s0_def wf_state_def)
  have "fuel_free (execMips E (Suc n) s1)" if "quiet_step s0 s1" for s1
  proof -
    have "fetch E s1 = fetch E (s\<lparr>pc := pc s + 4\<rparr>)"
      using that by (intro fetch_cong) (simp_all add: quiet_step_def plain_step_def s0_def)
    with assms(2) [OF i0] show ?thesis by (intro execMips_1_fuel_free) simp
  qed
  with exec_insn_control_shape [OF wf i0(2), of E] have "fuel_free (exec_insn E (execMips E (Suc n)) i0 s0)"
    unfolding slot_shape_def by (elim disjE exE conjE) (simp_all add: fuel_intros del: execMips.simps)
  with i0(1) show ?thesis by (simp add: s0_def)
next
  case False
  then show ?thesis by (intro execMips_1_fuel_free) blast
qed

text \<open>
  C24. Two units of fuel are enough for every program that puts no control transfer into a
  delay slot: \<open>execMips\<close> then returns (a state or one of the program's own faults), and its
  result is the same for every larger amount of fuel.
\<close>

theorem execMips_fuel_2:
  assumes "wf_state s" "2 \<le> n"
    and "\<And>i0 i1. fetch E s = Inr i0 \<Longrightarrow> is_control i0 \<Longrightarrow> fetch E (s\<lparr>pc := pc s + 4\<rparr>) = Inr i1 \<Longrightarrow> \<not> is_control i1"
  shows "execMips E n s \<noteq> Inl OutOfFuel \<and> execMips E n s = execMips E 2 s"
proof -
  have "execMips E 2 s \<noteq> Inl OutOfFuel"
    using execMips_2_fuel_free [OF assms(1), of E 0] assms(3) by (simp add: fuel_free_def numeral_2_eq_2)
  moreover obtain m where "n = 2 + m" using assms(2) le_Suc_ex by blast
  ultimately show ?thesis using execMips_more_fuel [OF assms(1), of E 2 m] by simp
qed

text \<open>The branches of \<open>is_branch\<close> and \<open>is_branch_likely\<close> in terms of the reference.\<close>

lemma signed_compare_0:
  fixes a :: u32
  shows "a \<le>s 0 \<longleftrightarrow> sint a \<le> 0" "0 <s a \<longleftrightarrow> 0 < sint a" "0 \<le>s a \<longleftrightarrow> 0 \<le> sint a" "a <s 0 \<longleftrightarrow> sint a < 0"
  by (simp_all add: word_sle_eq word_sless_alt)

lemma sint_eq_iff: "sint a = sint b \<longleftrightarrow> a = b" for a b :: u32
  using signed_word_eqI [of a b] by auto

lemma branch_case_icnt: "branch_case bt inst (s\<lparr>icnt := n\<rparr>) = branch_case bt inst s"
  by (cases bt) (simp_all add: getConditionCode_bit)

lemma delay_state_eq: "pc_inc (histo_inc h (s\<lparr>icnt := icnt s + 1\<rparr>)) = delay_state h s"
  by (simp add: delay_state_def pc_inc_def histo_inc_def)

lemma branch_exec:
  assumes "branch_case bt inst s = (l, t, False, h)"
  shows "branch k bt inst (s\<lparr>icnt := icnt s + 1\<rparr>) =
    (if l \<and> \<not> t then Inr (pc_inc (delay_state h s))
     else bindE (k (delay_state h s)) (\<lambda>s2. Inr (if t then s2\<lparr>pc := get_branch_target (pc s) inst\<rparr> else s2)))"
proof -
  have "push_bit 2 (simm32 inst) + (pc s + 4) = get_branch_target (pc s) inst" by (simp add: get_branch_target_def)
  then show ?thesis
    using assms by (auto simp: branch_def branch_case_icnt delay_state_eq Let_def intro!: bindE_cong)
qed

text \<open>The template argument the dispatch picks for such a branch.\<close>

definition branch_of :: "u32 \<Rightarrow> branch_type" where
  "branch_of inst =
     (let opcode = inst_opcode inst; rt = inst_rt inst
      in if opcode = 1 then (if rt = 0 then bltz else if rt = 1 then bgez else if rt = 2 then bltzl else bgezl)
         else if opcode = 4 then beq else if opcode = 5 then bne else if opcode = 6 then blez
         else if opcode = 7 then bgtz else if opcode = 0x14 then beql else if opcode = 0x15 then bnel
         else if opcode = 0x16 then blezl else bgtzl)"

lemma branch_of_cases:
  assumes "is_branch inst \<or> is_branch_likely inst"
  obtains "inst_opcode inst = 1" "inst_rt inst < 4"
  | "inst_opcode inst = 4" | "inst_opcode inst = 5" | "inst_opcode inst = 6" | "inst_opcode inst = 7"
  | "inst_opcode inst = 0x14" | "inst_opcode inst = 0x15" | "inst_opcode inst = 0x16" | "inst_opcode inst = 0x17"
  using assms by (auto simp: is_branch_def is_branch_likely_def Let_def split: if_splits)

lemma exec_branch_of:
  assumes "is_branch inst \<or> is_branch_likely inst"
  shows "exec_insn E k inst s = branch k (branch_of inst) inst s"
  using assms
proof (rule branch_of_cases)
  assume *: "inst_opcode inst = 1" "inst_rt inst < 4"
  then have "inst_rt inst \<in> {0, 1, 2, 3}" by auto
  with * show ?thesis by (auto simp: exec_insn_def exec_itype_def bgez_bltz_def branch_of_def)
qed (simp_all add: exec_insn_def exec_itype_def branch_of_def)

lemma branch_of_case:
  assumes "is_branch inst \<or> is_branch_likely inst"
  shows "\<exists>h. branch_case (branch_of inst) inst s = (is_branch_likely inst, branch_taken inst s, False, h)"
  using assms
proof (rule branch_of_cases)
  assume *: "inst_opcode inst = 1" "inst_rt inst < 4"
  then have "inst_rt inst \<in> {0, 1, 2, 3}" by auto
  with * show ?thesis
    by (auto simp: branch_of_def branch_taken_def is_branch_likely_def signed_compare_0)
qed (simp_all add: branch_of_def branch_taken_def is_branch_likely_def signed_compare_0 sint_eq_iff eq_commute)

lemma exec_branch:
  assumes "is_branch inst \<or> is_branch_likely inst"
  shows "\<exists>h. \<forall>k. exec_insn E k inst (s\<lparr>icnt := icnt s + 1\<rparr>) =
    (if is_branch_likely inst \<and> \<not> branch_taken inst s then Inr (pc_inc (delay_state h s))
     else bindE (k (delay_state h s)) (\<lambda>s2. Inr (if branch_taken inst s then s2\<lparr>pc := get_branch_target (pc s) inst\<rparr> else s2)))"
proof -
  obtain h where h: "branch_case (branch_of inst) inst s = (is_branch_likely inst, branch_taken inst s, False, h)"
    using branch_of_case [OF assms] by blast
  show ?thesis unfolding exec_branch_of [OF assms] by (intro exI [of _ h] allI branch_exec h)
qed

text \<open>
  C1. A conditional branch (as \<open>is_branch\<close> and \<open>is_branch_likely\<close> recognise it) executes
  as the architecture says.  The instruction in the delay slot runs exactly once, before control
  moves, with the program counter on it; the condition is the one of the register values before
  the delay slot, read as signed numbers; a taken branch continues at \<open>get_branch_target\<close>,
  a branch not taken where the delay slot left the program counter; only a likely branch that is
  not taken skips its delay slot and continues eight bytes on.
\<close>

theorem branch_delay_slot:
  assumes "fetch E s = Inr inst" "is_branch inst \<or> is_branch_likely inst"
  shows "\<exists>h. execMips E (Suc n) s =
    (if is_branch_likely inst \<and> \<not> branch_taken inst s then Inr ((delay_state h s)\<lparr>pc := pc s + 8\<rparr>)
     else bindE (execMips E n (delay_state h s))
       (\<lambda>s2. Inr (if branch_taken inst s then s2\<lparr>pc := get_branch_target (pc s) inst\<rparr> else s2)))"
proof -
  obtain h where h: "\<forall>k. exec_insn E k inst (s\<lparr>icnt := icnt s + 1\<rparr>) =
    (if is_branch_likely inst \<and> \<not> branch_taken inst s then Inr (pc_inc (delay_state h s))
     else bindE (k (delay_state h s)) (\<lambda>s2. Inr (if branch_taken inst s then s2\<lparr>pc := get_branch_target (pc s) inst\<rparr> else s2)))"
    using exec_branch [OF assms(2)] by blast
  have "pc_inc (delay_state h s) = (delay_state h s)\<lparr>pc := pc s + 8\<rparr>"
    by (simp add: delay_state_def pc_inc_def histo_inc_def)
  then show ?thesis using assms(1) h by (intro exI [of _ h]) simp
qed

lemma exec_jtype_eq:
  fixes s :: "'w state_t"
  assumes "inst_opcode inst = 2 \<or> inst_opcode inst = 3"
  defines "s0 \<equiv> (if inst_opcode inst = 3 then wr_gpr 31 (pc s + 8) s else s)"
    and "h \<equiv> (if inst_opcode inst = 3 then ''JAL'' else ''J'')"
    and "target \<equiv> push_bit 2 (inst AND (push_bit 26 1 - 1)) OR ((pc s + 4) AND NOT (push_bit 28 1 - 1))"
  shows "exec_jtype k inst (s\<lparr>icnt := icnt s + 1\<rparr>) = bindE (k (delay_state h s0)) (\<lambda>s2. Inr (s2\<lparr>pc := target\<rparr>))"
proof -
  have d: "histo_inc h (pc_inc (s\<lparr>icnt := icnt s + 1\<rparr>)) = delay_state h s"
    "histo_inc h (pc_inc (wr_gpr 31 (pc s + 8) (s\<lparr>icnt := icnt s + 1\<rparr>))) = delay_state h (wr_gpr 31 (pc s + 8) s)" for h
    by (simp_all add: delay_state_def pc_inc_def histo_inc_def wr_gpr_def)
  have p: "pc (delay_state h t) = pc t + 4" for h and t :: "'w state_t" by (simp add: delay_state_def)
  from assms(1) show ?thesis
  proof
    assume "inst_opcode inst = 2"
    then show ?thesis unfolding exec_jtype_def Let_def s0_def h_def target_def by (simp add: d p)
  next
    assume "inst_opcode inst = 3"
    then show ?thesis unfolding exec_jtype_def Let_def s0_def h_def target_def by (simp add: d p)
  qed
qed

text \<open>
  C8. The jumps: J and JAL continue at \<open>get_jump_target\<close> after their delay slot, JR and JALR
  at the value the register had before the delay slot; JAL and JALR put the address after the
  delay slot into register 31 before the delay slot runs.
\<close>

theorem jump_delay_slot:
  assumes "fetch E s = Inr inst" "is_j inst \<or> is_jal inst \<or> is_jr inst False \<or> is_jalr inst"
  defines "s0 \<equiv> (if is_jal inst \<or> is_jalr inst then wr_gpr 31 (pc s + 8) s else s)"
  shows "if is_j inst \<or> is_jal inst
    then \<exists>target h. get_jump_target (pc s) inst = Inr target \<and>
      execMips E (Suc n) s = bindE (execMips E n (delay_state h s0)) (\<lambda>s2. Inr (s2\<lparr>pc := target\<rparr>))
    else \<exists>h. execMips E (Suc n) s =
      bindE (execMips E n (s0\<lparr>pc := pc s + 4, icnt := icnt s + 1\<rparr>)) (\<lambda>s2. Inr (histo_inc h (s2\<lparr>pc := gpr s ! inst_rs inst\<rparr>)))"
proof (cases "is_j inst \<or> is_jal inst")
  case True
  then have op: "inst_opcode inst = 2 \<or> inst_opcode inst = 3" by (auto simp: is_j_def is_jal_def)
  then have "exec_insn E k inst t = exec_jtype k inst t" for k t by (auto simp: exec_insn_def)
  then have e: "execMips E (Suc n) s = exec_jtype (execMips E n) inst (s\<lparr>icnt := icnt s + 1\<rparr>)" using assms(1) by simp
  have "s0 = (if inst_opcode inst = 3 then wr_gpr 31 (pc s + 8) s else s)"
    using op by (auto simp: s0_def is_jal_def is_jalr_def)
  moreover have "get_jump_target (pc s) inst =
      Inr (push_bit 2 (inst AND (push_bit 26 1 - 1)) OR ((pc s + 4) AND NOT (push_bit 28 1 - 1)))"
  proof -
    have c: "is_jal inst \<or> is_j inst" using True by blast
    show ?thesis unfolding get_jump_target_def Let_def assertE_def if_P [OF c] by (simp only: or.commute)
  qed
  ultimately show ?thesis using True unfolding e exec_jtype_eq [OF op] by auto
next
  case False
  then have op: "inst_opcode inst = 0" "inst_funct inst = 8 \<or> inst_funct inst = 9"
    using assms(2) by (auto simp: is_jr_def is_jalr_def split: if_splits)
  have p: "pc_inc (s\<lparr>icnt := icnt s + 1\<rparr>) = s\<lparr>pc := pc s + 4, icnt := icnt s + 1\<rparr>"
    "pc_inc (wr_gpr 31 (pc s + 8) (s\<lparr>icnt := icnt s + 1\<rparr>)) = (wr_gpr 31 (pc s + 8) s)\<lparr>pc := pc s + 4, icnt := icnt s + 1\<rparr>"
    by (simp_all add: pc_inc_def wr_gpr_def)
  have "execMips E (Suc n) s = exec_rtype E (execMips E n) inst (s\<lparr>icnt := icnt s + 1\<rparr>)"
    using assms(1) op(1) by (simp add: exec_insn_def)
  then show ?thesis
    using False op(2)
    by (auto simp: exec_rtype_def insn_jr_def insn_jalr_def s0_def is_jal_def is_jalr_def is_j_def op(1) p)
qed

lemma exec_insn_icnt:
  assumes "wf_state s" "\<not> is_control inst"
  shows "on_ok (\<lambda>s'. icnt s' = icnt s) (exec_insn E k inst s)"
proof -
  consider "is_monitor inst" | "is_stop inst" | "\<not> is_monitor inst" "\<not> is_stop inst" by blast
  then show ?thesis
  proof cases
    case 1
    then show ?thesis
      using monitorBody_frame [OF assms(1), of "little E" "globs E" "host E" inst]
      by (auto simp: exec_insn_monitor_stop on_ok_def split: sum.splits)
  next
    case 2
    then show ?thesis by (simp add: exec_insn_monitor_stop insn_break_def)
  next
    case 3
    then show ?thesis
      using exec_insn_plain(1) [OF assms, of E k] by (auto simp: on_ok_def plain_step_def split: sum.splits)
  qed
qed

lemma execMips_no_slot:
  assumes "wf_state s" "\<And>inst. fetch E s = Inr inst \<Longrightarrow> \<not> is_control inst"
  shows "on_ok (\<lambda>s'. icnt s' = icnt s + 1) (execMips E n s)"
proof (cases n)
  case (Suc m)
  have "wf_state (s\<lparr>icnt := icnt s + 1\<rparr>)" using assms(1) by (simp add: wf_state_def)
  then have "on_ok (\<lambda>s'. icnt s' = icnt s + 1) (exec_insn E (execMips E m) inst (s\<lparr>icnt := icnt s + 1\<rparr>))"
    if "fetch E s = Inr inst" for inst
    using exec_insn_icnt [of "s\<lparr>icnt := icnt s + 1\<rparr>" inst E] assms(2) [OF that] by simp
  then show ?thesis by (cases "fetch E s") (simp_all add: Suc)
qed simp

text \<open>
  The instruction counter: executing an instruction adds one for it, and one more for the
  instruction in the delay slot of a control transfer (unless the delay slot is skipped), as
  long as no delay slot holds a control transfer.
\<close>

theorem icnt_counts_instructions:
  assumes "wf_state s" "fetch E s = Inr i0"
    and "\<And>i1. is_control i0 \<Longrightarrow> fetch E (s\<lparr>pc := pc s + 4\<rparr>) = Inr i1 \<Longrightarrow> \<not> is_control i1"
  shows "on_ok (\<lambda>s'. icnt s' = icnt s + 1 \<or> (is_control i0 \<and> icnt s' = icnt s + 2)) (execMips E n s)"
proof (cases "is_control i0")
  case False
  then have "on_ok (\<lambda>s'. icnt s' = icnt s + 1) (execMips E n s)" using assms by (intro execMips_no_slot) simp_all
  then show ?thesis by (auto simp: on_ok_def split: sum.splits)
next
  case True
  define s0 where "s0 = s\<lparr>icnt := icnt s + 1\<rparr>"
  have wf: "wf_state s0" using assms(1) by (simp add: s0_def wf_state_def)
  have "on_ok (\<lambda>s'. wf_state s' \<and> icnt s' = icnt s + 2) (execMips E m s1)" if q: "quiet_step s0 s1" for m s1
  proof -
    have "fetch E s1 = fetch E (s\<lparr>pc := pc s + 4\<rparr>)" "wf_state s1" "icnt s1 = icnt s + 1"
      using q by (auto simp: quiet_step_def plain_step_def s0_def intro!: fetch_cong)
    with assms(3) [OF True] show ?thesis
      using execMips_no_slot [of s1 E m] execMips_wf [of s1 E m] by (auto simp: on_ok_def split: sum.splits)
  qed
  then have "on_ok (\<lambda>s'. icnt s' = icnt s + 1 \<or> icnt s' = icnt s + 2) (exec_insn E (execMips E m) i0 s0)" for m
    by (rule slot_shape_on_ok [OF exec_insn_control_shape [OF wf True], rotated]) (auto simp: after_slot_def s0_def)
  with True assms(2) show ?thesis by (cases n) (simp_all add: s0_def)
qed

lemma execMips_no_slot_mem:
  assumes "wf_state s"
    and "\<And>inst. fetch E s = Inr inst \<Longrightarrow> \<not> is_control inst \<and> \<not> is_monitor inst \<and> \<not> is_store_opcode inst"
  shows "on_ok (\<lambda>s'. mem s' = mem s) (execMips E n s)"
proof (cases n)
  case (Suc m)
  define s0 where "s0 = s\<lparr>icnt := icnt s + 1\<rparr>"
  have wf: "wf_state s0" using assms(1) by (simp add: wf_state_def s0_def)
  have "on_ok (\<lambda>s'. mem s' = mem s) (exec_insn E (execMips E m) inst s0)" if "fetch E s = Inr inst" for inst
  proof (cases "is_stop inst")
    case True
    then show ?thesis by (simp add: exec_insn_monitor_stop insn_break_def s0_def)
  next
    case False
    then show ?thesis
      using exec_insn_plain(2) [OF wf, of inst E "execMips E m"] assms(2) [OF that]
      by (cases "exec_insn E (execMips E m) inst s0") (auto simp: quiet_step_def s0_def)
  qed
  then show ?thesis by (cases "fetch E s") (simp_all add: Suc s0_def)
qed simp

text \<open>
  C25. \<open>is_store_insn\<close> misses no store: when it is false for the instruction at the program
  counter (and for the one in its delay slot, if it is a control transfer), and neither enters
  the monitor, executing the instruction leaves every byte of memory as it was.
\<close>

theorem is_store_insn_sound:
  assumes "wf_state s" "fetch E s = Inr i0" "is_store_insn E s = Inr False" "\<not> is_monitor i0"
    and "is_control i0 \<Longrightarrow> is_store_insn E (s\<lparr>pc := pc s + 4\<rparr>) \<noteq> Inr True"
    and "\<And>i1. is_control i0 \<Longrightarrow> fetch E (s\<lparr>pc := pc s + 4\<rparr>) = Inr i1 \<Longrightarrow> \<not> is_control i1 \<and> \<not> is_monitor i1"
  shows "on_ok (\<lambda>s'. mem s' = mem s) (execMips E n s)"
proof (cases "is_control i0")
  case False
  then show ?thesis using assms by (intro execMips_no_slot_mem) (auto simp: is_store_insn_def)
next
  case True
  define s0 where "s0 = s\<lparr>icnt := icnt s + 1\<rparr>"
  have wf: "wf_state s0" using assms(1) by (simp add: s0_def wf_state_def)
  have "on_ok (\<lambda>s'. wf_state s' \<and> mem s' = mem s) (execMips E m s1)" if q: "quiet_step s0 s1" for m s1
  proof -
    have "fetch E s1 = fetch E (s\<lparr>pc := pc s + 4\<rparr>)" "wf_state s1" "mem s1 = mem s"
      using q by (auto simp: quiet_step_def plain_step_def s0_def intro!: fetch_cong)
    with assms(5,6) [OF True] have "on_ok (\<lambda>s'. mem s' = mem s1) (execMips E m s1)"
      by (intro execMips_no_slot_mem) (auto simp: is_store_insn_def bindE_def split: sum.splits)
    with \<open>mem s1 = mem s\<close> \<open>wf_state s1\<close> show ?thesis
      using execMips_wf [of s1 E m] by (auto simp: on_ok_def split: sum.splits)
  qed
  then have "on_ok (\<lambda>s'. mem s' = mem s) (exec_insn E (execMips E m) i0 s0)" for m
    by (rule slot_shape_on_ok [OF exec_insn_control_shape [OF wf True], rotated]) (auto simp: after_slot_def s0_def)
  with assms(2) show ?thesis by (cases n) (simp_all add: s0_def)
qed

text \<open>
  C31. \<open>decode_fp\<close> agrees with the interpreter: when it names an operation, executing the
  instruction performs that operation.
\<close>

theorem decode_fp_agrees:
  assumes "decode_fp inst \<noteq> fp_unknown"
  shows "exec_insn E k inst s = do_fp_op (fpu_of E) (decode_fp inst) inst s"
proof -
  have d: "inst_opcode inst = 0x11" "inst_rs inst \<noteq> 8" "inst_funct inst div 16 \<noteq> 3"
    "\<not> (inst AND (push_bit 11 1 - 1) = 0 \<and> (inst_rs inst = 0 \<or> inst_rs inst = 4))"
    "inst_funct inst \<in> {0, 1, 2, 3, 4, 5, 6, 7, 0x15, 0x16}"
    using assms unfolding decode_fp_def Let_def by (auto simp only: split: if_splits)
  then have "exec_insn E k inst s = exec_fp_lowop (fpu_of E) inst s"
    unfolding exec_insn_def execCoproc1_def Let_def by (simp only: if_False if_True) simp
  moreover have "exec_fp_lowop (fpu_of E) inst s = do_fp_op (fpu_of E) (decode_fp inst) inst s"
    using d(5)
    by (elim insertE emptyE)
      (simp_all only: decode_fp_def exec_fp_lowop_def Let_def d(1-4) if_False if_True simp_thms, simp_all)
  ultimately show ?thesis by simp
qed

text \<open>
  Register 0 is an ordinary register of the interpreter: ADDIU with target 0 changes it,
  where the architecture keeps it at zero.
\<close>

theorem zero_register_written:
  assumes "wf_state s" "fetch E s = Inr 0x24000001"
  shows "returns (\<lambda>s'. gpr s' ! 0 = gpr s ! 0 + 1) (execMips E (Suc n) s)"
  using assms
  by (simp add: exec_insn_def exec_itype_def insn_addiu_def inst_opcode_def inst_rt_def inst_rs_def simm32_def himm_def
      wf_state_def)

subsection \<open>Examples\<close>

text \<open>
  A program of a big endian guest: at \<open>0x100\<close> a branch to \<open>0x110\<close> with ADDIU
  \<open>$2, $2, 1\<close> in its delay slot, at \<open>0x200\<close> a jump to \<open>0x400\<close>, at \<open>0x300\<close> ADDIU
  \<open>$0, $0, 1\<close>.  The floating point unit and the host of the example do nothing.
\<close>

definition sample_fpu :: fpu where
  "sample_fpu = \<lparr>f32_add = \<lambda>a b. a, f32_sub = \<lambda>a b. a, f32_mul = \<lambda>a b. a, f32_div = \<lambda>a b. a, f32_sqrt = \<lambda>a. a,
     f32_eq = \<lambda>a b. a = b, f32_lt = \<lambda>a b. a < b, f32_le = \<lambda>a b. a \<le> b,
     f64_add = \<lambda>a b. a, f64_sub = \<lambda>a b. a, f64_mul = \<lambda>a b. a, f64_div = \<lambda>a b. a, f64_sqrt = \<lambda>a. a,
     f64_eq = \<lambda>a b. a = b, f64_lt = \<lambda>a b. a < b, f64_le = \<lambda>a b. a \<le> b,
     f64_to_f32 = \<lambda>a. 0, f32_to_f64 = \<lambda>a. 0, i32_to_f32 = \<lambda>a. 0, i32_to_f64 = \<lambda>a. 0,
     f32_to_i32 = \<lambda>a. None, f64_to_i32 = \<lambda>a. None\<rparr>"

definition sample_host :: "unit host_os" where
  "sample_host = \<lparr>os_open = \<lambda>p f w. (-1, w), os_read = \<lambda>fd n w. ([], 0, w), os_write = \<lambda>fd bs w. (of_nat (length bs), w),
     os_lseek = \<lambda>fd off wh w. (-1, w), os_close = \<lambda>fd w. (0, w), os_getcwd = \<lambda>n w. ([], w), os_chdir = \<lambda>p w. (-1, w),
     os_stdin_file = \<lambda>w. None\<rparr>"

definition sample_env :: "unit env" where
  "sample_env = \<lparr>little = False, fpu_of = sample_fpu,
     globs = \<lparr>sysArgc = 0, sysArgv = [], isMipsEL = False, cycle = 0\<rparr>, host = sample_host\<rparr>"

definition sample_prog :: "u32 \<Rightarrow> unit state_t" where
  "sample_prog p = sample_state\<lparr>pc := p, mem := (\<lambda>_. 0)
     (0x100 := 0x10, 0x103 := 0x03, 0x104 := 0x24, 0x105 := 0x42, 0x107 := 0x01,
      0x200 := 0x08, 0x202 := 0x01, 0x300 := 0x24, 0x303 := 0x01)\<rparr>"

lemma sample_prog_simps [simp]:
  "wf_state (sample_prog p)" "pc (sample_prog p) = p" "(sample_prog p)\<lparr>pc := q\<rparr> = sample_prog q"
  "icnt (sample_prog p) = 0" "gpr (sample_prog p) ! 0 = 0"
  by (simp_all add: sample_prog_def wf_state_def sample_state_def state_t_new_def)

lemma sample_fetch:
  "fetch sample_env (sample_prog 0x100) = Inr 0x10000003" "fetch sample_env (sample_prog 0x104) = Inr 0x24420001"
  "fetch sample_env (sample_prog 0x200) = Inr 0x08000100" "fetch sample_env (sample_prog 0x204) = Inr 0"
  "fetch sample_env (sample_prog 0x300) = Inr 0x24000001"
  by (simp_all add: fetch_def sample_prog_def mem_get_def sz_def load_le4 sample_env_def bswap_def builtin_bswap_le4,
      simp_all add: le4_def)

lemma sample_classes:
  "is_control 0x10000003" "is_branch 0x10000003" "\<not> is_branch_likely 0x10000003" "is_j 0x08000100" "is_control 0x08000100"
  "\<not> is_control 0x24420001" "\<not> is_control 0" "\<not> is_monitor 0x10000003" "\<not> is_monitor 0x24420001"
  "\<not> is_store_opcode 0x10000003" "\<not> is_store_opcode 0x24420001"
  by (simp_all add: is_control_def is_branch_def is_branch_likely_def is_j_def is_monitor_def is_store_opcode_def
      inst_opcode_def inst_funct_def)

theorem execMips_fuel_2_witness: "execMips sample_env 7 (sample_prog 0x100) = execMips sample_env 2 (sample_prog 0x100)"
  using execMips_fuel_2 [of "sample_prog 0x100" 7 sample_env] by (simp add: sample_fetch sample_classes)

theorem branch_delay_slot_witness:
  "\<exists>h. execMips sample_env 2 (sample_prog 0x100) =
    bindE (execMips sample_env 1 (delay_state h (sample_prog 0x100))) (\<lambda>s2. Inr (s2\<lparr>pc := 0x110\<rparr>))"
proof -
  have "branch_taken 0x10000003 (sample_prog 0x100)" by (simp add: branch_taken_def inst_opcode_def inst_rs_def inst_rt_def)
  moreover have "get_branch_target 0x100 0x10000003 = 0x110" by (simp add: get_branch_target_def simm32_def himm_def)
  ultimately show ?thesis
    using branch_delay_slot [OF sample_fetch(1), of 1] by (simp add: sample_classes numeral_2_eq_2)
qed

theorem jump_delay_slot_witness:
  "\<exists>h. execMips sample_env 2 (sample_prog 0x200) =
    bindE (execMips sample_env 1 (delay_state h (sample_prog 0x200))) (\<lambda>s2. Inr (s2\<lparr>pc := 0x400\<rparr>))"
proof -
  have "get_jump_target 0x200 0x08000100 = Inr 0x400" using sample_classes(4) by (simp add: get_jump_target_def)
  moreover have "\<not> is_jal 0x08000100" "\<not> is_jalr 0x08000100" by (simp_all add: is_jal_def is_jalr_def inst_opcode_def)
  ultimately show ?thesis
    using jump_delay_slot [OF sample_fetch(3), of 1] by (auto simp: sample_classes numeral_2_eq_2)
qed

theorem icnt_counts_instructions_witness:
  "on_ok (\<lambda>s'. icnt s' = 1 \<or> icnt s' = 2) (execMips sample_env 2 (sample_prog 0x100))"
  using icnt_counts_instructions [OF _ sample_fetch(1), of 2]
  by (simp add: sample_fetch sample_classes)

theorem is_store_insn_sound_witness:
  "on_ok (\<lambda>s'. mem s' = mem (sample_prog 0x100)) (execMips sample_env 2 (sample_prog 0x100))"
  by (rule is_store_insn_sound [OF _ sample_fetch(1)])
    (simp_all add: is_store_insn_def sample_fetch sample_classes)

theorem decode_fp_agrees_witness:
  "\<forall>k. exec_insn sample_env k 0x46201107 sample_state = do_fp_op sample_fpu fp_neg 0x46201107 sample_state"
proof
  have "decode_fp 0x46201107 = fp_neg" by (simp add: decode_fp_def inst_opcode_def inst_rs_def inst_funct_def)
  then show "exec_insn sample_env k 0x46201107 sample_state = do_fp_op sample_fpu fp_neg 0x46201107 sample_state" for k
    using decode_fp_agrees [of "0x46201107" sample_env k sample_state] by (simp add: sample_env_def)
qed

theorem zero_register_written_witness: "returns (\<lambda>s'. gpr s' ! 0 = 1) (execMips sample_env 1 (sample_prog 0x300))"
  using zero_register_written [OF _ sample_fetch(5), of 0] by simp

end
