(* ===== verification/Save_State.thy ===== *)
theory Save_State
  imports Mips_State
begin

text \<open>
  \<open>src/saveState.cc\<close>: reading a checkpoint.  A checkpoint is a packed \<open>header\<close> followed by
  \<open>num_nz_pages\<close> packed \<open>page\<close> records, all in the byte order of the little endian host.  The
  file is the list of its bytes (\<open>None\<close> when it cannot be opened); \<open>read\<close> returns as many bytes
  as it is asked for or as are left.  The declared writer \<open>dumpState\<close> has no definition in the
  sources; \<open>dump_bytes\<close> is the layout the two packed structures fix.
\<close>

subsection \<open>The checkpoint format\<close>

text \<open>An array of words at an offset of a packed structure.\<close>

definition words_at :: "u8 list \<Rightarrow> nat \<Rightarrow> nat \<Rightarrow> u32 list" where
  "words_at bs off n = map (\<lambda>i. le_at bs (off + 4 * i) 4) [0..<n]"


record page =
  va :: u32
  page_data :: "u8 list"

record header =
  h_pc :: u32
  h_gpr :: "u32 list"
  h_lo :: u32
  h_hi :: u32
  h_cpr0 :: "u32 list"
  h_cpr1 :: "u32 list"
  h_fcr1 :: "u32 list"
  h_icnt :: u64
  num_nz_pages :: u32

definition header_of :: "u8 list \<Rightarrow> header" where
  "header_of bs =
     \<lparr>h_pc = le_at bs 0 4, h_gpr = words_at bs 4 32, h_lo = le_at bs 132 4, h_hi = le_at bs 136 4,
      h_cpr0 = words_at bs 140 32, h_cpr1 = words_at bs 268 32, h_fcr1 = words_at bs 396 5,
      h_icnt = le_at bs 416 8, num_nz_pages = le_at bs 424 4\<rparr>"

definition page_of :: "u8 list \<Rightarrow> page" where
  "page_of bs = \<lparr>va = le_at bs 0 4, page_data = drop 4 bs\<rparr>"

text \<open>\<open>sizeof(header)\<close> and \<open>sizeof(page)\<close>.\<close>

definition header_size :: nat where "header_size = 428"
definition page_size :: nat where "page_size = 4100"

definition read :: "nat \<Rightarrow> u8 list \<Rightarrow> u8 list \<times> u8 list" where
  "read n fd = (take n fd, drop n fd)"

subsection \<open>Loading\<close>

definition load_page :: "page \<Rightarrow> memory \<Rightarrow> memory result" where
  "load_page p m = foldE (\<lambda>j m. mem_set m (ucast (va p + of_nat j)) (page_data p ! j)) [0..<4096] m"

primrec load_pages :: "nat \<Rightarrow> u8 list \<Rightarrow> memory \<Rightarrow> memory result" where
  "load_pages 0 fd m = Inr m"
| "load_pages (Suc n) fd m =
     (case read page_size fd of (bs, fd') \<Rightarrow>
        assertE (length bs = page_size) (bindE (load_page (page_of bs) m) (load_pages n fd')))"

definition loadState :: "'w state_t \<Rightarrow> u8 list option \<Rightarrow> 'w state_t result" where
  "loadState s file =
     (case file of
        None \<Rightarrow> Inl Assert
      | Some fd \<Rightarrow>
          (case read header_size fd of (bs, fd') \<Rightarrow>
             assertE (length bs = header_size)
               (let h = header_of bs
                in assertE (h_pc h \<noteq> 0)
                  (let s1 = s\<lparr>pc := h_pc h, gpr := h_gpr h, lo := h_lo h, hi := h_hi h, cpr0 := h_cpr0 h,
                             cpr1 := h_cpr1 h, fcr1 := h_fcr1 h, icnt := 0, mem := clear (mem s)\<rparr>
                   in bindE (load_pages (unat (num_nz_pages h)) fd' (mem s1)) (\<lambda>m. Inr (s1\<lparr>mem := m\<rparr>))))))"

subsection \<open>The layout\<close>

definition words_bytes :: "u32 list \<Rightarrow> u8 list" where
  "words_bytes ws = concat (map (to_le 4) ws)"

definition header_bytes :: "header \<Rightarrow> u8 list" where
  "header_bytes h =
     to_le 4 (h_pc h) @ words_bytes (h_gpr h) @ to_le 4 (h_lo h) @ to_le 4 (h_hi h) @ words_bytes (h_cpr0 h)
     @ words_bytes (h_cpr1 h) @ words_bytes (h_fcr1 h) @ to_le 8 (h_icnt h) @ to_le 4 (num_nz_pages h)"

definition page_bytes :: "page \<Rightarrow> u8 list" where
  "page_bytes p = to_le 4 (va p) @ page_data p"

definition dump_bytes :: "header \<Rightarrow> page list \<Rightarrow> u8 list" where
  "dump_bytes h ps = header_bytes h @ concat (map page_bytes ps)"

definition wf_header :: "header \<Rightarrow> bool" where
  "wf_header h \<longleftrightarrow> length (h_gpr h) = 32 \<and> length (h_cpr0 h) = 32 \<and> length (h_cpr1 h) = 32 \<and> length (h_fcr1 h) = 5"

text \<open>The address lies in the page.\<close>

definition in_page :: "page \<Rightarrow> u32 \<Rightarrow> bool" where
  "in_page p b \<longleftrightarrow> unat (b - va p) < 4096"

subsection \<open>Encoding and decoding\<close>

lemma length_words_bytes [simp]: "length (words_bytes ws) = 4 * length ws"
  by (induction ws) (simp_all add: words_bytes_def)

lemma words_at_skip: "length xs = k \<Longrightarrow> k \<le> off \<Longrightarrow> words_at (xs @ ys) off n = words_at ys (off - k) n"
  by (simp add: words_at_def le_at_skip)

lemma words_at_here: "length ws = n \<Longrightarrow> words_at (words_bytes ws @ ys) 0 n = ws"
proof (induction ws arbitrary: n)
  case Nil
  then show ?case by (simp add: words_at_def)
next
  case (Cons w ws)
  define k where "k = length ws"
  have *: "words_at (words_bytes ws @ ys) 0 k = ws" using Cons.IH by (simp add: k_def)
  have "[0..<Suc k] = 0 # map Suc [0..<k]" by (simp add: map_Suc_upt upt_conv_Cons del: upt_Suc)
  then show ?case
    using Cons.prems * by (simp add: k_def [symmetric] words_at_def words_bytes_def le_at_skip comp_def del: upt_Suc)
qed

lemma header_of_bytes:
  assumes "wf_header h"
  shows "header_of (header_bytes h @ ys) = h"
  using assms
  by (simp add: header_of_def header_bytes_def wf_header_def words_at_here le_at_skip words_at_skip)

subsection \<open>Pages\<close>

definition put_page :: "page \<Rightarrow> memory \<Rightarrow> memory" where
  "put_page p m = (\<lambda>b. if in_page p b then page_data p ! unat (b - va p) else m b)"

lemma load_page_eq: "load_page p m = Inr (put_page p m)"
  by (simp add: load_page_def put_page_def in_page_def set_bytes_loop sz_def)

lemma load_pages_eq:
  "load_pages n fd m =
     (if n * page_size \<le> length fd
      then Inr (fold (\<lambda>i. put_page (page_of (take page_size (drop (i * page_size) fd)))) [0..<n] m)
      else Inl Assert)"
proof (induction n arbitrary: fd m)
  case (Suc n)
  have "[0..<Suc n] = 0 # map Suc [0..<n]" by (simp add: map_Suc_upt upt_conv_Cons del: upt_Suc)
  then show ?case
    by (auto simp: read_def load_page_eq Suc.IH fold_map comp_def add.commute assertE_def simp del: upt_Suc)
qed simp

lemma page_of_bytes: "page_of (page_bytes p) = p"
  by (simp add: page_of_def page_bytes_def)

lemma load_pages_dump:
  assumes "\<forall>p \<in> set ps. length (page_data p) = 4096"
  shows "load_pages (length ps) (concat (map page_bytes ps)) m = Inr (fold put_page ps m)"
  using assms
proof (induction ps arbitrary: m)
  case (Cons p ps)
  then have "length (page_bytes p) = page_size" by (simp add: page_bytes_def page_size_def)
  with Cons show ?case by (simp add: read_def load_page_eq page_of_bytes)
qed simp

lemma fold_put_page:
  "fold put_page ps m b =
     (case find (\<lambda>p. in_page p b) (rev ps) of None \<Rightarrow> m b | Some p \<Rightarrow> page_data p ! unat (b - va p))"
proof -
  have "put_page = (\<lambda>p m b. if in_page p b then page_data p ! unat (b - va p) else m b)"
    by (simp add: put_page_def fun_eq_iff)
  then show ?thesis using fold_override [of in_page "\<lambda>p b. page_data p ! unat (b - va p)"] by simp
qed

lemma length_header_bytes: "wf_header h \<Longrightarrow> length (header_bytes h) = header_size"
  by (simp add: wf_header_def header_bytes_def header_size_def)

subsection \<open>Properties of checkpoints\<close>

lemma loadState_dump:
  assumes "wf_header h" "h_pc h \<noteq> 0" "unat (num_nz_pages h) = length ps"
    and "\<forall>p \<in> set ps. length (page_data p) = 4096"
  shows "loadState s (Some (dump_bytes h ps)) =
    Inr (s\<lparr>pc := h_pc h, gpr := h_gpr h, lo := h_lo h, hi := h_hi h, cpr0 := h_cpr0 h, cpr1 := h_cpr1 h,
           fcr1 := h_fcr1 h, icnt := 0,
           mem := (\<lambda>b. case find (\<lambda>p. in_page p b) (rev ps) of
                         None \<Rightarrow> 0 | Some p \<Rightarrow> page_data p ! unat (b - va p))\<rparr>)"
proof -
  have hdr: "header_of (header_bytes h) = h" using header_of_bytes [OF assms(1), of "[]"] by simp
  have "load_pages (unat (num_nz_pages h)) (concat (map page_bytes ps)) (clear (mem s)) =
      Inr (fold put_page ps (clear (mem s)))"
    using assms(3,4) by (simp add: load_pages_dump)
  moreover have "fold put_page ps (clear (mem s)) =
      (\<lambda>b. case find (\<lambda>p. in_page p b) (rev ps) of None \<Rightarrow> 0 | Some p \<Rightarrow> page_data p ! unat (b - va p))"
    by (simp add: fun_eq_iff fold_put_page clear_def)
  ultimately show ?thesis
    using assms(1,2) by (simp add: loadState_def dump_bytes_def read_def hdr length_header_bytes Let_def)
qed

text \<open>
  C17. Loading a checkpoint restores what it holds: from the file of a header with a nonzero
  program counter and its pages, \<open>loadState\<close> returns the registers of the header, an instruction
  count of zero, and a memory in which every byte comes from the last page that contains it and
  is zero outside all pages; what the file does not hold stays as it was.
\<close>

theorem loadState_restores:
  assumes "wf_header h" "h_pc h \<noteq> 0" "unat (num_nz_pages h) = length ps"
    and "\<forall>p \<in> set ps. length (page_data p) = 4096"
  shows "loadState s (Some (dump_bytes h ps)) =
    Inr (s\<lparr>pc := h_pc h, gpr := h_gpr h, lo := h_lo h, hi := h_hi h, cpr0 := h_cpr0 h, cpr1 := h_cpr1 h,
           fcr1 := h_fcr1 h, icnt := 0,
           mem := (\<lambda>b. case find (\<lambda>p. in_page p b) (rev ps) of
                         None \<Rightarrow> 0 | Some p \<Rightarrow> page_data p ! unat (b - va p))\<rparr>)"
  using assms by (rule loadState_dump)

definition sample_header :: header where
  "sample_header = \<lparr>h_pc = 0x80020000, h_gpr = replicate 32 7, h_lo = 1, h_hi = 2, h_cpr0 = replicate 32 0,
     h_cpr1 = replicate 32 3, h_fcr1 = replicate 5 0, h_icnt = 99, num_nz_pages = 1\<rparr>"

definition sample_page :: page where
  "sample_page = \<lparr>va = 0x80020000, page_data = replicate 4096 0x5a\<rparr>"

theorem loadState_restores_witness:
  "\<exists>s'. loadState sample_state (Some (dump_bytes sample_header [sample_page])) = Inr s'
     \<and> pc s' = 0x80020000 \<and> gpr s' = replicate 32 7 \<and> icnt s' = 0
     \<and> mem s' 0x80020010 = 0x5a \<and> mem s' 0x1000 = 0"
proof -
  have "wf_header sample_header" "h_pc sample_header \<noteq> 0"
    "unat (num_nz_pages sample_header) = length [sample_page]"
    "\<forall>p \<in> set [sample_page]. length (page_data p) = 4096"
    by (simp_all add: wf_header_def sample_header_def sample_page_def)
  from loadState_restores [OF this, of sample_state] show ?thesis
    by (simp add: sample_header_def sample_page_def in_page_def)
qed

text \<open>
  C38. \<open>loadState\<close> accepts exactly the files that hold a header with a nonzero program counter and
  the pages it announces; every other file fails an assertion.  The magic number is a static
  constant of the structure and no part of the file.
\<close>

theorem loadState_accepts_iff:
  "(if \<exists>fd. file = Some fd \<and> header_size + unat (num_nz_pages (header_of fd)) * page_size \<le> length fd
        \<and> h_pc (header_of fd) \<noteq> 0
    then \<exists>s'. loadState s file = Inr s' else loadState s file = Inl Assert)"
proof (cases "file")
  case (Some fd)
  have "header_of (take header_size fd) = header_of fd" 
    by (simp add: header_of_def words_at_def le_at_def header_size_def drop_take)
  then show ?thesis
    using Some by (auto simp: loadState_def read_def Let_def load_pages_eq assertE_def min_def)
qed (simp add: loadState_def)

end
