(* ===== verification/Load_Elf.thy ===== *)
theory Load_Elf
  imports Monitor
begin

text \<open>
  \<open>src/loadelf.cc\<close>: loading a 32 bit MIPS executable.  The structures are those of
  \<open>src/osx_elf.h\<close>.  The file is mapped: the bytes after its end, up to the next page of the host,
  read as zero, and everything outside the mapping is \<open>Undefined\<close>.  The initial stack of the
  Linux emulation (\<open>LINUX_SYSCALL_EMULATION\<close>, off in the build) uses a member \<open>at\<close> that only the page
  table memory has; it is the theory \<open>Elf_Stack\<close>.
\<close>

subsection \<open>The mapped file\<close>

datatype elf_file = Open_fails | Stat_fails | Contents "u8 list"

definition mapped :: "nat \<Rightarrow> u8 list \<Rightarrow> u8 list" where
  "mapped pgSize f = f @ replicate ((pgSize - length f mod pgSize) mod pgSize) 0"

definition buf_at :: "u8 list \<Rightarrow> int \<Rightarrow> nat \<Rightarrow> 'a::len word result" where
  "buf_at buf off n = definedE (0 \<le> off \<and> nat off + n \<le> length buf) (Inr (le_at buf (nat off) n))"

record Elf32_Ehdr =
  e_ident :: "u8 list"
  e_type :: u16
  e_machine :: u16
  e_version :: u32
  e_entry :: u32
  e_phoff :: u32
  e_shoff :: u32
  e_flags :: u32
  e_ehsize :: u16
  e_phentsize :: u16
  e_phnum :: u16
  e_shentsize :: u16
  e_shnum :: u16
  e_shstrndx :: u16

definition ehdr_of :: "u8 list \<Rightarrow> Elf32_Ehdr" where
  "ehdr_of buf =
     \<lparr>e_ident = take 16 buf, e_type = le_at buf 16 2, e_machine = le_at buf 18 2, e_version = le_at buf 20 4,
      e_entry = le_at buf 24 4, e_phoff = le_at buf 28 4, e_shoff = le_at buf 32 4, e_flags = le_at buf 36 4,
      e_ehsize = le_at buf 40 2, e_phentsize = le_at buf 42 2, e_phnum = le_at buf 44 2,
      e_shentsize = le_at buf 46 2, e_shnum = le_at buf 48 2, e_shstrndx = le_at buf 50 2\<rparr>"

record Elf32_Phdr =
  p_type :: u32
  p_offset :: u32
  p_vaddr :: u32
  p_paddr :: u32
  p_filesz :: u32
  p_memsz :: u32
  p_flags :: u32
  p_align :: u32

definition PT_LOAD :: u32 where "PT_LOAD = 1"
definition SHT_PROGBITS :: u32 where "SHT_PROGBITS = 1"

definition elf_bswap :: "globals \<Rightarrow> 'a::len word \<Rightarrow> 'a word" where
  "elf_bswap G x = (if isMipsEL G then x else builtin_bswap x)"

definition magicArr :: "u8 list" where
  "magicArr = [0x7f, 0x45, 0x4c, 0x46]"

definition checkElf :: "Elf32_Ehdr \<Rightarrow> bool" where
  "checkElf eh32 \<longleftrightarrow> take 4 (e_ident eh32) = magicArr"

definition check32Bit :: "Elf32_Ehdr \<Rightarrow> bool" where
  "check32Bit eh32 \<longleftrightarrow> e_ident eh32 ! 4 = 1"

definition checkBigEndian :: "Elf32_Ehdr \<Rightarrow> bool" where
  "checkBigEndian eh32 \<longleftrightarrow> e_ident eh32 ! 5 = 2"

definition checkLittleEndian :: "Elf32_Ehdr \<Rightarrow> bool" where
  "checkLittleEndian eh32 \<longleftrightarrow> e_ident eh32 ! 5 = 1"

subsection \<open>Segments\<close>

text \<open>The local variables of \<open>load_elf\<close> that the loop over the program headers updates.\<close>

record load_vars =
  loaddr :: u32
  hiaddr :: u32
  lAddr :: u32

text \<open>The part of the loop body for loadable segments, as QEMU keeps it in the image record.\<close>

definition note_segment :: "u32 \<Rightarrow> u32 \<Rightarrow> u32 \<Rightarrow> u32 \<Rightarrow> load_vars \<times> 'w state_t \<Rightarrow> load_vars \<times> 'w state_t" where
  "note_segment memsz offset vaddr align = (\<lambda>(V, ms).
     let e = vaddr + memsz; im = linux_image ms
     in (V\<lparr>loaddr := min (loaddr V) (vaddr - offset), hiaddr := max (hiaddr V) e\<rparr>,
         ms\<lparr>linux_image := im\<lparr>image_brk := (if e > image_brk im then e else image_brk im),
                              nsegs := nsegs im + 1, alignment := alignment im OR align\<rparr>\<rparr>))"

definition copy_segment :: "u8 list \<Rightarrow> u32 \<Rightarrow> u32 \<Rightarrow> u32 \<Rightarrow> u32 \<Rightarrow> memory \<Rightarrow> memory result" where
  "copy_segment buf memsz offset filesz vaddr m =
     bindE (foldE (\<lambda>cc m. mem_set m (ucast (vaddr + of_nat cc)) (0 :: u8)) [0..<nat (sint memsz)]
       (prefault m (ucast vaddr) (scast memsz))) (\<lambda>m1.
     foldE (\<lambda>cc m. bindE (buf_at buf (sint offset + int cc) 1) (\<lambda>b :: u8. mem_set m (ucast (vaddr + of_nat cc)) b))
       [0..<nat (sint filesz)] m1)"

definition load_segment :: "globals \<Rightarrow> u8 list \<Rightarrow> int \<Rightarrow> load_vars \<times> 'w state_t \<Rightarrow> (load_vars \<times> 'w state_t) result" where
  "load_segment G buf ph32 vs =
     bindE (buf_at buf (ph32 + 20) 4) (\<lambda>w_memsz.
     bindE (buf_at buf (ph32 + 4) 4) (\<lambda>w_offset.
     bindE (buf_at buf (ph32 + 16) 4) (\<lambda>w_filesz.
     bindE (buf_at buf ph32 4) (\<lambda>w_type.
     bindE (buf_at buf (ph32 + 8) 4) (\<lambda>w_vaddr.
     let memsz = elf_bswap G w_memsz; offset = elf_bswap G w_offset; filesz = elf_bswap G w_filesz;
         type = elf_bswap G w_type; vaddr = elf_bswap G w_vaddr
     in bindE
          (if type = PT_LOAD
           then bindE (buf_at buf (ph32 + 28) 4) (\<lambda>w_align. Inr (note_segment memsz offset vaddr (elf_bswap G w_align) vs))
           else Inr vs) (\<lambda>(V, ms).
        if type = SHT_PROGBITS \<and> memsz \<noteq> 0
        then let V1 = (if vaddr + memsz > lAddr V then V\<lparr>lAddr := vaddr + memsz\<rparr> else V)
             in bindE (copy_segment buf memsz offset filesz vaddr (mem ms)) (\<lambda>m. Inr (V1, ms\<lparr>mem := m\<rparr>))
        else Inr (V, ms)))))))"

subsection \<open>Loading\<close>

definition load_image :: "globals \<Rightarrow> u8 list \<Rightarrow> 'w state_t \<Rightarrow> 'w state_t result" where
  "load_image G buf ms =
     (let eh32 = ehdr_of buf; l = elf_bswap G (e_entry eh32); e_phoff = sint (elf_bswap G (e_phoff eh32));
          n = unat (elf_bswap G (e_phnum eh32));
          ms1 = ms\<lparr>pc := l, linux_image := (linux_image ms)
             \<lparr>entry := l, elf_flags := elf_bswap G (e_flags eh32), start_code := - 1, end_code := 0,
              start_data := - 1, end_data := 0, image_brk := 0, alignment := 0\<rparr>\<rparr>
      in bindE (foldE (\<lambda>i. load_segment G buf (e_phoff + 32 * int i)) [0..<n]
           (\<lparr>loaddr = NOT 0, hiaddr = 0, lAddr = l\<rparr>, ms1)) (\<lambda>(V, ms2).
         Inr (ms2\<lparr>linux_image := (linux_image ms2)\<lparr>reserve_brk := push_bit 24 1, load_addr := loaddr V\<rparr>\<rparr>)))"

definition load_elf :: "nat \<Rightarrow> globals \<Rightarrow> elf_file \<Rightarrow> 'w state_t \<Rightarrow> (globals \<times> 'w state_t) result" where
  "load_elf pgSize G fn ms =
     (let ms0 = ms\<lparr>mem := clear (mem ms)\<rparr>
      in case fn of
           Open_fails \<Rightarrow> Inl (Exit (-1))
         | Stat_fails \<Rightarrow> Inl (Exit (-1))
         | Contents f \<Rightarrow>
             (let buf = mapped pgSize f; eh32 = ehdr_of buf
              in definedE (52 \<le> length buf)
                (if \<not> checkElf eh32 \<or> \<not> check32Bit eh32 then Inl (Exit (-1))
                 else bindE
                   (if checkLittleEndian eh32 then Inr (G\<lparr>isMipsEL := True\<rparr>)
                    else if checkBigEndian eh32 then Inr (G\<lparr>isMipsEL := False\<rparr>)
                    else Inl Abort) (\<lambda>G1.
                 if elf_bswap G1 (e_machine eh32) \<noteq> 8 then Inl (Exit (-1))
                 else bindE (load_image G1 buf ms0) (\<lambda>ms1. Inr (G1, ms1))))))"

subsection \<open>Well formed executables\<close>

text \<open>The program headers in host byte order, and what a loadable segment puts into the memory.\<close>

definition phdr_of :: "globals \<Rightarrow> u8 list \<Rightarrow> nat \<Rightarrow> Elf32_Phdr" where
  "phdr_of G buf a =
     \<lparr>p_type = elf_bswap G (le_at buf a 4), p_offset = elf_bswap G (le_at buf (a + 4) 4),
      p_vaddr = elf_bswap G (le_at buf (a + 8) 4), p_paddr = elf_bswap G (le_at buf (a + 12) 4),
      p_filesz = elf_bswap G (le_at buf (a + 16) 4), p_memsz = elf_bswap G (le_at buf (a + 20) 4),
      p_flags = elf_bswap G (le_at buf (a + 24) 4), p_align = elf_bswap G (le_at buf (a + 28) 4)\<rparr>"

definition phdrs :: "globals \<Rightarrow> u8 list \<Rightarrow> Elf32_Phdr list" where
  "phdrs G buf =
     map (\<lambda>i. phdr_of G buf (nat (sint (elf_bswap G (e_phoff (ehdr_of buf)))) + 32 * i))
       [0..<unat (elf_bswap G (e_phnum (ehdr_of buf)))]"

definition loadable :: "Elf32_Phdr \<Rightarrow> bool" where
  "loadable p \<longleftrightarrow> p_type p = PT_LOAD \<and> p_memsz p \<noteq> 0"

definition seg_covers :: "Elf32_Phdr \<Rightarrow> u32 \<Rightarrow> bool" where
  "seg_covers p b \<longleftrightarrow> unat (b - p_vaddr p) < max (nat (sint (p_filesz p))) (nat (sint (p_memsz p)))"

definition seg_byte :: "u8 list \<Rightarrow> Elf32_Phdr \<Rightarrow> u32 \<Rightarrow> u8" where
  "seg_byte buf p b =
     (if unat (b - p_vaddr p) < nat (sint (p_filesz p)) then buf ! (nat (sint (p_offset p)) + unat (b - p_vaddr p)) else 0)"

definition elf_ok :: "globals \<Rightarrow> u8 list \<Rightarrow> bool" where
  "elf_ok G buf \<longleftrightarrow>
     (let eh32 = ehdr_of buf; off = sint (elf_bswap G (e_phoff eh32)); n = unat (elf_bswap G (e_phnum eh32))
      in 52 \<le> length buf \<and> checkElf eh32 \<and> check32Bit eh32
         \<and> (if isMipsEL G then checkLittleEndian eh32 else checkBigEndian eh32)
         \<and> elf_bswap G (e_machine eh32) = 8 \<and> 0 \<le> off \<and> nat off + 32 * n \<le> length buf
         \<and> list_all (\<lambda>p. loadable p \<longrightarrow> 0 \<le> sint (p_offset p) \<and>
              nat (sint (p_offset p)) + nat (sint (p_filesz p)) \<le> length buf) (phdrs G buf))"

definition seg_step :: "u8 list \<Rightarrow> Elf32_Phdr \<Rightarrow> load_vars \<times> 'w state_t \<Rightarrow> load_vars \<times> 'w state_t" where
  "seg_step buf p vs =
     (case if p_type p = PT_LOAD then note_segment (p_memsz p) (p_offset p) (p_vaddr p) (p_align p) vs else vs of
        (V, ms) \<Rightarrow>
          if loadable p
          then (if p_vaddr p + p_memsz p > lAddr V then V\<lparr>lAddr := p_vaddr p + p_memsz p\<rparr> else V,
                ms\<lparr>mem := (\<lambda>b. if seg_covers p b then seg_byte buf p b else mem ms b)\<rparr>)
          else (V, ms))"

lemma nat_sint_le_sz: "nat (sint x) \<le> sz" for x :: u32
  using sint_bounds_32 [of x] by (simp add: sz_def)

lemma le_at_1: "k < length buf \<Longrightarrow> (le_at buf k 1 :: u8) = buf ! k"
  by (simp add: le_at_def hd_drop_conv_nth take_Suc)

lemma copy_segment_eq:
  assumes "0 \<le> sint offset" "nat (sint offset) + nat (sint filesz) \<le> length buf"
  shows "copy_segment buf memsz offset filesz vaddr m =
    Inr (\<lambda>b. if unat (b - vaddr) < nat (sint filesz) then buf ! (nat (sint offset) + unat (b - vaddr))
             else if unat (b - vaddr) < nat (sint memsz) then 0 else m b)"
proof -
  define put where "put = (\<lambda>cc (m :: memory). mem_set m (ucast (vaddr + of_nat cc)) (buf ! (nat (sint offset) + cc)))"
  have "foldE (\<lambda>cc m. bindE (buf_at buf (sint offset + int cc) 1) (\<lambda>b :: u8. mem_set m (ucast (vaddr + of_nat cc)) b))
      [0..<nat (sint filesz)] m1 = foldE put [0..<nat (sint filesz)] m1" for m1
  proof (rule foldE_cong)
    fix cc and m :: memory
    assume "cc \<in> set [0..<nat (sint filesz)]"
    moreover have "nat (sint offset + int cc) = nat (sint offset) + cc" using assms(1) by simp
    ultimately show "bindE (buf_at buf (sint offset + int cc) 1) (\<lambda>b :: u8. mem_set m (ucast (vaddr + of_nat cc)) b) = put cc m"
      using assms by (simp add: buf_at_def put_def le_at_1 del: One_nat_def)
  qed
  then show ?thesis
    by (simp add: copy_segment_def prefault_def put_def set_bytes_loop nat_sint_le_sz cong: if_cong)
qed

lemma load_segment_eq:
  fixes a :: nat and buf :: "u8 list" and G :: globals
  defines "p \<equiv> phdr_of G buf a"
  assumes "a + 32 \<le> length buf"
    and "loadable p \<Longrightarrow> 0 \<le> sint (p_offset p) \<and> nat (sint (p_offset p)) + nat (sint (p_filesz p)) \<le> length buf"
  shows "load_segment G buf (int a) vs = Inr (seg_step buf p vs)"
proof -
  have at: "(buf_at buf (int a + int k) 4 :: u32 result) = Inr (le_at buf (a + k) 4)" if "k \<le> 28" for k
    using assms(2) that by (simp add: buf_at_def nat_int_add)
  note ats = at [of 0, simplified] at [of 4, simplified] at [of 8, simplified] at [of 16, simplified]
    at [of 20, simplified] at [of 28, simplified]
  have "copy_segment buf (p_memsz p) (p_offset p) (p_filesz p) (p_vaddr p) m =
      Inr (\<lambda>b. if seg_covers p b then seg_byte buf p b else m b)" if "loadable p" for m
    using assms(3) [OF that] by (auto simp: copy_segment_eq seg_covers_def seg_byte_def fun_eq_iff)
  moreover have "elf_bswap G (le_at buf a 4) = p_type p" "elf_bswap G (le_at buf (a + 4) 4) = p_offset p"
    "elf_bswap G (le_at buf (a + 8) 4) = p_vaddr p" "elf_bswap G (le_at buf (a + 16) 4) = p_filesz p"
    "elf_bswap G (le_at buf (a + 20) 4) = p_memsz p" "elf_bswap G (le_at buf (a + 28) 4) = p_align p"
    by (simp_all add: p_def phdr_of_def)
  moreover have "p_type p = SHT_PROGBITS \<and> p_memsz p \<noteq> 0 \<longleftrightarrow> loadable p"
    by (simp add: loadable_def PT_LOAD_def SHT_PROGBITS_def)
  ultimately show ?thesis
    by (simp add: load_segment_def ats Let_def seg_step_def split: prod.splits)
qed

lemma if_greater_max: "(if b < a then a else b) = max b a" for a b :: u32
  by (simp add: max_def not_less antisym)

lemma seg_step_state:
  "mem (snd (seg_step buf p vs)) =
     (if loadable p then (\<lambda>b. if seg_covers p b then seg_byte buf p b else mem (snd vs) b) else mem (snd vs))"
  "pc (snd (seg_step buf p vs)) = pc (snd vs)"
  "gpr (snd (seg_step buf p vs)) = gpr (snd vs)"
  "image_brk (linux_image (snd (seg_step buf p vs))) =
     (if p_type p = PT_LOAD then max (image_brk (linux_image (snd vs))) (p_vaddr p + p_memsz p)
      else image_brk (linux_image (snd vs)))"
proof -
  obtain V ms where vs: "vs = (V, ms)" by fastforce
  note defs = seg_step_def note_segment_def vs Let_def if_greater_max
  show "mem (snd (seg_step buf p vs)) =
      (if loadable p then (\<lambda>b. if seg_covers p b then seg_byte buf p b else mem (snd vs) b) else mem (snd vs))"
    "pc (snd (seg_step buf p vs)) = pc (snd vs)" "gpr (snd (seg_step buf p vs)) = gpr (snd vs)"
    "image_brk (linux_image (snd (seg_step buf p vs))) =
      (if p_type p = PT_LOAD then max (image_brk (linux_image (snd vs))) (p_vaddr p + p_memsz p)
       else image_brk (linux_image (snd vs)))"
    by (cases "p_type p = PT_LOAD"; cases "loadable p"; simp add: defs cong: if_cong)+
qed

lemma fold_seg_step:
  "mem (snd (fold (seg_step buf) ps vs)) =
     fold (\<lambda>p m b. if seg_covers p b then seg_byte buf p b else m b) (filter loadable ps) (mem (snd vs))"
  "pc (snd (fold (seg_step buf) ps vs)) = pc (snd vs)"
  "gpr (snd (fold (seg_step buf) ps vs)) = gpr (snd vs)"
  "image_brk (linux_image (snd (fold (seg_step buf) ps vs))) =
     fold (\<lambda>p e. max e (p_vaddr p + p_memsz p)) (filter (\<lambda>p. p_type p = PT_LOAD) ps) (image_brk (linux_image (snd vs)))"
  by (induction ps arbitrary: vs) (simp_all add: seg_step_state)

lemma load_segments_eq:
  assumes "elf_ok G buf"
  shows "foldE (\<lambda>i. load_segment G buf (sint (elf_bswap G (e_phoff (ehdr_of buf))) + 32 * int i))
      [0..<unat (elf_bswap G (e_phnum (ehdr_of buf)))] vs = Inr (fold (seg_step buf) (phdrs G buf) vs)"
proof -
  define off n where "off = sint (elf_bswap G (e_phoff (ehdr_of buf)))"
    and "n = unat (elf_bswap G (e_phnum (ehdr_of buf)))"
  have ok: "0 \<le> off" "nat off + 32 * n \<le> length buf"
    and segs: "list_all (\<lambda>p. loadable p \<longrightarrow> 0 \<le> sint (p_offset p) \<and>
        nat (sint (p_offset p)) + nat (sint (p_filesz p)) \<le> length buf) (phdrs G buf)"
    using assms by (auto simp: elf_ok_def Let_def off_def n_def)
  have ps: "phdrs G buf = map (\<lambda>i. phdr_of G buf (nat off + 32 * i)) [0..<n]"
    by (simp add: phdrs_def off_def n_def)
  have "load_segment G buf (off + 32 * int i) vs = Inr (seg_step buf (phdr_of G buf (nat off + 32 * i)) vs)"
    if "i \<in> set [0..<n]" for i vs
  proof -
    have "off + 32 * int i = int (nat off + 32 * i)" using ok(1) by simp
    then show ?thesis using that ok segs load_segment_eq [of "nat off + 32 * i" buf G vs] by (simp add: list_all_iff ps)
  qed
  then show ?thesis
    unfolding off_def [symmetric] n_def [symmetric] ps fold_map comp_def by (rule foldE_total)
qed

subsection \<open>Properties of the loader\<close>

text \<open>
  C15. Loading a well formed executable: \<open>load_elf\<close> returns with the byte order of the file in the
  globals, the program counter at the entry point and the general registers unchanged; every byte
  of the memory comes from the last loadable segment that covers it (file contents, then zeros up
  to the memory size) and is zero outside all of them, and the break is the highest segment end.
\<close>

theorem load_elf_loads:
  fixes buf f :: "u8 list" and pgSize :: nat and ms :: "'w state_t"
  defines "buf \<equiv> mapped pgSize f"
  assumes "elf_ok (G\<lparr>isMipsEL := el\<rparr>) buf"
  shows "returns (\<lambda>(G', s'). G' = G\<lparr>isMipsEL := el\<rparr> \<and> pc s' = elf_bswap G' (e_entry (ehdr_of buf)) \<and> gpr s' = gpr ms
      \<and> (\<forall>b. mem s' b = (case find (\<lambda>p. seg_covers p b) (rev (filter loadable (phdrs G' buf))) of
                            None \<Rightarrow> 0 | Some p \<Rightarrow> seg_byte buf p b))
      \<and> image_brk (linux_image s') =
          fold (\<lambda>p e. max e (p_vaddr p + p_memsz p)) (filter (\<lambda>p. p_type p = PT_LOAD) (phdrs G' buf)) 0)
    (load_elf pgSize G (Contents f) ms)"
proof -
  define G' where "G' = G\<lparr>isMipsEL := el\<rparr>"
  have ok: "elf_ok G' buf" using assms by (simp add: G'_def)
  have sel: "(if checkLittleEndian (ehdr_of buf) then Inr (G\<lparr>isMipsEL := True\<rparr>)
      else if checkBigEndian (ehdr_of buf) then Inr (G\<lparr>isMipsEL := False\<rparr>) else Inl Abort) = Inr G'"
    using ok by (auto simp: elf_ok_def Let_def G'_def checkLittleEndian_def checkBigEndian_def split: if_splits)
  have "load_elf pgSize G (Contents f) ms =
      bindE (load_image G' buf (ms\<lparr>mem := clear (mem ms)\<rparr>)) (\<lambda>ms1. Inr (G', ms1))"
    using ok by (simp add: load_elf_def buf_def [symmetric] Let_def elf_ok_def sel cong: if_cong)
  moreover have "load_image G' buf s0 =
      (let l = elf_bswap G' (e_entry (ehdr_of buf));
           (V, s2) = fold (seg_step buf) (phdrs G' buf) (\<lparr>loaddr = NOT 0, hiaddr = 0, lAddr = l\<rparr>,
             s0\<lparr>pc := l, linux_image := (linux_image s0)
               \<lparr>entry := l, elf_flags := elf_bswap G' (e_flags (ehdr_of buf)), start_code := - 1, end_code := 0,
                start_data := - 1, end_data := 0, image_brk := 0, alignment := 0\<rparr>\<rparr>)
       in Inr (s2\<lparr>linux_image := (linux_image s2)\<lparr>reserve_brk := push_bit 24 1, load_addr := loaddr V\<rparr>\<rparr>))"
    for s0 :: "'w state_t"
    by (simp add: load_image_def Let_def load_segments_eq [OF ok] split: prod.splits)
  ultimately show ?thesis
    unfolding G'_def [symmetric]
    by (simp add: Let_def case_prod_beta fold_seg_step fold_override clear_def)
qed

text \<open>A big endian executable of one segment: four bytes of code and four bytes of zeros.\<close>

definition sample_elf :: "u8 list" where
  "sample_elf =
     [0x7f, 0x45, 0x4c, 0x46, 1, 2, 1, 0, 0, 0, 0, 0, 0, 0, 0, 0,
      0, 2, 0, 8, 0, 0, 0, 1, 0, 0x40, 0, 0, 0, 0, 0, 0x34,
      0, 0, 0, 0, 0, 0, 0x10, 1, 0, 0x34, 0, 0x20, 0, 1, 0, 0,
      0, 0, 0, 0, 0, 0, 0, 1, 0, 0, 0, 0x54, 0, 0x40, 0, 0,
      0, 0x40, 0, 0, 0, 0, 0, 4, 0, 0, 0, 8, 0, 0, 0, 5,
      0, 0, 0x10, 0, 0x24, 2, 0, 0x2a]"

definition sample_globals :: globals where
  "sample_globals = \<lparr>sysArgc = 0, sysArgv = [], isMipsEL = False, cycle = 0\<rparr>"

lemma sample_elf_mapped: "mapped 8 sample_elf = sample_elf"
  by (simp add: mapped_def sample_elf_def)

lemma sample_elf_phdrs:
  "phdrs sample_globals sample_elf =
     [\<lparr>p_type = 1, p_offset = 0x54, p_vaddr = 0x400000, p_paddr = 0x400000, p_filesz = 4, p_memsz = 8,
       p_flags = 5, p_align = 0x1000\<rparr>]"
  by code_simp

lemma sample_elf_ok: "elf_ok sample_globals sample_elf"
  by code_simp

lemma sample_elf_entry: "elf_bswap sample_globals (e_entry (ehdr_of sample_elf)) = 0x400000"
  by code_simp

lemma sample_elf_code: "sample_elf ! 87 = 0x2a"
  by code_simp

theorem load_elf_loads_witness:
  "returns (\<lambda>(G', s'). isMipsEL G' = False \<and> pc s' = 0x400000 \<and> mem s' 0x400003 = 0x2a
      \<and> mem s' 0x400004 = 0 \<and> mem s' 0 = 0 \<and> image_brk (linux_image s') = 0x400008)
    (load_elf 8 sample_globals (Contents sample_elf) sample_state)"
proof -
  have G: "sample_globals\<lparr>isMipsEL := False\<rparr> = sample_globals" by (simp add: sample_globals_def)
  have "elf_ok (sample_globals\<lparr>isMipsEL := False\<rparr>) (mapped 8 sample_elf)"
    unfolding G sample_elf_mapped by (rule sample_elf_ok)
  from load_elf_loads [OF this, of sample_state] show ?thesis
    unfolding G sample_elf_mapped
    by (rule returns_mono)
      (auto simp: sample_elf_phdrs sample_elf_entry loadable_def seg_covers_def seg_byte_def PT_LOAD_def
        sample_elf_code, simp add: sample_globals_def)
qed

end
