(* ===== verification/Init_Stub.thy ===== *)
theory Init_Stub
  imports Interp Save_State
begin

text \<open>
  \<open>src/top.hh\<close>, \<open>src/top.cc\<close>: the start of the simulated processor.  The driver cannot set the
  registers of the hardware, so it writes a program at \<open>0x000d0000\<close> that loads them with the values
  of the state it has read, runs it to its BREAK, and reloads the memory.  This theory models the
  instruction words (the unions of \<open>top.hh\<close>), the program, its placement in memory and the loop
  that runs the interpreter alone (\<open>--checkeronly\<close>), and shows what the program does.
\<close>

subsection \<open>Instruction words\<close>

definition itype :: "u32 \<Rightarrow> u32 \<Rightarrow> u32 \<Rightarrow> u32 \<Rightarrow> u32" where
  "itype imm rs rt op =
     (imm AND 0xffff) OR push_bit 16 (rs AND 31) OR push_bit 21 (rt AND 31) OR push_bit 26 (op AND 63)"

definition rtype :: "u32 \<Rightarrow> u32 \<Rightarrow> u32 \<Rightarrow> u32 \<Rightarrow> u32 \<Rightarrow> u32 \<Rightarrow> u32" where
  "rtype subop z rd rt rs op =
     (subop AND 63) OR push_bit 6 (z AND 31) OR push_bit 11 (rd AND 31) OR push_bit 16 (rt AND 31)
     OR push_bit 21 (rs AND 31) OR push_bit 26 (op AND 63)"

definition ceqs :: "u32 \<Rightarrow> u32 \<Rightarrow> u32 \<Rightarrow> u32" where
  "ceqs fs ft cc =
     50 OR push_bit 8 (cc AND 7) OR push_bit 11 (fs AND 31) OR push_bit 16 (ft AND 31) OR push_bit 21 16 OR push_bit 26 17"

definition mtc1 :: "u32 \<Rightarrow> u32 \<Rightarrow> u32" where
  "mtc1 fs rt = push_bit 11 (fs AND 31) OR push_bit 16 (rt AND 31) OR push_bit 21 4 OR push_bit 26 17"

definition mthi :: "u32 \<Rightarrow> u32" where
  "mthi rs = 17 OR push_bit 21 (rs AND 31)"

definition mtlo :: "u32 \<Rightarrow> u32" where
  "mtlo rs = 19 OR push_bit 21 (rs AND 31)"

subsection \<open>The program\<close>

text \<open>LUI and ORI of a constant; both registers of the two words are the target.\<close>

definition load_const :: "nat \<Rightarrow> u32 \<Rightarrow> u32 list" where
  "load_const i r = [itype (drop_bit 16 r) (of_nat i) (of_nat i) 15, itype (r AND 0xffff) (of_nat i) (of_nat i) 13]"

definition stub_fp :: "'w state_t \<Rightarrow> nat \<Rightarrow> u32 list" where
  "stub_fp s i = (let r = cpr1 s ! i in if r = 0 then [] else load_const 1 r @ [mtc1 (of_nat i) 1])"

text \<open>For every condition code that is set the same word is written, whatever the code.\<close>

definition stub_cc :: "'w state_t \<Rightarrow> nat \<Rightarrow> u32 list" where
  "stub_cc s i = (if fcr1 s ! CP1_CR25 AND push_bit i 1 \<noteq> 0 then [0x46000032] else [])"

definition stub_gpr :: "'w state_t \<Rightarrow> nat \<Rightarrow> u32 list" where
  "stub_gpr s i = (let r = gpr s ! i in if r = 0 then [] else load_const i r)"

definition init_stub :: "'w state_t \<Rightarrow> u32 list" where
  "init_stub s =
     concat (map (stub_fp s) [0..<32])
     @ (if fcr1 s ! CP1_CR25 \<noteq> 0 then concat (map (stub_cc s) [0..<8]) else [])
     @ (if lo s \<noteq> 0 then load_const 1 (lo s) @ [mtlo 1] else [])
     @ (if hi s \<noteq> 0 then load_const 1 (hi s) @ [mthi 1] else [])
     @ concat (map (stub_gpr s) [1..<32])
     @ [rtype 13 0 0 0 0 0]"

text \<open>\<open>s->mem.set<uint32_t>(pos, bswap<IS_LITTLE_ENDIAN>(w)); pos += 4\<close>, and the NOPs after it.\<close>

definition emit :: "u32 \<Rightarrow> u32 \<times> memory \<Rightarrow> (u32 \<times> memory) result" where
  "emit w = (\<lambda>(pos, m). bindE (mem_set m (ucast pos) (bswap False w)) (\<lambda>m1. Inr (pos + 4, m1)))"

definition emit_nop :: "nat \<Rightarrow> u32 \<times> memory \<Rightarrow> (u32 \<times> memory) result" where
  "emit_nop i = (\<lambda>(pos, m). bindE (mem_set m (ucast pos) (0 :: u32)) (\<lambda>m1. Inr (pos + 4, m1)))"

definition write_stub :: "'w state_t \<Rightarrow> 'w state_t result" where
  "write_stub s =
     bindE (foldE emit (init_stub s) (pc s, mem s)) (\<lambda>pm.
     bindE (foldE emit_nop [0..<128] pm) (\<lambda>(pos, m).
     Inr (s\<lparr>mem := m\<rparr>)))"

subsection \<open>The interpreter loop\<close>

text \<open>
  \<open>while((s->icnt < max_icnt) and (s->brk == 0)) execMips(s);\<close> for at most \<open>n\<close> rounds (\<open>None\<close>: not
  finished), with \<open>d\<close> levels of delay slots for each instruction.
\<close>

primrec run_checker :: "'w env \<Rightarrow> nat \<Rightarrow> u64 \<Rightarrow> nat \<Rightarrow> 'w state_t \<Rightarrow> 'w state_t result option" where
  "run_checker E d max_icnt 0 s = (if icnt s < max_icnt \<and> brk s = 0 then None else Some (Inr s))"
| "run_checker E d max_icnt (Suc n) s =
     (if icnt s < max_icnt \<and> brk s = 0
      then (case execMips E d s of Inl e \<Rightarrow> Some (Inl e) | Inr s' \<Rightarrow> run_checker E d max_icnt n s')
      else Some (Inr s))"

subsection \<open>Fields of the generated words\<close>

lemma field_masks: "(31 :: u32) = mask 5" "(63 :: u32) = mask 6" "(0xffff :: u32) = mask 16" "(7 :: u32) = mask 3"
  by (simp_all add: mask_eq_exp_minus_1)

lemma itype_parts:
  "drop_bit 26 (itype imm rs rt op) = op AND 63"
  "drop_bit 21 (itype imm rs rt op) AND 31 = rt AND 31"
  "drop_bit 16 (itype imm rs rt op) AND 31 = rs AND 31"
  "drop_bit 11 (itype imm rs rt op) AND 31 = drop_bit 11 imm AND 31"
  "itype imm rs rt op AND 0xffff = imm AND 0xffff"
  unfolding itype_def field_masks
  by (rule bit_word_eqI; auto simp: bit_simps simp del: mask_numeral)+

text \<open>The other words are instances of the same layout.\<close>

lemma other_words:
  "mtc1 fs rt = itype (push_bit 11 (fs AND 31)) rt 4 17"
  "mthi rs = itype 17 0 rs 0" "mtlo rs = itype 19 0 rs 0" "rtype 13 0 0 0 0 0 = itype 13 0 0 0"
proof -
  have "push_bit 11 (fs AND 31) AND 0xffff = push_bit 11 (fs AND 31)"
    unfolding field_masks by (rule bit_word_eqI) (auto simp: bit_simps simp del: mask_numeral)
  then show "mtc1 fs rt = itype (push_bit 11 (fs AND 31)) rt 4 17"
    by (simp add: mtc1_def itype_def or.assoc)
qed (simp_all add: mthi_def mtlo_def rtype_def itype_def)

lemma unat_reg: "i < 32 \<Longrightarrow> unat (of_nat i AND 31 :: u32) = i"
  unfolding field_masks take_bit_eq_mask [symmetric] unat_take_bit
  by (simp add: unsigned_of_nat take_bit_nat_eq_self)

lemma itype_fields:
  "inst_opcode (itype imm rs rt op) = unat (op AND 63)"
  "inst_rs (itype imm rs rt op) = unat (rt AND 31)"
  "inst_rt (itype imm rs rt op) = unat (rs AND 31)"
  "inst_rd (itype imm rs rt op) = unat (drop_bit 11 imm AND 31)"
  "uimm32 (itype imm rs rt op) = imm AND 0xffff"
  by (simp_all add: inst_opcode_def inst_rs_def inst_rt_def inst_rd_def uimm32_def itype_parts)

lemma itype_low:
  assumes "0xffff AND m = m"
  shows "itype imm rs rt op AND m = imm AND m"
proof -
  have "itype imm rs rt op AND m = (itype imm rs rt op AND 0xffff) AND m" unfolding and.assoc assms ..
  also have "\<dots> = (imm AND 0xffff) AND m" unfolding itype_parts ..
  also have "\<dots> = imm AND m" unfolding and.assoc assms ..
  finally show ?thesis .
qed

subsection \<open>Straight line code\<close>

text \<open>Words executed one after another, as the loop executes them, without the fetch.\<close>

definition exec_words :: "'w env \<Rightarrow> u32 list \<Rightarrow> 'w state_t \<Rightarrow> 'w state_t result" where
  "exec_words E ws s = foldE (\<lambda>w s. exec_insn E (\<lambda>_. Inl Abort) w (s\<lparr>icnt := icnt s + 1\<rparr>)) ws s"

lemma exec_words_simps [simp]:
  "exec_words E [] s = Inr s"
  "exec_words E (w # ws) s = bindE (exec_insn E (\<lambda>_. Inl Abort) w (s\<lparr>icnt := icnt s + 1\<rparr>)) (exec_words E ws)"
  by (simp_all add: exec_words_def [abs_def])

lemma exec_words_append: "exec_words E (ws @ vs) s = bindE (exec_words E ws s) (exec_words E vs)"
  by (simp add: exec_words_def [abs_def] foldE_append)

definition straight :: "u32 \<Rightarrow> bool" where
  "straight w \<longleftrightarrow> \<not> is_control w \<and> \<not> is_monitor w \<and> \<not> is_stop w \<and> \<not> is_store_opcode w"

definition code_at :: "memory \<Rightarrow> u32 \<Rightarrow> u32 list \<Rightarrow> bool" where
  "code_at m p ws \<longleftrightarrow> (\<forall>i < length ws. mem_get m (ucast (p + 4 * of_nat i)) = Inr (bswap False (ws ! i)))"

lemma code_at_Cons:
  "code_at m p (w # ws) \<longleftrightarrow> mem_get m (ucast p) = Inr (bswap False w) \<and> code_at m (p + 4) ws"
proof -
  have "p + 4 * of_nat (Suc i) = p + 4 + 4 * of_nat i" for i by (simp add: distrib_left)
  then show ?thesis unfolding code_at_def list.size add_Suc_right add_0_right All_less_Suc2 by (simp add: add.assoc)
qed

lemma code_at_append: "code_at m p (ws @ vs) \<longleftrightarrow> code_at m p ws \<and> code_at m (p + 4 * of_nat (length ws)) vs"
  by (induction ws arbitrary: p) (simp_all add: code_at_Cons algebra_simps, simp add: code_at_def)

lemma straight_step:
  assumes "wf_state s" "straight w" "little E = False" "mem_get (mem s) (ucast (pc s)) = Inr (bswap False w)"
  shows "execMips E (Suc d) s = exec_insn E (\<lambda>_. Inl Abort) w (s\<lparr>icnt := icnt s + 1\<rparr>)"
    and "on_ok (\<lambda>s'. wf_state s' \<and> pc s' = pc s + 4 \<and> icnt s' = icnt s + 1 \<and> brk s' = brk s \<and> mem s' = mem s)
      (exec_insn E (\<lambda>_. Inl Abort) w (s\<lparr>icnt := icnt s + 1\<rparr>))"
proof -
  have "fetch E s = Inr w" using assms(3,4) by (simp add: fetch_def)
  then show "execMips E (Suc d) s = exec_insn E (\<lambda>_. Inl Abort) w (s\<lparr>icnt := icnt s + 1\<rparr>)"
    using exec_insn_no_slot [of w E "execMips E d"] assms(2) by (simp add: straight_def)
  have "wf_state (s\<lparr>icnt := icnt s + 1\<rparr>)" using assms(1) by (simp add: wf_state_def)
  from exec_insn_plain(2) [OF this, of w E "\<lambda>_. Inl Abort"] assms(2)
  show "on_ok (\<lambda>s'. wf_state s' \<and> pc s' = pc s + 4 \<and> icnt s' = icnt s + 1 \<and> brk s' = brk s \<and> mem s' = mem s)
      (exec_insn E (\<lambda>_. Inl Abort) w (s\<lparr>icnt := icnt s + 1\<rparr>))"
    by (auto simp: straight_def quiet_step_def plain_step_def on_ok_def split: sum.splits)
qed

lemma run_code:
  assumes "wf_state s" "\<forall>w \<in> set ws. straight w" "little E = False" "code_at (mem s) (pc s) ws" "brk s = 0"
    and "unat (icnt s) + length ws \<le> unat max_icnt" "exec_words E ws s = Inr s'"
  shows "run_checker E (Suc d) max_icnt (length ws + n) s = run_checker E (Suc d) max_icnt n s'"
    and "wf_state s' \<and> pc s' = pc s + 4 * of_nat (length ws) \<and> brk s' = 0 \<and> mem s' = mem s
      \<and> icnt s' = icnt s + of_nat (length ws)"
  using assms
proof (induction ws arbitrary: s)
  case Nil
  { case 1 with Nil show ?case by simp next
    case 2 with Nil show ?case by simp }
next
  case (Cons w ws)
  have step: "\<exists>s1. execMips E (Suc d) s = Inr s1 \<and> exec_words E ws s1 = Inr s' \<and> wf_state s1 \<and> pc s1 = pc s + 4
      \<and> icnt s1 = icnt s + 1 \<and> brk s1 = 0 \<and> mem s1 = mem s"
    if h: "wf_state s" "straight w" "little E = False" "code_at (mem s) (pc s) (w # ws)" "brk s = 0"
      "exec_words E (w # ws) s = Inr s'" for s
  proof -
    have m: "mem_get (mem s) (ucast (pc s)) = Inr (bswap False w)" using h(4) by (simp add: code_at_Cons)
    obtain s1 where s1: "exec_insn E (\<lambda>_. Inl Abort) w (s\<lparr>icnt := icnt s + 1\<rparr>) = Inr s1" "exec_words E ws s1 = Inr s'"
      using h(6) by auto
    then show ?thesis using straight_step [OF h(1-3) m] h(5) by auto
  qed
  have icnt: "icnt s < max_icnt" "unat (icnt s + 1) + length ws \<le> unat max_icnt"
    if "unat (icnt s) + length (w # ws) \<le> unat max_icnt" for s :: "'a state_t"
  proof -
    have "unat (icnt s) + 1 < 2 ^ LENGTH(64)"
    proof -
      have "unat max_icnt < 2 ^ LENGTH(64)" by (rule unsigned_less)
      with that show ?thesis by simp
    qed
    then have "unat (icnt s + 1) = unat (icnt s) + 1" by (simp add: unat_word_ariths(1))
    with that show "icnt s < max_icnt" "unat (icnt s + 1) + length ws \<le> unat max_icnt"
      by (simp_all add: word_less_nat_alt)
  qed
  { case 1
    then have "straight w" by simp
    from step [OF 1(1) this 1(3,4,5,7)] obtain s1 where s1: "execMips E (Suc d) s = Inr s1"
      "exec_words E ws s1 = Inr s'" "wf_state s1" "pc s1 = pc s + 4" "icnt s1 = icnt s + 1" "brk s1 = 0" "mem s1 = mem s"
      by blast
    then have "run_checker E (Suc d) max_icnt (length ws + n) s1 = run_checker E (Suc d) max_icnt n s'"
      using 1 icnt by (intro Cons.IH(1)) (simp_all add: code_at_Cons)
    then show ?case using 1 s1(1) icnt by (simp del: execMips.simps)
  next
    case 2
    then have "straight w" by simp
    from step [OF 2(1) this 2(3,4,5,7)] obtain s1 where s1: "execMips E (Suc d) s = Inr s1"
      "exec_words E ws s1 = Inr s'" "wf_state s1" "pc s1 = pc s + 4" "icnt s1 = icnt s + 1" "brk s1 = 0" "mem s1 = mem s"
      by blast
    then have "wf_state s' \<and> pc s' = pc s1 + 4 * of_nat (length ws) \<and> brk s' = 0 \<and> mem s' = mem s1
        \<and> icnt s' = icnt s1 + of_nat (length ws)"
      using 2 icnt by (intro Cons.IH(2)) (simp_all add: code_at_Cons)
    then show ?case using s1 by (simp add: add.assoc distrib_left)
  }
qed

subsection \<open>Effects of the generated words\<close>

definition regs :: "'w state_t \<Rightarrow> u32 list \<times> u32 \<times> u32 \<times> u32 list \<times> u32 list" where
  "regs s = (gpr s, lo s, hi s, cpr1 s, fcr1 s)"

lemma itype_funct: "inst_funct (itype imm rs rt op) = unat (imm AND 63)"
  by (simp add: inst_funct_def itype_low)

lemma const_halves: "push_bit 16 (drop_bit 16 r AND 0xffff) OR (r AND 0xffff) = r" for r :: u32
  unfolding field_masks by (rule bit_word_eqI) (auto simp: bit_simps simp del: mask_numeral)

lemma load_const_straight: "w \<in> set (load_const i r) \<Longrightarrow> straight w"
  by (auto simp: load_const_def straight_def is_control_def is_monitor_def is_stop_def is_store_opcode_def itype_fields)

lemma exec_load_const:
  assumes "wf_state s" "i < 32"
  shows "returns (\<lambda>s'. wf_state s' \<and> regs s' = ((gpr s)[i := r], lo s, hi s, cpr1 s, fcr1 s))
    (exec_words E (load_const i r) s)"
  using assms const_halves [of r]
  by (simp add: load_const_def exec_insn_def exec_itype_def itype_fields insn_lui_def insn_ori_def
      unat_reg regs_def wf_state_def and.assoc)

lemma moves_straight:
  "straight (mtc1 fs rt)" "straight (mthi rs)" "straight (mtlo rs)" "straight 0x46000032"
  by (auto simp: straight_def is_control_def is_monitor_def is_stop_def is_store_opcode_def itype_fields itype_funct
      other_words, simp_all add: inst_opcode_def inst_rs_def)

lemma mtc1_fields:
  "inst_opcode (mtc1 fs rt) = 17" "inst_rs (mtc1 fs rt) = 4" "inst_rt (mtc1 fs 1) = 1"
  "mtc1 fs rt AND (push_bit 11 1 - 1) = 0" "i < 32 \<Longrightarrow> inst_rd (mtc1 (of_nat i) rt) = i"
proof -
  have low: "push_bit 11 (fs AND 31) AND mask 11 = (0 :: u32)" for fs :: u32
    by (rule bit_word_eqI) (auto simp: bit_simps simp del: mask_numeral)
  have m: "(push_bit 11 1 - 1 :: u32) = mask 11" by (simp add: mask_eq_exp_minus_1)
  have "0xffff AND mask 11 = (mask 11 :: u32)" by (simp add: mask_eq_exp_minus_1)
  then show "mtc1 fs rt AND (push_bit 11 1 - 1) = 0" unfolding m other_words by (simp only: itype_low low)
  have "drop_bit 11 (push_bit 11 (of_nat i AND 31)) AND 31 = (of_nat i AND 31 :: u32)"
    unfolding field_masks by (rule bit_word_eqI) (auto simp: bit_simps simp del: mask_numeral)
  then show "i < 32 \<Longrightarrow> inst_rd (mtc1 (of_nat i) rt) = i" unfolding other_words itype_fields by (simp only: unat_reg)
qed (simp_all add: other_words itype_fields)

lemma exec_moves:
  assumes "wf_state s"
  shows "i < 32 \<Longrightarrow> returns (\<lambda>s'. wf_state s' \<and> regs s' = (gpr s, lo s, hi s, (cpr1 s)[i := gpr s ! 1], fcr1 s))
      (exec_words E [mtc1 (of_nat i) 1] s)"
    and "returns (\<lambda>s'. wf_state s' \<and> regs s' = (gpr s, lo s, gpr s ! 1, cpr1 s, fcr1 s)) (exec_words E [mthi 1] s)"
    and "returns (\<lambda>s'. wf_state s' \<and> regs s' = (gpr s, gpr s ! 1, hi s, cpr1 s, fcr1 s)) (exec_words E [mtlo 1] s)"
proof -
  have "i < 32 \<Longrightarrow> exec_insn E k (mtc1 (of_nat i) 1) s = Inr (insn_mtc1 (mtc1 (of_nat i) 1) s)" for k and s :: "'a state_t"
    unfolding exec_insn_def execCoproc1_def Let_def mtc1_fields by (simp add: mtc1_fields)
  then show "i < 32 \<Longrightarrow> returns (\<lambda>s'. wf_state s' \<and> regs s' = (gpr s, lo s, hi s, (cpr1 s)[i := gpr s ! 1], fcr1 s))
      (exec_words E [mtc1 (of_nat i) 1] s)"
    using assms by (simp add: insn_mtc1_def mtc1_fields regs_def wf_state_def)
qed (use assms in \<open>simp_all add: exec_insn_def exec_rtype_def itype_fields itype_funct other_words insn_mthi_def
      insn_mtlo_def regs_def wf_state_def\<close>)

lemma exec_ceqs:
  assumes "wf_state s"
  shows "returns (\<lambda>s'. wf_state s' \<and> regs s' = (gpr s, lo s, hi s, cpr1 s,
      (fcr1 s)[CP1_CR25 := setBit (fcr1 s ! CP1_CR25) (of_bool (f32_eq (fpu_of E) (cpr1 s ! 0) (cpr1 s ! 0))) 0]))
    (exec_words E [0x46000032] s)"
  using assms
  by (simp add: exec_insn_def execCoproc1_def exec_fp_lowop_def insn_c_def fpCmp_s_def fpCmp_body_def
      inst_opcode_def inst_rs_def inst_funct_def inst_fmt_def inst_fs_def inst_ft_def get_sp_def machine_consts
      regs_def wf_state_def)

subsection \<open>The parts of the program\<close>

lemma returns_exec_append:
  assumes "returns P (exec_words E ws t)" "\<And>t'. P t' \<Longrightarrow> returns Q (exec_words E vs t')"
  shows "returns Q (exec_words E (ws @ vs) t)"
  using assms by (auto simp: exec_words_append returns_iff)

lemma concat_upt_Suc: "m \<le> n \<Longrightarrow> concat (map f [m..<Suc n]) = concat (map f [m..<n]) @ f n"
  by simp

lemma exec_const_move:
  assumes "wf_state t" and "\<And>t'. wf_state t' \<Longrightarrow> regs t' = ((gpr t)[1 := r], lo t, hi t, cpr1 t, fcr1 t) \<Longrightarrow> returns Q (exec_words E [w] t')"
  shows "returns Q (exec_words E (load_const 1 r @ [w]) t)"
  by (rule returns_exec_append [OF exec_load_const [OF assms(1)]]) (use assms(2) in auto)

text \<open>
  Loading the floating point registers only changes them and register 1, which keeps the last value
  that went through it.
\<close>

definition last_fp :: "'w state_t \<Rightarrow> nat \<Rightarrow> u32 \<Rightarrow> u32" where
  "last_fp s n a = fold (\<lambda>j a. if cpr1 s ! j \<noteq> 0 then cpr1 s ! j else a) [0..<n] a"

lemma exec_stub_fp:
  fixes E :: "'w env" and t :: "'w state_t"
  assumes "wf_state t" "n \<le> 32"
  shows "returns (\<lambda>t'. wf_state t' \<and> lo t' = lo t \<and> hi t' = hi t \<and> fcr1 t' = fcr1 t
      \<and> (\<forall>j < 32. cpr1 t' ! j = (if j < n \<and> cpr1 s ! j \<noteq> 0 then cpr1 s ! j else cpr1 t ! j))
      \<and> (\<forall>j < 32. j \<noteq> 1 \<longrightarrow> gpr t' ! j = gpr t ! j) \<and> gpr t' ! 1 = last_fp s n (gpr t ! 1))
    (exec_words E (concat (map (stub_fp s) [0..<n])) t)"
  using assms(2)
proof (induction n)
  case 0
  then show ?case using assms(1) by (simp add: last_fp_def)
next
  case (Suc n)
  then have n: "n < 32" by simp
  show ?case unfolding concat_upt_Suc [OF le0]
  proof (rule returns_exec_append [OF Suc.IH], use n in simp, elim conjE)
    fix t' :: "'w state_t" assume t': "wf_state t'" "lo t' = lo t" "hi t' = hi t" "fcr1 t' = fcr1 t"
      "\<forall>j < 32. cpr1 t' ! j = (if j < n \<and> cpr1 s ! j \<noteq> 0 then cpr1 s ! j else cpr1 t ! j)"
      "\<forall>j < 32. j \<noteq> 1 \<longrightarrow> gpr t' ! j = gpr t ! j" "gpr t' ! 1 = last_fp s n (gpr t ! 1)"
    show "returns (\<lambda>t'. wf_state t' \<and> lo t' = lo t \<and> hi t' = hi t \<and> fcr1 t' = fcr1 t
        \<and> (\<forall>j < 32. cpr1 t' ! j = (if j < Suc n \<and> cpr1 s ! j \<noteq> 0 then cpr1 s ! j else cpr1 t ! j))
        \<and> (\<forall>j < 32. j \<noteq> 1 \<longrightarrow> gpr t' ! j = gpr t ! j) \<and> gpr t' ! 1 = last_fp s (Suc n) (gpr t ! 1))
      (exec_words E (stub_fp s n) t')"
    proof (cases "cpr1 s ! n = 0")
      case True
      then show ?thesis using t' by (auto simp: stub_fp_def less_Suc_eq last_fp_def)
    next
      case False
      have len: "length (cpr1 t') = 32" "length (gpr t') = 32" using t'(1) by (simp_all add: wf_state_def)
      have e: "stub_fp s n = load_const 1 (cpr1 s ! n) @ [mtc1 (of_nat n) 1]" using False by (simp add: stub_fp_def)
      show ?thesis unfolding e
        by (rule exec_const_move [OF t'(1)], rule returns_mono [OF exec_moves(1) [OF _ n]], assumption)
          (use t' len n False in \<open>auto simp: regs_def nth_list_update less_Suc_eq last_fp_def\<close>)
    qed
  qed
qed

lemma exec_stub_gpr:
  fixes E :: "'w env" and t :: "'w state_t"
  assumes "wf_state t" "n < 32"
  shows "returns (\<lambda>t'. wf_state t' \<and> lo t' = lo t \<and> hi t' = hi t \<and> fcr1 t' = fcr1 t \<and> cpr1 t' = cpr1 t
      \<and> (\<forall>j < 32. gpr t' ! j = (if 1 \<le> j \<and> j < Suc n \<and> gpr s ! j \<noteq> 0 then gpr s ! j else gpr t ! j)))
    (exec_words E (concat (map (stub_gpr s) [1..<Suc n])) t)"
  using assms(2)
proof (induction n)
  case 0
  then show ?case using assms(1) by simp
next
  case (Suc n)
  have one: "1 \<le> Suc n" by simp
  show ?case unfolding concat_upt_Suc [OF one]
  proof (rule returns_exec_append [OF Suc.IH], use Suc.prems in simp, elim conjE)
    fix t' :: "'w state_t" assume t': "wf_state t'" "lo t' = lo t" "hi t' = hi t" "fcr1 t' = fcr1 t" "cpr1 t' = cpr1 t"
      "\<forall>j < 32. gpr t' ! j = (if 1 \<le> j \<and> j < Suc n \<and> gpr s ! j \<noteq> 0 then gpr s ! j else gpr t ! j)"
    have len: "length (gpr t') = 32" using t'(1) by (simp add: wf_state_def)
    show "returns (\<lambda>t'. wf_state t' \<and> lo t' = lo t \<and> hi t' = hi t \<and> fcr1 t' = fcr1 t \<and> cpr1 t' = cpr1 t
        \<and> (\<forall>j < 32. gpr t' ! j = (if 1 \<le> j \<and> j < Suc (Suc n) \<and> gpr s ! j \<noteq> 0 then gpr s ! j else gpr t ! j)))
      (exec_words E (stub_gpr s (Suc n)) t')"
    proof (cases "gpr s ! Suc n = 0")
      case True
      then show ?thesis using t' by (auto simp: stub_gpr_def less_Suc_eq)
    next
      case False
      then have e: "stub_gpr s (Suc n) = load_const (Suc n) (gpr s ! Suc n)" by (simp add: stub_gpr_def)
      show ?thesis unfolding e
        by (rule returns_mono [OF exec_load_const [OF t'(1) Suc.prems]])
          (use t' len Suc.prems False in \<open>auto simp: regs_def nth_list_update less_Suc_eq\<close>)
    qed
  qed
qed

lemma setBit_twice: "setBit (setBit x v i) v i = setBit x v i" if "v = 0 \<or> v = 1" "i < 32" for x v :: u32
  by (rule bit_word_eqI) (use that in \<open>auto simp: bit_setBit\<close>)

lemma exec_stub_cc:
  fixes E :: "'w env" and t :: "'w state_t"
  assumes "wf_state t"
  defines "f \<equiv> (fcr1 t)[CP1_CR25 := setBit (fcr1 t ! CP1_CR25) (of_bool (f32_eq (fpu_of E) (cpr1 t ! 0) (cpr1 t ! 0))) 0]"
  shows "returns (\<lambda>t'. wf_state t' \<and> regs t' = (gpr t, lo t, hi t, cpr1 t, if \<exists>i < n. stub_cc s i \<noteq> [] then f else fcr1 t))
    (exec_words E (concat (map (stub_cc s) [0..<n])) t)"
proof (induction n)
  case 0
  then show ?case using assms(1) by (simp add: regs_def)
next
  case (Suc n)
  have len: "CP1_CR25 < length (fcr1 t)" using assms(1) by (simp add: wf_state_def machine_consts)
  show ?case unfolding concat_upt_Suc [OF le0]
  proof (rule returns_exec_append [OF Suc.IH], elim conjE)
    fix t' :: "'w state_t" assume t': "wf_state t'"
      "regs t' = (gpr t, lo t, hi t, cpr1 t, if \<exists>i < n. stub_cc s i \<noteq> [] then f else fcr1 t)"
    show "returns (\<lambda>t'. wf_state t' \<and> regs t' = (gpr t, lo t, hi t, cpr1 t, if \<exists>i < Suc n. stub_cc s i \<noteq> [] then f else fcr1 t))
      (exec_words E (stub_cc s n) t')"
    proof (cases "stub_cc s n = []")
      case True
      then show ?thesis using t' by (auto simp: less_Suc_eq cong: if_cong)
    next
      case False
      then have e: "stub_cc s n = [0x46000032]" by (simp add: stub_cc_def split: if_splits)
      have "(fcr1 t')[CP1_CR25 := setBit (fcr1 t' ! CP1_CR25) (of_bool (f32_eq (fpu_of E) (cpr1 t' ! 0) (cpr1 t' ! 0))) 0] = f"
        using t'(2) len by (auto simp: regs_def f_def setBit_twice split: if_splits)
      then show ?thesis unfolding e
        using exec_ceqs [OF t'(1), of E] t'(2) by (elim returns_mono) (auto simp: regs_def e)
    qed
  qed
qed

subsection \<open>Placement\<close>

lemma unat_plus_4: "unat p + 4 < sz \<Longrightarrow> unat (p + 4) = unat p + 4" for p :: u32
  by (simp add: unat_word_ariths(1) sz_def)

lemma emit_all:
  assumes "unat p + 4 * length ws < sz"
  shows "\<exists>m'. foldE emit ws (p, m) = Inr (p + 4 * of_nat (length ws), m') \<and> code_at m' p ws
    \<and> (\<forall>a. unat a + 4 \<le> unat p \<longrightarrow> (mem_get m' a :: u32 result) = mem_get m a)"
  using assms
proof (induction ws arbitrary: p m)
  case Nil
  then show ?case by (simp add: code_at_def)
next
  case (Cons w ws)
  have p4: "unat (p + 4) = unat p + 4" using Cons.prems by (intro unat_plus_4) simp
  have "in_range 4 (ucast p)" using Cons.prems by (simp add: in_range_def)
  then obtain m1 where m1: "mem_set m (ucast p) (bswap False w) = Inr m1" using mem32.wr_ok by blast
  have "unat (p + 4) + 4 * length ws < sz" using Cons.prems p4 by simp
  from Cons.IH [OF this, of m1] obtain m' where m': "foldE emit ws (p + 4, m1) = Inr (p + 4 + 4 * of_nat (length ws), m')"
    "code_at m' (p + 4) ws" "\<forall>a. unat a + 4 \<le> unat p + 4 \<longrightarrow> (mem_get m' a :: u32 result) = mem_get m1 a"
    by (auto simp: p4)
  have "mem_get m' (ucast p) = Inr (bswap False w)" using m'(3) mem32.rd_wr_same [OF m1] by simp
  moreover have "(mem_get m' a :: u32 result) = mem_get m a" if "unat a + 4 \<le> unat p" for a
  proof -
    have "apart 4 (ucast p) a" using that by (simp add: apart_def)
    then show ?thesis using m'(3) that mem32.rd_wr_sep [OF m1] by simp
  qed
  moreover have "emit w (p, m) = Inr (p + 4, m1)" using m1 by (simp add: emit_def)
  ultimately show ?case using m'(1,2) by (auto simp: code_at_Cons distrib_left add.assoc)
qed

lemma emit_nop_eq: "emit_nop i = emit 0"
proof -
  have "bswap False (0 :: u32) = 0" by (rule bit_word_eqI) (simp add: bswap_def bit_builtin_bswap)
  then show ?thesis by (simp add: emit_nop_def emit_def)
qed

lemma write_stub_code:
  assumes "unat (pc s) + 4 * (length (init_stub s) + 128) < sz"
  shows "returns (\<lambda>s1. code_at (mem s1) (pc s) (init_stub s)) (write_stub s)"
proof -
  define ws where "ws = init_stub s @ replicate 128 0"
  have "\<exists>m'. foldE emit ws (pc s, mem s) = Inr (pc s + 4 * of_nat (length ws), m') \<and> code_at m' (pc s) ws
      \<and> (\<forall>a. unat a + 4 \<le> unat (pc s) \<longrightarrow> (mem_get m' a :: u32 result) = mem_get (mem s) a)"
    by (rule emit_all) (use assms in \<open>simp add: ws_def\<close>)
  then obtain m' where "foldE emit ws (pc s, mem s) = Inr (pc s + 4 * of_nat (length ws), m')" "code_at m' (pc s) ws"
    by blast
  moreover have "replicate 128 0 = map (\<lambda>_. 0 :: u32) [0..<128]" by (simp add: map_replicate_const)
  then have "foldE emit_nop [0..<128] pm = foldE emit (replicate 128 0) pm" for pm
    by (simp add: foldE_map emit_nop_eq [abs_def])
  ultimately show ?thesis
    by (auto simp: write_stub_def ws_def foldE_append code_at_append bindE_Inr_iff)
qed

lemma length_concat_map_le: "(\<And>x. length (f x) \<le> k) \<Longrightarrow> length (concat (map f xs)) \<le> k * length xs"
  by (induction xs) (simp_all add: add_mono)

lemma length_init_stub: "length (init_stub s) \<le> 173"
proof -
  have "length (stub_fp s i) \<le> 3" "length (stub_cc s i) \<le> 1" "length (stub_gpr s i) \<le> 2" for i
    by (simp_all add: stub_fp_def stub_cc_def stub_gpr_def load_const_def Let_def)
  from length_concat_map_le [of "stub_fp s" 3 "[0..<32]", OF this(1)] length_concat_map_le [of "stub_cc s" 1 "[0..<8]", OF this(2)]
    length_concat_map_le [of "stub_gpr s" 2 "[1..<32]", OF this(3)]
  show ?thesis by (simp add: init_stub_def load_const_def)
qed

definition stub_body :: "'w state_t \<Rightarrow> u32 list" where
  "stub_body s = butlast (init_stub s)"

lemma init_stub_eq:
  "stub_body s =
     concat (map (stub_fp s) [0..<32])
     @ (if fcr1 s ! CP1_CR25 \<noteq> 0 then concat (map (stub_cc s) [0..<8]) else [])
     @ (if lo s \<noteq> 0 then load_const 1 (lo s) @ [mtlo 1] else [])
     @ (if hi s \<noteq> 0 then load_const 1 (hi s) @ [mthi 1] else [])
     @ concat (map (stub_gpr s) [1..<Suc 31])"
  "init_stub s = stub_body s @ [rtype 13 0 0 0 0 0]"
  by (simp_all only: stub_body_def init_stub_def butlast_append append_assoc [symmetric]) simp_all

lemma stub_body_straight: "w \<in> set (stub_body s) \<Longrightarrow> straight w"
  by (auto simp: init_stub_eq(1) stub_fp_def stub_cc_def stub_gpr_def Let_def moves_straight
      dest: load_const_straight split: if_splits)

subsection \<open>The whole program\<close>

text \<open>What holds after each part, on a processor whose registers were all zero.\<close>

definition stage :: "'w state_t \<Rightarrow> u32 \<Rightarrow> u32 \<Rightarrow> u32 \<Rightarrow> u32 list \<Rightarrow> 'w state_t \<Rightarrow> bool" where
  "stage s a l h f t \<longleftrightarrow> wf_state t \<and> cpr1 t = cpr1 s \<and> lo t = l \<and> hi t = h \<and> fcr1 t = f
     \<and> (\<forall>j < 32. j \<noteq> 1 \<longrightarrow> gpr t ! j = 0) \<and> gpr t ! 1 = a"

definition reset_regs :: "'w state_t \<Rightarrow> bool" where
  "reset_regs t \<longleftrightarrow> wf_state t \<and> gpr t = replicate 32 0 \<and> cpr1 t = replicate 32 0 \<and> lo t = 0 \<and> hi t = 0
     \<and> fcr1 t = replicate 5 0"

lemma stage_fp:
  assumes "wf_state s" "reset_regs t"
  shows "returns (stage s (last_fp s 32 0) 0 0 (replicate 5 0)) (exec_words E (concat (map (stub_fp s) [0..<32])) t)"
proof -
  have wf: "wf_state t" using assms(2) by (simp add: reset_regs_def)
  have len: "length (cpr1 s) = 32" using assms(1) by (simp add: wf_state_def)
  show ?thesis
  proof (rule returns_mono [OF exec_stub_fp [OF wf, of 32 s E]], simp, elim conjE)
    fix t' :: "'a state_t"
    assume t': "wf_state t'" "lo t' = lo t" "hi t' = hi t" "fcr1 t' = fcr1 t"
      "\<forall>j < 32. cpr1 t' ! j = (if j < 32 \<and> cpr1 s ! j \<noteq> 0 then cpr1 s ! j else cpr1 t ! j)"
      "\<forall>j < 32. j \<noteq> 1 \<longrightarrow> gpr t' ! j = gpr t ! j" "gpr t' ! 1 = last_fp s 32 (gpr t ! 1)"
    have "cpr1 t' = cpr1 s"
      using t'(1,5) len assms(2) by (auto simp: wf_state_def reset_regs_def list_eq_iff_nth_eq)
    with t' assms(2) show "stage s (last_fp s 32 0) 0 0 (replicate 5 0) t'"
      by (auto simp: stage_def reset_regs_def)
  qed
qed

lemma stage_move:
  assumes "stage s a l h f t"
  shows "returns (stage s (if lo s = 0 then a else lo s) (if lo s = 0 then l else lo s) h f)
      (exec_words E (if lo s \<noteq> 0 then load_const 1 (lo s) @ [mtlo 1] else []) t)"
    and "returns (stage s (if hi s = 0 then a else hi s) l (if hi s = 0 then h else hi s) f)
      (exec_words E (if hi s \<noteq> 0 then load_const 1 (hi s) @ [mthi 1] else []) t)"
proof -
  have wf: "wf_state t" using assms by (simp add: stage_def)
  then have len: "length (gpr t) = 32" by (simp add: wf_state_def)
  show "returns (stage s (if lo s = 0 then a else lo s) (if lo s = 0 then l else lo s) h f)
      (exec_words E (if lo s \<noteq> 0 then load_const 1 (lo s) @ [mtlo 1] else []) t)"
  proof (cases "lo s = 0")
    case False
    then show ?thesis
      by (simp only: not_False_eq_True if_True)
        (rule exec_const_move [OF wf], rule returns_mono [OF exec_moves(3)], assumption,
          use assms len in \<open>auto simp: stage_def regs_def\<close>)
  qed (use assms in simp)
  show "returns (stage s (if hi s = 0 then a else hi s) l (if hi s = 0 then h else hi s) f)
      (exec_words E (if hi s \<noteq> 0 then load_const 1 (hi s) @ [mthi 1] else []) t)"
  proof (cases "hi s = 0")
    case False
    then show ?thesis
      by (simp only: not_False_eq_True if_True)
        (rule exec_const_move [OF wf], rule returns_mono [OF exec_moves(2)], assumption,
          use assms len in \<open>auto simp: stage_def regs_def\<close>)
  qed (use assms in simp)
qed

definition stub_flag :: "'w env \<Rightarrow> 'w state_t \<Rightarrow> u32" where
  "stub_flag E s = (if \<exists>i < 8. bit (fcr1 s ! CP1_CR25) i then of_bool (f32_eq (fpu_of E) (cpr1 s ! 0) (cpr1 s ! 0)) else 0)"

lemma stub_cc_iff: "stub_cc s i \<noteq> [] \<longleftrightarrow> bit (fcr1 s ! CP1_CR25) i"
  by (simp add: stub_cc_def push_bit_eq_mult and_exp_eq_0_iff_not_bit)

lemma setBit_zero: "setBit 0 (of_bool b) 0 = (of_bool b :: u32)"
  by (rule bit_word_eqI) (cases b; simp add: bit_setBit bit_1_iff)

lemma stage_cc:
  assumes "stage s a l h (replicate 5 0) t"
  shows "returns (stage s a l h ((replicate 5 0)[CP1_CR25 := stub_flag E s]))
    (exec_words E (if fcr1 s ! CP1_CR25 \<noteq> 0 then concat (map (stub_cc s) [0..<8]) else []) t)"
proof -
  have wf: "wf_state t" using assms by (simp add: stage_def)
  have z: "(replicate 5 0)[CP1_CR25 := 0 :: u32] = replicate 5 0" by (simp add: machine_consts list_update_same_conv)
  show ?thesis
  proof (cases "fcr1 s ! CP1_CR25 = 0")
    case True
    then have "stub_flag E s = 0" by (simp add: stub_flag_def)
    with True z assms show ?thesis by simp
  next
    case False
    from exec_stub_cc [OF wf, of 8 s E] show ?thesis
      unfolding if_P [OF False]
      by (rule returns_mono)
        (use assms z in \<open>auto simp: stage_def regs_def stub_cc_iff stub_flag_def setBit_zero machine_consts split: if_splits\<close>)
  qed
qed

text \<open>Register 1 after the program: its own value, or what was last moved through it.\<close>

definition stub_at :: "'w state_t \<Rightarrow> u32" where
  "stub_at s = (if gpr s ! 1 \<noteq> 0 then gpr s ! 1 else if hi s \<noteq> 0 then hi s else if lo s \<noteq> 0 then lo s else last_fp s 32 0)"

lemma exec_stub_body:
  assumes "wf_state s" "reset_regs t" "gpr s ! 0 = 0"
  shows "returns (\<lambda>t'. wf_state t'
      \<and> regs t' = ((gpr s)[1 := stub_at s], lo s, hi s, cpr1 s, (replicate 5 0)[CP1_CR25 := stub_flag E s]))
    (exec_words E (stub_body s) t)"
  unfolding init_stub_eq(1)
proof (rule returns_exec_append [OF stage_fp [OF assms(1,2)]], rule returns_exec_append [OF stage_cc], assumption,
    rule returns_exec_append [OF stage_move(1)], assumption, rule returns_exec_append [OF stage_move(2)], assumption)
  fix t' :: "'a state_t"
  assume st: "stage s (if hi s = 0 then if lo s = 0 then last_fp s 32 0 else lo s else hi s) (if lo s = 0 then 0 else lo s)
      (if hi s = 0 then 0 else hi s) ((replicate 5 0)[CP1_CR25 := stub_flag E s]) t'"
  then have wf: "wf_state t'" by (simp add: stage_def)
  have len: "length (gpr s) = 32" using assms(1) by (simp add: wf_state_def)
  show "returns (\<lambda>t'. wf_state t'
        \<and> regs t' = ((gpr s)[1 := stub_at s], lo s, hi s, cpr1 s, (replicate 5 0)[CP1_CR25 := stub_flag E s]))
      (exec_words E (concat (map (stub_gpr s) [1..<Suc 31])) t')"
  proof (rule returns_mono [OF exec_stub_gpr [OF wf, of 31 s E]], simp, elim conjE)
    fix u :: "'a state_t"
    assume u: "wf_state u" "lo u = lo t'" "hi u = hi t'" "fcr1 u = fcr1 t'" "cpr1 u = cpr1 t'"
      "\<forall>j < 32. gpr u ! j = (if 1 \<le> j \<and> j < Suc 31 \<and> gpr s ! j \<noteq> 0 then gpr s ! j else gpr t' ! j)"
    have "gpr u ! j = (gpr s)[1 := stub_at s] ! j" if j: "j < 32" for j
    proof (cases "j = 1")
      case True
      then show ?thesis using u(6) st len by (auto simp: stub_at_def stage_def)
    next
      case False
      then have "gpr t' ! j = 0" using st j by (simp add: stage_def)
      with False u(6) j assms(3) show ?thesis by (cases "j = 0") auto
    qed
    then have "gpr u = (gpr s)[1 := stub_at s]" using len u(1) by (simp add: list_eq_iff_nth_eq wf_state_def)
    then show "wf_state u
        \<and> regs u = ((gpr s)[1 := stub_at s], lo s, hi s, cpr1 s, (replicate 5 0)[CP1_CR25 := stub_flag E s])"
      using u st by (simp add: regs_def stage_def)
  qed
qed

subsection \<open>Properties of the start\<close>

text \<open>
  C5. The start program restores the registers.  It is written from \<open>0x000d0000\<close> on; run by the interpreter from a reset processor it comes to its BREAK within 200
  instructions, and then the general registers, HI, LO and the floating point registers are those
  of the state it was made from, with two exceptions: register 1, when it is zero, keeps the last
  value that went through it, and of the condition codes only code 0 can be set.
\<close>

theorem init_stub_restores:
  assumes "wf_state s" "pc s = 0x000d0000" "gpr s ! 0 = 0" "write_stub s = Inr s1"
    and "reset_regs t" "pc t = pc s" "mem t = mem s1" "icnt t = 0" "brk t = 0" "little E = False"
    and "200 \<le> max_icnt" "200 \<le> n"
  shows "\<exists>t'. run_checker E (Suc d) max_icnt n t = Some (Inr t') \<and> brk t' = 1
    \<and> gpr t' = (gpr s)[1 := stub_at s] \<and> lo t' = lo s \<and> hi t' = hi s \<and> cpr1 t' = cpr1 s
    \<and> fcr1 t' ! CP1_CR25 = stub_flag E s"
proof -
  define ws where "ws = stub_body s"
  have len: "length ws < 173" using length_init_stub [of s] by (simp add: ws_def init_stub_eq(2))
  have "code_at (mem s1) (pc s) (init_stub s)"
    using write_stub_code [of s] length_init_stub [of s] assms(2,4) by (simp add: sz_def)
  then have code: "code_at (mem t) (pc t) ws"
    and stop: "mem_get (mem t) (ucast (pc t + 4 * of_nat (length ws))) = Inr (bswap False (itype 13 0 0 0))"
    unfolding init_stub_eq(2) ws_def [symmetric] other_words(4) [symmetric]
    by (simp_all add: code_at_append code_at_Cons assms(6,7))
  have wf: "wf_state t" using assms(5) by (simp add: reset_regs_def)
  have st: "\<forall>w \<in> set ws. straight w" by (simp add: ws_def stub_body_straight)
  have mx: "unat (icnt t) + length ws \<le> unat max_icnt" using assms(8,11) len by (simp add: word_le_nat_alt)
  obtain u where u: "exec_words E ws t = Inr u" "wf_state u"
    "regs u = ((gpr s)[1 := stub_at s], lo s, hi s, cpr1 s, (replicate 5 0)[CP1_CR25 := stub_flag E s])"
    using exec_stub_body [OF assms(1,5,3), of E] by (auto simp: returns_iff ws_def)
  note run = run_code [OF wf st assms(10) code assms(9) mx u(1)]
  define k where "k = n - length ws - 2"
  have k: "n = length ws + Suc (Suc k)" using assms(12) len by (simp add: k_def)
  have "unat (icnt u) = length ws"
    using run(2) assms(8) len by (simp add: unsigned_of_nat take_bit_nat_eq_self)
  then have lt: "icnt u < max_icnt" using assms(11) len by (simp add: word_less_nat_alt word_le_nat_alt)
  have "fetch E u = Inr (itype 13 0 0 0)" using run(2) stop assms(10) by (simp add: fetch_def)
  moreover have "exec_insn E (execMips E d) (itype 13 0 0 0) v = Inr (insn_break v)" for v
    by (simp add: exec_insn_def exec_rtype_def itype_fields itype_funct)
  ultimately have "execMips E (Suc d) u = Inr (insn_break (u\<lparr>icnt := icnt u + 1\<rparr>))" by simp
  then have "run_checker E (Suc d) max_icnt n t = Some (Inr (insn_break (u\<lparr>icnt := icnt u + 1\<rparr>)))"
    unfolding k run(1) using lt run(2) by (simp add: insn_break_def del: execMips.simps)
  moreover have "(replicate 5 0)[CP1_CR25 := stub_flag E s] ! CP1_CR25 = stub_flag E s" by (simp add: machine_consts)
  ultimately show ?thesis using u(3) by (simp add: insn_break_def regs_def)
qed

definition stub_sample :: "unit state_t" where
  "stub_sample = (state_t_new sparse_mem_new ())\<lparr>pc := 0x000d0000, gpr := (replicate 32 0)[1 := 5, 29 := 0x12345678], lo := 9\<rparr>"

definition reset_sample :: "memory \<Rightarrow> unit state_t" where
  "reset_sample m = (state_t_new m ())\<lparr>pc := 0x000d0000\<rparr>"

theorem init_stub_restores_witness:
  "\<exists>s1 t'. write_stub stub_sample = Inr s1
    \<and> run_checker sample_env 1 1000 200 (reset_sample (mem s1)) = Some (Inr t')
    \<and> brk t' = 1 \<and> gpr t' ! 1 = 5 \<and> gpr t' ! 29 = 0x12345678 \<and> lo t' = 9 \<and> hi t' = 0"
proof -
  have "unat (pc stub_sample) + 4 * (length (init_stub stub_sample) + 128) < sz"
    using length_init_stub [of stub_sample] by (simp add: stub_sample_def sz_def)
  from write_stub_code [OF this] obtain s1 where s1: "write_stub stub_sample = Inr s1" by (auto simp: returns_iff)
  have "wf_state stub_sample" "pc stub_sample = 0x000d0000" "gpr stub_sample ! 0 = 0"
    "reset_regs (reset_sample (mem s1))" "pc (reset_sample (mem s1)) = pc stub_sample"
    "mem (reset_sample (mem s1)) = mem s1" "icnt (reset_sample (mem s1)) = 0" "brk (reset_sample (mem s1)) = 0"
    by (simp_all add: stub_sample_def reset_sample_def state_t_new_def wf_state_def reset_regs_def)
  note hyps = this
  have "\<exists>t'. run_checker sample_env (Suc 0) 1000 200 (reset_sample (mem s1)) = Some (Inr t') \<and> brk t' = 1
      \<and> gpr t' = (gpr stub_sample)[1 := stub_at stub_sample] \<and> lo t' = lo stub_sample \<and> hi t' = hi stub_sample
      \<and> cpr1 t' = cpr1 stub_sample \<and> fcr1 t' ! CP1_CR25 = stub_flag sample_env stub_sample"
    by (rule init_stub_restores [OF hyps(1-3) s1 hyps(4-8)]) (simp_all add: sample_env_def)
  with s1 show ?thesis
    by (auto simp: stub_sample_def state_t_new_def stub_at_def)
qed

lemma execMips_progress:
  "wf_state s \<Longrightarrow> on_ok (\<lambda>s'. \<exists>k \<le> d. 1 \<le> k \<and> icnt s' = icnt s + of_nat k) (execMips E d s)"
proof (induction d arbitrary: s)
  case (Suc d)
  define s0 where "s0 = s\<lparr>icnt := icnt s + 1\<rparr>"
  have wf: "wf_state s0" using Suc.prems by (simp add: s0_def wf_state_def)
  have "on_ok (\<lambda>s'. \<exists>k \<le> Suc d. 1 \<le> k \<and> icnt s' = icnt s + of_nat k) (exec_insn E (execMips E d) inst s0)" for inst
  proof (cases "is_control inst")
    case True
    have "on_ok (\<lambda>s2. wf_state s2 \<and> (\<exists>k \<le> Suc d. 1 \<le> k \<and> icnt s2 = icnt s + of_nat k)) (execMips E d s1)"
      if "quiet_step s0 s1" for s1
    proof -
      have s1: "wf_state s1" "icnt s1 = icnt s + 1" using that by (simp_all add: quiet_step_def plain_step_def s0_def)
      have "\<exists>k \<le> Suc d. 1 \<le> k \<and> i = icnt s + of_nat k" if "k \<le> d" "i = icnt s1 + of_nat k" for k i
        using that s1(2) by (intro exI [of _ "Suc k"]) (simp add: add.assoc)
      then show ?thesis
        using Suc.IH [OF s1(1)] execMips_wf [OF s1(1), of E d] by (cases "execMips E d s1") auto
    qed
    then show ?thesis
      by (rule slot_shape_on_ok [OF exec_insn_control_shape [OF wf True], rotated])
        (auto simp: after_slot_def s0_def intro: exI [of _ 1])
  next
    case False
    from exec_insn_icnt [OF wf False, of E "execMips E d"] show ?thesis
      by (cases "exec_insn E (execMips E d) inst s0") (auto simp: s0_def intro: exI [of _ 1])
  qed
  then show ?case by (cases "fetch E s") (simp_all add: s0_def)
qed simp

text \<open>
  The interpreter loop ends: with an instruction limit that leaves room for the delay slots of
  one instruction below $2^{64}$, it is finished after at most as many rounds as instructions are
  left to the limit, because every round counts at least one instruction.
\<close>

theorem run_checker_finishes:
  assumes "wf_state s" "unat max_icnt + d \<le> 2 ^ 64" "unat max_icnt - unat (icnt s) \<le> n"
  shows "\<exists>r. run_checker E d max_icnt n s = Some r"
  using assms
proof (induction n arbitrary: s)
  case 0
  then have "\<not> icnt s < max_icnt" by (simp add: word_less_nat_alt)
  then show ?case by simp
next
  case (Suc n)
  show ?case
  proof (cases "icnt s < max_icnt \<and> brk s = 0")
    case True
    show ?thesis
    proof (cases "execMips E d s")
      case (Inr s')
      with execMips_progress [OF Suc.prems(1), of d E] obtain k where k: "k \<le> d" "1 \<le> k" "icnt s' = icnt s + of_nat k"
        by auto
      have "unat (icnt s) + k < 2 ^ 64" using True k(1) Suc.prems(2) by (simp add: word_less_nat_alt)
      then have "unat (icnt s') = unat (icnt s) + k"
        using k(3) by (simp add: unat_word_ariths(1) unsigned_of_nat take_bit_nat_eq_self)
      then have "\<exists>r. run_checker E d max_icnt n s' = Some r"
        using Suc.prems k(2) execMips_wf [OF Suc.prems(1), of E d] Inr by (intro Suc.IH) auto
      then show ?thesis using True Inr by simp
    qed (use True in simp)
  qed auto
qed

theorem run_checker_finishes_witness:
  "\<exists>r. run_checker sample_env 2 50 50 (sample_prog 0x100) = Some r"
  by (rule run_checker_finishes) simp_all

end
