(* ===== verification/Top_Stats.thy ===== *)
theory Top_Stats
  imports Interp
begin

text \<open>
  \<open>src/top.cc\<close>, \<open>src/top.hh\<close>: the functions the simulated processor calls to report what it did in
  a cycle (\<open>record_restart\<close> to \<open>record_retirement\<close>, \<open>check_insn_bytes\<close>), the counters they keep,
  and the median of a histogram.  The file variables are the record \<open>top_stats\<close>; a \<open>std::map\<close> of
  counters that is only incremented is the function from keys to counts.  Arguments of C type
  \<open>int\<close> are \<open>u32\<close>, of type \<open>long long\<close> \<open>u64\<close>.  The floating point mean of \<open>histo_mean_median\<close> is
  in \<open>Final_Log\<close>, the pipeline log in \<open>Pipeline_Log\<close>.
\<close>

record top_stats =
  n_fetch :: "u64 list"
  n_resteer_bubble :: u64
  n_fq_full :: u64
  n_uq_full :: "u64 list"
  n_alloc :: "u64 list"
  n_rdy :: "u64 list"
  n_int_exec :: "u64 list"
  n_mem_exec :: "u64 list"
  n_fp_exec :: "u64 list"
  sched_full :: "u64 list"
  dq_empty :: u64
  uq_full :: u64
  n_active :: u64
  rob_full :: u64
  l1d_reqs :: u64
  l1d_acks :: u64
  l1d_stores :: u64
  l1d_misses :: u64
  l1d_insns :: u64
  block_distribution :: "u32 \<Rightarrow> u64"
  restart_distribution :: "u32 \<Rightarrow> u64"
  restart_ds_distribution :: "u32 \<Rightarrow> u64"
  l1d_stall_reasons :: "u64 list"
  int_sched_rdy_map :: "u32 \<Rightarrow> u64"
  mem_lat_map :: "u32 \<Rightarrow> u64"
  fp_lat_map :: "u32 \<Rightarrow> u64"
  non_mem_lat_map :: "u32 \<Rightarrow> u64"
  retire_map :: "u64 \<Rightarrow> u64"
  last_retire_cycle :: u64
  last_retire_pc :: u64
  lrc :: u64
  record_insns_retired :: u64

definition top_stats_init :: top_stats where
  "top_stats_init =
     \<lparr>n_fetch = replicate 5 0, n_resteer_bubble = 0, n_fq_full = 0, n_uq_full = replicate 3 0, n_alloc = replicate 3 0,
      n_rdy = replicate 3 0, n_int_exec = replicate 2 0, n_mem_exec = replicate 3 0, n_fp_exec = replicate 2 0,
      sched_full = replicate 3 0, dq_empty = 0, uq_full = 0, n_active = 0, rob_full = 0, l1d_reqs = 0, l1d_acks = 0,
      l1d_stores = 0, l1d_misses = 0, l1d_insns = 0, block_distribution = \<lambda>_. 0, restart_distribution = \<lambda>_. 0,
      restart_ds_distribution = \<lambda>_. 0, l1d_stall_reasons = replicate 8 0, int_sched_rdy_map = \<lambda>_. 0,
      mem_lat_map = \<lambda>_. 0, fp_lat_map = \<lambda>_. 0, non_mem_lat_map = \<lambda>_. 0, retire_map = \<lambda>_. 0,
      last_retire_cycle = 0, last_retire_pc = 0, lrc = - 1, record_insns_retired = 0\<rparr>"

text \<open>\<open>m[k]++\<close> on a map, \<open>a[i] += v\<close> on an array (an index outside it is undefined).\<close>

definition bump :: "('k \<Rightarrow> u64) \<Rightarrow> 'k \<Rightarrow> 'k \<Rightarrow> u64" where
  "bump m k = m(k := m k + 1)"

definition add_at :: "nat \<Rightarrow> u64 \<Rightarrow> u64 list \<Rightarrow> u64 list" where
  "add_at i v a = a[i := a ! i + v]"

definition popcount_int :: "u32 \<Rightarrow> u32" where
  "popcount_int x = of_nat (length (filter (bit x) [0..<32]))"

definition record_restart :: "u32 \<Rightarrow> top_stats \<Rightarrow> top_stats" where
  "record_restart cycles T = T\<lparr>restart_distribution := bump (restart_distribution T) cycles\<rparr>"

definition record_ds_restart :: "u32 \<Rightarrow> top_stats \<Rightarrow> top_stats" where
  "record_ds_restart cycles T = T\<lparr>restart_ds_distribution := bump (restart_ds_distribution T) cycles\<rparr>"

definition record_l1d :: "u32 \<Rightarrow> u32 \<Rightarrow> u32 \<Rightarrow> u32 \<Rightarrow> u32 \<Rightarrow> top_stats \<Rightarrow> top_stats result" where
  "record_l1d req ack ack_st blocked stall_reason T =
     (let i = unat (stall_reason AND 15)
      in definedE (i < length (l1d_stall_reasons T))
        (Inr (T\<lparr>l1d_reqs := l1d_reqs T + scast req, l1d_acks := l1d_acks T + scast ack,
                l1d_stores := l1d_stores T + scast ack_st,
                block_distribution := bump (block_distribution T) (popcount_int blocked),
                l1d_stall_reasons := add_at i 1 (l1d_stall_reasons T)\<rparr>)))"

definition report_exec :: "u32 \<Rightarrow> u32 \<Rightarrow> u32 \<Rightarrow> u32 \<Rightarrow> u32 \<Rightarrow> u32 \<Rightarrow> u32 \<Rightarrow> u32 \<Rightarrow> u32 \<Rightarrow> u32 \<Rightarrow> u32 \<Rightarrow> top_stats \<Rightarrow> top_stats" where
  "report_exec int_valid int_ready mem_valid mem_ready fp_valid fp_ready intq_full memq_full fpq_full blocked_by_store ready_int T =
     T\<lparr>n_int_exec := add_at 1 (scast int_ready) (add_at 0 (scast int_valid) (n_int_exec T)),
       n_mem_exec := add_at 2 (scast blocked_by_store) (add_at 1 (scast mem_ready) (add_at 0 (scast mem_valid) (n_mem_exec T))),
       n_fp_exec := add_at 1 (scast fp_ready) (add_at 0 (scast fp_valid) (n_fp_exec T)),
       sched_full := add_at 2 (scast fpq_full) (add_at 1 (scast memq_full) (add_at 0 (scast intq_full) (sched_full T))),
       int_sched_rdy_map := bump (int_sched_rdy_map T) (popcount_int ready_int)\<rparr>"

text \<open>One of three counters, by two flags of which the second takes precedence.\<close>

definition pick3 :: "u32 \<Rightarrow> u32 \<Rightarrow> nat" where
  "pick3 one two = (if two \<noteq> 0 then 2 else if one \<noteq> 0 then 1 else 0)"

definition record_alloc :: "u32 \<Rightarrow> u32 \<Rightarrow> u32 \<Rightarrow> u32 \<Rightarrow> u32 \<Rightarrow> u32 \<Rightarrow> u32 \<Rightarrow> u32 \<Rightarrow> u32 \<Rightarrow> top_stats \<Rightarrow> top_stats" where
  "record_alloc rf a1 a2 de f1 f2 r1 r2 active T =
     T\<lparr>rob_full := rob_full T + scast rf, dq_empty := dq_empty T + scast de, uq_full := uq_full T + scast f1,
       n_active := n_active T + scast active, n_alloc := add_at (pick3 a1 a2) 1 (n_alloc T),
       n_uq_full := add_at (pick3 f1 f2) 1 (n_uq_full T), n_rdy := add_at (pick3 r1 r2) 1 (n_rdy T)\<rparr>"

definition fetch_slot :: "u32 \<Rightarrow> u32 \<Rightarrow> u32 \<Rightarrow> u32 \<Rightarrow> nat" where
  "fetch_slot p1 p2 p3 p4 =
     (if p1 \<noteq> 0 then 1 else if p2 \<noteq> 0 then 2 else if p3 \<noteq> 0 then 3 else if p4 \<noteq> 0 then 4 else 0)"

definition record_fetch :: "u32 \<Rightarrow> u32 \<Rightarrow> u32 \<Rightarrow> u32 \<Rightarrow> u32 \<Rightarrow> u32 \<Rightarrow> top_stats \<Rightarrow> top_stats" where
  "record_fetch p1 p2 p3 p4 bubble fq_full T =
     T\<lparr>n_resteer_bubble := n_resteer_bubble T + scast bubble, n_fq_full := n_fq_full T + scast fq_full,
       n_fetch := add_at (fetch_slot p1 p2 p3 p4) 1 (n_fetch T)\<rparr>"

text \<open>\<open>get_insn\<close> takes a \<open>uint32_t\<close>: the program counter of the processor is truncated.\<close>

definition get_insn :: "u32 \<Rightarrow> 'w state_t \<Rightarrow> u32 result" where
  "get_insn p s = bindE (mem_get (mem s) (ucast p)) (\<lambda>w. Inr (bswap False w))"

definition check_insn_bytes :: "u64 \<Rightarrow> u32 \<Rightarrow> 'w state_t \<Rightarrow> bool result" where
  "check_insn_bytes p data s = bindE (get_insn (ucast p) s) (\<lambda>insn. Inr (data = insn))"

definition record_retirement :: "u64 \<Rightarrow> u64 \<Rightarrow> u64 \<Rightarrow> u64 \<Rightarrow> u32 \<Rightarrow> u32 \<Rightarrow> u32 \<Rightarrow> 'w state_t \<Rightarrow> top_stats \<Rightarrow> top_stats result" where
  "record_retirement p alloc_cycle complete_cycle retire_cycle is_mem is_fp missed_l1d s T =
     bindE (get_insn (ucast p) s) (\<lambda>insn.
     let delta = retire_cycle - last_retire_cycle T; lat = ucast (complete_cycle - alloc_cycle)
     in if retire_cycle <s lrc T then Inl (Exit (-1))
        else let T1 = T\<lparr>lrc := retire_cycle\<rparr>;
                 T2 = (if is_mem \<noteq> 0 then T1\<lparr>mem_lat_map := bump (mem_lat_map T1) lat\<rparr>
                       else if is_fp \<noteq> 0 then T1\<lparr>fp_lat_map := bump (fp_lat_map T1) lat\<rparr>
                       else T1\<lparr>non_mem_lat_map := bump (non_mem_lat_map T1) lat\<rparr>)
             in Inr (T2\<lparr>retire_map := bump (retire_map T2) delta, last_retire_cycle := retire_cycle, last_retire_pc := p,
                        l1d_misses := l1d_misses T2 + (if missed_l1d \<noteq> 0 then 1 else 0),
                        l1d_insns := l1d_insns T2 + scast is_mem,
                        record_insns_retired := record_insns_retired T2 + 1\<rparr>))"

text \<open>
  The second loop of \<open>histo_mean_median\<close> over the sorted entries of the histogram: the first key at
  which the running count reaches half of the total.
\<close>

primrec histo_total :: "('k \<times> u64) list \<Rightarrow> u64 \<Rightarrow> u64" where
  "histo_total [] c = c"
| "histo_total (p # ps) c = histo_total ps (c + snd p)"

primrec median_from :: "u64 \<Rightarrow> u64 \<Rightarrow> ('k \<times> u64) list \<Rightarrow> 'k option" where
  "median_from half x [] = None"
| "median_from half x (p # ps) = (let x' = x + snd p in if x' \<ge> half then Some (fst p) else median_from half x' ps)"

definition histo_median :: "'k \<Rightarrow> 'k \<Rightarrow> ('k \<times> u64) list \<Rightarrow> 'k" where
  "histo_median zero median ps =
     (if ps = [] then zero
      else case median_from (histo_total ps 0 div 2) 0 ps of Some k \<Rightarrow> k | None \<Rightarrow> median)"

lemma get_insn_returns:
  assumes "unat p + 4 \<le> sz"
  obtains w where "get_insn p s = Inr w"
  using assms that by (auto simp: get_insn_def mem_get_def sz_def word_less_nat_alt)

lemma record_retirement_returns:
  assumes "unat (ucast p :: u32) + 4 \<le> sz" "\<not> rc <s lrc T"
  shows "\<exists>T'. record_retirement p ac cc rc is_mem is_fp missed s T = Inr T' \<and> lrc T' = rc
    \<and> retire_map T' = bump (retire_map T) (rc - last_retire_cycle T) \<and> last_retire_cycle T' = rc
    \<and> record_insns_retired T' = record_insns_retired T + 1"
proof -
  obtain w where "get_insn (ucast p) s = Inr w" using assms(1) by (rule get_insn_returns)
  then show ?thesis using assms(2) by (simp add: record_retirement_def Let_def)
qed

subsection \<open>Shape of the counters\<close>

definition stats_ok :: "top_stats \<Rightarrow> bool" where
  "stats_ok T \<longleftrightarrow> length (n_fetch T) = 5 \<and> length (n_uq_full T) = 3 \<and> length (n_alloc T) = 3 \<and> length (n_rdy T) = 3
     \<and> length (n_int_exec T) = 2 \<and> length (n_mem_exec T) = 3 \<and> length (n_fp_exec T) = 2 \<and> length (sched_full T) = 3
     \<and> length (l1d_stall_reasons T) = 8"

lemma length_add_at [simp]: "length (add_at i v a) = length a"
  by (simp add: add_at_def)

lemma stats_ok_init: "stats_ok top_stats_init"
  by (simp add: stats_ok_def top_stats_init_def)

lemma stats_ok_steps:
  assumes "stats_ok T"
  shows "stats_ok (record_restart c T)" "stats_ok (record_ds_restart c T)"
    "on_ok stats_ok (record_l1d req ack st bl why T)" "stats_ok (report_exec iv ir mv mr fv fr iq mq fq bs ri T)"
    "stats_ok (record_alloc rf a1 a2 de f1 f2 r1 r2 act T)" "stats_ok (record_fetch p1 p2 p3 p4 b fq T)"
    "on_ok stats_ok (record_retirement p ac cc rc im ifp ms s T)"
  using assms
  by (auto simp: stats_ok_def record_restart_def record_ds_restart_def record_l1d_def report_exec_def record_alloc_def
      record_fetch_def record_retirement_def Let_def definedE_def intro!: on_ok_bindE_any)

lemma sum_list_add_at: "i < length a \<Longrightarrow> sum_list (add_at i v a) = sum_list a + v"
proof (induction a arbitrary: i)
  case (Cons x a)
  then show ?case by (cases i) (simp_all add: add_at_def add_ac)
qed simp

text \<open>Every reported fetch is counted exactly once.\<close>

lemma record_fetch_total:
  assumes "stats_ok T"
  shows "sum_list (n_fetch (record_fetch p1 p2 p3 p4 b fq T)) = sum_list (n_fetch T) + 1"
  using assms by (simp add: record_fetch_def stats_ok_def sum_list_add_at fetch_slot_def)

subsection \<open>Properties of the statistics\<close>

text \<open>
  \<open>record_l1d\<close> masks the stall reason with 15 but has eight counters: it is defined exactly for
  reasons whose low four bits are below eight, and for those it keeps the shape of the counters.
\<close>

theorem record_l1d_defined_iff:
  assumes "stats_ok T"
  shows "if unat (stall_reason AND 15) < 8 then returns stats_ok (record_l1d req ack ack_st blocked stall_reason T)
    else record_l1d req ack ack_st blocked stall_reason T = Inl Undefined"
  using assms by (simp add: record_l1d_def stats_ok_def)

theorem record_l1d_defined_iff_witness:
  "returns stats_ok (record_l1d 1 1 0 0 7 top_stats_init) \<and> record_l1d 1 1 0 0 8 top_stats_init = Inl Undefined"
  using record_l1d_defined_iff [OF stats_ok_init, of 7 1 1 0 0] record_l1d_defined_iff [OF stats_ok_init, of 8 1 1 0 0]
  by simp

text \<open>The total of the counts, without overflow.\<close>

primrec count_sum :: "('k \<times> u64) list \<Rightarrow> nat" where
  "count_sum [] = 0"
| "count_sum (p # ps) = unat (snd p) + count_sum ps"

lemma count_sum_append [simp]: "count_sum (ps @ qs) = count_sum ps + count_sum qs"
  by (induction ps) simp_all

lemma histo_total_eq: "histo_total ps c = c + sum_list (map snd ps)"
  by (induction ps arbitrary: c) (simp_all add: add.assoc)

lemma unat_sum_counts:
  fixes ps :: "('k \<times> u64) list"
  assumes "count_sum ps < 2 ^ 64"
  shows "unat (sum_list (map snd ps)) = count_sum ps"
  using assms
proof (induction ps)
  case (Cons p ps)
  then show ?case by (simp add: unat_word_ariths(1))
qed simp

lemma median_from_split:
  assumes "unat x + count_sum ps < 2 ^ 64" "unat half \<le> unat x + count_sum ps" "ps \<noteq> []"
  shows "\<exists>as k c bs. median_from half x ps = Some k \<and> ps = as @ (k, c) # bs
    \<and> (as = [] \<or> unat x + count_sum as < unat half)
    \<and> unat half \<le> unat x + count_sum as + unat c"
  using assms
proof (induction ps arbitrary: x)
  case (Cons p ps)
  obtain k c where p: "p = (k, c)" by fastforce
  have x': "unat (x + c) = unat x + unat c" using Cons.prems(1) p by (simp add: unat_word_ariths(1))
  show ?case
  proof (cases "half \<le> x + c")
    case True
    then have "median_from half x (p # ps) = Some k" by (simp add: p)
    moreover have "unat half \<le> unat x + unat c" using True x' by (simp add: word_le_nat_alt)
    ultimately show ?thesis using p by (intro exI [of _ "[]"] exI [of _ k] exI [of _ c] exI [of _ ps]) simp
  next
    case False
    then have lt: "unat x + unat c < unat half" using x' by (simp add: word_le_nat_alt)
    then have "ps \<noteq> []" using Cons.prems(2) p by auto
    with Cons.IH [of "x + c"] Cons.prems(1,2) x' p obtain as k' c' bs where
      ih: "median_from half (x + c) ps = Some k'" "ps = as @ (k', c') # bs"
        "as = [] \<or> unat x + unat c + count_sum as < unat half"
        "unat half \<le> unat x + unat c + count_sum as + unat c'"
      by (auto simp: add.assoc)
    have "median_from half x (p # ps) = Some k'" using False ih(1) by (simp add: p)
    moreover have "unat x + count_sum (p # as) < unat half" using ih(3) lt p by auto
    ultimately show ?thesis
      using ih(2,4) p by (intro exI [of _ "p # as"] exI [of _ k'] exI [of _ c'] exI [of _ bs]) (simp add: add.assoc)
  qed
qed simp

text \<open>
  The median of a histogram: when the counts do not overflow, \<open>histo_mean_median\<close> picks the
  first key of the sorted entries at which the accumulated count reaches half of the total.
\<close>

theorem histo_median_correct:
  assumes "ps \<noteq> []" "count_sum ps < 2 ^ 64"
  shows "\<exists>as c bs. ps = as @ (histo_median zero median ps, c) # bs
    \<and> (as = [] \<or> count_sum as < count_sum ps div 2)
    \<and> count_sum ps div 2 \<le> count_sum as + unat c"
proof -
  define half :: u64 where "half = histo_total ps 0 div 2"
  have h: "unat half = count_sum ps div 2"
    using unat_sum_counts [OF assms(2)] by (simp add: half_def histo_total_eq unat_div_distrib)
  have "\<exists>as k c bs. median_from half 0 ps = Some k \<and> ps = as @ (k, c) # bs
      \<and> (as = [] \<or> unat (0 :: u64) + count_sum as < unat half)
      \<and> unat half \<le> unat (0 :: u64) + count_sum as + unat c"
    by (rule median_from_split) (use assms h in simp_all)
  then obtain as k c bs where k: "median_from half 0 ps = Some k" "ps = as @ (k, c) # bs"
    "as = [] \<or> count_sum as < unat half" "unat half \<le> count_sum as + unat c" by auto
  have "histo_median zero median ps = k" using assms(1) k(1) by (simp add: histo_median_def half_def)
  then show ?thesis using k(2-) unfolding h by blast
qed

theorem histo_median_correct_witness:
  "\<exists>as c bs. [(3 :: u32, 5 :: u64), (4, 2), (9, 4)] = as @ (histo_median 0 0 [(3, 5), (4, 2), (9, 4)], c) # bs
    \<and> (as = [] \<or> count_sum as < 5) \<and> 5 \<le> count_sum as + unat c"
  using histo_median_correct [of "[(3 :: u32, 5 :: u64), (4, 2), (9, 4)]" 0 0] by simp

end
