(* ===== verification/Top.thy ===== *)
theory Top
  imports Top_Stats Init_Stub Load_Elf
begin

text \<open>
  \<open>src/top.cc\<close>: the co-simulation loop.  Each cycle the driver evaluates the simulated processor,
  serves its monitor call, copies the registers it retired into the state \<open>s\<close> (here \<open>rtl\<close>), lets
  the interpreter execute the retired instruction on the state \<open>ss\<close> (here \<open>sim\<close>) and compares the two,
  and answers memory requests after a fixed latency.

  The processor is code that the hardware compiler generates: the record \<open>hw\<close>, a parameter, with one
  function for each clock edge.  Its output and input ports are \<open>tb_out\<close> and \<open>tb_in\<close>, 64 bits wide
  where \<open>M_WIDTH\<close> is.  The local variables of \<open>main\<close> are the record \<open>driver\<close>; the state of the host
  system, shared by both states, is \<open>world\<close>.  A \<open>break\<close> out of the loop is \<open>Stop\<close>.  The build without
  \<open>LINUX_SYSCALL_EMULATION\<close> is modelled.  Output and the performance log are left out.
\<close>

subsection \<open>Arguments\<close>

text \<open>The tokens \<open>strtok\<close> finds with the delimiter \<open>" "\<close>.\<close>

function tokens :: "u8 list \<Rightarrow> u8 list list" where
  "tokens bs =
     (case dropWhile (\<lambda>b. b = 32) bs of
        [] \<Rightarrow> []
      | b # r \<Rightarrow> takeWhile (\<lambda>b. b \<noteq> 32) (b # r) # tokens (dropWhile (\<lambda>b. b \<noteq> 32) (b # r)))"
  by pat_completeness auto
termination
proof (relation "measure length", simp)
  fix bs b r
  assume *: "dropWhile (\<lambda>b :: u8. b = 32) bs = b # r"
  then have "b \<noteq> 32" by (metis (full_types) dropWhile_eq_Cons_conv)
  then have "length (dropWhile (\<lambda>b. b \<noteq> 32) (b # r)) < length (b # r)" by (simp add: le_imp_less_Suc length_dropWhile_le)
  also have "length (b # r) \<le> length bs" unfolding * [symmetric] by (rule length_dropWhile_le)
  finally show "(dropWhile (\<lambda>b. b \<noteq> 32) (b # r), bs) \<in> measure length" by simp
qed

declare tokens.simps [simp del]

definition buildArgcArgv :: "u8 list \<Rightarrow> u8 list \<Rightarrow> int \<times> u8 list list" where
  "buildArgcArgv filename sysArgs =
     (let args = filename # take MARGS (tokens sysArgs) in (int (length args), args))"

subsection \<open>Ports and variables\<close>

record tb_out =
  monitor_req_valid :: bool
  monitor_req_reason :: nat
  retire_reg_valid :: bool
  retire_reg_fp_valid :: bool
  retire_reg_ptr :: nat
  retire_reg_data :: u64
  retire_reg_two_valid :: bool
  retire_reg_fp_two_valid :: bool
  retire_reg_two_ptr :: nat
  retire_reg_two_data :: u64
  retire_valid :: bool
  retire_pc :: u64
  retire_two_valid :: bool
  retire_two_pc :: u64
  branch_pc_valid :: bool
  branch_fault :: bool
  branch_pc :: u64
  in_flush_mode :: bool
  got_break :: bool
  got_syscall :: bool
  got_ud :: bool
  inflight_out :: u32
  iside_tlb_miss :: bool
  dside_tlb_miss :: bool
  mem_req_valid :: bool
  mem_req_addr :: u64
  mem_req_opcode :: nat
  mem_req_store_data :: "u32 list"

record tb_in =
  mem_rsp_valid :: bool
  mem_rsp_load_data :: "u32 list"
  monitor_rsp_valid :: bool
  monitor_rsp_data :: u64

record 'h hw =
  posedge :: "tb_in \<Rightarrow> 'h \<Rightarrow> 'h \<times> tb_out"
  negedge :: "tb_in \<Rightarrow> 'h \<Rightarrow> 'h"
  gotFinish :: "'h \<Rightarrow> bool"

record options =
  enable_checker :: bool
  mem_lat :: u64
  max_cycle :: u64
  max_icnt :: u64
  heartbeat :: u64
  start_trace_at :: u64

record 'w driver =
  rtl :: "'w state_t"
  sim :: "'w state_t"
  world :: 'w
  tin :: tb_in
  cyc :: u64
  insns_retired :: u64
  last_retire :: u64
  last_retired_pc :: u64
  last_retired_fp_pc :: u64
  last_match_pc :: u32
  last_check :: u64
  mismatches :: u64
  n_checks :: u64
  n_stores :: u64
  n_loads :: u64
  n_branches :: u64
  n_mispredicts :: u64
  n_flush_cycles :: u64
  n_iside_tlb_misses :: u64
  n_dside_tlb_misses :: u64
  mispredicts :: "u32 \<Rightarrow> u64"
  pushout_histo :: "u64 \<Rightarrow> u64"
  inflight :: "u64 list"
  max_inflight :: u32
  mem_reply_cycle :: u64
  last_store_addr :: u64
  last_load_addr :: u64
  last_addr :: u64
  touched_lines :: "u32 \<Rightarrow> bool"
  got_monitor :: bool
  incorrect :: bool
  trace_retirement :: bool

datatype 'd flow = Stop 'd | Go 'd

definition andThen :: "'d flow result \<Rightarrow> ('d \<Rightarrow> 'd flow result) \<Rightarrow> 'd flow result" where
  "andThen r f = bindE r (\<lambda>fl. case fl of Stop d \<Rightarrow> Inr (Stop d) | Go d \<Rightarrow> f d)"

subsection \<open>Monitor calls of the processor\<close>

text \<open>
  The new state and the value of \<open>monitor_rsp_data\<close>, which some calls leave as it was.
\<close>

definition top_monitor :: "globals \<Rightarrow> 'w host_os \<Rightarrow> u64 \<Rightarrow> nat \<Rightarrow> 'w state_t \<Rightarrow> u64 \<Rightarrow> ('w state_t \<times> u64) result" where
  "top_monitor G H retired reason s rsp =
     (let a0 = gpr s ! R_a0; a1 = gpr s ! R_a1; a2 = gpr s ! R_a2; raw = (\<lambda>p :: u32. unat (get_raw_ptr (scast p)))
      in if reason = 6 then
           bindE (c_string (mem s) (raw a0)) (\<lambda>path.
           case os_open H path (remapIOFlags a1) (os s) of (fd, w) \<Rightarrow> Inr (s\<lparr>os := w\<rparr>, scast fd))
         else if reason = 7 then
           (case os_read H a0 (scast a2) (os s) of (bs, rc, w) \<Rightarrow>
            bindE (store_bytes (mem s) (raw a1) bs) (\<lambda>m. Inr (s\<lparr>mem := m, os := w\<rparr>, scast rc)))
         else if reason = 8 then
           bindE (load_bytes (mem s) (raw a1) (unat (scast a2 :: u64))) (\<lambda>bs.
           case os_write H a0 bs (os s) of (rc, w) \<Rightarrow> Inr (s\<lparr>os := w\<rparr>, scast rc))
         else if reason = 9 then
           (case os_lseek H a0 (scast a1) a2 (os s) of (rc, w) \<Rightarrow> Inr (s\<lparr>os := w\<rparr>, rc))
         else if reason = 10 then
           (if 2 <s a0 then (case os_close H a0 (os s) of (rc, w) \<Rightarrow> Inr (s\<lparr>os := w\<rparr>, scast rc)) else Inr (s, 0))
         else if reason = 33 then
           bindE (mem_set (mem s) (ucast a0) (0 :: u32)) (\<lambda>m.
           bindE (mem_set m (ucast (a0 + 4)) (0 :: u32)) (\<lambda>m'. Inr (s\<lparr>mem := m'\<rparr>, 0)))
         else if reason = 34 then
           bindE (foldE (\<lambda>i m. mem_set m (ucast (a0 + i)) (0 :: u32)) [0, 1, 2, 3] (mem s)) (\<lambda>m. Inr (s\<lparr>mem := m\<rparr>, 0))
         else if reason = 35 then
           bindE (foldE (getarg False G a0) [0..<nat (min (int MARGS) (sysArgc G))] (mem s)) (\<lambda>m.
           Inr (s\<lparr>mem := m\<rparr>, word_of_int (sysArgc G)))
         else if reason = 50 then Inr (s, cycle G)
         else if reason = 51 then Inr (s, rsp)
         else if reason = 52 then Inr (s, rsp)
         else if reason = 53 then Inr (s, retired)
         else if reason = 55 then
           bindE (mem_set (mem s) (ucast (a0 + 0)) (bswap False K1SIZE)) (\<lambda>m.
           bindE (mem_set m (ucast (a0 + 4)) (0 :: u32)) (\<lambda>m'.
           bindE (mem_set m' (ucast (a0 + 8)) (0 :: u32)) (\<lambda>m''.
           Inr (wr_gpr R_v0 0 (s\<lparr>mem := m''\<rparr>), rsp))))
         else Inl (Exit (-1)))"

text \<open>The globals and the environment at the current cycle.\<close>

definition env_now :: "'w env \<Rightarrow> 'w driver \<Rightarrow> 'w env" where
  "env_now E D = E\<lparr>globs := (globs E)\<lparr>cycle := cyc D\<rparr>\<rparr>"

definition monitor_phase :: "'w env \<Rightarrow> tb_out \<Rightarrow> 'w driver \<Rightarrow> 'w driver flow result" where
  "monitor_phase E P D =
     (if monitor_req_valid P then
        bindE (top_monitor (globs (env_now E D)) (host E) (insns_retired D) (monitor_req_reason P)
                 ((rtl D)\<lparr>os := world D\<rparr>) (monitor_rsp_data (tin D))) (\<lambda>(s, rsp).
        Inr (Go (D\<lparr>rtl := s, world := os s, touched_lines := (\<lambda>_. False), got_monitor := True,
                   tin := (tin D)\<lparr>monitor_rsp_data := rsp, monitor_rsp_valid := True\<rparr>\<rparr>)))
      else Inr (Go D))"

subsection \<open>Retirement\<close>

definition retire_regs :: "tb_out \<Rightarrow> 'w driver \<Rightarrow> 'w driver flow result" where
  "retire_regs P D =
     (let D1 = (if retire_reg_valid P then D\<lparr>rtl := wr_gpr (retire_reg_ptr P) (ucast (retire_reg_data P)) (rtl D)\<rparr> else D)
      in if retire_reg_fp_valid P then
           bindE (if odd (retire_reg_ptr P) then get_insn (ucast (retire_pc P)) (rtl D1) else Inr 0) (\<lambda>_.
           bindE (set_dp (retire_reg_ptr P) (retire_reg_data P) (rtl D1)) (\<lambda>s.
           Inr (Go (D1\<lparr>rtl := s, last_retired_fp_pc := retire_pc P\<rparr>))))
         else Inr (Go D1))"

definition branch_stats :: "tb_out \<Rightarrow> 'w driver \<Rightarrow> 'w driver flow result" where
  "branch_stats P D =
     Inr (Go (D\<lparr>n_branches := n_branches D + (if branch_pc_valid P then 1 else 0),
                mispredicts := (if branch_fault P then bump (mispredicts D) (ucast (branch_pc P)) else mispredicts D),
                n_mispredicts := n_mispredicts D + (if branch_fault P then 1 else 0),
                n_flush_cycles := n_flush_cycles D + (if in_flush_mode P then 1 else 0)\<rparr>))"

definition count_retired :: "options \<Rightarrow> tb_out \<Rightarrow> 'w driver \<Rightarrow> 'w driver result" where
  "count_retired opt P D =
     (let D1 = D\<lparr>insns_retired := insns_retired D + 1,
                 pushout_histo := (if last_retire D > 1
                    then (pushout_histo D)(retire_pc P := pushout_histo D (retire_pc P) + last_retire D) else pushout_histo D),
                 last_retire := 0, last_retired_pc := retire_pc P\<rparr>;
          D2 = (if insns_retired D1 \<ge> start_trace_at opt then D1\<lparr>trace_retirement := True\<rparr> else D1);
          D3 = (if retire_two_valid P then D2\<lparr>insns_retired := insns_retired D2 + 1\<rparr> else D2)
      in definedE (heartbeat opt \<noteq> 0) (assertE (last_retired_pc D \<noteq> retire_pc P) (Inr D3)))"

definition gprs_differ :: "'w state_t \<Rightarrow> 'w state_t \<Rightarrow> nat list" where
  "gprs_differ s ss = filter (\<lambda>i. gpr ss ! i \<noteq> gpr s ! i) [0..<32]"

definition fprs_differ :: "'w state_t \<Rightarrow> 'w state_t \<Rightarrow> bool" where
  "fprs_differ s ss = list_ex (\<lambda>i. get_dp s (2 * i) \<noteq> get_dp ss (2 * i)) [0..<16]"

text \<open>
  The checker on the first retired instruction; \<open>d\<close> bounds the nesting of delay slots in the
  interpreter.  Reporting a difference reads the instruction words, which may itself fault.
\<close>

definition compare_states :: "tb_out \<Rightarrow> 'w driver \<Rightarrow> 'w driver flow result" where
  "compare_states P D =
     (let compared = (ucast (pc (sim D)) = retire_pc P + 4);
          wrong = (if compared then gprs_differ (rtl D) (sim D) else []);
          D1 = D\<lparr>mismatches := mismatches D + of_nat (length wrong)\<rparr>
      in if wrong \<noteq> [] \<or> compared \<and> fprs_differ (rtl D) (sim D) then
           bindE (if wrong \<noteq> [] then get_insn (pc (sim D)) (rtl D) else Inr 0) (\<lambda>_.
           bindE (get_insn (ucast (retire_pc P)) (rtl D)) (\<lambda>_.
           Inr (Stop (D1\<lparr>incorrect := True\<rparr>))))
         else Inr (Go (D1\<lparr>n_checks := n_checks D + 1, last_check := 0, last_match_pc := ucast (retire_pc P)\<rparr>)))"

definition check_retired :: "nat \<Rightarrow> 'w env \<Rightarrow> options \<Rightarrow> tb_out \<Rightarrow> 'w driver \<Rightarrow> 'w driver flow result" where
  "check_retired d E opt P D =
     (if \<not> enable_checker opt then Inr (Go D)
      else if retire_pc P = ucast (pc (sim D)) then
        bindE (execMips (env_now E D) d ((sim D)\<lparr>os := world D\<rparr>)) (\<lambda>ss.
        compare_states P (D\<lparr>sim := ss, world := os ss\<rparr>))
      else
        (let D1 = D\<lparr>last_check := last_check D + 1\<rparr>
         in if last_check D1 > 2 then bindE (get_insn (last_match_pc D1) (rtl D1)) (\<lambda>_. Inr (Stop D1)) else Inr (Go D1)))"

definition retire_phase :: "nat \<Rightarrow> 'w env \<Rightarrow> options \<Rightarrow> tb_out \<Rightarrow> 'w driver \<Rightarrow> 'w driver flow result" where
  "retire_phase d E opt P D =
     (if retire_valid P then bindE (count_retired opt P D) (check_retired d E opt P) else Inr (Go D))"

definition retire_two_phase :: "nat \<Rightarrow> 'w env \<Rightarrow> options \<Rightarrow> tb_out \<Rightarrow> 'w driver \<Rightarrow> 'w driver flow result" where
  "retire_two_phase d E opt P D =
     (let D1 = (if retire_reg_two_valid P
                then D\<lparr>rtl := wr_gpr (retire_reg_two_ptr P) (ucast (retire_reg_two_data P)) (rtl D)\<rparr> else D)
      in bindE
        (if retire_reg_fp_two_valid P then
           assertE (even (retire_reg_two_ptr P))
             (bindE (set_dp (retire_reg_two_ptr P) (retire_reg_two_data P) (rtl D1)) (\<lambda>s. Inr (D1\<lparr>rtl := s\<rparr>)))
         else Inr D1) (\<lambda>D2.
        if enable_checker opt \<and> retire_two_valid P \<and> retire_two_pc P = ucast (pc (sim D2)) then
          bindE (execMips (env_now E D2) d ((sim D2)\<lparr>os := world D2\<rparr>)) (\<lambda>ss.
          Inr (Go (D2\<lparr>sim := ss, world := os ss, n_checks := n_checks D2 + 1, last_check := 0,
                      last_match_pc := ucast (retire_two_pc P)\<rparr>)))
        else Inr (Go D2)))"

definition stop_phase :: "tb_out \<Rightarrow> 'w driver \<Rightarrow> 'w driver flow result" where
  "stop_phase P D =
     (let D1 = D\<lparr>last_retire := last_retire D + 1\<rparr>
      in if last_retire D1 > push_bit 20 1 \<and> \<not> in_flush_mode P then
           bindE (get_insn (ucast (last_retired_pc D1)) (rtl D1)) (\<lambda>_. Inr (Stop D1))
         else if got_break P then Inr (Stop D1)
         else if got_syscall P then Inr (Stop D1)
         else if got_ud P then bindE (get_insn (ucast (retire_pc P)) (rtl D1)) (\<lambda>_. Inr (Stop D1))
         else Inr (Go (D1\<lparr>inflight := add_at (unat (inflight_out P AND 31)) 1 (inflight D1),
                          max_inflight := max (max_inflight D1) (inflight_out P),
                          n_iside_tlb_misses := n_iside_tlb_misses D1 + (if iside_tlb_miss P then 1 else 0),
                          n_dside_tlb_misses := n_dside_tlb_misses D1 + (if dside_tlb_miss P then 1 else 0)\<rparr>)))"

subsection \<open>Memory requests\<close>

text \<open>The address of word \<open>i\<close> of the line: \<open>(tb->mem_req_addr + 4*i) & ((1UL<<32)-1)\<close>.\<close>

definition line_ea :: "u64 \<Rightarrow> nat \<Rightarrow> u64" where
  "line_ea addr i = (addr + 4 * of_nat i) AND 0xffffffff"

definition load_line :: "memory \<Rightarrow> u64 \<Rightarrow> u32 list result" where
  "load_line m addr = foldE (\<lambda>i ws. bindE (mem_get m (line_ea addr i)) (\<lambda>w. Inr (ws @ [w]))) [0..<4] []"

definition store_line :: "memory \<Rightarrow> u64 \<Rightarrow> u32 list \<Rightarrow> memory result" where
  "store_line m addr ws = foldE (\<lambda>i m. mem_set m (line_ea addr i) (ws ! i)) [0..<4] m"

definition mem_reply :: "tb_out \<Rightarrow> 'w driver \<Rightarrow> 'w driver result" where
  "mem_reply P D =
     (let addr = mem_req_addr P;
          D1 = D\<lparr>last_retire := 0, mem_reply_cycle := - 1\<rparr>
      in assertE (mem_req_valid P)
        (bindE
          (if mem_req_opcode P = 4 then
             bindE (load_line (mem (rtl D1)) addr) (\<lambda>ws.
             assertE (addr AND 0xf = 0)
               (Inr (D1\<lparr>tin := (tin D1)\<lparr>mem_rsp_load_data := ws\<rparr>, last_load_addr := addr,
                        touched_lines := (touched_lines D1)(ucast (drop_bit 4 (addr AND 0xffffffff)) := True),
                        n_loads := n_loads D1 + 1\<rparr>)))
           else if mem_req_opcode P = 7 then
             bindE (store_line (mem (rtl D1)) addr (mem_req_store_data P)) (\<lambda>m.
             Inr (D1\<lparr>rtl := (rtl D1)\<lparr>mem := m\<rparr>, last_store_addr := addr, n_stores := n_stores D1 + 1\<rparr>))
           else Inr D1)
          (\<lambda>D2. Inr (D2\<lparr>last_addr := addr, tin := (tin D2)\<lparr>mem_rsp_valid := True\<rparr>\<rparr>))))"

definition mem_phase :: "options \<Rightarrow> tb_out \<Rightarrow> 'w driver \<Rightarrow> 'w driver flow result" where
  "mem_phase opt P D =
     (let D0 = D\<lparr>tin := (tin D)\<lparr>mem_rsp_valid := False\<rparr>\<rparr>;
          D1 = (if mem_req_valid P \<and> mem_reply_cycle D0 = - 1 then D0\<lparr>mem_reply_cycle := cyc D0 + mem_lat opt\<rparr> else D0)
      in if mem_reply_cycle D1 = cyc D1 then bindE (mem_reply P D1) (\<lambda>D2. Inr (Go D2)) else Inr (Go D1))"

subsection \<open>The loop\<close>

definition end_cycle :: "'w driver \<Rightarrow> 'w driver" where
  "end_cycle D =
     (let D1 = (if got_monitor D
                then D\<lparr>tin := (tin D)\<lparr>monitor_rsp_valid := False, monitor_rsp_data := 0\<rparr>, got_monitor := False\<rparr> else D)
      in D1\<lparr>cyc := cyc D1 + 1\<rparr>)"

definition driver_step :: "nat \<Rightarrow> 'w env \<Rightarrow> options \<Rightarrow> tb_out \<Rightarrow> 'w driver \<Rightarrow> 'w driver flow result" where
  "driver_step d E opt P D =
     andThen (andThen (andThen (andThen (andThen (andThen (monitor_phase E P D)
       (retire_regs P)) (branch_stats P)) (retire_phase d E opt P)) (retire_two_phase d E opt P))
       (stop_phase P)) (mem_phase opt P)"

primrec cosim :: "'h hw \<Rightarrow> nat \<Rightarrow> 'w env \<Rightarrow> options \<Rightarrow> nat \<Rightarrow> 'h \<Rightarrow> 'w driver \<Rightarrow> 'w driver result option" where
  "cosim W d E opt 0 h D =
     (if \<not> gotFinish W h \<and> cyc D < max_cycle opt \<and> insns_retired D < max_icnt opt then None else Some (Inr D))"
| "cosim W d E opt (Suc n) h D =
     (if \<not> gotFinish W h \<and> cyc D < max_cycle opt \<and> insns_retired D < max_icnt opt then
        (case posedge W (tin D) h of (h1, P) \<Rightarrow>
           (case driver_step d E opt P D of
              Inl e \<Rightarrow> Some (Inl e)
            | Inr (Stop D') \<Rightarrow> Some (Inr D')
            | Inr (Go D') \<Rightarrow> cosim W d E opt n (negedge W (tin D') h1) (end_cycle D')))
      else Some (Inr D))"

subsection \<open>The comparison\<close>

lemma gprs_differ_Nil:
  assumes "length (gpr s) = 32" "length (gpr ss) = 32"
  shows "gprs_differ s ss = [] \<longleftrightarrow> gpr s = gpr ss"
proof -
  have "gprs_differ s ss = [] \<longleftrightarrow> (\<forall>i < 32. gpr s ! i = gpr ss ! i)" by (auto simp: gprs_differ_def filter_empty_conv)
  then show ?thesis using assms list_eq_iff_nth_eq [of "gpr s" "gpr ss"] by simp
qed

lemma pair_eq_iff:
  "ucast a OR push_bit 32 (ucast b) = (ucast c OR push_bit 32 (ucast d) :: u64) \<longleftrightarrow> a = c \<and> b = d" for a b c d :: u32
proof
  assume *: "ucast a OR push_bit 32 (ucast b) = (ucast c OR push_bit 32 (ucast d) :: u64)"
  have lo: "ucast (ucast x OR push_bit 32 (ucast y) :: u64) = x" for x y :: u32
    by (rule bit_word_eqI) (auto simp: bit_simps)
  have hi: "ucast (drop_bit 32 (ucast x OR push_bit 32 (ucast y) :: u64)) = y" for x y :: u32
    by (rule bit_word_eqI) (auto simp: bit_simps dest: bit_imp_le_length)
  have "a = c" using arg_cong [OF *, of "ucast :: u64 \<Rightarrow> u32"] by (simp only: lo)
  moreover have "b = d" using arg_cong [OF *, of "\<lambda>x. ucast (drop_bit 32 x) :: u32"] by (simp only: hi)
  ultimately show "a = c \<and> b = d" ..
qed simp

lemma fprs_differ_iff:
  assumes "length (cpr1 s) = 32" "length (cpr1 ss) = 32"
  shows "fprs_differ s ss \<longleftrightarrow> cpr1 s \<noteq> cpr1 ss"
proof -
  have "get_dp s (2 * i) \<noteq> get_dp ss (2 * i) \<longleftrightarrow> cpr1 s ! (2 * i) \<noteq> cpr1 ss ! (2 * i) \<or> cpr1 s ! (2 * i + 1) \<noteq> cpr1 ss ! (2 * i + 1)"
    if "i < 16" for i
    using that by (simp add: get_dp_def pair_eq_iff)
  then have "fprs_differ s ss \<longleftrightarrow> (\<exists>i < 16. cpr1 s ! (2 * i) \<noteq> cpr1 ss ! (2 * i) \<or> cpr1 s ! (2 * i + 1) \<noteq> cpr1 ss ! (2 * i + 1))"
    by (auto simp: fprs_differ_def list_ex_iff)
  also have "\<dots> \<longleftrightarrow> (\<exists>j < 32. cpr1 s ! j \<noteq> cpr1 ss ! j)"
  proof
    assume "\<exists>i < 16. cpr1 s ! (2 * i) \<noteq> cpr1 ss ! (2 * i) \<or> cpr1 s ! (2 * i + 1) \<noteq> cpr1 ss ! (2 * i + 1)"
    then obtain i where "i < 16" "cpr1 s ! (2 * i) \<noteq> cpr1 ss ! (2 * i) \<or> cpr1 s ! (2 * i + 1) \<noteq> cpr1 ss ! (2 * i + 1)" by blast
    moreover from this(1) have "2 * i < 32" "2 * i + 1 < 32" by simp_all
    ultimately show "\<exists>j < 32. cpr1 s ! j \<noteq> cpr1 ss ! j" by blast
  next
    assume "\<exists>j < 32. cpr1 s ! j \<noteq> cpr1 ss ! j"
    then obtain j where j: "j < 32" "cpr1 s ! j \<noteq> cpr1 ss ! j" by blast
    then show "\<exists>i < 16. cpr1 s ! (2 * i) \<noteq> cpr1 ss ! (2 * i) \<or> cpr1 s ! (2 * i + 1) \<noteq> cpr1 ss ! (2 * i + 1)"
      by (intro exI [of _ "j div 2"]) (cases "even j"; auto)
  qed
  finally show ?thesis using assms by (auto simp: list_eq_iff_nth_eq)
qed

lemma compare_states_outcome:
  fixes P :: tb_out and D :: "'w driver"
  assumes "wf_state (rtl D)" "wf_state (sim D)" and sz: "unat (retire_pc P) + 8 \<le> sz"
  defines "compared \<equiv> ucast (pc (sim D)) = retire_pc P + 4"
  shows "returns (\<lambda>fl. case fl of
        Stop D' \<Rightarrow> incorrect D' \<and> sim D' = sim D \<and> compared \<and> (gpr (rtl D) \<noteq> gpr (sim D) \<or> cpr1 (rtl D) \<noteq> cpr1 (sim D))
      | Go D' \<Rightarrow> sim D' = sim D \<and> rtl D' = rtl D
          \<and> (if compared then gpr (rtl D) = gpr (sim D) \<and> cpr1 (rtl D) = cpr1 (sim D) else True))
    (compare_states P D)"
proof -
  have g: "gpr (rtl D) = gpr (sim D) \<longleftrightarrow> gprs_differ (rtl D) (sim D) = []"
    and f: "cpr1 (rtl D) = cpr1 (sim D) \<longleftrightarrow> \<not> fprs_differ (rtl D) (sim D)"
    using assms by (simp_all add: gprs_differ_Nil fprs_differ_iff wf_state_def)
  have "unat (ucast (retire_pc P) :: u32) + 4 \<le> sz"
    using sz by (simp add: sz_def unsigned_ucast_eq take_bit_nat_eq_self)
  then obtain w where w: "get_insn (ucast (retire_pc P)) (rtl D) = Inr w" by (rule get_insn_returns)
  have "\<exists>v. get_insn (pc (sim D)) (rtl D) = Inr v" if c: compared
  proof -
    have "unat (ucast (pc (sim D)) :: u64) = unat (retire_pc P + 4)" using c by (simp only: compared_def)
    then have "unat (pc (sim D)) = unat (retire_pc P) + 4" using sz by (simp add: unat_word_ariths sz_def)
    with sz have "unat (pc (sim D)) + 4 \<le> sz" by simp
    then obtain v where "get_insn (pc (sim D)) (rtl D) = Inr v" by (rule get_insn_returns)
    then show ?thesis ..
  qed
  then show ?thesis
    unfolding g f compare_states_def compared_def [symmetric] Let_def
    by (cases compared; cases "gprs_differ (rtl D) (sim D) = []"; cases "fprs_differ (rtl D) (sim D)") (auto simp: w)
qed

subsection \<open>Properties of the driver\<close>

text \<open>
  C2. The checker compares whole register files, but only at one place: when the processor retires the
  instruction the interpreter is at, the interpreter executes it, and it then stands at the
  following word (\<open>ss->pc == retire_pc + 4\<close>), the driver goes on exactly when all 32 general and all 32
  floating point registers agree, and otherwise stops with the run marked incorrect.  When the
  interpreter stands elsewhere, as after a branch or jump whose delay slot it has executed, nothing is
  compared and the driver goes on.  HI, LO, the condition codes and the memory are never compared.
\<close>

theorem checker_stops_iff_registers_differ:
  assumes "wf_state (rtl D)" "wf_state (sim D)" "enable_checker opt" "retire_pc P = ucast (pc (sim D))"
    and "unat (retire_pc P) + 8 \<le> sz"
    and "execMips (env_now E D) d ((sim D)\<lparr>os := world D\<rparr>) = Inr ss"
  defines "compared \<equiv> ucast (pc ss) = retire_pc P + 4"
  shows "returns (\<lambda>fl. case fl of
        Stop D' \<Rightarrow> incorrect D' \<and> sim D' = ss \<and> compared \<and> (gpr (rtl D) \<noteq> gpr ss \<or> cpr1 (rtl D) \<noteq> cpr1 ss)
      | Go D' \<Rightarrow> sim D' = ss \<and> rtl D' = rtl D \<and> (if compared then gpr (rtl D) = gpr ss \<and> cpr1 (rtl D) = cpr1 ss else True))
    (check_retired d E opt P D)"
proof -
  have "wf_state ((sim D)\<lparr>os := world D\<rparr>)" using assms(2) by (simp add: wf_state_def)
  from execMips_wf [OF this, of "env_now E D" d] have wf: "wf_state ss" using assms(6) by simp
  have c: "check_retired d E opt P D = compare_states P (D\<lparr>sim := ss, world := os ss\<rparr>)"
    unfolding check_retired_def if_P [OF assms(4)] assms(6) bindE_simps using assms(3) by simp
  have eqs: "rtl (D\<lparr>sim := ss, world := os ss\<rparr>) = rtl D" "sim (D\<lparr>sim := ss, world := os ss\<rparr>) = ss" by simp_all
  show ?thesis
    using compare_states_outcome [of "D\<lparr>sim := ss, world := os ss\<rparr>" P] assms(1,5) wf unfolding eqs c compared_def by blast
qed

definition sample_out :: "u64 \<Rightarrow> tb_out" where
  "sample_out p =
     \<lparr>monitor_req_valid = False, monitor_req_reason = 0, retire_reg_valid = False, retire_reg_fp_valid = False,
      retire_reg_ptr = 0, retire_reg_data = 0, retire_reg_two_valid = False, retire_reg_fp_two_valid = False,
      retire_reg_two_ptr = 0, retire_reg_two_data = 0, retire_valid = True, retire_pc = p, retire_two_valid = False,
      retire_two_pc = 0, branch_pc_valid = False, branch_fault = False, branch_pc = 0, in_flush_mode = False,
      got_break = False, got_syscall = False, got_ud = False, inflight_out = 0, iside_tlb_miss = False,
      dside_tlb_miss = False, mem_req_valid = True, mem_req_addr = 0x100, mem_req_opcode = 4,
      mem_req_store_data = [0, 0, 0, 0]\<rparr>"

definition sample_options :: options where
  "sample_options = \<lparr>enable_checker = True, mem_lat = 4, max_cycle = 1000, max_icnt = 1000, heartbeat = 16777216,
     start_trace_at = - 1\<rparr>"

definition sample_driver :: "unit driver" where
  "sample_driver =
     \<lparr>rtl = sample_prog 0x300, sim = sample_prog 0x300, world = (),
      tin = \<lparr>mem_rsp_valid = False, mem_rsp_load_data = [0, 0, 0, 0], monitor_rsp_valid = False, monitor_rsp_data = 0\<rparr>,
      cyc = 10, insns_retired = 0, last_retire = 0, last_retired_pc = 0, last_retired_fp_pc = 0, last_match_pc = 0,
      last_check = 0, mismatches = 0, n_checks = 0, n_stores = 0, n_loads = 0, n_branches = 0, n_mispredicts = 0,
      n_flush_cycles = 0, n_iside_tlb_misses = 0, n_dside_tlb_misses = 0, mispredicts = \<lambda>_. 0, pushout_histo = \<lambda>_. 0,
      inflight = replicate 32 0, max_inflight = 0, mem_reply_cycle = - 1, last_store_addr = 0, last_load_addr = 0,
      last_addr = 0, touched_lines = \<lambda>_. False, got_monitor = False, incorrect = False, trace_retirement = False\<rparr>"

lemma sample_driver_simps [simp]:
  "rtl sample_driver = sample_prog 0x300" "sim sample_driver = sample_prog 0x300" "cyc sample_driver = 10"
  "mem_reply_cycle sample_driver = - 1"
  by (simp_all add: sample_driver_def)

theorem checker_stops_iff_registers_differ_witness:
  "\<exists>ss. execMips (env_now sample_env sample_driver) 1 (sample_prog 0x300) = Inr ss
    \<and> returns (\<lambda>fl. case fl of
          Stop D' \<Rightarrow> incorrect D' \<and> sim D' = ss
        | Go D' \<Rightarrow> sim D' = ss \<and> (if ucast (pc ss) = (0x304 :: u64) then gpr (sample_prog 0x300) = gpr ss else True))
      (check_retired 1 sample_env sample_options (sample_out 0x300) sample_driver)"
proof -
  have "fetch (env_now sample_env sample_driver) (sample_prog 0x300) = fetch sample_env (sample_prog 0x300)"
    by (simp add: fetch_def env_now_def)
  then have "fetch (env_now sample_env sample_driver) (sample_prog 0x300) = Inr 0x24000001" by (simp only: sample_fetch)
  then obtain ss where ss: "execMips (env_now sample_env sample_driver) 1 (sample_prog 0x300) = Inr ss"
    by (simp add: exec_insn_def exec_itype_def inst_opcode_def)
  have o: "(sim sample_driver)\<lparr>os := world sample_driver\<rparr> = sample_prog 0x300"
    by (simp add: sample_driver_def sample_prog_def)
  have "wf_state (rtl sample_driver)" "wf_state (sim sample_driver)" "enable_checker sample_options"
    "retire_pc (sample_out 0x300) = ucast (pc (sim sample_driver))" "unat (retire_pc (sample_out 0x300)) + 8 \<le> sz"
    by (simp_all add: sample_options_def sample_out_def sz_def)
  note outcome = checker_stops_iff_registers_differ [OF this, unfolded o, OF ss]
  have "returns (\<lambda>fl. case fl of
          Stop D' \<Rightarrow> incorrect D' \<and> sim D' = ss
        | Go D' \<Rightarrow> sim D' = ss \<and> (if ucast (pc ss) = (0x304 :: u64) then gpr (sample_prog 0x300) = gpr ss else True))
      (check_retired 1 sample_env sample_options (sample_out 0x300) sample_driver)"
    using outcome by (elim returns_mono) (auto simp: sample_out_def split: flow.splits)
  with ss show ?thesis by blast
qed

subsection \<open>Monitor calls\<close>

lemma get_raw_ptr_scast [simp]: "get_raw_ptr (scast p) = p" for p :: u32
proof -
  have m: "(0xffffffff :: u64) = mask 32" by (simp add: mask_eq_exp_minus_1)
  show ?thesis unfolding get_raw_ptr_def m by (rule bit_word_eqI) (auto simp: bit_simps simp del: mask_numeral)
qed

lemma ucast_scast [simp]: "ucast (scast x :: u64) = x" for x :: u32
  by (rule bit_word_eqI) (auto simp: bit_simps)

lemma ucast_word_of_int [simp]: "ucast (word_of_int i :: u64) = (word_of_int i :: u32)"
  by (rule bit_word_eqI) (auto simp: bit_simps)

text \<open>A sign-extended address inside the mapping is the address itself.\<close>

lemma unat_scast_le_sz:
  fixes p :: u32
  assumes "unat (scast p :: u64) \<le> sz"
  shows "unat (scast p :: u64) = unat p"
proof (cases "bit p 31")
  case True
  then have b: "bit (scast p :: u64) 63" by (simp add: bit_simps)
  have "unat (scast p :: u64) < 2 ^ 63" using assms by (simp add: sz_def)
  then have "take_bit 63 (scast p :: u64) = scast p" by (simp only: word_unat_eq_iff unat_take_bit mod_less)
  with b have "bit (take_bit 63 (scast p :: u64)) 63" by (simp only:)
  then show ?thesis by (simp only: bit_take_bit_iff) simp
next
  case False
  have "bit p n \<longleftrightarrow> bit p (min 31 n)" for n
  proof (cases "n \<le> 31")
    case n: False
    then have "\<not> bit p n" using bit_imp_le_length [of p n] by auto
    with n False show ?thesis by (simp add: min_def)
  qed (simp add: min_def)
  then have "(scast p :: u64) = ucast p" by (intro bit_word_eqI) (auto simp: bit_simps)
  then show ?thesis by simp
qed

text \<open>
  What the two implementations of a monitor call have to agree on: the memory, the state of the host
  system and the low half of the answer, which the interpreter leaves in \<open>v0\<close>.
\<close>

definition call_agrees :: "'w state_t \<Rightarrow> 'w state_t \<times> u64 \<Rightarrow> bool" where
  "call_agrees s1 r \<longleftrightarrow> mem (fst r) = mem s1 \<and> os (fst r) = os s1 \<and> ucast (snd r) = gpr s1 ! R_v0"

lemma top_read_agrees:
  assumes "wf_state s" "gpr s ! R_a0 \<noteq> 0" "mon_read H s = Inr s1"
  shows "returns (call_agrees s1) (top_monitor G H retired 7 s rsp)"
proof -
  obtain bs rc w where rd: "os_read H (gpr s ! R_a0) (scast (gpr s ! R_a2)) (os s) = (bs, rc, w)" by (metis prod_cases3)
  have "mon_rdwr_read H (gpr s ! R_a0) (scast (gpr s ! R_a2)) s = Inr s1"
    using assms(2,3) by (simp add: mon_read_def coalesce_def)
  then obtain m where m: "store_bytes (mem s) (unat (scast (gpr s ! R_a1) :: u64)) bs = Inr m"
      and s1: "s1 = wr_gpr R_v0 rc (s\<lparr>mem := m, os := w\<rparr>)"
    by (auto simp: mon_rdwr_read_def per_page_rdwr_read_def rd)
  have "unat (scast (gpr s ! R_a1) :: u64) \<le> sz" using m by (simp add: store_bytes_def)
  from m [unfolded unat_scast_le_sz [OF this]] show ?thesis
    using assms(1) by (simp add: top_monitor_def rd call_agrees_def s1 wf_state_def R_v0_def)
qed

lemma top_write_agrees:
  assumes "wf_state s" "mon_write H s = Inr s1"
  shows "returns (call_agrees s1) (top_monitor G H retired 8 s rsp)"
proof -
  obtain bs where bs: "load_bytes (mem s) (unat (scast (gpr s ! R_a1) :: u64)) (unat (scast (gpr s ! R_a2) :: u64)) = Inr bs"
      and w: "\<And>rc w. os_write H (gpr s ! R_a0) bs (os s) = (rc, w) \<Longrightarrow> s1 = wr_gpr R_v0 rc (s\<lparr>os := w\<rparr>)"
    using assms(2) by (auto simp: mon_write_def per_page_rdwr_write_def Let_def)
  have "unat (scast (gpr s ! R_a1) :: u64) \<le> sz" using bs by (simp add: load_bytes_def)
  from bs [unfolded unat_scast_le_sz [OF this]] show ?thesis
    using assms(1) w by (simp add: top_monitor_def call_agrees_def wf_state_def R_v0_def split: prod.split)
qed

lemma top_other_agrees:
  assumes "wf_state s" "reason \<in> {6, 9, 10, 33, 34, 35, 50, 55}" "monitor_call False G H reason s = Inr s1"
  shows "returns (call_agrees s1) (top_monitor G H retired reason s 0)"
  using assms
  by (auto simp: top_monitor_def monitor_call_def monitor_defs Let_def call_agrees_def wf_state_def R_v0_def
      split: prod.splits if_splits)

text \<open>
  C7. How the driver's own monitor calls relate to the interpreter's, for every reason.  For \<open>open\<close>, \<open>read\<close>, \<open>write\<close>, \<open>lseek\<close>,
  \<open>close\<close>, \<open>gettimeofday\<close>, \<open>times\<close>, \<open>getargs\<close>, the cycle counter and the memory size (6 to 10, 33 to 35, 50, 55), whenever the
  interpreter completes the call, the driver's code for it, started on the same state, returns too, with the same memory,
  the same effect on the host system and the same answer; \<open>read\<close> on descriptor 0 is left out, where the
  interpreter reads a file and the driver the descriptor.  The other reasons differ: the driver ends the
  program at \<open>getcwd\<close> and \<open>chdir\<close> (37, 38), which the interpreter executes, the interpreter ends it at 51, 52 and 53, which
  the driver answers without changing the state, and both end it at any other reason.
\<close>

theorem monitor_calls_agree:
  assumes "wf_state s"
  shows "(reason \<in> {6, 7, 8, 9, 10, 33, 34, 35, 50, 55} \<and> \<not> (reason = 7 \<and> gpr s ! R_a0 = 0) \<longrightarrow>
      (\<forall>s1. monitor_call False G H reason s = Inr s1 \<longrightarrow>
         returns (\<lambda>(s2, rsp). mem s2 = mem s1 \<and> os s2 = os s1 \<and> ucast rsp = gpr s1 ! R_v0) (top_monitor G H retired reason s 0)))
    \<and> (reason \<in> {37, 38} \<longrightarrow> top_monitor G H retired reason s 0 = Inl (Exit (-1)))
    \<and> (reason \<in> {51, 52, 53} \<longrightarrow> monitor_call False G H reason s = Inl (Exit (-1))
         \<and> top_monitor G H retired reason s 0 = Inr (s, if reason = 53 then retired else 0))
    \<and> (reason \<notin> {6, 7, 8, 9, 10, 33, 34, 35, 37, 38, 50, 51, 52, 53, 55} \<longrightarrow>
         monitor_call False G H reason s = Inl (Exit (-1)) \<and> top_monitor G H retired reason s 0 = Inl (Exit (-1)))"
proof (intro conjI impI allI)
  fix s1
  assume r: "reason \<in> {6, 7, 8, 9, 10, 33, 34, 35, 50, 55} \<and> \<not> (reason = 7 \<and> gpr s ! R_a0 = 0)"
    and c: "monitor_call False G H reason s = Inr s1"
  from r consider "reason = 7" "gpr s ! R_a0 \<noteq> 0" | "reason = 8" | "reason \<in> {6, 9, 10, 33, 34, 35, 50, 55}" by auto
  then have "returns (call_agrees s1) (top_monitor G H retired reason s 0)"
  proof cases
    case 1
    with assms c show ?thesis by (auto simp: monitor_call_def intro: top_read_agrees)
  next
    case 2
    with assms c show ?thesis by (auto simp: monitor_call_def intro: top_write_agrees)
  next
    case 3
    with assms c show ?thesis by (intro top_other_agrees)
  qed
  then show "returns (\<lambda>(s2, rsp). mem s2 = mem s1 \<and> os s2 = os s1 \<and> ucast rsp = gpr s1 ! R_v0) (top_monitor G H retired reason s 0)"
    by (rule returns_mono) (auto simp: call_agrees_def)
qed (auto simp: top_monitor_def monitor_call_def)

subsection \<open>Frames of the phases\<close>

definition driver_of :: "'d flow \<Rightarrow> 'd" where
  "driver_of fl = (case fl of Stop D \<Rightarrow> D | Go D \<Rightarrow> D)"

lemma driver_of_simps [simp]: "driver_of (Stop D) = D" "driver_of (Go D) = D"
  by (simp_all add: driver_of_def)

text \<open>The register files and the statistics array keep their sizes.\<close>

definition driver_ok :: "'w driver \<Rightarrow> bool" where
  "driver_ok D \<longleftrightarrow> wf_state (rtl D) \<and> wf_state (sim D) \<and> length (inflight D) = 32"

text \<open>Only the memory phase moves \<open>mem_reply_cycle\<close>, and nothing but the end of the cycle the clock.\<close>

definition same_clock :: "'w driver \<Rightarrow> 'w driver \<Rightarrow> bool" where
  "same_clock D D' \<longleftrightarrow> cyc D' = cyc D \<and> mem_reply_cycle D' = mem_reply_cycle D \<and> (if driver_ok D then driver_ok D' else True)"

lemma same_clock_refl [simp]: "same_clock D D"
  and same_clock_trans: "same_clock D D1 \<Longrightarrow> same_clock D1 D2 \<Longrightarrow> same_clock D D2"
  by (auto simp: same_clock_def)

lemma andThen_keeps:
  assumes "on_ok (\<lambda>fl. same_clock D (driver_of fl)) r" "\<And>D1. on_ok (\<lambda>fl. same_clock D1 (driver_of fl)) (f D1)"
  shows "on_ok (\<lambda>fl. same_clock D (driver_of fl)) (andThen r f)"
proof (cases "\<exists>D1. r = Inr (Go D1)")
  case True
  then obtain D1 where r: "r = Inr (Go D1)" ..
  with assms(1) have "same_clock D D1" by simp
  with assms(2) [of D1] show ?thesis
    by (auto simp: andThen_def r on_ok_def intro: same_clock_trans split: sum.splits)
next
  case False
  with assms(1) show ?thesis by (auto simp: andThen_def bindE_def split: sum.splits flow.splits)
qed

lemma wf_state_updates [simp]:
  "wf_state (s\<lparr>mem := m\<rparr>) = wf_state s" "wf_state (s\<lparr>os := w\<rparr>) = wf_state s" "wf_state (wr_gpr r v s) = wf_state s"
  by (simp_all add: wf_state_def)

lemma set_dp_wf: "set_dp i v s = Inr s' \<Longrightarrow> wf_state s' = wf_state s"
  by (auto simp: set_dp_def wf_state_def)

lemma top_monitor_wf: "wf_state s \<Longrightarrow> on_ok (\<lambda>r. wf_state (fst r)) (top_monitor G H n reason s rsp)"
  unfolding top_monitor_def Let_def
  by (intro on_ok_bindE_any on_ok_prod on_ok_if on_ok_simps(1) on_ok_simps(2) [THEN iffD2]) simp_all

lemma execMips_sim_wf:
  assumes "wf_state (sim D)" "execMips E d ((sim D)\<lparr>os := w\<rparr>) = Inr ss"
  shows "wf_state ss"
  using execMips_wf [of "(sim D)\<lparr>os := w\<rparr>" E d] assms by simp

lemma monitor_phase_keeps: "on_ok (\<lambda>fl. same_clock D (driver_of fl)) (monitor_phase E P D)"
proof -
  have "on_ok (\<lambda>r. wf_state (rtl D) \<longrightarrow> wf_state (fst r)) (top_monitor G (host E) n reason ((rtl D)\<lparr>os := world D\<rparr>) rsp)" for G n reason rsp
    using top_monitor_wf [of "(rtl D)\<lparr>os := world D\<rparr>" G "host E" n reason rsp] by (cases "wf_state (rtl D)") (auto simp: on_ok_def split: sum.splits)
  then show ?thesis
    by (auto simp: monitor_phase_def same_clock_def driver_ok_def intro!: on_ok_bindE [where Q = "\<lambda>r. wf_state (rtl D) \<longrightarrow> wf_state (fst r)"])
qed

lemma retire_regs_keeps: "on_ok (\<lambda>fl. same_clock D (driver_of fl)) (retire_regs P D)"
  by (auto simp: retire_regs_def Let_def on_ok_def same_clock_def driver_ok_def set_dp_wf split: sum.splits elim!: bindE_InrE)

lemma branch_stats_keeps: "on_ok (\<lambda>fl. same_clock D (driver_of fl)) (branch_stats P D)"
  by (simp add: branch_stats_def same_clock_def driver_ok_def)

lemma compare_states_keeps: "on_ok (\<lambda>fl. same_clock D (driver_of fl)) (compare_states P D)"
  unfolding compare_states_def Let_def
  by (intro on_ok_if on_ok_bindE_any on_ok_simps(2) [THEN iffD2]) (simp_all add: same_clock_def driver_ok_def)

text \<open>A step that does not change the clock, as a rule for \<open>bindE\<close>.\<close>

lemma bindE_keeps:
  assumes "\<And>x. r = Inr x \<Longrightarrow> on_ok (\<lambda>fl. same_clock D (driver_of fl)) (f x)"
  shows "on_ok (\<lambda>fl. same_clock D (driver_of fl)) (bindE r f)"
  using assms by (cases r) auto

lemma check_retired_keeps: "on_ok (\<lambda>fl. same_clock D (driver_of fl)) (check_retired d E opt P D)"
proof -
  have "same_clock D (D\<lparr>sim := ss, world := os ss\<rparr>)"
    if "execMips (env_now E D) d ((sim D)\<lparr>os := world D\<rparr>) = Inr ss" for ss
    using execMips_sim_wf [OF _ that] by (simp add: same_clock_def driver_ok_def)
  then have "on_ok (\<lambda>fl. same_clock D (driver_of fl)) (compare_states P (D\<lparr>sim := ss, world := os ss\<rparr>))"
    if "execMips (env_now E D) d ((sim D)\<lparr>os := world D\<rparr>) = Inr ss" for ss
    using that compare_states_keeps [of "D\<lparr>sim := ss, world := os ss\<rparr>" P]
    by (cases "compare_states P (D\<lparr>sim := ss, world := os ss\<rparr>)") (auto intro: same_clock_trans)
  moreover have "same_clock D (D\<lparr>last_check := n\<rparr>)" for n by (simp add: same_clock_def driver_ok_def)
  ultimately show ?thesis
    unfolding check_retired_def Let_def by (intro on_ok_if bindE_keeps) simp_all
qed

lemma retire_phase_keeps: "on_ok (\<lambda>fl. same_clock D (driver_of fl)) (retire_phase d E opt P D)"
proof -
  have "same_clock D D1" if "count_retired opt P D = Inr D1" for D1
    using that by (auto simp: count_retired_def Let_def same_clock_def driver_ok_def split: if_splits)
  then have "on_ok (\<lambda>fl. same_clock D (driver_of fl)) (check_retired d E opt P D1)" if "count_retired opt P D = Inr D1" for D1
    using that check_retired_keeps [of D1 d E opt P] by (cases "check_retired d E opt P D1") (auto intro: same_clock_trans)
  then show ?thesis by (auto simp: retire_phase_def intro!: bindE_keeps)
qed

lemma retire_two_phase_keeps: "on_ok (\<lambda>fl. same_clock D (driver_of fl)) (retire_two_phase d E opt P D)"
  unfolding retire_two_phase_def Let_def
  by (intro bindE_keeps on_ok_if)
    (auto simp: same_clock_def driver_ok_def set_dp_wf split: if_splits elim!: bindE_InrE intro: execMips_sim_wf)

lemma stop_phase_keeps: "on_ok (\<lambda>fl. same_clock D (driver_of fl)) (stop_phase P D)"
  unfolding stop_phase_def Let_def
  by (intro bindE_keeps on_ok_if on_ok_simps(2) [THEN iffD2]) (simp_all add: same_clock_def driver_ok_def add_at_def)

lemmas phases_keep = monitor_phase_keeps retire_regs_keeps branch_stats_keeps retire_phase_keeps retire_two_phase_keeps
  stop_phase_keeps

text \<open>Everything before the memory phase.\<close>

lemma driver_step_front:
  obtains r where "driver_step d E opt P D = andThen r (mem_phase opt P)"
    and "on_ok (\<lambda>fl. same_clock D (driver_of fl)) r"
  by (rule that, unfold driver_step_def, rule refl) (intro andThen_keeps phases_keep)

lemma mem_reply_frame:
  "on_ok (\<lambda>D'. cyc D' = cyc D \<and> mem_reply_cycle D' = - 1 \<and> mem_rsp_valid (tin D') \<and> last_addr D' = mem_req_addr P
     \<and> (if driver_ok D then driver_ok D' else True)) (mem_reply P D)"
  unfolding mem_reply_def Let_def
  by (intro on_ok_assertE on_ok_bindE [where Q = "\<lambda>D2. cyc D2 = cyc D \<and> mem_reply_cycle D2 = - 1
      \<and> (if driver_ok D then driver_ok D2 else True)"] on_ok_if on_ok_bindE_any on_ok_simps(2) [THEN iffD2])
    (auto simp: driver_ok_def split: if_splits)

subsection \<open>Lines of memory\<close>

text \<open>The four words of an aligned line do not overlap and lie inside the mapping.\<close>

lemma unat_line_ea:
  assumes "addr AND 0xf = 0" "i < 4"
  shows "unat (line_ea addr i) = unat addr mod sz + 4 * i" "unat addr mod sz + 16 \<le> sz"
proof -
  have masks: "(0xf :: u64) = mask 4" "(0xffffffff :: u64) = mask 32" by (simp_all add: mask_eq_exp_minus_1)
  have "unat (addr AND 0xf) = 0" using assms(1) by simp
  then have al: "unat addr mod 16 = 0" by (simp only: masks take_bit_eq_mask [symmetric] unat_take_bit) simp
  have "unat (4 * of_nat i :: u64) = 4 * i"
    using assms(2) by (simp add: unat_word_ariths unsigned_of_nat take_bit_nat_eq_self)
  then have "unat (line_ea addr i) = (unat addr + 4 * i) mod 2 ^ LENGTH(64) mod 2 ^ 32"
    by (simp only: line_ea_def masks take_bit_eq_mask [symmetric] unat_take_bit unat_word_ariths(1))
  also have "\<dots> = (unat addr + 4 * i) mod sz" by (simp add: sz_def mod_mod_cancel)
  finally have ea: "unat (line_ea addr i) = (unat addr + 4 * i) mod sz" .
  obtain q where q: "unat addr = 16 * q" using al by (auto simp: mod_eq_0_iff_dvd)
  have "unat addr mod sz = 16 * (q mod 268435456)" by (simp add: q sz_def mult_mod_right)
  then show le: "unat addr mod sz + 16 \<le> sz" using mod_less_divisor [of 268435456 q] by (simp add: sz_def)
  have "(unat addr + 4 * i) mod sz = (unat addr mod sz + 4 * i) mod sz" by (simp add: mod_add_left_eq)
  also have "\<dots> = unat addr mod sz + 4 * i" using le assms(2) by simp
  finally show "unat (line_ea addr i) = unat addr mod sz + 4 * i" using ea by simp
qed

lemma line_apart:
  assumes "addr AND 0xf = 0" "i < 4" "j < 4" "i \<noteq> j"
  shows "apart 4 (line_ea addr i) (line_ea addr j)"
  using assms by (auto simp: apart_def unat_line_ea)

lemma load_line_eq:
  "load_line m addr = bindE (mem_get m (line_ea addr 0)) (\<lambda>w0. bindE (mem_get m (line_ea addr 1)) (\<lambda>w1.
     bindE (mem_get m (line_ea addr 2)) (\<lambda>w2. bindE (mem_get m (line_ea addr 3)) (\<lambda>w3. Inr [w0, w1, w2, w3]))))"
  by (simp add: load_line_def upt_rec bindE_assoc numeral_2_eq_2 numeral_3_eq_3)

lemma store_line_loaded:
  assumes "addr AND 0xf = 0" "length ws = 4" "store_line m addr ws = Inr m'"
  shows "load_line m' addr = Inr ws"
proof -
  let ?ws = "map (\<lambda>i. (line_ea addr i, ws ! i)) [0..<4]"
  have "foldE (\<lambda>(a, v) m. mem_set m a v) ?ws m = Inr m'"
    using assms(3) unfolding foldE_map by (simp add: store_line_def)
  moreover have "sorted_wrt (\<lambda>x y. apart 4 (fst x) (fst y)) ?ws"
    unfolding sorted_wrt_map using assms(1) by (auto simp: sorted_wrt_iff_nth_less intro!: line_apart)
  moreover have "(line_ea addr i, ws ! i) \<in> set ?ws" if "i < 4" for i using that by auto
  ultimately have rd: "mem_get m' (line_ea addr i) = Inr (ws ! i)" if "i < 4" for i using that by (intro mem32.rd_wr_all_same)
  obtain a b c e where "ws = [a, b, c, e]" using assms(2) by (auto simp: length_Suc_conv numeral_eq_Suc)
  then show ?thesis using rd [of 0] rd [of 1] rd [of 2] rd [of 3] by (simp add: load_line_eq)
qed

text \<open>What an answered request leaves behind.\<close>

definition line_served :: "tb_out \<Rightarrow> 'w driver \<Rightarrow> bool" where
  "line_served P D =
     (if mem_req_opcode P = 4 then load_line (mem (rtl D)) (mem_req_addr P) = Inr (mem_rsp_load_data (tin D))
      else if mem_req_opcode P = 7 \<and> mem_req_addr P AND 0xf = 0 \<and> length (mem_req_store_data P) = 4
      then load_line (mem (rtl D)) (mem_req_addr P) = Inr (mem_req_store_data P) else True)"

lemma mem_reply_serves: "on_ok (line_served P) (mem_reply P D)"
  by (cases "mem_reply P D")
    (auto simp: mem_reply_def Let_def line_served_def intro: store_line_loaded split: if_splits elim!: bindE_InrE)

subsection \<open>Latency of the memory\<close>

text \<open>The body of the loop on a list of outputs of the processor.\<close>

primrec run_cycles :: "nat \<Rightarrow> 'w env \<Rightarrow> options \<Rightarrow> tb_out list \<Rightarrow> 'w driver \<Rightarrow> 'w driver flow result" where
  "run_cycles d E opt [] D = Inr (Go D)"
| "run_cycles d E opt (P # Ps) D = andThen (driver_step d E opt P D) (\<lambda>D'. run_cycles d E opt Ps (end_cycle D'))"

lemma andThen_GoE:
  assumes "andThen r f = Inr (Go D)"
  obtains D1 where "r = Inr (Go D1)" "f D1 = Inr (Go D)"
  using assms by (auto simp: andThen_def split: flow.splits)

lemma end_cycle_simps [simp]:
  "cyc (end_cycle D) = cyc D + 1" "mem_reply_cycle (end_cycle D) = mem_reply_cycle D"
  "mem_rsp_valid (tin (end_cycle D)) = mem_rsp_valid (tin D)" "last_addr (end_cycle D) = last_addr D"
  "driver_ok (end_cycle D) = driver_ok D" "line_served P (end_cycle D) = line_served P D"
  by (simp_all add: end_cycle_def Let_def driver_ok_def line_served_def)

definition pending :: "options \<Rightarrow> u64 \<Rightarrow> 'w driver \<Rightarrow> bool" where
  "pending opt R D \<longleftrightarrow> mem_reply_cycle D = R \<or> mem_reply_cycle D = - 1 \<and> cyc D + mem_lat opt = R"

definition answered :: "tb_out \<Rightarrow> 'w driver \<Rightarrow> bool" where
  "answered P D \<longleftrightarrow> mem_rsp_valid (tin D) \<and> mem_reply_cycle D = - 1 \<and> last_addr D = mem_req_addr P \<and> line_served P D"

lemma mem_reply_answers:
  assumes "mem_reply P D = Inr D'"
  shows "answered P D'" "cyc D' = cyc D" "driver_ok D \<Longrightarrow> driver_ok D'"
  using mem_reply_frame [of D P] mem_reply_serves [of P D] assms by (simp_all add: answered_def)

lemma mem_phase_pending:
  assumes "pending opt R D" "R \<noteq> - 1" "mem_req_valid P" "mem_phase opt P D = Inr (Go D')"
  shows "if cyc D = R then answered P D' else mem_reply_cycle D' = R \<and> \<not> mem_rsp_valid (tin D')"
  using assms
  by (auto simp: mem_phase_def Let_def pending_def dest: mem_reply_answers split: if_splits elim!: bindE_InrE)

lemma mem_phase_keeps:
  assumes "mem_phase opt P D = Inr fl"
  shows "cyc (driver_of fl) = cyc D" "driver_ok D \<Longrightarrow> driver_ok (driver_of fl)"
  using assms
  by (auto simp: mem_phase_def Let_def driver_ok_def [of "D\<lparr>tin := _\<rparr>"] driver_ok_def [of "D\<lparr>tin := _, mem_reply_cycle := _\<rparr>"]
      driver_ok_def [of D] dest: mem_reply_answers(2,3) split: if_splits elim!: bindE_InrE)

lemma driver_step_split:
  assumes "driver_step d E opt P D = Inr fl"
  shows "(\<exists>D1. fl = Stop D1 \<and> same_clock D D1) \<or> (\<exists>D1. same_clock D D1 \<and> mem_phase opt P D1 = Inr fl)"
proof -
  obtain r where r: "driver_step d E opt P D = andThen r (mem_phase opt P)" "on_ok (\<lambda>fl. same_clock D (driver_of fl)) r"
    by (rule driver_step_front)
  from r(2) assms show ?thesis unfolding r(1) by (auto simp: andThen_def split: flow.splits)
qed

lemma mem_phase_Go: "mem_phase opt P D = Inr fl \<Longrightarrow> \<exists>D'. fl = Go D'"
  by (auto simp: mem_phase_def Let_def split: if_splits elim!: bindE_InrE)

lemma driver_step_keeps:
  assumes "driver_step d E opt P D = Inr fl"
  shows "cyc (driver_of fl) = cyc D" "driver_ok D \<Longrightarrow> driver_ok (driver_of fl)"
  using driver_step_split [OF assms] by (auto simp: same_clock_def dest: mem_phase_keeps)

lemma driver_step_pending:
  assumes "pending opt R D" "R \<noteq> - 1" "mem_req_valid P" "driver_step d E opt P D = Inr (Go D')"
  shows "if cyc D = R then answered P D' else mem_reply_cycle D' = R \<and> \<not> mem_rsp_valid (tin D')"
proof -
  obtain D1 where D1: "same_clock D D1" "mem_phase opt P D1 = Inr (Go D')" using driver_step_split [OF assms(4)] by auto
  from D1(1) assms(1) have "pending opt R D1" "cyc D1 = cyc D" by (auto simp: same_clock_def pending_def)
  with mem_phase_pending [OF this(1) assms(2,3) D1(2)] show ?thesis by simp
qed

lemma end_cycle_answered [simp]: "answered P (end_cycle D) = answered P D"
  and end_cycle_pending: "mem_reply_cycle D = R \<Longrightarrow> pending opt R (end_cycle D)"
  by (simp_all add: answered_def pending_def)

lemma unat_inc:
  fixes x y :: u64
  assumes "x < y"
  shows "unat (x + 1) = unat x + 1"
proof -
  have "unat x + 1 \<le> unat y" using assms by (simp add: word_less_nat_alt)
  also have "unat y < 2 ^ LENGTH(64)" by (rule unsigned_less)
  finally have "unat x + 1 < 2 ^ LENGTH(64)" .
  then show ?thesis by (simp add: unat_word_ariths)
qed

lemma run_cycles_answer:
  assumes "pending opt R D" "R \<noteq> - 1" "unat R = unat (cyc D) + k"
    and "\<And>P. P \<in> set Ps \<Longrightarrow> mem_req_valid P" "Ps \<noteq> []" "length Ps \<le> Suc k" "run_cycles d E opt Ps D = Inr (Go D')"
  shows "if length Ps = Suc k then answered (last Ps) D' else \<not> mem_rsp_valid (tin D')"
  using assms
proof (induction Ps arbitrary: D k)
  case (Cons P Ps)
  from Cons.prems(7) obtain D1 where step: "driver_step d E opt P D = Inr (Go D1)"
      and rest: "run_cycles d E opt Ps (end_cycle D1) = Inr (Go D')" by (auto elim!: andThen_GoE)
  have one: "if cyc D = R then answered P D1 else mem_reply_cycle D1 = R \<and> \<not> mem_rsp_valid (tin D1)"
    using Cons.prems(4) [of P] by (intro driver_step_pending [OF Cons.prems(1,2) _ step]) simp
  have R: "cyc D = R \<longleftrightarrow> k = 0" using Cons.prems(3) by (auto simp: word_unat_eq_iff)
  show ?case
  proof (cases "Ps = []")
    case True
    with rest one R show ?thesis by auto
  next
    case False
    with Cons.prems(6) obtain j where k: "k = Suc j" by (cases k) auto
    have cyc: "cyc D1 = cyc D" using driver_step_keeps(1) [OF step] by simp
    have "cyc D < R" using Cons.prems(3) k by (simp add: word_less_nat_alt)
    then have "unat (cyc D + 1) = unat (cyc D) + 1" by (rule unat_inc)
    then have R': "unat R = unat (cyc (end_cycle D1)) + j" using Cons.prems(3) by (simp add: cyc k)
    have "pending opt R (end_cycle D1)" using one R k by (intro end_cycle_pending) simp
    from Cons.IH [OF this Cons.prems(2) R' _ False _ rest] Cons.prems(4,6) False show ?thesis by (simp add: k)
  qed
qed simp

text \<open>
  C23. Every memory request of the processor is answered after exactly the configured latency: when no
  request is under way and the processor holds its request for \<open>mem_lat\<close> further cycles, there is no
  answer in any of the cycles before the last, and in the last the response is valid; a load has
  delivered the four words of the line, and a store to an aligned line is what a load of the line then
  reads.
\<close>

theorem memory_answers_after_latency:
  assumes "mem_reply_cycle D = - 1" "unat (cyc D) + unat (mem_lat opt) < 2 ^ 64 - 1"
    and "\<forall>P \<in> set Ps. mem_req_valid P" "0 < length Ps" "length Ps \<le> Suc (unat (mem_lat opt))"
    and "run_cycles d E opt Ps D = Inr (Go D')"
  shows "if length Ps = Suc (unat (mem_lat opt)) then mem_rsp_valid (tin D') \<and> mem_reply_cycle D' = - 1
           \<and> line_served (last Ps) D' else \<not> mem_rsp_valid (tin D')"
proof -
  have u: "unat (cyc D + mem_lat opt) = unat (cyc D) + unat (mem_lat opt)" using assms(2) by (simp add: unat_word_ariths)
  moreover have "unat (- 1 :: u64) = 2 ^ 64 - 1" by (simp add: unsigned_minus_1_eq_mask mask_eq_exp_minus_1)
  ultimately have "cyc D + mem_lat opt \<noteq> - 1" using assms(2) by (metis less_irrefl)
  with run_cycles_answer [of opt "cyc D + mem_lat opt" D "unat (mem_lat opt)" Ps d E D'] assms u show ?thesis
    by (auto simp: pending_def answered_def split: if_splits)
qed

subsection \<open>The loop ends\<close>

text \<open>
  The co-simulation loop ends: whatever the processor does, the bound on the cycles is enough fuel.
\<close>

theorem cosim_finishes:
  assumes "unat (max_cycle opt) - unat (cyc D) \<le> n"
  shows "\<exists>r. cosim W d E opt n h D = Some r"
  using assms
proof (induction n arbitrary: h D)
  case 0
  then show ?case by (simp add: word_less_nat_alt)
next
  case (Suc n)
  obtain h1 P where hw: "posedge W (tin D) h = (h1, P)" by fastforce
  have "\<exists>r. cosim W d E opt n (negedge W (tin D') h1) (end_cycle D') = Some r"
    if step: "driver_step d E opt P D = Inr (Go D')" and lt: "cyc D < max_cycle opt" for D'
  proof (rule Suc.IH)
    from lt have "unat (cyc D + 1) = unat (cyc D) + 1" by (rule unat_inc)
    then show "unat (max_cycle opt) - unat (cyc (end_cycle D')) \<le> n"
      using driver_step_keeps(1) [OF step] Suc.prems by simp
  qed
  then show ?case by (auto simp: hw split: sum.splits flow.splits)
qed

text \<open>
  Along the whole co-simulation the register files of both states and the occupancy histogram
  keep their sizes.
\<close>

theorem cosim_keeps_sizes:
  assumes "driver_ok D" "cosim W d E opt n h D = Some (Inr D')"
  shows "driver_ok D'"
  using assms
proof (induction n arbitrary: h D)
  case (Suc n)
  obtain h1 P where hw: "posedge W (tin D) h = (h1, P)" by fastforce
  show ?case
    using Suc.prems driver_step_keeps(2) [of d E opt P D] Suc.IH [of "end_cycle _"]
    by (auto simp: hw split: sum.splits flow.splits if_splits)
qed (auto split: if_splits)

definition idle_out :: tb_out where
  "idle_out = (sample_out 0x300)\<lparr>retire_valid := False\<rparr>"

definition sample_hw :: "unit hw" where
  "sample_hw = \<lparr>posedge = \<lambda>_ _. ((), idle_out), negedge = \<lambda>_ _. (), gotFinish = \<lambda>_. False\<rparr>"

definition fast_options :: options where
  "fast_options = sample_options\<lparr>mem_lat := 0, max_cycle := 11\<rparr>"

lemma sample_cycle: "\<exists>D'. driver_step 1 sample_env fast_options idle_out sample_driver = Inr (Go D')"
  by (simp add: idle_out_def sample_out_def sample_driver_def fast_options_def sample_options_def driver_step_def andThen_def
      monitor_phase_def retire_regs_def branch_stats_def retire_phase_def retire_two_phase_def stop_phase_def mem_phase_def
      mem_reply_def load_line_eq line_ea_def mem_get_def sz_def)

theorem memory_answers_after_latency_witness:
  "\<exists>D'. run_cycles 1 sample_env fast_options [idle_out] sample_driver = Inr (Go D')
     \<and> mem_rsp_valid (tin D') \<and> load_line (mem (rtl D')) 0x100 = Inr (mem_rsp_load_data (tin D'))"
proof -
  from sample_cycle obtain D' where D': "run_cycles 1 sample_env fast_options [idle_out] sample_driver = Inr (Go D')"
    by (auto simp: andThen_def)
  have "mem_req_valid idle_out" "mem_req_opcode idle_out = 4" "mem_req_addr idle_out = 0x100" "mem_lat fast_options = 0"
    by (simp_all add: idle_out_def sample_out_def fast_options_def)
  with memory_answers_after_latency [OF _ _ _ _ _ D'] D' show ?thesis by (auto simp: line_served_def)
qed

theorem cosim_finishes_witness: "\<exists>r. cosim sample_hw 1 sample_env sample_options 990 () sample_driver = Some r"
  by (rule cosim_finishes) (simp add: sample_options_def)

theorem cosim_keeps_sizes_witness:
  "\<exists>D'. cosim sample_hw 1 sample_env fast_options 1 () sample_driver = Some (Inr D') \<and> cyc D' = 11 \<and> driver_ok D'"
proof -
  from sample_cycle obtain D1 where D1: "driver_step 1 sample_env fast_options idle_out sample_driver = Inr (Go D1)" ..
  have o: "max_cycle fast_options = 11" "max_icnt fast_options = 1000" "insns_retired sample_driver = 0"
    by (simp_all add: fast_options_def sample_options_def sample_driver_def)
  have cyc: "cyc D1 = 10" using driver_step_keeps(1) [OF D1] by simp
  have c: "cosim sample_hw 1 sample_env fast_options 1 () sample_driver = Some (Inr (end_cycle D1))"
    using D1 by (simp add: sample_hw_def o cyc)
  have "driver_ok sample_driver" by (simp add: driver_ok_def) (simp add: sample_driver_def)
  from cosim_keeps_sizes [OF this c] c cyc show ?thesis by auto
qed

theorem monitor_calls_agree_witness:
  "returns (\<lambda>(s2, rsp). mem s2 = mem (sample_prog 0x300) \<and> ucast rsp = (7 :: u32))
     (top_monitor ((globs sample_env)\<lparr>cycle := 7\<rparr>) (host sample_env) 0 50 (sample_prog 0x300) 0)
   \<and> returns (\<lambda>(s2, rsp). mem s2 0x1001 = 0 \<and> ucast rsp = (0 :: u32))
     (top_monitor ((globs sample_env)\<lparr>cycle := 7\<rparr>) (host sample_env) 0 33 (sample_prog 0x300) 0)
   \<and> top_monitor ((globs sample_env)\<lparr>cycle := 7\<rparr>) (host sample_env) 0 37 (sample_prog 0x300) 0 = Inl (Exit (-1))"
proof -
  let ?G = "(globs sample_env)\<lparr>cycle := 7\<rparr>" and ?s = "sample_prog 0x300"
  note agree = monitor_calls_agree [of ?s _ ?G "host sample_env" 0]
  have wf: "wf_state ?s" by simp
  then have n: "R_v0 < length (gpr ?s)" "gpr ?s ! R_a0 = 0x1001"
    by (simp_all add: wf_state_def R_v0_def R_a0_def sample_prog_def sample_state_def state_t_new_def)
  have c: "monitor_call False ?G (host sample_env) 50 ?s = Inr (wr_gpr R_v0 7 ?s)" by (simp add: monitor_call_def)
  define m where "m = store_le 4 (mem ?s) 0x1001 (0 :: u32)"
  have m: "mem_set (mem ?s) 0x1001 (0 :: u32) = Inr m" by (simp add: mem_set_def sz_def m_def)
  then have m0: "m 0x1001 = 0" by (auto simp: mem_set_def store_le_byte sz_def)
  define m' where "m' = store_le 4 m 0x1005 (0 :: u32)"
  have m': "mem_set m 0x1005 (0 :: u32) = Inr m'" by (simp add: mem_set_def sz_def m'_def)
  then have m'0: "m' 0x1001 = 0" using m0 by (auto simp: mem_set_def store_le_byte sz_def)
  have d: "monitor_call False ?G (host sample_env) 33 ?s = Inr (wr_gpr R_v0 0 (?s\<lparr>mem := m'\<rparr>))"
    by (simp add: monitor_call_def mon_gettimeofday_def n m m')
  show ?thesis
  proof (intro conjI)
    show "returns (\<lambda>(s2, rsp). mem s2 = mem ?s \<and> ucast rsp = (7 :: u32)) (top_monitor ?G (host sample_env) 0 50 ?s 0)"
      using agree [OF wf, of 50] c n(1) by (auto elim!: returns_mono)
    show "returns (\<lambda>(s2, rsp). mem s2 0x1001 = 0 \<and> ucast rsp = (0 :: u32)) (top_monitor ?G (host sample_env) 0 33 ?s 0)"
      using agree [OF wf, of 33] d n(1) m'0 by (auto elim!: returns_mono)
    show "top_monitor ?G (host sample_env) 0 37 ?s 0 = Inl (Exit (-1))"
      using agree [OF wf, of 37] by simp
  qed
qed

end
