(* ===== verification/Linux_Syscall.thy ===== *)
theory Linux_Syscall
  imports Monitor
begin

text \<open>
  \<open>src/linux_o32_syscall.cc\<close> and \<open>src/linux_monitor.hh\<close>: the system calls of a Linux guest (o32
  calling convention), which replace the monitor calls when \<open>LINUX_SYSCALL_EMULATION\<close> is set.

  The host's calls are the record \<open>linux_host\<close>, a parameter that extends \<open>host_os\<close>.  The widths of
  the fields of \<open>struct stat\<close> are those of Linux on a 64 bit machine, and the six fields of
  \<open>struct new_utsname\<close> have 65 bytes each.  \<open>s->mem[x]\<close> converts a signed register to a 64 bit
  offset, so an address from $2^{31}$ on is outside the mapping.
\<close>

subsection \<open>The host\<close>

record host_stat =
  st_dev :: u64
  st_ino :: u64
  st_mode :: u32
  st_nlink :: u64
  st_uid :: u32
  st_gid :: u32
  st_rdev :: u64
  st_size :: u64
  st_atime :: u64
  st_blksize :: u64
  st_blocks :: u64

record utsname =
  sysname :: "u8 list"
  nodename :: "u8 list"
  release :: "u8 list"
  version :: "u8 list"
  machine :: "u8 list"
  domainname :: "u8 list"

record 'w linux_host = "'w host_os" +
  os_readlink :: "u8 list \<Rightarrow> u64 \<Rightarrow> 'w \<Rightarrow> u8 list \<times> u32 \<times> 'w"
  os_uname :: "'w \<Rightarrow> utsname option"
  os_writev :: "u32 \<Rightarrow> u8 list list \<Rightarrow> u32 \<Rightarrow> 'w \<Rightarrow> u32 \<times> 'w"
  os_fstat :: "u32 \<Rightarrow> 'w \<Rightarrow> host_stat option \<times> u32"
  os_openat :: "u32 \<Rightarrow> u8 list \<Rightarrow> u32 \<Rightarrow> u32 \<Rightarrow> 'w \<Rightarrow> u32 \<times> 'w"

subsection \<open>Structures in guest memory\<close>

definition mem_at :: "u32 \<Rightarrow> nat" where
  "mem_at x = unat (scast x :: u64)"

text \<open>A word of a structure, at its offset in the mapping.\<close>

definition load_field :: "memory \<Rightarrow> nat \<Rightarrow> u32 result" where
  "load_field m a = bindE (load_bytes m a 4) (\<lambda>bs. Inr (of_le bs))"

definition store_field :: "memory \<Rightarrow> nat \<Rightarrow> u32 \<Rightarrow> memory result" where
  "store_field m a v = store_bytes m a (to_le 4 v)"

definition utsname_size :: nat where "utsname_size = 390"

text \<open>\<open>COPY_UTSNAME_FIELD\<close>: the field with its last byte replaced by a zero.\<close>

definition uts_field :: "u8 list \<Rightarrow> u8 list" where
  "uts_field src = take 64 (src @ replicate 64 0) @ [0]"

definition sys_uname :: "'w linux_host \<Rightarrow> nat \<Rightarrow> 'w \<Rightarrow> memory \<Rightarrow> memory result" where
  "sys_uname H a w m =
     (case os_uname H w of
        None \<Rightarrow> Inr m
      | Some u \<Rightarrow>
          bindE (store_bytes m a (replicate utsname_size 0)) (\<lambda>m1.
          foldE (\<lambda>(off, f) m. store_bytes m (a + off) (uts_field f))
            [(0, sysname u), (65, nodename u), (130, release u), (195, version u), (260, machine u), (325, domainname u)] m1))"

definition target_stat_words :: "host_stat \<Rightarrow> (nat \<times> u32) list" where
  "target_stat_words st =
     [(0, ucast (bswap False (st_dev st))), (16, ucast (bswap False (st_ino st))), (20, bswap False (st_mode st)),
      (24, ucast (bswap False (st_nlink st))), (28, bswap False (st_uid st)), (32, bswap False (st_gid st)),
      (36, ucast (bswap False (st_rdev st))), (48, ucast (bswap False (st_size st)))]"

definition copy_to_target_stat :: "host_stat \<Rightarrow> nat \<Rightarrow> memory \<Rightarrow> memory result" where
  "copy_to_target_stat st a m = foldE (\<lambda>(off, v) m. store_field m (a + off) v) (target_stat_words st) m"

subsection \<open>The calls\<close>

text \<open>\<open>s->gpr[R_v0] = v; s->gpr[R_a3] = 0\<close>.\<close>

definition sys_ret :: "u32 \<Rightarrow> 'w state_t \<Rightarrow> 'w state_t" where
  "sys_ret v s = wr_gpr R_a3 0 (wr_gpr R_v0 v s)"

definition sys_read :: "'w linux_host \<Rightarrow> 'w state_t \<Rightarrow> 'w state_t result" where
  "sys_read H s =
     (case os_read H (gpr s ! R_a0) (scast (gpr s ! R_a2)) (os s) of (bs, rc, w) \<Rightarrow>
        bindE (store_bytes (mem s) (mem_at (gpr s ! R_a1)) bs) (\<lambda>m. Inr (sys_ret rc (s\<lparr>mem := m, os := w\<rparr>))))"

definition sys_write :: "'w linux_host \<Rightarrow> 'w state_t \<Rightarrow> 'w state_t result" where
  "sys_write H s =
     bindE (load_bytes (mem s) (mem_at (gpr s ! R_a1)) (unat (scast (gpr s ! R_a2) :: u64))) (\<lambda>bs.
     case os_write H (gpr s ! R_a0) bs (os s) of (rc, w) \<Rightarrow> Inr (sys_ret rc (s\<lparr>os := w\<rparr>)))"

definition sys_close :: "'w linux_host \<Rightarrow> 'w state_t \<Rightarrow> 'w state_t result" where
  "sys_close H s = (case os_close H (gpr s ! R_a0) (os s) of (rc, w) \<Rightarrow> Inr (sys_ret rc (s\<lparr>os := w\<rparr>)))"

definition sys_brk :: "'w state_t \<Rightarrow> 'w state_t result" where
  "sys_brk s =
     (let a0 = gpr s ! R_a0; im = linux_image s
      in if a0 = 0 then Inr (wr_gpr R_v0 (target_brk im) s)
         else if a0 < target_original_brk im then Inr (wr_gpr R_v0 (target_brk im) s)
         else if a0 \<le> brk_page im then Inl Abort
         else
           bindE (roundToPgSz (a0 - brk_page im) (image_pgsz im)) (\<lambda>allocsz.
           bindE (roundToPgSz (brk_page im) (image_pgsz im)) (\<lambda>bp.
           Inr (sys_ret a0 (s\<lparr>mem := prefault (mem s) (ucast (brk_page im)) (ucast allocsz),
                             linux_image := im\<lparr>target_brk := a0, brk_page := bp\<rparr>\<rparr>)))))"

definition sys_readlink :: "'w linux_host \<Rightarrow> 'w state_t \<Rightarrow> 'w state_t result" where
  "sys_readlink H s =
     bindE (c_string (mem s) (mem_at (gpr s ! R_a0))) (\<lambda>path.
     case os_readlink H path (scast (gpr s ! R_a2)) (os s) of (bs, rc, w) \<Rightarrow>
       bindE (store_bytes (mem s) (mem_at (gpr s ! R_a1)) bs) (\<lambda>m. Inr (sys_ret rc (s\<lparr>mem := m, os := w\<rparr>))))"

definition sys_uname_call :: "'w linux_host \<Rightarrow> 'w state_t \<Rightarrow> 'w state_t result" where
  "sys_uname_call H s =
     (let a0 = gpr s ! R_a0;
          start_page = (word_of_int (sint a0 sdiv 4096) :: u64);
          end_page = (scast a0 + of_nat utsname_size) div (4096 :: u64)
      in assertE (start_page = end_page)
        (bindE (sys_uname H (mem_at a0) (os s) (mem s)) (\<lambda>m.
         bindE (store_bytes m (mem_at a0 + 260) ([0x6d, 0x69, 0x70, 0x73] @ replicate 61 0)) (\<lambda>m1.
         Inr (sys_ret 0 (s\<lparr>mem := m1\<rparr>))))))"

text \<open>One vector is built on the stack, whatever the number of vectors the guest passes.\<close>

definition sys_writev :: "'w linux_host \<Rightarrow> 'w state_t \<Rightarrow> 'w state_t result" where
  "sys_writev H s =
     (let a1 = gpr s ! R_a1; a2 = gpr s ! R_a2
      in bindE (load_field (mem s) (mem_at a1)) (\<lambda>p.
         definedE (a1 \<le>s a1 + 4)
           (bindE (load_field (mem s) (mem_at (a1 + 4))) (\<lambda>l.
            let ptr = builtin_bswap p; len = builtin_bswap l
            in definedE (sint a2 \<le> 1)
              (bindE (if sint a2 = 1 then bindE (load_bytes (mem s) (unat ptr) (unat len)) (\<lambda>b. Inr [b]) else Inr []) (\<lambda>vs.
               case os_writev H (gpr s ! R_a0) vs a2 (os s) of (rc, w) \<Rightarrow> Inr (sys_ret rc (s\<lparr>os := w\<rparr>))))))))"

text \<open>When the call of the host fails the structure that is copied is not initialised.\<close>

definition sys_fstat64 :: "'w linux_host \<Rightarrow> 'w state_t \<Rightarrow> 'w state_t result" where
  "sys_fstat64 H s =
     (case os_fstat H (gpr s ! R_a0) (os s) of (st, rc) \<Rightarrow>
       (case st of
          None \<Rightarrow> Inl Undefined
        | Some st \<Rightarrow>
            bindE (copy_to_target_stat st (mem_at (gpr s ! R_a1)) (mem s)) (\<lambda>m. Inr (sys_ret rc (s\<lparr>mem := m\<rparr>)))))"

definition sys_set_thread_area :: "'w state_t \<Rightarrow> 'w state_t" where
  "sys_set_thread_area s = sys_ret 0 (s\<lparr>cpr0 := (cpr0 s)[29 := gpr s ! R_a0]\<rparr>)"

definition sys_openat :: "'w linux_host \<Rightarrow> 'w state_t \<Rightarrow> 'w state_t result" where
  "sys_openat H s =
     bindE (c_string (mem s) (mem_at (gpr s ! R_a1))) (\<lambda>path.
     case os_openat H (gpr s ! R_a0) path (gpr s ! R_a2) (gpr s ! R_a3) (os s) of (rc, w) \<Rightarrow>
       Inr (sys_ret rc (s\<lparr>os := w\<rparr>)))"

definition linux_o32_syscall :: "'w linux_host \<Rightarrow> 'w state_t \<Rightarrow> 'w state_t result" where
  "linux_o32_syscall H s =
     (let id = gpr s ! R_v0 - 4000
      in if id = 3 then sys_read H s
         else if id = 4 then sys_write H s
         else if id = 6 then sys_close H s
         else if id = 45 then sys_brk s
         else if id = 85 then sys_readlink H s
         else if id = 122 then sys_uname_call H s
         else if id = 146 then sys_writev H s
         else if id = 215 then sys_fstat64 H s
         else if id = 225 then Inl Abort
         else if id = 246 then Inr (s\<lparr>brk := 1\<rparr>)
         else if id = 283 then Inr (sys_set_thread_area s)
         else if id = 288 then sys_openat H s
         else Inl Abort)"

text \<open>The driver's side: the state and the answer to the processor, when there is a request.\<close>

definition emulate_linux_syscall :: "'w linux_host \<Rightarrow> bool \<Rightarrow> 'w state_t \<Rightarrow> (('w state_t \<times> u64) option) result" where
  "emulate_linux_syscall H monitor_req_valid s =
     (if \<not> monitor_req_valid then Inr None
      else
        (let is_set_thread_area = (gpr s ! R_v0 = 4283)
         in bindE (linux_o32_syscall H s) (\<lambda>s1.
            let rsp = (if is_set_thread_area then ucast (cpr0 s1 ! 29) else scast (gpr s1 ! R_v0))
            in Inr (Some (wr_gpr R_a3 0 s1, rsp)))))"

subsection \<open>Frames\<close>

text \<open>
  What a system call keeps: the sizes of the register files, the program counter, the counters, the
  floating point state, and all registers but \<open>v0\<close> and \<open>a3\<close> (and register 29 of coprocessor 0).
\<close>

definition syscall_frame :: "'w state_t \<Rightarrow> 'w state_t \<Rightarrow> bool" where
  "syscall_frame s s' \<longleftrightarrow> wf_state s' \<and> pc s' = pc s \<and> icnt s' = icnt s \<and> lo s' = lo s \<and> hi s' = hi s \<and>
     (\<forall>r. r \<noteq> R_v0 \<and> r \<noteq> R_a3 \<longrightarrow> gpr s' ! r = gpr s ! r) \<and> (\<forall>r. r \<noteq> 29 \<longrightarrow> cpr0 s' ! r = cpr0 s ! r) \<and>
     cpr1 s' = cpr1 s \<and> fcr1 s' = fcr1 s"

lemma syscall_frame_updates:
  assumes "wf_state s"
  shows "syscall_frame s (sys_ret v (s\<lparr>mem := m, os := w\<rparr>))" "syscall_frame s (sys_ret v (s\<lparr>mem := m\<rparr>))"
    "syscall_frame s (sys_ret v (s\<lparr>os := w\<rparr>))" "syscall_frame s (wr_gpr R_v0 v s)"
    "syscall_frame s (sys_ret v (s\<lparr>mem := m, linux_image := i\<rparr>))" "syscall_frame s (s\<lparr>brk := b\<rparr>)"
    "syscall_frame s (sys_set_thread_area s)"
  using assms by (auto simp: syscall_frame_def sys_ret_def sys_set_thread_area_def wf_state_def)

lemmas syscall_defs = sys_read_def sys_write_def sys_close_def sys_brk_def sys_readlink_def sys_uname_call_def
  sys_writev_def sys_openat_def

lemma syscalls_frame:
  assumes "wf_state s"
  shows "on_ok (syscall_frame s) (sys_read H s)" "on_ok (syscall_frame s) (sys_write H s)"
    "on_ok (syscall_frame s) (sys_close H s)" "on_ok (syscall_frame s) (sys_brk s)"
    "on_ok (syscall_frame s) (sys_readlink H s)" "on_ok (syscall_frame s) (sys_uname_call H s)"
    "on_ok (syscall_frame s) (sys_writev H s)" "on_ok (syscall_frame s) (sys_openat H s)"
  unfolding syscall_defs Let_def
  by (intro on_ok_bindE_any on_ok_prod on_ok_if on_ok_assertE on_ok_definedE on_ok_simps(1) on_ok_simps(2) [THEN iffD2]
      syscall_frame_updates [OF assms])+

lemma fstat64_frame:
  assumes "wf_state s"
  shows "on_ok (syscall_frame s) (sys_fstat64 H s)"
  unfolding sys_fstat64_def
  by (auto split: prod.split option.split intro!: on_ok_bindE_any syscall_frame_updates [OF assms])

lemma linux_o32_syscall_frame: "wf_state s \<Longrightarrow> on_ok (syscall_frame s) (linux_o32_syscall H s)"
  unfolding linux_o32_syscall_def Let_def
  by (intro on_ok_if syscalls_frame fstat64_frame on_ok_simps(1) on_ok_simps(2) [THEN iffD2] syscall_frame_updates)

lemma clear_a3:
  assumes "syscall_frame s s1"
  shows "syscall_frame s (wr_gpr R_a3 0 s1)" "(gpr s1)[R_a3 := 0] ! R_a3 = 0" "(gpr s1)[R_a3 := 0] ! R_v0 = gpr s1 ! R_v0"
  using assms by (auto simp: syscall_frame_def wf_state_def R_a3_def R_v0_def)

subsection \<open>Fields\<close>

lemma unat_of_nat_in_sz: "a < sz \<Longrightarrow> unat (of_nat a :: u32) = a"
  by (simp add: unsigned_of_nat take_bit_nat_eq_self sz_def)

lemma load_store_bytes:
  assumes "store_bytes m a bs = Inr m'"
  shows "load_bytes m' a (length bs) = Inr bs"
proof -
  have le: "a + length bs \<le> sz"
    and m': "m' = (\<lambda>b. if a \<le> unat b \<and> unat b < a + length bs then bs ! (unat b - a) else m b)"
    using assms by (simp_all add: store_bytes_def)
  have "m' (of_nat (a + i)) = bs ! i" if "i < length bs" for i
    using that le unat_of_nat_in_sz [of "a + i"] by (simp add: m' del: of_nat_add)
  with le show ?thesis by (auto simp: load_bytes_def intro: nth_equalityI)
qed

lemma load_store_bytes_apart:
  assumes "store_bytes m a bs = Inr m'" "a + length bs \<le> b \<or> b + n \<le> a"
  shows "load_bytes m' b n = load_bytes m b n"
proof (cases "b + n \<le> sz")
  case True
  have m': "m' = (\<lambda>b. if a \<le> unat b \<and> unat b < a + length bs then bs ! (unat b - a) else m b)"
    using assms(1) by (simp add: store_bytes_def)
  have "m' (of_nat (b + i)) = m (of_nat (b + i))" if "i < n" for i
    using that True assms(2) unat_of_nat_in_sz [of "b + i"] by (auto simp: m' simp del: of_nat_add)
  with True show ?thesis by (auto simp: load_bytes_def)
qed (simp add: load_bytes_def)

interpretation fields: word_store load_field store_field "\<lambda>a. a + 4 \<le> sz" "\<lambda>a b. a + 4 \<le> b \<or> b + 4 \<le> a"
proof
  fix m m' :: memory and a b :: nat and v :: u32
  show "a + 4 \<le> sz \<Longrightarrow> \<exists>v. load_field m a = Inr v" by (simp add: load_field_def load_bytes_def)
  show "a + 4 \<le> sz \<Longrightarrow> \<exists>m'. store_field m a v = Inr m'" by (simp add: store_field_def store_bytes_def)
  show "store_field m a v = Inr m' \<Longrightarrow> load_field m' a = Inr v"
    using load_store_bytes [of m a "to_le 4 v" m'] by (simp add: store_field_def load_field_def)
  show "store_field m a v = Inr m' \<Longrightarrow> a + 4 \<le> b \<or> b + 4 \<le> a \<Longrightarrow> load_field m' b = load_field m b"
    using load_store_bytes_apart [of m a "to_le 4 v" m' b 4] by (simp add: store_field_def load_field_def)
qed auto

lemma high_half_of_bswap: "ucast (builtin_bswap x) = builtin_bswap (ucast (drop_bit 32 x) :: u32)" for x :: u64
proof (rule bit_word_eqI)
  fix k
  assume "k < LENGTH(32)"
  then have k: "k < 32" "k div 8 < 4" by simp_all
  then have "8 * (8 - 1 - k div 8) + k mod 8 = 32 + (8 * (4 - 1 - k div 8) + k mod 8)" by simp
  moreover have "8 * (4 - 1 - k div 8) + k mod 8 < 32" using k by simp
  moreover have "bit (builtin_bswap x) k \<longleftrightarrow> bit x (8 * (8 - 1 - k div 8) + k mod 8)"
    using bit_builtin_bswap [of 8 x k] k(1) by simp
  moreover have "bit (builtin_bswap y) k \<longleftrightarrow> bit y (8 * (4 - 1 - k div 8) + k mod 8)" for y :: u32
    using bit_builtin_bswap [of 4 y k] k(1) by simp
  ultimately show "bit (ucast (builtin_bswap x) :: u32) k = bit (builtin_bswap (ucast (drop_bit 32 x) :: u32)) k"
    using k by (simp only: bit_unsigned_iff bit_drop_bit_eq) (simp add: bit_simps)
qed

lemma target_stat_apart:
  "sorted_wrt (\<lambda>x y. fst x + 4 \<le> fst y \<or> fst y + 4 \<le> fst x) (map (\<lambda>(off, v). (a + off, v)) (target_stat_words st))"
  by (simp add: target_stat_words_def)

lemma copy_to_target_stat_fields:
  assumes "a + 52 \<le> sz"
  shows "\<exists>m'. copy_to_target_stat st a m = Inr m' \<and> (\<forall>(off, v) \<in> set (target_stat_words st). load_field m' (a + off) = Inr v)"
proof -
  let ?ws = "map (\<lambda>(off, v). (a + off, v)) (target_stat_words st)"
  have c: "copy_to_target_stat st a m = foldE (\<lambda>(a, v) m. store_field m a v) ?ws m"
    unfolding copy_to_target_stat_def foldE_map by (rule foldE_cong) (auto split: prod.splits)
  have "\<forall>(b, v) \<in> set ?ws. b + 4 \<le> sz" using assms by (simp add: target_stat_words_def)
  then obtain m' where m': "foldE (\<lambda>(a, v) m. store_field m a v) ?ws m = Inr m'" using fields.wr_all_ok by blast
  have "load_field m' (a + off) = Inr v" if "(off, v) \<in> set (target_stat_words st)" for off v
    by (rule fields.rd_wr_all_same [OF m' target_stat_apart]) (use that in force)
  with m' c show ?thesis by auto
qed

subsection \<open>Properties of the system calls\<close>

text \<open>
  A system call of the guest changes nothing but \<open>v0\<close>, \<open>a3\<close>, register 29 of coprocessor 0, the
  memory and the host: the program counter, every other register and the counters stay, and the answer
  to the processor is \<open>v0\<close>, or the thread area when that is what the guest sets.
\<close>

theorem emulate_linux_syscall_frame:
  assumes "wf_state s"
  shows "on_ok (\<lambda>r. case r of
        None \<Rightarrow> \<not> req
      | Some (s', rsp) \<Rightarrow> req \<and> syscall_frame s s' \<and> gpr s' ! R_a3 = 0
          \<and> rsp = (if gpr s ! R_v0 = 4283 then ucast (cpr0 s' ! 29) else scast (gpr s' ! R_v0)))
    (emulate_linux_syscall H req s)"
proof (cases req)
  case True
  with linux_o32_syscall_frame [OF assms, of H] show ?thesis
    by (auto simp: emulate_linux_syscall_def Let_def clear_a3 intro!: on_ok_bindE [where Q = "syscall_frame s"])
qed (simp add: emulate_linux_syscall_def)

text \<open>
  C37. The file status the guest gets: mode, user and group are the host's, but of each of the 64 bit fields
  (device, inode, number of links, special device, size) the guest reads the upper half, because the
  swapped 64 bit value is truncated: a file below 4 GB has size 0.
\<close>

theorem fstat64_reports_upper_half:
  assumes "wf_state s" "os_fstat H (gpr s ! R_a0) (os s) = (Some st, rc)" "mem_at (gpr s ! R_a1) + 52 \<le> sz"
  defines "field \<equiv> \<lambda>s' off. load_field (mem s') (mem_at (gpr s ! R_a1) + off)"
    and "upper \<equiv> \<lambda>v :: u64. builtin_bswap (ucast (drop_bit 32 v) :: u32)"
  shows "returns (\<lambda>s'. gpr s' ! R_v0 = rc
      \<and> field s' 20 = Inr (builtin_bswap (st_mode st)) \<and> field s' 28 = Inr (builtin_bswap (st_uid st))
      \<and> field s' 32 = Inr (builtin_bswap (st_gid st))
      \<and> field s' 0 = Inr (upper (st_dev st)) \<and> field s' 16 = Inr (upper (st_ino st)) \<and> field s' 24 = Inr (upper (st_nlink st))
      \<and> field s' 36 = Inr (upper (st_rdev st)) \<and> field s' 48 = Inr (upper (st_size st)))
    (sys_fstat64 H s)"
proof -
  obtain m' where m': "copy_to_target_stat st (mem_at (gpr s ! R_a1)) (mem s) = Inr m'"
      "\<forall>(off, v) \<in> set (target_stat_words st). load_field m' (mem_at (gpr s ! R_a1) + off) = Inr v"
    using copy_to_target_stat_fields [OF assms(3)] by blast
  from m'(2) have "load_field m' (mem_at (gpr s ! R_a1) + 20) = Inr (builtin_bswap (st_mode st))"
    "load_field m' (mem_at (gpr s ! R_a1) + 28) = Inr (builtin_bswap (st_uid st))"
    "load_field m' (mem_at (gpr s ! R_a1) + 32) = Inr (builtin_bswap (st_gid st))"
    "load_field m' (mem_at (gpr s ! R_a1) + 0) = Inr (upper (st_dev st))"
    "load_field m' (mem_at (gpr s ! R_a1) + 16) = Inr (upper (st_ino st))"
    "load_field m' (mem_at (gpr s ! R_a1) + 24) = Inr (upper (st_nlink st))"
    "load_field m' (mem_at (gpr s ! R_a1) + 36) = Inr (upper (st_rdev st))"
    "load_field m' (mem_at (gpr s ! R_a1) + 48) = Inr (upper (st_size st))"
    by (simp_all add: target_stat_words_def bswap_def high_half_of_bswap upper_def)
  with m'(1) assms(1,2) show ?thesis
    by (simp add: sys_fstat64_def sys_ret_def wf_state_def R_v0_def R_a3_def field_def)
qed

text \<open>
  C36. The break: the call answers with the break that holds afterwards, which is the requested one
  unless the request is zero or below the original break, and it never goes below the original
  break; a request between the original break and the allocated page aborts the simulator.
\<close>

theorem sys_brk_outcome:
  assumes "wf_state s" "image_pgsz (linux_image s) \<noteq> 0" "target_original_brk (linux_image s) \<le> target_brk (linux_image s)"
  defines "a0 \<equiv> gpr s ! R_a0" and "im \<equiv> linux_image s"
  shows "if a0 = 0 \<or> a0 < target_original_brk im \<or> brk_page im < a0
    then returns (\<lambda>s'. gpr s' ! R_v0 = target_brk (linux_image s')
        \<and> target_brk (linux_image s') = (if a0 = 0 \<or> a0 < target_original_brk im then target_brk im else a0)
        \<and> target_original_brk (linux_image s') = target_original_brk im
        \<and> target_original_brk im \<le> target_brk (linux_image s')) (sys_brk s)
    else sys_brk s = Inl Abort"
  using assms(1-3) unfolding a0_def im_def
  by (auto simp: sys_brk_def Let_def roundToPgSz_def sys_ret_def wf_state_def R_v0_def R_a3_def not_less not_le)

definition sample_stat :: host_stat where
  "sample_stat = \<lparr>st_dev = 1, st_ino = 2, st_mode = 0x81a4, st_nlink = 1, st_uid = 0, st_gid = 0, st_rdev = 0, st_size = 4096,
     st_atime = 0, st_blksize = 4096, st_blocks = 8\<rparr>"

definition sample_linux :: "unit linux_host" where
  "sample_linux =
     \<lparr>os_open = \<lambda>_ _ w. (3, w), os_read = \<lambda>_ _ w. ([], 0, w), os_write = \<lambda>_ _ w. (0, w), os_lseek = \<lambda>_ _ _ w. (0, w),
      os_close = \<lambda>_ w. (0, w), os_getcwd = \<lambda>_ w. ([], w), os_chdir = \<lambda>_ w. (0, w), os_stdin_file = \<lambda>_. None,
      os_readlink = \<lambda>_ _ w. ([], - 1, w), os_uname = \<lambda>_. None, os_writev = \<lambda>_ _ _ w. (0, w),
      os_fstat = \<lambda>_ _. (Some sample_stat, 0), os_openat = \<lambda>_ _ _ _ w. (3, w)\<rparr>"

definition sample_guest :: "u32 \<Rightarrow> u32 \<Rightarrow> unit state_t" where
  "sample_guest v0 a0 =
     (state_t_new sparse_mem_new ())\<lparr>gpr := (replicate 32 0)[R_v0 := v0, R_a0 := a0, R_a1 := 0x1000],
        linux_image := image_info32_zero\<lparr>image_pgsz := 4096, target_brk := 0x20000, target_original_brk := 0x10000, brk_page := 0x20000\<rparr>\<rparr>"

lemma sample_guest_simps [simp]:
  "wf_state (sample_guest v a)" "gpr (sample_guest v a) ! R_v0 = v" "gpr (sample_guest v a) ! R_a0 = a" "gpr (sample_guest v a) ! R_a1 = 0x1000"
  by (simp_all add: sample_guest_def state_t_new_def wf_state_def R_v0_def R_a0_def R_a1_def)

theorem emulate_linux_syscall_frame_witness:
  "on_ok (\<lambda>r. case r of None \<Rightarrow> False | Some (s', rsp) \<Rightarrow> syscall_frame (sample_guest 4006 5) s' \<and> rsp = scast (gpr s' ! R_v0))
     (emulate_linux_syscall sample_linux True (sample_guest 4006 5))"
  using emulate_linux_syscall_frame [of "sample_guest 4006 5" True sample_linux]
  by (auto simp: on_ok_def split: sum.splits option.splits)

theorem fstat64_reports_upper_half_witness:
  "returns (\<lambda>s'. load_field (mem s') 0x1030 = Inr 0) (sys_fstat64 sample_linux (sample_guest 4215 5))"
proof -
  have m: "mem_at 0x1000 = 0x1000" by (simp add: mem_at_def)
  have "builtin_bswap (0 :: u32) = 0" by (simp add: builtin_bswap_def upt_rec)
  with fstat64_reports_upper_half [of "sample_guest 4215 5" sample_linux sample_stat 0] show ?thesis
    by (auto simp: m sz_def sample_linux_def sample_stat_def returns_iff)
qed

theorem sys_brk_outcome_witness:
  "returns (\<lambda>s'. gpr s' ! R_v0 = 0x24000) (sys_brk (sample_guest 4045 0x24000)) \<and> sys_brk (sample_guest 4045 0x18000) = Inl Abort"
proof -
  have im: "linux_image (sample_guest v a) = image_info32_zero\<lparr>image_pgsz := 4096, target_brk := 0x20000,
      target_original_brk := 0x10000, brk_page := 0x20000\<rparr>" for v a by (simp add: sample_guest_def)
  have "returns (\<lambda>s'. gpr s' ! R_v0 = 0x24000) (sys_brk (sample_guest 4045 0x24000))"
    using sys_brk_outcome [of "sample_guest 4045 0x24000"] by (auto simp: im image_info32_zero_def returns_iff)
  moreover have "sys_brk (sample_guest 4045 0x18000) = Inl Abort"
    using sys_brk_outcome [of "sample_guest 4045 0x18000"] by (simp add: im image_info32_zero_def)
  ultimately show ?thesis ..
qed

end
