(* ===== verification/Interp64.thy ===== *)
theory Interp64
  imports Interp Linux_Syscall
begin

text \<open>
  \<open>src/interpret64.cc\<close>: the interpreter over 64 bit registers (\<open>state64_t\<close> of
  \<open>src/interpret.hh\<close>).  It has the structure of \<open>src/interpret.cc\<close> without the instruction
  histogram; the fields carry the suffix \<open>64\<close>.  \<open>linux_image\<close> and \<open>maxicnt\<close> are not used by any
  operation and are left out.

  A register is an \<open>int64_t\<close>.  Converting an \<open>int32_t\<close> to it is \<open>scast\<close> (\<open>u32toi64\<close>), a \<open>uint32_t\<close>
  \<open>ucast\<close>; the conversion of a register to 32 bits is \<open>ucast\<close>.  \<open>*((uint32_t* )&r) = v\<close> replaces the
  low half of a register (\<open>set_low\<close>).  Memory is accessed through the pointers \<open>s->mem + ea\<close>, which
  have no range check: \<open>deref\<close> and \<open>deref_set\<close> are undefined outside the mapping.
\<close>

record 'w state64_t =
  pc64 :: u64
  gpr64 :: "u64 list"
  lo64 :: u64
  hi64 :: u64
  cpr0_64 :: "u32 list"
  cpr1_64 :: "u32 list"
  fcr1_64 :: "u32 list"
  icnt64 :: u64
  brk64 :: u8
  mem64 :: memory
  os64 :: 'w

definition wf64 :: "'w state64_t \<Rightarrow> bool" where
  "wf64 s \<longleftrightarrow> length (gpr64 s) = 32 \<and> length (cpr0_64 s) = 32 \<and> length (cpr1_64 s) = 32 \<and> length (fcr1_64 s) = 5"

definition state64_new :: "memory \<Rightarrow> 'w \<Rightarrow> 'w state64_t" where
  "state64_new m w =
     \<lparr>pc64 = 0, gpr64 = replicate 32 0, lo64 = 0, hi64 = 0, cpr0_64 = replicate 32 0, cpr1_64 = replicate 32 0,
      fcr1_64 = replicate 5 0, icnt64 = 0, brk64 = 0, mem64 = m, os64 = w\<rparr>"

definition wr64 :: "nat \<Rightarrow> u64 \<Rightarrow> 'w state64_t \<Rightarrow> 'w state64_t" where
  "wr64 r v s = s\<lparr>gpr64 := (gpr64 s)[r := v]\<rparr>"

definition pc_inc64 :: "'w state64_t \<Rightarrow> 'w state64_t" where
  "pc_inc64 s = s\<lparr>pc64 := pc64 s + 4\<rparr>"

definition u32toi64 :: "u32 \<Rightarrow> u64" where
  "u32toi64 u = scast u"

definition low :: "u64 \<Rightarrow> u32" where
  "low x = ucast x"

definition set_low :: "u64 \<Rightarrow> u32 \<Rightarrow> u64" where
  "set_low x v = (x AND NOT 0xffffffff) OR ucast v"

definition deref :: "memory \<Rightarrow> u64 \<Rightarrow> 'a::len word result" where
  "deref m a = definedE (unat a + LENGTH('a) div 8 \<le> sz) (Inr (load_le (LENGTH('a) div 8) m (ucast a)))"

definition deref_set :: "memory \<Rightarrow> u64 \<Rightarrow> 'a::len word \<Rightarrow> memory result" where
  "deref_set m a v = definedE (unat a + LENGTH('a) div 8 \<le> sz) (Inr (store_le (LENGTH('a) div 8) m (ucast a) v))"

definition initState64 :: "'w state64_t \<Rightarrow> 'w state64_t" where
  "initState64 s =
     (let s1 = s\<lparr>cpr0_64 := (cpr0_64 s)[12 := cpr0_64 s ! 12 OR push_bit 2 1]\<rparr>
      in s1\<lparr>cpr0_64 := (cpr0_64 s1)[12 := cpr0_64 s1 ! 12 OR push_bit 22 1]\<rparr>)"

definition getConditionCode64 :: "'w state64_t \<Rightarrow> nat \<Rightarrow> u32" where
  "getConditionCode64 s cc = drop_bit cc (fcr1_64 s ! CP1_CR25 AND push_bit cc 1) AND 1"

definition setConditionCode64 :: "'w state64_t \<Rightarrow> u32 \<Rightarrow> nat \<Rightarrow> 'w state64_t" where
  "setConditionCode64 s v cc =
     (let m0 = push_bit cc 1; m1 = NOT m0; m2 = NOT (v - 1)
      in s\<lparr>fcr1_64 := (fcr1_64 s)[CP1_CR25 := (fcr1_64 s ! CP1_CR25 AND m1) OR (push_bit cc 1 AND m2)]\<rparr>)"

definition mkMonitorVectors64 :: "globals \<Rightarrow> 'w state64_t \<Rightarrow> 'w state64_t result" where
  "mkMonitorVectors64 G s =
     bindE (foldE (\<lambda>loop m. deref_set m (ucast (IDT_MONITOR_BASE + loop)) (bswap (isMipsEL G) (monitor_insn loop)))
        monitor_loops (mem64 s)) (\<lambda>m.
     Inr (s\<lparr>mem64 := m\<rparr>))"

subsection \<open>Special2 and special3\<close>

definition acc64 :: "'w state64_t \<Rightarrow> u64" where
  "acc64 s = push_bit 32 (hi64 s) OR lo64 s"

text \<open>\<open>s->lo = (int32_t)(y & 0xffffffff); s->hi = (int32_t)(y >> 32)\<close>, and the unsigned version.\<close>

definition set_hilo :: "u64 \<Rightarrow> 'w state64_t \<Rightarrow> 'w state64_t" where
  "set_hilo y s = s\<lparr>lo64 := scast (low y), hi64 := scast (low (signed_drop_bit 32 y))\<rparr>"

definition set_hilo_u :: "u64 \<Rightarrow> 'w state64_t \<Rightarrow> 'w state64_t" where
  "set_hilo_u y s = s\<lparr>lo64 := ucast (low y), hi64 := ucast (low (drop_bit 32 y))\<rparr>"

definition execSpecial2_64 :: "u32 \<Rightarrow> 'w state64_t \<Rightarrow> 'w state64_t result" where
  "execSpecial2_64 inst s =
     (let funct = inst_funct inst; a = gpr64 s ! inst_rs inst; b = gpr64 s ! inst_rt inst
      in bindE
        (if funct = 0x0 then Inr (set_hilo (a * b + acc64 s) s)
         else if funct = 0x1 then Inr (set_hilo_u (ucast (low a) * ucast (low b) + acc64 s) s)
         else if funct = 0x2 then Inr (wr64 (inst_rd inst) (scast (low (a * b))) s)
         else if funct = 0x4 then Inr (set_hilo (acc64 s - a * b) s)
         else if funct = 0x20 then
           (if a = 0 then Inr (wr64 (inst_rd inst) 32 s)
            else definedE (low a \<noteq> 0) (Inr (wr64 (inst_rd inst) (of_nat (builtin_clz (low a))) s)))
         else Inl (Exit (-1)))
        (\<lambda>s1. Inr (pc_inc64 s1)))"

definition ext64 :: "u32 \<Rightarrow> 'w state64_t \<Rightarrow> 'w state64_t result" where
  "ext64 inst s =
     (let pos = inst_sa inst; size = inst_rd inst + 1
      in definedE (size < 32)
        (Inr (wr64 (inst_rt inst) (signed_drop_bit pos (gpr64 s ! inst_rs inst) AND scast (push_bit size 1 - 1 :: u32)) s)))"

definition ins64 :: "u32 \<Rightarrow> 'w state64_t \<Rightarrow> 'w state64_t result" where
  "ins64 inst s =
     (let op = inst_sa inst; rd = inst_rd inst; size = (of_nat rd :: u32) - of_nat op + 1
      in definedE (size < 32)
        (let mask = push_bit (unat size) 1 - 1 :: u32;
             cmask = NOT (push_bit op mask);
             v = low (push_bit op (gpr64 s ! inst_rs inst AND ucast mask));
             c = low ((gpr64 s ! inst_rt inst AND ucast cmask) OR ucast v)
         in Inr (wr64 (inst_rt inst) (ucast c) s)))"

definition execSpecial3_64 :: "u32 \<Rightarrow> 'w state64_t \<Rightarrow> 'w state64_t result" where
  "execSpecial3_64 inst s =
     (let funct = inst_funct inst; op = inst_sa inst
      in bindE
        (if funct = 32 then
           (if op = 0x10 then Inr (wr64 (inst_rd inst) (scast (ucast (gpr64 s ! inst_rt inst) :: u8)) s)
            else if op = 0x18 then Inr (wr64 (inst_rd inst) (scast (ucast (gpr64 s ! inst_rt inst) :: u16)) s)
            else Inl (Exit (-1)))
         else if funct = 0 then ext64 inst s
         else if funct = 0x4 then ins64 inst s
         else Inl (Exit (-1)))
        (\<lambda>s1. Inr (pc_inc64 s1)))"

subsection \<open>Branches\<close>

fun branch_case64 :: "branch_type \<Rightarrow> u32 \<Rightarrow> 'w state64_t \<Rightarrow> (bool \<times> bool) result" where
  "branch_case64 beql inst s = Inr (True, gpr64 s ! inst_rt inst = gpr64 s ! inst_rs inst)"
| "branch_case64 beq inst s = Inr (False, gpr64 s ! inst_rt inst = gpr64 s ! inst_rs inst)"
| "branch_case64 bnel inst s = Inr (True, gpr64 s ! inst_rt inst \<noteq> gpr64 s ! inst_rs inst)"
| "branch_case64 bne inst s = Inr (False, gpr64 s ! inst_rt inst \<noteq> gpr64 s ! inst_rs inst)"
| "branch_case64 blezl inst s = Inr (True, gpr64 s ! inst_rs inst \<le>s 0)"
| "branch_case64 blez inst s = Inr (False, gpr64 s ! inst_rs inst \<le>s 0)"
| "branch_case64 bgtzl inst s = Inr (True, 0 <s gpr64 s ! inst_rs inst)"
| "branch_case64 bgtz inst s = Inr (False, 0 <s gpr64 s ! inst_rs inst)"
| "branch_case64 bgezl inst s = Inr (True, 0 \<le>s gpr64 s ! inst_rs inst)"
| "branch_case64 bgez inst s = Inr (False, 0 \<le>s gpr64 s ! inst_rs inst)"
| "branch_case64 bltzl inst s = Inr (True, gpr64 s ! inst_rs inst <s 0)"
| "branch_case64 bltz inst s = Inr (False, gpr64 s ! inst_rs inst <s 0)"
| "branch_case64 bc1tl inst s = Inr (True, getConditionCode64 s (inst_cc inst) = 1)"
| "branch_case64 bc1t inst s = Inr (False, getConditionCode64 s (inst_cc inst) = 1)"
| "branch_case64 bc1fl inst s = Inr (True, getConditionCode64 s (inst_cc inst) = 0)"
| "branch_case64 bc1f inst s = Inr (False, getConditionCode64 s (inst_cc inst) = 0)"
| "branch_case64 bgezal inst s = Inl Undefined"

text \<open>The target is computed in 32 bits.\<close>

definition branch64 :: "('w state64_t \<Rightarrow> 'w state64_t result) \<Rightarrow> branch_type \<Rightarrow> u32 \<Rightarrow> 'w state64_t \<Rightarrow> 'w state64_t result" where
  "branch64 k bt inst s =
     (let imm = push_bit 2 (simm32 inst); npc = low (pc64 s + 4); target = ucast (imm + npc)
      in bindE (branch_case64 bt inst s) (\<lambda>(isLikely, takeBranch).
         let s1 = pc_inc64 s
         in if isLikely then
              (if takeBranch then bindE (k s1) (\<lambda>s2. Inr (s2\<lparr>pc64 := target\<rparr>)) else Inr (pc_inc64 s1))
            else bindE (k s1) (\<lambda>s2. if takeBranch then Inr (s2\<lparr>pc64 := target\<rparr>) else Inr s2)))"

definition bgez_bltz64 :: "('w state64_t \<Rightarrow> 'w state64_t result) \<Rightarrow> u32 \<Rightarrow> 'w state64_t \<Rightarrow> 'w state64_t result" where
  "bgez_bltz64 k inst s =
     (let rt = inst_rt inst mod 4
      in if rt = 0 then branch64 k bltz inst s
         else if rt = 1 then branch64 k bgez inst s
         else if rt = 2 then branch64 k bltzl inst s
         else branch64 k bgezl inst s)"

subsection \<open>Loads and stores\<close>

definition generateEA :: "u32 \<Rightarrow> 'w state64_t \<Rightarrow> u64" where
  "generateEA inst s = gpr64 s ! inst_rs inst + scast (himm inst)"

text \<open>The other instructions compute the address in a \<open>uint32_t\<close>.\<close>

definition ea32 :: "u32 \<Rightarrow> 'w state64_t \<Rightarrow> u32" where
  "ea32 inst s = low (gpr64 s ! inst_rs inst + scast (simm32 inst))"

definition lw64 :: "bool \<Rightarrow> u32 \<Rightarrow> 'w state64_t \<Rightarrow> 'w state64_t result" where
  "lw64 EL inst s =
     bindE (deref (mem64 s) (generateEA inst s)) (\<lambda>v :: u32.
     Inr (pc_inc64 (wr64 (inst_rt inst) (scast (bswap EL v)) s)))"

definition lh64 :: "bool \<Rightarrow> u32 \<Rightarrow> 'w state64_t \<Rightarrow> 'w state64_t result" where
  "lh64 EL inst s =
     bindE (deref (mem64 s) (generateEA inst s)) (\<lambda>v :: u16.
     Inr (pc_inc64 (wr64 (inst_rt inst) (scast (bswap EL v)) s)))"

definition lb64 :: "u32 \<Rightarrow> 'w state64_t \<Rightarrow> 'w state64_t result" where
  "lb64 inst s =
     bindE (deref (mem64 s) (generateEA inst s)) (\<lambda>v :: u8.
     Inr (pc_inc64 (wr64 (inst_rt inst) (scast v) s)))"

definition lbu64 :: "u32 \<Rightarrow> 'w state64_t \<Rightarrow> 'w state64_t result" where
  "lbu64 inst s =
     bindE (mem_get (mem64 s) (ucast (ea32 inst s))) (\<lambda>v :: u8.
     Inr (pc_inc64 (wr64 (inst_rt inst) (set_low (gpr64 s ! inst_rt inst) (ucast v)) s)))"

definition lhu64 :: "bool \<Rightarrow> u32 \<Rightarrow> 'w state64_t \<Rightarrow> 'w state64_t result" where
  "lhu64 EL inst s =
     bindE (deref (mem64 s) (ucast (ea32 inst s))) (\<lambda>v :: u16.
     Inr (pc_inc64 (wr64 (inst_rt inst) (set_low (gpr64 s ! inst_rt inst) (ucast (bswap EL v))) s)))"

text \<open>\<open>bswap\<close> is applied to the 64 bit register, and its result is converted to \<open>int32_t\<close>.\<close>

definition sw64 :: "bool \<Rightarrow> u32 \<Rightarrow> 'w state64_t \<Rightarrow> 'w state64_t result" where
  "sw64 EL inst s =
     bindE (deref_set (mem64 s) (generateEA inst s) (low (bswap EL (gpr64 s ! inst_rt inst)))) (\<lambda>m.
     Inr (pc_inc64 (s\<lparr>mem64 := m\<rparr>)))"

definition sc64 :: "bool \<Rightarrow> u32 \<Rightarrow> 'w state64_t \<Rightarrow> 'w state64_t result" where
  "sc64 EL inst s = bindE (sw64 EL inst s) (\<lambda>s1. Inr (wr64 (inst_rt inst) 1 s1))"

definition sh64 :: "bool \<Rightarrow> u32 \<Rightarrow> 'w state64_t \<Rightarrow> 'w state64_t result" where
  "sh64 EL inst s =
     bindE (deref_set (mem64 s) (ucast (ea32 inst s)) (bswap EL (ucast (gpr64 s ! inst_rt inst) :: u16))) (\<lambda>m.
     Inr (pc_inc64 (s\<lparr>mem64 := m\<rparr>)))"

definition sb64 :: "u32 \<Rightarrow> 'w state64_t \<Rightarrow> 'w state64_t result" where
  "sb64 inst s =
     bindE (mem_set (mem64 s) (ucast (ea32 inst s)) (ucast (gpr64 s ! inst_rt inst) :: u8)) (\<lambda>m.
     Inr (pc_inc64 (s\<lparr>mem64 := m\<rparr>)))"

definition swl64 :: "bool \<Rightarrow> u32 \<Rightarrow> 'w state64_t \<Rightarrow> 'w state64_t result" where
  "swl64 EL inst s =
     (let ea0 = ea32 inst s; ma = ma_of EL ea0; ea = ea0 AND 0xfffffffc
      in bindE (deref (mem64 s) (ucast ea)) (\<lambda>r.
         bindE (swl_merge ma (bswap EL r) (low (gpr64 s ! inst_rt inst))) (\<lambda>xx.
         bindE (deref_set (mem64 s) (ucast ea) (bswap EL xx)) (\<lambda>m.
         Inr (pc_inc64 (s\<lparr>mem64 := m\<rparr>))))))"

definition swr64 :: "bool \<Rightarrow> u32 \<Rightarrow> 'w state64_t \<Rightarrow> 'w state64_t result" where
  "swr64 EL inst s =
     (let ea0 = ea32 inst s; ma = ma_of EL ea0; ea = ea0 AND 0xfffffffc
      in bindE (deref (mem64 s) (ucast ea)) (\<lambda>r.
         bindE (deref_set (mem64 s) (ucast ea) (bswap EL (swr_merge ma (bswap EL r) (low (gpr64 s ! inst_rt inst))))) (\<lambda>m.
         Inr (pc_inc64 (s\<lparr>mem64 := m\<rparr>)))))"

definition lwl64 :: "bool \<Rightarrow> u32 \<Rightarrow> 'w state64_t \<Rightarrow> 'w state64_t result" where
  "lwl64 EL inst s =
     (let ea0 = ea32 inst s; ma = ma_of EL ea0; ea = ea0 AND 0xfffffffc
      in bindE (deref (mem64 s) (ucast ea)) (\<lambda>r.
         let v = lwl_merge ma (bswap EL r) (low (gpr64 s ! inst_rt inst))
         in Inr (pc_inc64 (wr64 (inst_rt inst) (scast v) s))))"

definition lwr64 :: "bool \<Rightarrow> u32 \<Rightarrow> 'w state64_t \<Rightarrow> 'w state64_t result" where
  "lwr64 EL inst s =
     (let ea0 = ea32 inst s; ma = ma_of EL ea0; ea = ea0 AND 0xfffffffc
      in bindE (deref (mem64 s) (ucast ea)) (\<lambda>r.
         let v = lwr_merge ma (bswap EL r) (low (gpr64 s ! inst_rt inst))
         in Inr (pc_inc64 (wr64 (inst_rt inst) (ucast v) s))))"

subsection \<open>Floating point registers\<close>

definition get_sp64 :: "'w state64_t \<Rightarrow> nat \<Rightarrow> u32 result" where
  "get_sp64 s i = definedE (i < 32) (Inr (cpr1_64 s ! i))"

definition get_dp64 :: "'w state64_t \<Rightarrow> nat \<Rightarrow> u64 result" where
  "get_dp64 s i = definedE (i + 1 < 32) (Inr (ucast (cpr1_64 s ! i) OR push_bit 32 (ucast (cpr1_64 s ! (i + 1)))))"

definition set_sp64 :: "nat \<Rightarrow> u32 \<Rightarrow> 'w state64_t \<Rightarrow> 'w state64_t result" where
  "set_sp64 i v s = definedE (i < 32) (Inr (s\<lparr>cpr1_64 := (cpr1_64 s)[i := v]\<rparr>))"

definition set_dp64 :: "nat \<Rightarrow> u64 \<Rightarrow> 'w state64_t \<Rightarrow> 'w state64_t result" where
  "set_dp64 i v s =
     definedE (i + 1 < 32) (Inr (s\<lparr>cpr1_64 := (cpr1_64 s)[i := ucast v, i + 1 := ucast (drop_bit 32 v)]\<rparr>))"

definition mtc1_64 :: "u32 \<Rightarrow> 'w state64_t \<Rightarrow> 'w state64_t" where
  "mtc1_64 inst s = pc_inc64 (s\<lparr>cpr1_64 := (cpr1_64 s)[inst_rd inst := low (gpr64 s ! inst_rt inst)]\<rparr>)"

definition mfc1_64 :: "u32 \<Rightarrow> 'w state64_t \<Rightarrow> 'w state64_t" where
  "mfc1_64 inst s = pc_inc64 (wr64 (inst_rt inst) (ucast (cpr1_64 s ! inst_rd inst)) s)"

definition ldc1_64 :: "bool \<Rightarrow> u32 \<Rightarrow> 'w state64_t \<Rightarrow> 'w state64_t result" where
  "ldc1_64 EL inst s =
     bindE (deref (mem64 s) (ucast (ea32 inst s))) (\<lambda>v :: u64.
     bindE (set_dp64 (inst_rt inst) (bswap EL v) s) (\<lambda>s1. Inr (pc_inc64 s1)))"

definition sdc1_64 :: "bool \<Rightarrow> u32 \<Rightarrow> 'w state64_t \<Rightarrow> 'w state64_t result" where
  "sdc1_64 EL inst s =
     bindE (get_dp64 s (inst_rt inst)) (\<lambda>v.
     bindE (deref_set (mem64 s) (ucast (ea32 inst s)) (bswap EL v)) (\<lambda>m. Inr (pc_inc64 (s\<lparr>mem64 := m\<rparr>))))"

definition lwc1_64 :: "bool \<Rightarrow> u32 \<Rightarrow> 'w state64_t \<Rightarrow> 'w state64_t result" where
  "lwc1_64 EL inst s =
     bindE (deref (mem64 s) (ucast (ea32 inst s))) (\<lambda>v :: u32.
     bindE (set_sp64 (inst_rt inst) (bswap EL v) s) (\<lambda>s1. Inr (pc_inc64 s1)))"

definition swc1_64 :: "bool \<Rightarrow> u32 \<Rightarrow> 'w state64_t \<Rightarrow> 'w state64_t result" where
  "swc1_64 EL inst s =
     bindE (get_sp64 s (inst_rt inst)) (\<lambda>v.
     bindE (deref_set (mem64 s) (ucast (ea32 inst s)) (bswap EL v)) (\<lambda>m. Inr (pc_inc64 (s\<lparr>mem64 := m\<rparr>))))"

definition lxc1_ea64 :: "u32 \<Rightarrow> 'w state64_t \<Rightarrow> u32" where
  "lxc1_ea64 inst s = low (gpr64 s ! lc1x_base inst + gpr64 s ! lc1x_index inst)"

definition lxc1_w64 :: "bool \<Rightarrow> u32 \<Rightarrow> 'w state64_t \<Rightarrow> 'w state64_t result" where
  "lxc1_w64 EL inst s =
     bindE (deref (mem64 s) (ucast (lxc1_ea64 inst s))) (\<lambda>v :: u32.
     bindE (set_sp64 (lc1x_fd inst) (bswap EL v) s) (\<lambda>s1. Inr (pc_inc64 s1)))"

definition lxc1_d64 :: "bool \<Rightarrow> u32 \<Rightarrow> 'w state64_t \<Rightarrow> 'w state64_t result" where
  "lxc1_d64 EL inst s =
     bindE (deref (mem64 s) (ucast (lxc1_ea64 inst s))) (\<lambda>v :: u64.
     bindE (set_dp64 (lc1x_fd inst) (bswap EL v) s) (\<lambda>s1. Inr (pc_inc64 s1)))"

subsection \<open>Floating point instructions\<close>

definition c1xExec_s64 :: "fpu \<Rightarrow> u32 \<Rightarrow> 'w state64_t \<Rightarrow> 'w state64_t result" where
  "c1xExec_s64 F inst s =
     bindE (get_sp64 s (c1x_fr inst)) (\<lambda>r. bindE (get_sp64 s (c1x_fs inst)) (\<lambda>a. bindE (get_sp64 s (c1x_ft inst)) (\<lambda>b.
     bindE
       (if c1x_id inst = 4 then set_sp64 (c1x_fd inst) (f32_add F (f32_mul F a b) r) s
        else if c1x_id inst = 5 then set_sp64 (c1x_fd inst) (f32_sub F (f32_mul F a b) r) s
        else Inl (Exit (-1)))
       (\<lambda>s1. Inr (pc_inc64 s1)))))"

definition c1xExec_d64 :: "fpu \<Rightarrow> u32 \<Rightarrow> 'w state64_t \<Rightarrow> 'w state64_t result" where
  "c1xExec_d64 F inst s =
     bindE (get_dp64 s (c1x_fr inst)) (\<lambda>r. bindE (get_dp64 s (c1x_fs inst)) (\<lambda>a. bindE (get_dp64 s (c1x_ft inst)) (\<lambda>b.
     bindE
       (if c1x_id inst = 4 then set_dp64 (c1x_fd inst) (f64_add F (f64_mul F a b) r) s
        else if c1x_id inst = 5 then set_dp64 (c1x_fd inst) (f64_sub F (f64_mul F a b) r) s
        else Inl (Exit (-1)))
       (\<lambda>s1. Inr (pc_inc64 s1)))))"

definition execCoproc1x_64 :: "bool \<Rightarrow> fpu \<Rightarrow> u32 \<Rightarrow> 'w state64_t \<Rightarrow> 'w state64_t result" where
  "execCoproc1x_64 EL F inst s =
     (if lc1x_id inst = 0 then lxc1_w64 EL inst s
      else if lc1x_id inst = 1 then lxc1_d64 EL inst s
      else if c1x_fmt inst = 0 then c1xExec_s64 F inst s
      else if c1x_fmt inst = 1 then c1xExec_d64 F inst s
      else Inl (Exit (-1)))"

definition truncw64 :: "fpu \<Rightarrow> u32 \<Rightarrow> 'w state64_t \<Rightarrow> 'w state64_t result" where
  "truncw64 F inst s =
     bindE
       (if inst_fmt inst = FMT_S then
          bindE (get_sp64 s (inst_fs inst)) (\<lambda>f. bindE (of_conversion (f32_to_i32 F f)) (\<lambda>v. set_sp64 (inst_fd inst) v s))
        else if inst_fmt inst = FMT_D then
          bindE (get_dp64 s (inst_fs inst)) (\<lambda>d. bindE (of_conversion (f64_to_i32 F d)) (\<lambda>v. set_sp64 (inst_fd inst) v s))
        else Inl (Exit (-1)))
       (\<lambda>s1. Inr (pc_inc64 s1))"

definition cvts64 :: "fpu \<Rightarrow> u32 \<Rightarrow> 'w state64_t \<Rightarrow> 'w state64_t result" where
  "cvts64 F inst s =
     bindE
       (if inst_fmt inst = FMT_D then bindE (get_dp64 s (inst_fs inst)) (\<lambda>d. set_sp64 (inst_fd inst) (f64_to_f32 F d) s)
        else if inst_fmt inst = FMT_W then bindE (get_sp64 s (inst_fs inst)) (\<lambda>w. set_sp64 (inst_fd inst) (i32_to_f32 F w) s)
        else Inl (Exit (-1)))
       (\<lambda>s1. Inr (pc_inc64 s1))"

definition cvtd64 :: "fpu \<Rightarrow> u32 \<Rightarrow> 'w state64_t \<Rightarrow> 'w state64_t result" where
  "cvtd64 F inst s =
     bindE
       (if inst_fmt inst = FMT_S then bindE (get_sp64 s (inst_fs inst)) (\<lambda>f. set_dp64 (inst_fd inst) (f32_to_f64 F f) s)
        else if inst_fmt inst = FMT_W then bindE (get_sp64 s (inst_fs inst)) (\<lambda>w. set_dp64 (inst_fd inst) (i32_to_f64 F w) s)
        else Inl (Exit (-1)))
       (\<lambda>s1. Inr (pc_inc64 s1))"

definition move_sp64 :: "bool \<Rightarrow> nat \<Rightarrow> nat \<Rightarrow> 'w state64_t \<Rightarrow> 'w state64_t result" where
  "move_sp64 c fd fs s = bindE (get_sp64 s (if c then fs else fd)) (\<lambda>v. set_sp64 fd v s)"

definition move_dp64 :: "bool \<Rightarrow> nat \<Rightarrow> nat \<Rightarrow> 'w state64_t \<Rightarrow> 'w state64_t result" where
  "move_dp64 c fd fs s = bindE (move_sp64 c fd fs s) (move_sp64 c (fd + 1) (fs + 1))"

definition movnd64 :: "u32 \<Rightarrow> 'w state64_t \<Rightarrow> 'w state64_t result" where
  "movnd64 inst s =
     bindE (move_dp64 (gpr64 s ! inst_rt inst \<noteq> 0) (inst_fd inst) (inst_fs inst) s) (\<lambda>s1. Inr (pc_inc64 s1))"

definition movns64 :: "u32 \<Rightarrow> 'w state64_t \<Rightarrow> 'w state64_t result" where
  "movns64 inst s =
     bindE (move_sp64 (gpr64 s ! inst_rt inst \<noteq> 0) (inst_fd inst) (inst_fs inst) s) (\<lambda>s1. Inr (pc_inc64 s1))"

definition movzd64 :: "u32 \<Rightarrow> 'w state64_t \<Rightarrow> 'w state64_t result" where
  "movzd64 inst s =
     bindE (move_dp64 (gpr64 s ! inst_rt inst = 0) (inst_fd inst) (inst_fs inst) s) (\<lambda>s1. Inr (pc_inc64 s1))"

definition movzs64 :: "u32 \<Rightarrow> 'w state64_t \<Rightarrow> 'w state64_t result" where
  "movzs64 inst s =
     bindE (move_sp64 (gpr64 s ! inst_rt inst = 0) (inst_fd inst) (inst_fs inst) s) (\<lambda>s1. Inr (pc_inc64 s1))"

definition movcd64 :: "u32 \<Rightarrow> 'w state64_t \<Rightarrow> 'w state64_t result" where
  "movcd64 inst s =
     (let cc = inst_cc inst; tf = drop_bit 16 inst AND 1;
          c = (if tf = 0 then getConditionCode64 s cc = 0 else getConditionCode64 s cc = 1)
      in bindE (if c then move_dp64 True (inst_fd inst) (inst_fs inst) s else Inr s) (\<lambda>s1. Inr (pc_inc64 s1)))"

definition movcs64 :: "u32 \<Rightarrow> 'w state64_t \<Rightarrow> 'w state64_t result" where
  "movcs64 inst s =
     (let cc = inst_cc inst; tf = drop_bit 16 inst AND 1;
          c = (if tf = 0 then getConditionCode64 s cc = 0 else getConditionCode64 s cc \<noteq> 0)
      in bindE (move_sp64 c (inst_fd inst) (inst_fs inst) s) (\<lambda>s1. Inr (pc_inc64 s1)))"

definition movci64 :: "u32 \<Rightarrow> 'w state64_t \<Rightarrow> 'w state64_t" where
  "movci64 inst s =
     (let cc = inst_cc inst; tf = drop_bit 16 inst AND 1; rd = inst_rd inst; rs = inst_rs inst
      in pc_inc64
        (if tf = 0 then wr64 rd (if getConditionCode64 s cc \<noteq> 0 then gpr64 s ! rd else gpr64 s ! rs) s
         else wr64 rd (if getConditionCode64 s cc \<noteq> 0 then gpr64 s ! rs else gpr64 s ! rd) s))"

text \<open>\<open>_fmovn\<close>, \<open>_fmovz\<close> and \<open>_fmovc\<close>: the choice between the two precisions.\<close>

definition by_fmt :: "u32 \<Rightarrow> 'r result \<Rightarrow> 'r result \<Rightarrow> 'r result" where
  "by_fmt inst single double =
     (if inst_fmt inst = FMT_S then single else if inst_fmt inst = FMT_D then double else Inl (Exit (-1)))"

definition fmovn64 :: "u32 \<Rightarrow> 'w state64_t \<Rightarrow> 'w state64_t result" where
  "fmovn64 inst s = by_fmt inst (movns64 inst s) (movnd64 inst s)"

definition fmovz64 :: "u32 \<Rightarrow> 'w state64_t \<Rightarrow> 'w state64_t result" where
  "fmovz64 inst s = by_fmt inst (movzs64 inst s) (movzd64 inst s)"

definition fmovc64 :: "u32 \<Rightarrow> 'w state64_t \<Rightarrow> 'w state64_t result" where
  "fmovc64 inst s = by_fmt inst (movcs64 inst s) (movcd64 inst s)"

definition fpCmp_body64 :: "bool \<Rightarrow> bool \<Rightarrow> bool \<Rightarrow> u32 \<Rightarrow> 'w state64_t \<Rightarrow> 'w state64_t result" where
  "fpCmp_body64 eq lt le inst s =
     (let cond = unat (inst AND 15); cc = unat (drop_bit 8 inst AND 7);
          put = (\<lambda>v s. s\<lparr>fcr1_64 := (fcr1_64 s)[CP1_CR25 := setBit (fcr1_64 s ! CP1_CR25) (of_bool v) cc]\<rparr>)
      in if cond = COND_UN then Inr (pc_inc64 (put eq s))
         else if cond = COND_EQ then Inr (pc_inc64 (put eq s))
         else if cond = COND_LT then Inr (pc_inc64 (put lt s))
         else if cond = COND_LE then Inr (pc_inc64 (put le s))
         else Inl (Exit (-1)))"

definition c64 :: "fpu \<Rightarrow> u32 \<Rightarrow> 'w state64_t \<Rightarrow> 'w state64_t result" where
  "c64 F inst s =
     by_fmt inst
       (bindE (get_sp64 s (inst_fs inst)) (\<lambda>a. bindE (get_sp64 s (inst_ft inst)) (\<lambda>b.
        fpCmp_body64 (f32_eq F a b) (f32_lt F a b) (f32_le F a b) inst s)))
       (bindE (get_dp64 s (inst_fs inst)) (\<lambda>a. bindE (get_dp64 s (inst_ft inst)) (\<lambda>b.
        fpCmp_body64 (f64_eq F a b) (f64_lt F a b) (f64_le F a b) inst s)))"

text \<open>The values of \<open>execFP<T>\<close> are those of the 32 bit interpreter; \<open>_fd\<close> is written without further effects.\<close>

definition execFP_s64 :: "fpu \<Rightarrow> fpOperation \<Rightarrow> u32 \<Rightarrow> 'w state64_t \<Rightarrow> 'w state64_t result" where
  "execFP_s64 F op inst s =
     bindE (get_sp64 s (inst_fs inst)) (\<lambda>a. bindE (get_sp64 s (inst_ft inst)) (\<lambda>b.
     bindE (fp_value_s F op a b) (\<lambda>(v, _). bindE (set_sp64 (inst_fd inst) v s) (\<lambda>s1. Inr (pc_inc64 s1)))))"

definition execFP_d64 :: "fpu \<Rightarrow> fpOperation \<Rightarrow> u32 \<Rightarrow> 'w state64_t \<Rightarrow> 'w state64_t result" where
  "execFP_d64 F op inst s =
     bindE (get_dp64 s (inst_fs inst)) (\<lambda>a. bindE (get_dp64 s (inst_ft inst)) (\<lambda>b.
     bindE (fp_value_d F op a b) (\<lambda>(v, _). bindE (set_dp64 (inst_fd inst) v s) (\<lambda>s1. Inr (pc_inc64 s1)))))"

definition do_fp_op64 :: "fpu \<Rightarrow> fpOperation \<Rightarrow> u32 \<Rightarrow> 'w state64_t \<Rightarrow> 'w state64_t result" where
  "do_fp_op64 F op inst s =
     (if inst_fmt inst = FMT_S then execFP_s64 F op inst s
      else if inst_fmt inst = FMT_D then execFP_d64 F op inst s
      else Inl Undefined)"

definition exec_fp_lowop64 :: "fpu \<Rightarrow> u32 \<Rightarrow> 'w state64_t \<Rightarrow> 'w state64_t result" where
  "exec_fp_lowop64 F inst s =
     (let lowop = inst_funct inst
      in if lowop div 16 = 3 then c64 F inst s
         else if lowop = 0x0 then do_fp_op64 F fp_add inst s
         else if lowop = 0x1 then do_fp_op64 F fp_sub inst s
         else if lowop = 0x2 then do_fp_op64 F fp_mul inst s
         else if lowop = 0x3 then do_fp_op64 F fp_div inst s
         else if lowop = 0x4 then do_fp_op64 F fp_sqrt inst s
         else if lowop = 0x5 then do_fp_op64 F fp_abs inst s
         else if lowop = 0x6 then do_fp_op64 F fp_mov inst s
         else if lowop = 0x7 then do_fp_op64 F fp_neg inst s
         else if lowop = 0x9 then Inl (Exit (-1))
         else if lowop = 0xd then truncw64 F inst s
         else if lowop = 0x11 then fmovc64 inst s
         else if lowop = 0x12 then fmovz64 inst s
         else if lowop = 0x13 then fmovn64 inst s
         else if lowop = 0x15 then do_fp_op64 F fp_recip inst s
         else if lowop = 0x16 then do_fp_op64 F fp_rsqrt inst s
         else if lowop = 0x20 then cvts64 F inst s
         else if lowop = 0x21 then cvtd64 F inst s
         else Inl (Exit (-1)))"

definition execCoproc1_64 :: "fpu \<Rightarrow> ('w state64_t \<Rightarrow> 'w state64_t result) \<Rightarrow> u32 \<Rightarrow> 'w state64_t \<Rightarrow> 'w state64_t result" where
  "execCoproc1_64 F k inst s =
     (let functField = inst_rs inst; fmt = inst_rs inst; nd_tf = drop_bit 16 inst AND 3;
          lowbits = inst AND (push_bit 11 1 - 1)
      in if fmt = 0x8 then
           (if nd_tf = 0x0 then branch64 k bc1f inst s
            else if nd_tf = 0x1 then branch64 k bc1t inst s
            else if nd_tf = 0x2 then branch64 k bc1fl inst s
            else branch64 k bc1tl inst s)
         else if lowbits = 0 \<and> (functField = 0x0 \<or> functField = 0x4) then
           (if functField = 0x0 then Inr (mfc1_64 inst s) else Inr (mtc1_64 inst s))
         else exec_fp_lowop64 F inst s)"

subsection \<open>Monitor calls\<close>

text \<open>
  The calls of the host that only this monitor uses: the seconds and microseconds of
  \<open>gettimeofday\<close>, and the result and the four fields of \<open>times\<close>.  \<open>enClockFuncts\<close> and \<open>icountMIPS\<close>
  are the two global variables it reads; \<open>src/top.cc\<close> initialises them to false and 0.
\<close>

record 'w host64 = "'w linux_host" +
  os_gettimeofday :: "'w \<Rightarrow> u64 \<times> u64"
  os_times :: "'w \<Rightarrow> u32 \<times> u64 list"

record clock_globals =
  enClockFuncts :: bool
  icountMIPS :: u64

text \<open>The fields of \<open>stat32_t\<close> that are written, with their offsets; \<open>st_dev\<close> has 16 bits.\<close>

definition stat32_fields :: "bool \<Rightarrow> host_stat \<Rightarrow> (nat \<times> u8 list) list" where
  "stat32_fields EL st =
     [(0, to_le 2 (ucast (bswap EL (ucast (st_dev st) :: u32)) :: u16)), (2, to_le 2 (bswap EL (ucast (st_ino st) :: u16))),
      (4, to_le 4 (bswap EL (st_mode st))), (8, to_le 2 (bswap EL (ucast (st_nlink st) :: u16))),
      (10, to_le 2 (bswap EL (ucast (st_uid st) :: u16))), (12, to_le 2 (bswap EL (ucast (st_gid st) :: u16))),
      (16, to_le 4 (bswap EL (ucast (st_size st) :: u32))), (20, to_le 4 (bswap EL (ucast (st_atime st) :: u32))),
      (28, to_le 4 (0 :: u32)), (36, to_le 4 (0 :: u32)), (44, to_le 4 (bswap EL (ucast (st_blksize st) :: u32))),
      (48, to_le 4 (bswap EL (ucast (st_blocks st) :: u32)))]"

definition mon_open64 :: "'w host64 \<Rightarrow> 'w state64_t \<Rightarrow> 'w state64_t result" where
  "mon_open64 H s =
     bindE (c_string (mem64 s) (unat (low (gpr64 s ! R_a0)))) (\<lambda>path.
     case os_open H path (remapIOFlags (low (gpr64 s ! R_a1))) (os64 s) of (fd, w) \<Rightarrow>
       Inr (wr64 R_v0 (scast fd) (s\<lparr>os64 := w\<rparr>)))"

definition mon_read64 :: "'w host64 \<Rightarrow> 'w state64_t \<Rightarrow> 'w state64_t result" where
  "mon_read64 H s =
     (let fd = low (gpr64 s ! R_a0); nr = low (gpr64 s ! R_a2)
      in bindE (per_page_rdwr_read (host_os.truncate H) (mem64 s) fd (gpr64 s ! R_a1) (scast nr) (os64 s)) (\<lambda>(m, rc, w).
         Inr (wr64 R_v0 (scast rc) (s\<lparr>mem64 := m, os64 := w\<rparr>))))"

definition mon_write64 :: "'w host64 \<Rightarrow> 'w state64_t \<Rightarrow> 'w state64_t result" where
  "mon_write64 H s =
     (let fd = low (gpr64 s ! R_a0); nr = low (gpr64 s ! R_a2)
      in bindE (per_page_rdwr_write (host_os.truncate H) (mem64 s) fd (gpr64 s ! R_a1) (scast nr) (os64 s)) (\<lambda>(rc, w).
         Inr (wr64 R_v0 (scast rc) (s\<lparr>os64 := w\<rparr>))))"

definition mon_close64 :: "'w host64 \<Rightarrow> 'w state64_t \<Rightarrow> 'w state64_t result" where
  "mon_close64 H s =
     (let fd = low (gpr64 s ! R_a0)
      in if 2 <s fd then (case os_close H fd (os64 s) of (rc, w) \<Rightarrow> Inr (wr64 R_v0 (scast rc) (s\<lparr>os64 := w\<rparr>)))
         else Inr (wr64 R_v0 0 s))"

definition mon_fstat64 :: "bool \<Rightarrow> 'w host64 \<Rightarrow> 'w state64_t \<Rightarrow> 'w state64_t result" where
  "mon_fstat64 EL H s =
     (case os_fstat H (low (gpr64 s ! R_a0)) (os64 s) of (st, rc) \<Rightarrow>
       (case st of
          None \<Rightarrow> Inl Undefined
        | Some st \<Rightarrow>
            bindE (foldE (\<lambda>(off, bs) m. store_bytes m (unat (low (gpr64 s ! R_a1)) + off) bs) (stat32_fields EL st) (mem64 s)) (\<lambda>m.
            Inr (wr64 R_v0 (scast rc) (s\<lparr>mem64 := m\<rparr>)))))"

definition store_words :: "bool \<Rightarrow> u64 list \<Rightarrow> nat \<Rightarrow> memory \<Rightarrow> memory result" where
  "store_words EL vs a m = store_bytes m a (concat (map (\<lambda>v. to_le 4 (bswap EL (ucast v :: u32))) vs))"

definition mon_gettimeofday64 :: "bool \<Rightarrow> clock_globals \<Rightarrow> 'w host64 \<Rightarrow> 'w state64_t \<Rightarrow> 'w state64_t result" where
  "mon_gettimeofday64 EL C H s =
     (let uptr = low (gpr64 s ! R_a0); mips = icountMIPS C * 1000000
      in bindE
        (if enClockFuncts C then Inr (os_gettimeofday H (os64 s))
         else definedE (mips \<noteq> 0) (Inr (icnt64 s div mips, ((icnt64 s mod mips) * 1000000) div mips))) (\<lambda>(sec, usec).
        bindE (store_words EL [sec, usec] (unat uptr) (mem64 s)) (\<lambda>m.
        Inr (wr64 R_v0 0 (s\<lparr>mem64 := m\<rparr>)))))"

definition mon_times64 :: "bool \<Rightarrow> clock_globals \<Rightarrow> 'w host64 \<Rightarrow> 'w state64_t \<Rightarrow> 'w state64_t result" where
  "mon_times64 EL C H s =
     (let uptr = low (gpr64 s ! R_a0); mips = icountMIPS C * 1000000
      in bindE
        (if enClockFuncts C then
           (case os_times H (os64 s) of (rc, ts) \<Rightarrow> Inr (wr64 R_v0 (set_low (gpr64 s ! R_v0) rc) s, ts))
         else definedE (mips \<noteq> 0) (Inr (s, [(icnt64 s div mips) * 100, 0, 0, 0]))) (\<lambda>(s1, ts).
        bindE (store_words EL ts (unat uptr) (mem64 s1)) (\<lambda>m. Inr (s1\<lparr>mem64 := m\<rparr>))))"

definition getarg64 :: "bool \<Rightarrow> globals \<Rightarrow> u32 \<Rightarrow> nat \<Rightarrow> memory \<Rightarrow> memory result" where
  "getarg64 EL G a0 i m =
     (let arrayAddr = a0 + 4 * of_nat i
      in bindE (deref m (ucast arrayAddr)) (\<lambda>p.
         definedE (i < length (sysArgv G)) (strcpy m (unat (bswap EL p :: u32)) (sysArgv G ! i))))"

definition mon_getargs64 :: "bool \<Rightarrow> globals \<Rightarrow> 'w state64_t \<Rightarrow> 'w state64_t result" where
  "mon_getargs64 EL G s =
     bindE (foldE (getarg64 EL G (low (gpr64 s ! R_a0))) [0..<nat (min (int MARGS) (sysArgc G))] (mem64 s)) (\<lambda>m.
     Inr (wr64 R_v0 (word_of_int (sysArgc G)) (s\<lparr>mem64 := m\<rparr>)))"

definition mon_getcwd64 :: "'w host64 \<Rightarrow> 'w state64_t \<Rightarrow> 'w state64_t result" where
  "mon_getcwd64 H s =
     (case os_getcwd H (ucast (low (gpr64 s ! R_a1))) (os64 s) of (bs, w) \<Rightarrow>
        bindE (store_bytes (mem64 s) (unat (low (gpr64 s ! R_a0))) bs) (\<lambda>m.
        Inr (wr64 R_v0 (gpr64 s ! R_a0) (s\<lparr>mem64 := m, os64 := w\<rparr>))))"

definition mon_chdir64 :: "'w host64 \<Rightarrow> 'w state64_t \<Rightarrow> 'w state64_t result" where
  "mon_chdir64 H s =
     bindE (c_string (mem64 s) (unat (low (gpr64 s ! R_a0)))) (\<lambda>path.
     case os_chdir H path (os64 s) of (rc, w) \<Rightarrow> Inr (wr64 R_v0 (scast rc) (s\<lparr>os64 := w\<rparr>)))"

definition mon_get_mem_info64 :: "bool \<Rightarrow> 'w state64_t \<Rightarrow> 'w state64_t result" where
  "mon_get_mem_info64 EL s =
     (let a0 = (ucast (low (gpr64 s ! R_a0)) :: u64)
      in bindE (deref_set (mem64 s) (a0 + 0) (bswap EL K1SIZE)) (\<lambda>m.
         bindE (deref_set m (a0 + 4) (0 :: u32)) (\<lambda>m'.
         bindE (deref_set m' (a0 + 8) (0 :: u32)) (\<lambda>m''.
         Inr (wr64 R_v0 0 (s\<lparr>mem64 := m''\<rparr>))))))"

definition monitor_call64 :: "bool \<Rightarrow> globals \<Rightarrow> clock_globals \<Rightarrow> 'w host64 \<Rightarrow> nat \<Rightarrow> 'w state64_t \<Rightarrow> 'w state64_t result" where
  "monitor_call64 EL G C H reason s =
     (if reason = 6 then mon_open64 H s
      else if reason = 7 then mon_read64 H s
      else if reason = 8 then mon_write64 H s
      else if reason = 9 then
        (case os_lseek H (low (gpr64 s ! R_a0)) (gpr64 s ! R_a1) (low (gpr64 s ! R_a2)) (os64 s) of (rc, w) \<Rightarrow>
           Inr (wr64 R_v0 rc (s\<lparr>os64 := w\<rparr>)))
      else if reason = 10 then mon_close64 H s
      else if reason = 13 then mon_fstat64 EL H s
      else if reason = 33 then mon_gettimeofday64 EL C H s
      else if reason = 34 then mon_times64 EL C H s
      else if reason = 35 then mon_getargs64 EL G s
      else if reason = 37 then mon_getcwd64 H s
      else if reason = 38 then mon_chdir64 H s
      else if reason = 55 then mon_get_mem_info64 EL s
      else Inl (Exit (-1)))"

definition monitorBody64 :: "bool \<Rightarrow> globals \<Rightarrow> clock_globals \<Rightarrow> 'w host64 \<Rightarrow> u32 \<Rightarrow> 'w state64_t \<Rightarrow> 'w state64_t result" where
  "monitorBody64 EL G C H inst s =
     bindE (monitor_call64 EL G C H (monitor_reason inst) s) (\<lambda>s1. Inr (s1\<lparr>pc64 := gpr64 s1 ! 31\<rparr>))"

subsection \<open>Dispatch\<close>

record 'w env64 =
  little64 :: bool
  fpu64 :: fpu
  globs64 :: globals
  clock64 :: clock_globals
  host64_of :: "'w host64"

definition jr64 :: "('w state64_t \<Rightarrow> 'w state64_t result) \<Rightarrow> u32 \<Rightarrow> 'w state64_t \<Rightarrow> 'w state64_t result" where
  "jr64 k inst s =
     (let jaddr = low (gpr64 s ! inst_rs inst)
      in bindE (k (pc_inc64 s)) (\<lambda>s1. Inr (s1\<lparr>pc64 := ucast jaddr\<rparr>)))"

definition jalr64 :: "('w state64_t \<Rightarrow> 'w state64_t result) \<Rightarrow> u32 \<Rightarrow> 'w state64_t \<Rightarrow> 'w state64_t result" where
  "jalr64 k inst s =
     (let jaddr = low (gpr64 s ! inst_rs inst)
      in bindE (k (pc_inc64 (wr64 31 (pc64 s + 8) s))) (\<lambda>s1. Inr (s1\<lparr>pc64 := ucast jaddr\<rparr>)))"

definition exec_jtype64 :: "('w state64_t \<Rightarrow> 'w state64_t result) \<Rightarrow> u32 \<Rightarrow> 'w state64_t \<Rightarrow> 'w state64_t result" where
  "exec_jtype64 k inst s =
     (let jaddr = push_bit 2 (inst AND (push_bit 26 1 - 1)); opcode = inst_opcode inst
      in bindE
        (if opcode = 0x2 then Inr (pc_inc64 s)
         else if opcode = 0x3 then Inr (pc_inc64 (wr64 31 (pc64 s + 8) s))
         else Inl (Exit (-1)))
        (\<lambda>s1. let target = jaddr OR low (pc64 s1 AND NOT (push_bit 28 1 - 1))
              in bindE (k s1) (\<lambda>s2. Inr (s2\<lparr>pc64 := ucast target\<rparr>))))"

definition div64 :: "u32 \<Rightarrow> 'w state64_t \<Rightarrow> 'w state64_t result" where
  "div64 inst s =
     (let a = gpr64 s ! inst_rs inst; b = gpr64 s ! inst_rt inst
      in if b \<noteq> 0
         then definedE (\<not> (a = push_bit 63 1 \<and> b = - 1))
           (Inr (pc_inc64 (s\<lparr>lo64 := word_of_int (sint a sdiv sint b), hi64 := word_of_int (sint a smod sint b)\<rparr>)))
         else Inr (pc_inc64 s))"

text \<open>The test is on the whole register, the division on its low half.\<close>

definition divu64 :: "u32 \<Rightarrow> 'w state64_t \<Rightarrow> 'w state64_t result" where
  "divu64 inst s =
     (let a = gpr64 s ! inst_rs inst; b = gpr64 s ! inst_rt inst
      in if b \<noteq> 0
         then definedE (low b \<noteq> 0) (Inr (pc_inc64 (s\<lparr>lo64 := ucast (low a div low b), hi64 := ucast (low a mod low b)\<rparr>)))
         else Inr (pc_inc64 s))"

definition exec_rtype64 :: "'w env64 \<Rightarrow> ('w state64_t \<Rightarrow> 'w state64_t result) \<Rightarrow> u32 \<Rightarrow> 'w state64_t \<Rightarrow> 'w state64_t result" where
  "exec_rtype64 E k inst s =
     (let funct = inst_funct inst; sa = inst_sa inst; a = gpr64 s ! inst_rs inst; b = gpr64 s ! inst_rt inst;
          sh = unat (gpr64 s ! inst_rs inst AND 0x1f); rd = (\<lambda>v. Inr (pc_inc64 (wr64 (inst_rd inst) v s)))
      in if funct = 0x00 then rd (push_bit sa b)
         else if funct = 0x01 then Inr (movci64 inst s)
         else if funct = 0x02 then rd (ucast (drop_bit sa (low b)))
         else if funct = 0x03 then rd (signed_drop_bit sa b)
         else if funct = 0x04 then rd (push_bit sh b)
         else if funct = 0x05 then monitorBody64 (little64 E) (globs64 E) (clock64 E) (host64_of E) inst s
         else if funct = 0x06 then rd (ucast (drop_bit sh (low b)))
         else if funct = 0x07 then rd (signed_drop_bit sh b)
         else if funct = 0x08 then jr64 k inst s
         else if funct = 0x09 then jalr64 k inst s
         else if funct = 0x0C then Inr (s\<lparr>brk64 := 1\<rparr>)
         else if funct = 0x0D then Inr (s\<lparr>brk64 := 1\<rparr>)
         else if funct = 0x0f then Inr (pc_inc64 s)
         else if funct = 0x10 then rd (hi64 s)
         else if funct = 0x11 then Inr (pc_inc64 (s\<lparr>hi64 := a\<rparr>))
         else if funct = 0x12 then rd (lo64 s)
         else if funct = 0x13 then Inr (pc_inc64 (s\<lparr>lo64 := a\<rparr>))
         else if funct = 0x18 then Inr (pc_inc64 (set_hilo (a * b) s))
         else if funct = 0x19 then
           (let y = ucast (low a) * ucast (low b) :: u64
            in Inr (pc_inc64 (s\<lparr>lo64 := set_low (lo64 s) (low y), hi64 := set_low (hi64 s) (low (drop_bit 32 y))\<rparr>)))
         else if funct = 0x1A then div64 inst s
         else if funct = 0x1B then divu64 inst s
         else if funct = 0x20 then Inl Abort
         else if funct = 0x21 then rd (u32toi64 (low a + low b))
         else if funct = 0x22 then Inl (Exit (-1))
         else if funct = 0x23 then rd (u32toi64 (low a - low b))
         else if funct = 0x24 then rd (a AND b)
         else if funct = 0x25 then rd (a OR b)
         else if funct = 0x26 then rd (a XOR b)
         else if funct = 0x27 then rd (NOT (a OR b))
         else if funct = 0x2A then rd (of_bool (a <s b))
         else if funct = 0x2B then rd (of_bool (low a < low b))
         else if funct = 0x0B then rd (if b \<noteq> 0 then a else gpr64 s ! inst_rd inst)
         else if funct = 0x0A then rd (if b = 0 then a else gpr64 s ! inst_rd inst)
         else if funct = 0x34 then (if a = b then Inl (Exit (-1)) else Inr (pc_inc64 s))
         else Inl (Exit (-1)))"

definition exec_coproc0_64 :: "u32 \<Rightarrow> 'w state64_t \<Rightarrow> 'w state64_t result" where
  "exec_coproc0_64 inst s =
     bindE
       (if inst_rs inst = 0x0 then Inr (wr64 (inst_rt inst) (ucast (cpr0_64 s ! inst_rd inst)) s)
        else if inst_rs inst = 0x4 then Inr (s\<lparr>cpr0_64 := (cpr0_64 s)[inst_rd inst := low (gpr64 s ! inst_rt inst)]\<rparr>)
        else Inl (Exit (-1)))
       (\<lambda>s1. Inr (pc_inc64 s1))"

definition exec_itype64 :: "'w env64 \<Rightarrow> ('w state64_t \<Rightarrow> 'w state64_t result) \<Rightarrow> u32 \<Rightarrow> 'w state64_t \<Rightarrow> 'w state64_t result" where
  "exec_itype64 E k inst s =
     (let opcode = inst_opcode inst; EL = little64 E; a = gpr64 s ! inst_rs inst;
          uimm64 = (ucast (uimm32 inst) :: u64); simm64 = (scast (simm32 inst) :: u64);
          rt = (\<lambda>v. Inr (pc_inc64 (wr64 (inst_rt inst) v s)))
      in if opcode = 0x01 then bgez_bltz64 k inst s
         else if opcode = 0x04 then branch64 k beq inst s
         else if opcode = 0x05 then branch64 k bne inst s
         else if opcode = 0x06 then branch64 k blez inst s
         else if opcode = 0x07 then branch64 k bgtz inst s
         else if opcode = 0x08 then rt (a + simm64)
         else if opcode = 0x09 then rt (a + simm64)
         else if opcode = 0x0A then rt (of_bool (a <s simm64))
         else if opcode = 0x0B then rt (of_bool (a < simm64))
         else if opcode = 0x0c then rt (a AND uimm64)
         else if opcode = 0x0d then rt (a OR uimm64)
         else if opcode = 0x0e then rt (a XOR uimm64)
         else if opcode = 0x0F then rt (u32toi64 (push_bit 16 (uimm32 inst)))
         else if opcode = 0x14 then branch64 k beql inst s
         else if opcode = 0x16 then branch64 k blezl inst s
         else if opcode = 0x15 then branch64 k bnel inst s
         else if opcode = 0x17 then branch64 k bgtzl inst s
         else if opcode = 0x20 then lb64 inst s
         else if opcode = 0x21 then lh64 EL inst s
         else if opcode = 0x22 then lwl64 EL inst s
         else if opcode = 0x23 then lw64 EL inst s
         else if opcode = 0x24 then lbu64 inst s
         else if opcode = 0x25 then lhu64 EL inst s
         else if opcode = 0x26 then lwr64 EL inst s
         else if opcode = 0x28 then sb64 inst s
         else if opcode = 0x29 then sh64 EL inst s
         else if opcode = 0x2a then swl64 EL inst s
         else if opcode = 0x2B then sw64 EL inst s
         else if opcode = 0x2e then swr64 EL inst s
         else if opcode = 0x31 then lwc1_64 EL inst s
         else if opcode = 0x35 then ldc1_64 EL inst s
         else if opcode = 0x39 then swc1_64 EL inst s
         else if opcode = 0x3D then sdc1_64 EL inst s
         else Inl (Exit (-1)))"

definition exec_insn64 :: "'w env64 \<Rightarrow> ('w state64_t \<Rightarrow> 'w state64_t result) \<Rightarrow> u32 \<Rightarrow> 'w state64_t \<Rightarrow> 'w state64_t result" where
  "exec_insn64 E k inst s =
     (let opcode = inst_opcode inst
      in if opcode = 0 then exec_rtype64 E k inst s
         else if opcode = 0x1c then execSpecial2_64 inst s
         else if opcode = 0x1f then execSpecial3_64 inst s
         else if opcode div 2 = 1 then exec_jtype64 k inst s
         else if opcode = 0x10 then exec_coproc0_64 inst s
         else if opcode = 0x11 then execCoproc1_64 (fpu64 E) k inst s
         else if opcode = 0x13 then execCoproc1x_64 (little64 E) (fpu64 E) inst s
         else if opcode = 0x12 then Inl (Exit (-1))
         else if opcode = 0x30 then lw64 (little64 E) inst s
         else if opcode = 0x38 then sc64 (little64 E) inst s
         else exec_itype64 E k inst s)"

definition fetch64 :: "'w env64 \<Rightarrow> 'w state64_t \<Rightarrow> u32 result" where
  "fetch64 E s = bindE (mem_get (mem64 s) (pc64 s)) (\<lambda>w. Inr (bswap (little64 E) w))"

fun execMips64 :: "'w env64 \<Rightarrow> nat \<Rightarrow> 'w state64_t \<Rightarrow> 'w state64_t result" where
  "execMips64 E 0 s = Inl OutOfFuel"
| "execMips64 E (Suc n) s =
     bindE (fetch64 E s) (\<lambda>inst. exec_insn64 E (execMips64 E n) inst (s\<lparr>icnt64 := icnt64 s + 1\<rparr>))"

end
