(* ===== verification/Interp64_Wf.thy ===== *)
theory Interp64_Wf
  imports Interp64
begin

text \<open>
  \<open>src/interpret64.cc\<close>: every instruction, monitor call and delay slot keeps the sizes of the register
  files (\<open>wf64\<close>), so that no register access of a later instruction lies outside its array.
\<close>

named_theorems wf64_intros \<open>operations of the 64 bit interpreter that keep the sizes of the register files\<close>

lemma wf64_updates [simp]:
  "wf64 (wr64 r v s) = wf64 s" "wf64 (pc_inc64 s) = wf64 s" "wf64 (s\<lparr>pc64 := p\<rparr>) = wf64 s" "wf64 (s\<lparr>lo64 := x\<rparr>) = wf64 s"
  "wf64 (s\<lparr>hi64 := x\<rparr>) = wf64 s" "wf64 (s\<lparr>mem64 := m\<rparr>) = wf64 s" "wf64 (s\<lparr>os64 := w\<rparr>) = wf64 s" "wf64 (s\<lparr>icnt64 := n\<rparr>) = wf64 s"
  "wf64 (s\<lparr>brk64 := b\<rparr>) = wf64 s" "wf64 (s\<lparr>cpr1_64 := (cpr1_64 s)[i := v32]\<rparr>) = wf64 s"
  "wf64 (s\<lparr>cpr1_64 := (cpr1_64 s)[i := v32, j := w32]\<rparr>) = wf64 s"
  "wf64 (s\<lparr>cpr0_64 := (cpr0_64 s)[i := v32]\<rparr>) = wf64 s" "wf64 (s\<lparr>fcr1_64 := (fcr1_64 s)[i := v32]\<rparr>) = wf64 s"
  "wf64 (set_hilo y s) = wf64 s" "wf64 (set_hilo_u y s) = wf64 s"
  by (simp_all add: wf64_def wr64_def pc_inc64_def set_hilo_def set_hilo_u_def)

lemma on_ok_pc_inc: "on_ok wf64 r \<Longrightarrow> on_ok wf64 (bindE r (\<lambda>s. Inr (pc_inc64 s)))"
  by (cases r) simp_all

lemma on_ok_values: "wf64 s \<Longrightarrow> on_ok wf64 (Inr s)" "on_ok wf64 (Inl e)"
  by simp_all

lemma on_ok_option: "on_ok P r \<Longrightarrow> (\<And>x. on_ok P (f x)) \<Longrightarrow> on_ok P (case q of None \<Rightarrow> r | Some x \<Rightarrow> f x)"
  by (cases q) simp_all

lemma fp_sets_wf64 [wf64_intros]:
  assumes "wf64 s"
  shows "on_ok wf64 (set_sp64 i v s)" "on_ok wf64 (set_dp64 i w s)" "on_ok wf64 (move_sp64 c i j s)" "on_ok wf64 (move_dp64 c i j s)"
proof -
  show s: "on_ok wf64 (set_sp64 i v s)" "on_ok wf64 (set_dp64 i w s)" for v
    using assms by (simp_all add: set_sp64_def set_dp64_def definedE_def)
  have m: "on_ok wf64 (move_sp64 c i j t)" if "wf64 t" for t i j
    using that by (auto simp: move_sp64_def set_sp64_def definedE_def intro!: on_ok_bindE_any)
  show "on_ok wf64 (move_sp64 c i j s)" by (rule m [OF assms])
  show "on_ok wf64 (move_dp64 c i j s)" unfolding move_dp64_def using m [OF assms] by (rule on_ok_bindE) (rule m)
qed

lemmas wf64_rules = on_ok_values on_ok_if on_ok_assertE on_ok_definedE on_ok_pc_inc on_ok_bindE_any on_ok_prod on_ok_option

lemma mem_insns_wf64 [wf64_intros]:
  assumes "wf64 s"
  shows "on_ok wf64 (lw64 EL inst s)" "on_ok wf64 (lh64 EL inst s)" "on_ok wf64 (lb64 inst s)" "on_ok wf64 (lbu64 inst s)"
    "on_ok wf64 (lhu64 EL inst s)" "on_ok wf64 (sw64 EL inst s)" "on_ok wf64 (sc64 EL inst s)" "on_ok wf64 (sh64 EL inst s)"
    "on_ok wf64 (sb64 inst s)" "on_ok wf64 (swl64 EL inst s)" "on_ok wf64 (swr64 EL inst s)" "on_ok wf64 (lwl64 EL inst s)"
    "on_ok wf64 (lwr64 EL inst s)" "on_ok wf64 (ldc1_64 EL inst s)" "on_ok wf64 (sdc1_64 EL inst s)" "on_ok wf64 (lwc1_64 EL inst s)"
    "on_ok wf64 (swc1_64 EL inst s)" "on_ok wf64 (lxc1_w64 EL inst s)" "on_ok wf64 (lxc1_d64 EL inst s)"
  unfolding lw64_def lh64_def lb64_def lbu64_def lhu64_def sw64_def sc64_def sh64_def sb64_def swl64_def swr64_def lwl64_def lwr64_def
    ldc1_64_def sdc1_64_def lwc1_64_def swc1_64_def lxc1_w64_def lxc1_d64_def Let_def bindE_assoc bindE_simps
  by (intro wf64_intros wf64_rules; simp add: assms)+

lemma special_insns_wf64 [wf64_intros]:
  assumes "wf64 s"
  shows "on_ok wf64 (ext64 inst s)" "on_ok wf64 (ins64 inst s)" "on_ok wf64 (div64 inst s)" "on_ok wf64 (divu64 inst s)"
    "on_ok wf64 (exec_coproc0_64 inst s)" "wf64 (movci64 inst s)" "wf64 (mtc1_64 inst s)" "wf64 (mfc1_64 inst s)"
proof -
  show "on_ok wf64 (ext64 inst s)" "on_ok wf64 (ins64 inst s)" "on_ok wf64 (div64 inst s)" "on_ok wf64 (divu64 inst s)"
    "on_ok wf64 (exec_coproc0_64 inst s)"
    unfolding ext64_def ins64_def div64_def divu64_def exec_coproc0_64_def Let_def by (intro wf64_rules; simp add: assms)+
  show "wf64 (movci64 inst s)" "wf64 (mtc1_64 inst s)" "wf64 (mfc1_64 inst s)"
    by (simp_all add: movci64_def mtc1_64_def mfc1_64_def Let_def assms)
qed

lemma special_wf64 [wf64_intros]:
  assumes "wf64 s"
  shows "on_ok wf64 (execSpecial2_64 inst s)" "on_ok wf64 (execSpecial3_64 inst s)"
  unfolding execSpecial2_64_def execSpecial3_64_def Let_def by (intro wf64_intros wf64_rules; simp add: assms)+

lemma fp_insns_wf64 [wf64_intros]:
  assumes "wf64 s"
  shows "on_ok wf64 (c1xExec_s64 F inst s)" "on_ok wf64 (c1xExec_d64 F inst s)" "on_ok wf64 (truncw64 F inst s)" "on_ok wf64 (cvts64 F inst s)"
    "on_ok wf64 (cvtd64 F inst s)" "on_ok wf64 (fmovn64 inst s)" "on_ok wf64 (fmovz64 inst s)" "on_ok wf64 (fmovc64 inst s)"
    "on_ok wf64 (c64 F inst s)" "on_ok wf64 (do_fp_op64 F op inst s)"
  unfolding c1xExec_s64_def c1xExec_d64_def truncw64_def cvts64_def cvtd64_def fmovn64_def fmovz64_def fmovc64_def by_fmt_def movns64_def
    movnd64_def movzs64_def movzd64_def movcs64_def movcd64_def c64_def fpCmp_body64_def do_fp_op64_def execFP_s64_def execFP_d64_def Let_def
  by (intro wf64_intros wf64_rules; simp add: assms)+

lemma coproc1_wf64 [wf64_intros]:
  assumes "wf64 s"
  shows "on_ok wf64 (exec_fp_lowop64 F inst s)" "on_ok wf64 (execCoproc1x_64 EL F inst s)"
  unfolding exec_fp_lowop64_def execCoproc1x_64_def Let_def by (intro wf64_intros wf64_rules assms; simp add: assms)+

lemma monitor_wf64 [wf64_intros]:
  assumes "wf64 s"
  shows "on_ok wf64 (monitorBody64 EL G C H inst s)"
proof -
  have times: "on_ok (\<lambda>(t, _). wf64 t) (if c then (case os_times H (os64 s) of (rc, ts) \<Rightarrow> Inr (wr64 R_v0 (f rc) s, ts))
      else definedE b (Inr (s, ts')))" for c b f ts'
    using assms by (auto simp: definedE_def split: prod.splits)
  have "on_ok wf64 (mon_times64 EL C H s)"
    unfolding mon_times64_def Let_def by (rule on_ok_bindE [OF times]) (auto intro!: on_ok_bindE_any)
  moreover have "on_ok wf64 (mon_open64 H s)" "on_ok wf64 (mon_read64 H s)" "on_ok wf64 (mon_write64 H s)" "on_ok wf64 (mon_close64 H s)"
    "on_ok wf64 (mon_fstat64 EL H s)" "on_ok wf64 (mon_gettimeofday64 EL C H s)" "on_ok wf64 (mon_getargs64 EL G s)"
    "on_ok wf64 (mon_getcwd64 H s)" "on_ok wf64 (mon_chdir64 H s)" "on_ok wf64 (mon_get_mem_info64 EL s)"
    unfolding mon_open64_def mon_read64_def mon_write64_def mon_close64_def mon_fstat64_def mon_gettimeofday64_def mon_getargs64_def
      mon_getcwd64_def mon_chdir64_def mon_get_mem_info64_def Let_def
    by (intro wf64_rules; simp add: assms)+
  ultimately have "on_ok wf64 (monitor_call64 EL G C H r s)" for r
    unfolding monitor_call64_def by (intro on_ok_if) (auto simp: assms split: prod.splits)
  then show ?thesis unfolding monitorBody64_def by (rule on_ok_bindE) simp
qed

lemma branch_wf64:
  assumes "wf64 s" "\<And>t. wf64 t \<Longrightarrow> on_ok wf64 (k t)"
  shows "on_ok wf64 (branch64 k bt inst s)" "on_ok wf64 (jr64 k inst s)" "on_ok wf64 (jalr64 k inst s)" "on_ok wf64 (exec_jtype64 k inst s)"
proof -
  have k: "on_ok wf64 (bindE (k t) f)" if "wf64 t" "\<And>u. wf64 u \<Longrightarrow> on_ok wf64 (f u)" for t f
    by (rule on_ok_bindE [OF assms(2) [OF that(1)] that(2)])
  show "on_ok wf64 (branch64 k bt inst s)"
    unfolding branch64_def Let_def using assms(1) by (intro on_ok_bindE_any) (auto intro!: k)
  show "on_ok wf64 (jr64 k inst s)" "on_ok wf64 (jalr64 k inst s)"
    unfolding jr64_def jalr64_def Let_def using assms(1) by (auto intro!: k)
  show "on_ok wf64 (exec_jtype64 k inst s)"
    unfolding exec_jtype64_def Let_def using assms(1) by (auto intro!: k)
qed

lemma exec_insn64_wf:
  assumes "wf64 s" "\<And>t. wf64 t \<Longrightarrow> on_ok wf64 (k t)"
  shows "on_ok wf64 (exec_insn64 E k inst s)"
proof -
  note rules = wf64_intros [OF assms(1)] branch_wf64 [OF assms] on_ok_if on_ok_values assms(1)
  have "on_ok wf64 (exec_rtype64 E k inst s)"
    unfolding exec_rtype64_def Let_def by (intro rules; simp add: assms(1))
  moreover have "on_ok wf64 (exec_itype64 E k inst s)"
    unfolding exec_itype64_def bgez_bltz64_def Let_def by (intro rules; simp add: assms(1))
  moreover have "on_ok wf64 (execCoproc1_64 F k inst s)" for F
    unfolding execCoproc1_64_def Let_def by (intro rules)
  ultimately show ?thesis unfolding exec_insn64_def Let_def by (intro rules)
qed

lemma execMips64_wf:
  assumes "wf64 s"
  shows "on_ok wf64 (execMips64 E n s)"
  using assms
proof (induction n arbitrary: s)
  case (Suc n)
  then show ?case unfolding execMips64.simps by (intro on_ok_bindE_any exec_insn64_wf) simp_all
qed simp

end
