(* ===== verification/Interp64_Sim.thy ===== *)
theory Interp64_Sim
  imports Interp64
begin

text \<open>
  The 64 bit interpreter against the 32 bit one.  A state of the first represents a state of the
  second when its registers have the right low halves (\<open>sim64\<close>); it is canonical when every register
  is the sign extension of its low half, as the architecture requires of a 64 bit processor that runs
  32 bit code.
\<close>

subsection \<open>Low halves\<close>

definition canon :: "u64 \<Rightarrow> bool" where
  "canon x \<longleftrightarrow> x = scast (low x)"

lemma low_bit: "bit (low x) n \<longleftrightarrow> n < 32 \<and> bit x n"
  by (simp add: low_def bit_simps)

lemma scast_bit: "bit (scast v :: u64) n \<longleftrightarrow> n < 64 \<and> bit v (min 31 n)" for v :: u32
  by (auto simp: bit_simps)

lemma canon_high:
  assumes "canon x" "31 \<le> n" "n < 64"
  shows "bit x n \<longleftrightarrow> bit x 31"
proof -
  have "bit x n \<longleftrightarrow> bit (scast (low x) :: u64) n" using assms(1) unfolding canon_def by (rule arg_cong)
  also have "\<dots> \<longleftrightarrow> bit x 31" using assms(2,3) by (simp add: scast_bit low_bit)
  finally show ?thesis .
qed

lemma canonI:
  assumes "\<And>n. 31 < n \<Longrightarrow> n < 64 \<Longrightarrow> bit x n \<longleftrightarrow> bit x 31"
  shows "canon x"
  unfolding canon_def
proof (rule bit_word_eqI)
  fix n
  assume "n < LENGTH(64)"
  then show "bit x n \<longleftrightarrow> bit (scast (low x) :: u64) n"
    using assms [of n] by (cases "31 < n") (simp_all add: scast_bit low_bit min_def)
qed

lemma low_of_int: "low (word_of_int i) = word_of_int i"
  by (rule bit_word_eqI) (auto simp: low_bit bit_simps)

lemma word_as_int:
  fixes x :: "'a::len word"
  obtains i where "x = word_of_int i"
  by (metis word_of_int_uint)

lemma low_arith: "low (x + y) = low x + low y" "low (x - y) = low x - low y" "low (x * y) = low x * low y"
  by (cases x rule: word_as_int; cases y rule: word_as_int;
      simp only: low_of_int of_int_add [symmetric] of_int_diff [symmetric] of_int_mult [symmetric])+

lemma low_consts: "low 0 = 0" "low (numeral k) = numeral k" "low (of_bool b) = of_bool b"
  using low_of_int [of 0] low_of_int [of "numeral k"] low_of_int [of 1] by simp_all

lemma low_bits:
  "low (x AND y) = low x AND low y" "low (x OR y) = low x OR low y" "low (x XOR y) = low x XOR low y"
  "low (NOT x) = NOT (low x)" "low (push_bit n x) = push_bit n (low x)" "low (ucast v) = v" "low (scast v) = v"
  by (rule bit_word_eqI; auto simp: low_bit bit_simps)+

lemma low_set_low: "low (set_low x v) = v"
proof -
  have m: "(0xffffffff :: u64) = mask 32" by (simp add: mask_eq_exp_minus_1)
  show ?thesis unfolding set_low_def m by (rule bit_word_eqI) (auto simp: low_bit bit_simps simp del: mask_numeral)
qed

lemma sint_canon: "canon x \<Longrightarrow> sint x = sint (low x)"
  unfolding canon_def by (erule ssubst) (simp add: low_bits sint_up_scast is_up)

lemma uint_of_sint: "uint x = (if sint x < 0 then sint x + 2 ^ LENGTH('a) else sint x)" for x :: "'a::len word"
proof -
  have b: "- (2 ^ (LENGTH('a) - 1)) \<le> sint x" "sint x < 2 ^ (LENGTH('a) - 1)" by (simp_all add: sint_greater_eq sint_less)
  have p: "(2 :: int) ^ LENGTH('a) = 2 * 2 ^ (LENGTH('a) - 1)" by (cases "LENGTH('a)") simp_all
  have "(sint x + 2 ^ LENGTH('a)) mod 2 ^ LENGTH('a) = sint x + 2 ^ LENGTH('a)" if "sint x < 0"
    using that b p by (intro mod_pos_pos_trivial) simp_all
  moreover have "sint x mod 2 ^ LENGTH('a) = sint x" if "\<not> sint x < 0"
    using that b p by (intro mod_pos_pos_trivial) simp_all
  ultimately show ?thesis by (simp add: uint_sint take_bit_eq_mod)
qed

lemma canon_compare:
  assumes "canon x" "canon y"
  shows "x = y \<longleftrightarrow> low x = low y" "x <s y \<longleftrightarrow> low x <s low y" "x < y \<longleftrightarrow> low x < low y"
proof -
  show "x = y \<longleftrightarrow> low x = low y" using assms unfolding canon_def by metis
  show "x <s y \<longleftrightarrow> low x <s low y" using assms by (simp add: word_sless_alt sint_canon)
  have "-(2 ^ 31) \<le> sint (low x)" "sint (low x) < 2 ^ 31" "-(2 ^ 31) \<le> sint (low y)" "sint (low y) < 2 ^ 31"
    using sint_greater_eq [of "low x"] sint_less [of "low x"] sint_greater_eq [of "low y"] sint_less [of "low y"] by simp_all
  then show "x < y \<longleftrightarrow> low x < low y"
    using assms by (simp add: word_less_def uint_of_sint sint_canon)
qed

lemma low_signed_drop_bit:
  assumes "canon x" "n < 32"
  shows "low (signed_drop_bit n x) = signed_drop_bit n (low x)"
proof (rule bit_word_eqI)
  fix k
  assume "k < LENGTH(32)"
  moreover have "bit x (n + k) = bit x 31" if "31 \<le> n + k" "k < 32"
    using canon_high [OF assms(1), of "n + k"] that assms(2) by simp
  ultimately show "bit (low (signed_drop_bit n x)) k = bit (signed_drop_bit n (low x)) k"
    using assms(2) by (auto simp: low_bit bit_signed_drop_bit_iff)
qed

lemma canon_bitwise:
  assumes "canon x" "canon y"
  shows "canon (x AND y)" "canon (x OR y)" "canon (x XOR y)"
proof -
  have "bit x n = bit x 31" "bit y n = bit y 31" if "31 < n" "n < 64" for n
    using canon_high [OF assms(1), of n] canon_high [OF assms(2), of n] that by simp_all
  then show "canon (x AND y)" "canon (x OR y)" "canon (x XOR y)"
    by (auto intro!: canonI simp: bit_simps)
qed

lemma canon_not:
  assumes "canon x"
  shows "canon (NOT x)"
proof (rule canonI)
  fix n :: nat
  assume "31 < n" "n < 64"
  then show "bit (NOT x) n = bit (NOT x) 31" using canon_high [OF assms, of n] by (simp add: bit_not_iff)
qed

lemma canon_sra:
  assumes "canon x"
  shows "canon (signed_drop_bit n x)"
proof (rule canonI)
  have "bit x k = bit x 31" if "31 \<le> k" "k < 64" for k using canon_high [OF assms, of k] that by simp
  note h = this
  fix k :: nat assume k: "31 < k" "k < 64"
  show "bit (signed_drop_bit n x) k = bit (signed_drop_bit n x) 31"
    using h [of "n + k"] h [of "n + 31"] h [of 63] k by (auto simp: bit_signed_drop_bit_iff)
qed

lemma canon_scast [simp]: "canon (scast v)" "canon (u32toi64 v)" "canon (of_bool b)" "canon 0" for v :: u32
  by (simp_all add: canon_def low_bits low_consts u32toi64_def)

lemmas low_simps [simp] = low_arith low_consts low_bits low_set_low

lemma and_all_ones [simp]: "x AND 0xffffffff = x" for x :: u32
proof -
  have "(0xffffffff :: u32) = - 1" by simp
  then show ?thesis by (simp only: and.right_neutral)
qed

lemma low_u32toi64 [simp]: "low (u32toi64 v) = v"
  by (simp add: u32toi64_def)

text \<open>A zero extended 16 bit immediate keeps the upper bits of a register.\<close>

lemma uimm_high: "16 \<le> n \<Longrightarrow> \<not> bit (ucast (uimm32 inst) :: u64) n"
proof -
  have m: "(push_bit 16 1 - 1 :: u32) = mask 16" by (simp add: mask_eq_exp_minus_1)
  show "16 \<le> n \<Longrightarrow> \<not> bit (ucast (uimm32 inst) :: u64) n"
    unfolding uimm32_def m by (auto simp: bit_simps simp del: mask_numeral)
qed

lemma canon_uimm:
  assumes "canon x"
  shows "canon (x AND ucast (uimm32 inst))" "canon (x OR ucast (uimm32 inst))" "canon (x XOR ucast (uimm32 inst))"
proof -
  define u :: u64 where "u = ucast (uimm32 inst)"
  have x: "bit x n = bit x 31" if "31 < n" "n < 64" for n using canon_high [OF assms, of n] that by simp
  have u: "\<not> bit u n" if "16 \<le> n" for n unfolding u_def using that by (rule uimm_high)
  have "canon (x AND u)" by (rule canonI) (simp only: bit_and_iff x u)
  moreover have "canon (x OR u)" by (rule canonI) (simp only: bit_or_iff x, simp add: u)
  moreover have "canon (x XOR u)" by (rule canonI) (simp only: bit_xor_iff x, simp add: u)
  ultimately have "canon (x AND u)" "canon (x OR u)" "canon (x XOR u)" .
  then show "canon (x AND ucast (uimm32 inst))" "canon (x OR ucast (uimm32 inst))" "canon (x XOR ucast (uimm32 inst))"
    by (simp_all only: u_def)
qed

subsection \<open>The simulation relation\<close>

definition sim64 :: "'w state64_t \<Rightarrow> 'w state_t \<Rightarrow> bool" where
  "sim64 S s \<longleftrightarrow> length (gpr64 S) = 32 \<and> pc64 S = ucast (pc s) \<and> gpr s = map low (gpr64 S) \<and> lo s = low (lo64 S)
     \<and> hi s = low (hi64 S) \<and> cpr0 s = cpr0_64 S \<and> cpr1 s = cpr1_64 S \<and> fcr1 s = fcr1_64 S \<and> icnt s = icnt64 S
     \<and> brk s = brk64 S \<and> mem s = mem64 S \<and> os s = os64 S"

definition canon64 :: "'w state64_t \<Rightarrow> bool" where
  "canon64 S \<longleftrightarrow> list_all canon (gpr64 S) \<and> canon (lo64 S) \<and> canon (hi64 S)"

lemma sim64_gpr: "sim64 S s \<Longrightarrow> r < 32 \<Longrightarrow> gpr s ! r = low (gpr64 S ! r)"
  by (simp add: sim64_def)

lemma canon64_gpr: "sim64 S s \<Longrightarrow> canon64 S \<Longrightarrow> r < 32 \<Longrightarrow> canon (gpr64 S ! r)"
  by (simp add: sim64_def canon64_def list_all_length)

lemma ucast_inc: "unat p + 4 < 2 ^ 32 \<Longrightarrow> ucast (p + 4) = (ucast p + 4 :: u64)" for p :: u32
  by (simp add: word_unat_eq_iff unat_word_ariths)

lemma sim64_write:
  assumes "sim64 S s" "unat (pc s) + 4 < 2 ^ 32" "v = low V"
  shows "sim64 (pc_inc64 (wr64 r V S)) (histo_inc h (pc_inc (wr_gpr r v s)))"
  using assms ucast_inc [of "pc s"] by (simp add: sim64_def pc_inc64_def wr64_def histo_inc_def pc_inc_def wr_gpr_def map_update)

lemma sim64_hilo:
  assumes "sim64 S s" "unat (pc s) + 4 < 2 ^ 32" "l = low L" "h = low H"
  shows "sim64 (pc_inc64 (S\<lparr>lo64 := L, hi64 := H\<rparr>)) (histo_inc i (pc_inc (s\<lparr>lo := l, hi := h\<rparr>)))"
    "sim64 (pc_inc64 (S\<lparr>lo64 := L\<rparr>)) (histo_inc i (pc_inc (s\<lparr>lo := l\<rparr>)))"
    "sim64 (pc_inc64 (S\<lparr>hi64 := H\<rparr>)) (histo_inc i (pc_inc (s\<lparr>hi := h\<rparr>)))"
    "sim64 (pc_inc64 S) (histo_inc i (pc_inc s))"
  using assms ucast_inc [of "pc s"] by (simp_all add: sim64_def pc_inc64_def histo_inc_def pc_inc_def)

text \<open>The integer instructions without memory access, traps and division.\<close>

definition int_insn :: "u32 \<Rightarrow> bool" where
  "int_insn inst \<longleftrightarrow>
     inst_opcode inst = 0 \<and> inst_funct inst \<in> {0x00, 0x02, 0x03, 0x04, 0x06, 0x07, 0x0f, 0x10, 0x11, 0x12, 0x13, 0x18, 0x19,
       0x21, 0x23, 0x24, 0x26, 0x27, 0x2A, 0x2B, 0x0B, 0x0A}
     \<or> inst_opcode inst = 0 \<and> inst_funct inst = 0x25 \<and> inst_rd inst \<noteq> 0
     \<or> inst_opcode inst \<in> {0x08, 0x09, 0x0A, 0x0B, 0x0c, 0x0d, 0x0e, 0x0F}"

lemma low_shamt: "unat (x AND 0x1f :: u64) = unat (low x AND 0x1f)"
proof -
  have "(0x1f :: u64) = mask 5" "(0x1f :: u32) = mask 5" by (simp_all add: mask_eq_exp_minus_1)
  then show ?thesis
    by (simp only: take_bit_eq_mask [symmetric] unat_take_bit) (simp add: low_def unsigned_ucast_eq take_bit_eq_mod mod_mod_cancel)
qed

lemma rtype_low:
  assumes "sim64 S s" "canon64 S" "unat (pc s) + 4 < 2 ^ 32"
    and "inst_funct inst \<in> {0x00, 0x02, 0x03, 0x04, 0x06, 0x07, 0x0f, 0x10, 0x11, 0x12, 0x13, 0x18, 0x19,
       0x21, 0x23, 0x24, 0x26, 0x27, 0x2A, 0x2B, 0x0B, 0x0A} \<or> inst_funct inst = 0x25 \<and> inst_rd inst \<noteq> 0"
  shows "\<exists>S' s'. exec_rtype64 E k inst S = Inr S' \<and> exec_rtype E' k' inst s = Inr s' \<and> sim64 S' s'"
proof -
  have g: "gpr s ! inst_rs inst = low (gpr64 S ! inst_rs inst)" "gpr s ! inst_rt inst = low (gpr64 S ! inst_rt inst)"
    "gpr s ! inst_rd inst = low (gpr64 S ! inst_rd inst)" "lo s = low (lo64 S)" "hi s = low (hi64 S)"
    using assms(1) by (simp_all add: sim64_gpr) (simp_all add: sim64_def)
  have c: "canon (gpr64 S ! inst_rs inst)" "canon (gpr64 S ! inst_rt inst)"
    using assms(1,2) by (simp_all add: canon64_gpr)
  have z: "(0 :: u64) = scast (0 :: u32)" by simp
  have p: "scast (low (gpr64 S ! inst_rs inst)) = gpr64 S ! inst_rs inst" "scast (low (gpr64 S ! inst_rt inst)) = gpr64 S ! inst_rt inst"
    using c by (simp_all add: canon_def)
  have b0: "gpr64 S ! inst_rt inst = 0 \<longleftrightarrow> low (gpr64 S ! inst_rt inst) = 0"
    using canon_compare(1) [OF c(2) canon_scast(4)] by simp
  note w = sim64_write [OF assms(1,3)] sim64_hilo [OF assms(1,3)]
  show ?thesis
    using assms(4)
    by (elim disjE insertE conjE emptyE;
        simp add: exec_rtype64_def exec_rtype_def Let_def alu_insn_defs shamt_def low_shamt set_hilo_def low_def [symmetric] g p b0
          canon_compare [OF c] low_signed_drop_bit [OF c(2)] w cong: if_cong)
qed

lemma scast_simm32: "canon (scast (simm32 inst))"
  by simp

lemma itype64_low:
  assumes "sim64 S s" "canon64 S" "unat (pc s) + 4 < 2 ^ 32"
    and "inst_opcode inst \<in> {0x08, 0x09, 0x0A, 0x0B, 0x0c, 0x0d, 0x0e, 0x0F}"
  shows "\<exists>S' s'. exec_itype64 E k inst S = Inr S' \<and> exec_itype E' k' inst s = Inr s' \<and> sim64 S' s'"
proof -
  have g: "gpr s ! inst_rs inst = low (gpr64 S ! inst_rs inst)" using assms(1) by (simp add: sim64_gpr)
  have c: "canon (gpr64 S ! inst_rs inst)" using assms(1,2) by (simp add: canon64_gpr)
  note w = sim64_write [OF assms(1,3)]
  show ?thesis
    using assms(4)
    by (elim insertE emptyE;
        simp add: exec_itype64_def exec_itype_def Let_def alu_insn_defs g canon_compare [OF c scast_simm32] w)
qed

text \<open>One step of an integer instruction, from a canonical state.\<close>

lemma int_insn_low:
  assumes "sim64 S s" "canon64 S" "unat (pc s) + 4 < 2 ^ 32" "int_insn inst"
  shows "\<exists>S' s'. exec_insn64 E k inst S = Inr S' \<and> exec_insn E' k' inst s = Inr s' \<and> sim64 S' s'"
proof (cases "inst_opcode inst = 0")
  case True
  with assms(4) show ?thesis
    unfolding exec_insn64_def exec_insn_def Let_def if_P [OF True] by (intro rtype_low assms(1-3)) (auto simp: int_insn_def)
next
  case False
  with assms(4) have o: "inst_opcode inst \<in> {0x08, 0x09, 0x0A, 0x0B, 0x0c, 0x0d, 0x0e, 0x0F}" by (auto simp: int_insn_def)
  then have "exec_insn64 E k inst S = exec_itype64 E k inst S" "exec_insn E' k' inst s = exec_itype E' k' inst s"
    by (auto simp: exec_insn64_def exec_insn_def Let_def)
  with itype64_low [OF assms(1-3) o] show ?thesis by simp
qed

subsection \<open>Instructions that keep the registers canonical\<close>

definition stable_insn :: "u32 \<Rightarrow> bool" where
  "stable_insn inst \<longleftrightarrow>
     inst_opcode inst = 0 \<and> inst_funct inst \<in> {0x03, 0x07, 0x0f, 0x10, 0x11, 0x12, 0x13, 0x18,
       0x21, 0x23, 0x24, 0x26, 0x27, 0x2A, 0x2B, 0x0B, 0x0A}
     \<or> inst_opcode inst = 0 \<and> inst_funct inst = 0x25 \<and> inst_rd inst \<noteq> 0
     \<or> inst_opcode inst \<in> {0x0A, 0x0B, 0x0c, 0x0d, 0x0e, 0x0F}"

lemma canon64_updates:
  assumes "canon64 S"
  shows "canon v \<Longrightarrow> canon64 (pc_inc64 (wr64 r v S))" "canon64 (pc_inc64 S)"
    "canon v \<Longrightarrow> canon64 (pc_inc64 (S\<lparr>lo64 := v\<rparr>))" "canon v \<Longrightarrow> canon64 (pc_inc64 (S\<lparr>hi64 := v\<rparr>))"
    "canon v \<Longrightarrow> canon u \<Longrightarrow> canon64 (pc_inc64 (S\<lparr>lo64 := v, hi64 := u\<rparr>))"
  using assms by (auto simp: canon64_def wr64_def pc_inc64_def list_all_iff dest!: set_update_subset_insert [THEN subsetD])

lemma stable_insn_canon:
  assumes "canon64 S" "length (gpr64 S) = 32" "stable_insn inst" "exec_insn64 E k inst S = Inr S'"
  shows "canon64 S'"
proof -
  have c: "canon (gpr64 S ! r)" if "r < 32" for r using assms(1,2) that by (simp add: canon64_def list_all_length)
  have hl: "canon (lo64 S)" "canon (hi64 S)" using assms(1) by (simp_all add: canon64_def)
  note u = canon64_updates [OF assms(1)] canon_bitwise canon_not canon_sra canon_uimm c hl
  from assms(3) consider (r) "inst_opcode inst = 0" | (i) "inst_opcode inst \<in> {0x0A, 0x0B, 0x0c, 0x0d, 0x0e, 0x0F}"
    by (auto simp: stable_insn_def)
  then show ?thesis
  proof cases
    case r
    then have "exec_rtype64 E k inst S = Inr S'" using assms(4) by (simp add: exec_insn64_def)
    moreover have "inst_funct inst \<in> {0x03, 0x07, 0x0f, 0x10, 0x11, 0x12, 0x13, 0x18,
       0x21, 0x23, 0x24, 0x25, 0x26, 0x27, 0x2A, 0x2B, 0x0B, 0x0A}" using r assms(3) by (auto simp: stable_insn_def)
    ultimately show ?thesis
      by (elim insertE emptyE; simp only: exec_rtype64_def Let_def set_hilo_def; simp; elim subst; simp add: u)
  next
    case i
    then have "exec_itype64 E k inst S = Inr S'" using assms(4) by (auto simp: exec_insn64_def Let_def)
    with i show ?thesis by (elim insertE emptyE; simp add: exec_itype64_def Let_def; elim subst; simp add: u)
  qed
qed

lemma stable_int: "stable_insn inst \<Longrightarrow> int_insn inst"
  by (auto simp: stable_insn_def int_insn_def)

lemma int_insn_pc:
  assumes "wf_state s" "int_insn inst" "exec_insn E k inst s = Inr s'"
  shows "pc s' = pc s + 4" "wf_state s'"
proof -
  have "\<not> is_control inst" "\<not> is_monitor inst" "\<not> is_stop inst"
    using assms(2) by (auto simp: int_insn_def is_control_def is_monitor_def is_stop_def)
  from exec_insn_plain(1) [OF assms(1) this, of E k] show "pc s' = pc s + 4" "wf_state s'"
    using assms(3) by (simp_all add: plain_step_def)
qed

subsection \<open>Where the 64 bit interpreter fails\<close>

definition sample64 :: "unit state64_t" where
  "sample64 = (state64_new sparse_mem_new ())\<lparr>pc64 := 0x1000, gpr64 := (replicate 32 0)[2 := - 5, 3 := 7]\<rparr>"

definition sample32 :: "unit state_t" where
  "sample32 = (state_t_new sparse_mem_new ())\<lparr>pc := 0x1000, gpr := (replicate 32 0)[2 := - 5, 3 := 7]\<rparr>"

definition sample_env64 :: "unit env64" where
  "sample_env64 =
     \<lparr>little64 = False, fpu64 = sample_fpu, globs64 = globs sample_env, clock64 = \<lparr>enClockFuncts = False, icountMIPS = 0\<rparr>,
      host64_of = linux_host.extend sample_linux \<lparr>os_gettimeofday = \<lambda>_. (0, 0), os_times = \<lambda>_. (0, [0, 0, 0, 0])\<rparr>\<rparr>"

lemma low_minus_5: "low (- 5) = - 5"
  using low_arith(2) [of 0 5] by (simp add: low_consts)

lemma canon_minus_5: "canon (- 5)" "canon 7"
  by (simp_all add: canon_def low_minus_5 low_consts)

lemma sim_sample: "sim64 sample64 sample32" "canon64 sample64" "wf_state sample32"
  by (simp_all add: sim64_def canon64_def wf_state_def sample64_def sample32_def state64_new_def state_t_new_def
      map_update low_consts low_minus_5 canon_minus_5 list_all_length nth_list_update)

lemma deref_eq: "unat a + 4 \<le> sz \<Longrightarrow> (deref m a :: u32 result) = mem_get m a"
  and deref_set_eq: "unat a + 4 \<le> sz \<Longrightarrow> deref_set m a (v :: u32) = mem_set m a v"
  by (simp_all add: deref_def deref_set_def mem_get_def mem_set_def word_less_nat_alt sz_def)

text \<open>
  SW of the 64 bit interpreter stores the wrong half: for a big endian guest it swaps the bytes of
  the 64 bit register and truncates, so the word in memory is the upper half of the register, which in
  a canonical register is 0 or -1.
\<close>

theorem sw64_stores_upper_half:
  assumes "unat (generateEA inst S) + 4 \<le> sz"
  shows "returns (\<lambda>S'. bindE (deref (mem64 S') (generateEA inst S)) (\<lambda>v. Inr (bswap False v))
      = Inr (ucast (drop_bit 32 (gpr64 S ! inst_rt inst)) :: u32)) (sw64 False inst S)"
proof -
  let ?v = "low (bswap False (gpr64 S ! inst_rt inst))"
  obtain m where m: "mem_set (mem64 S) (generateEA inst S) ?v = Inr m"
    using assms mem32.wr_ok [of "generateEA inst S" "mem64 S" ?v] by (auto simp: in_range_def word_less_nat_alt sz_def)
  have "mem_get m (generateEA inst S) = Inr ?v" by (rule mem32.rd_wr_same [OF m])
  moreover have "bswap False ?v = ucast (drop_bit 32 (gpr64 S ! inst_rt inst))"
    by (simp add: bswap_def low_def high_half_of_bswap builtin_bswap_involutive)
  ultimately show ?thesis using assms m by (simp add: sw64_def deref_eq deref_set_eq pc_inc64_def)
qed

lemma canon_iff_sint: "canon x \<longleftrightarrow> - (2 ^ 31) \<le> sint x \<and> sint x < 2 ^ 31"
proof
  assume "canon x"
  then show "- (2 ^ 31) \<le> sint x \<and> sint x < 2 ^ 31"
    using sint_greater_eq [of "low x"] sint_less [of "low x"] by (simp add: sint_canon)
next
  assume *: "- (2 ^ 31) \<le> sint x \<and> sint x < 2 ^ 31"
  have "sint (word_of_int i :: u32) = signed_take_bit 31 i" for i by (simp add: signed_of_int)
  moreover have "low x = word_of_int (sint x)" using low_of_int [of "sint x"] by (simp only: of_int_sint scast_id)
  ultimately have "sint (low x) = signed_take_bit 31 (sint x)" by (simp only:)
  also have "\<dots> = sint x" using * by (intro signed_take_bit_int_eq_self) simp_all
  finally have "sint (scast (low x) :: u64) = sint x" by (simp add: sint_up_scast is_up)
  then have "scast (low x) = x" by (rule signed_word_eqI)
  then show "canon x" by (simp add: canon_def)
qed

text \<open>
  C35. ADDIU of the 64 bit interpreter keeps a canonical register canonical exactly when the addition
  does not leave the 32 bit range: unlike the architecture's, its result is not sign extended, so a
  later signed comparison or branch sees another value than the 32 bit interpreter.
\<close>

theorem addiu64_canonical_iff:
  assumes "length (gpr64 S) = 32" "canon (gpr64 S ! inst_rs inst)" "inst_opcode inst = 9"
  shows "returns (\<lambda>S'. canon (gpr64 S' ! inst_rt inst) \<longleftrightarrow>
      - (2 ^ 31) \<le> sint (gpr64 S ! inst_rs inst) + sint (simm32 inst) \<and> sint (gpr64 S ! inst_rs inst) + sint (simm32 inst) < 2 ^ 31)
    (exec_insn64 E k inst S)"
proof -
  let ?a = "gpr64 S ! inst_rs inst" and ?i = "scast (simm32 inst) :: u64"
  have "- (2 ^ 31) \<le> sint ?a" "sint ?a < 2 ^ 31" using assms(2) by (simp_all add: canon_iff_sint)
  moreover have i: "sint ?i = sint (simm32 inst)" by (simp add: sint_up_scast is_up)
  moreover have "- (2 ^ 31) \<le> sint (simm32 inst)" "sint (simm32 inst) < 2 ^ 31"
    using sint_greater_eq [of "simm32 inst"] sint_less [of "simm32 inst"] by simp_all
  ultimately have "sint (?a + ?i) = sint ?a + sint (simm32 inst)"
    by (simp add: sint_word_ariths signed_take_bit_int_eq_self)
  then show ?thesis
    using assms(1,3) by (simp add: exec_insn64_def exec_itype64_def Let_def pc_inc64_def wr64_def canon_iff_sint)
qed

theorem sw64_stores_upper_half_witness:
  "returns (\<lambda>S'. bindE (deref (mem64 S') 0x2000) (\<lambda>v. Inr (bswap False v)) = Inr (0 :: u32)) (sw64 False 0xac032000 sample64)"
proof -
  have "generateEA 0xac032000 sample64 = 0x2000" "gpr64 sample64 ! inst_rt 0xac032000 = 7"
    by (simp_all add: generateEA_def sample64_def state64_new_def inst_rs_def inst_rt_def himm_def)
  with sw64_stores_upper_half [of "0xac032000" sample64] show ?thesis by (simp add: sz_def)
qed

theorem addiu64_canonical_iff_witness:
  "returns (\<lambda>S'. \<not> canon (gpr64 S' ! 4))
     (exec_insn64 sample_env64 (\<lambda>_. Inl OutOfFuel) 0x24440001 (sample64\<lparr>gpr64 := (replicate 32 0)[2 := 0x7fffffff]\<rparr>))"
proof -
  let ?S = "sample64\<lparr>gpr64 := (replicate 32 0)[2 := 0x7fffffff]\<rparr>"
  have "inst_rs 0x24440001 = 2" "inst_rt 0x24440001 = 4" "inst_opcode 0x24440001 = 9" "simm32 0x24440001 = 1"
    by (simp_all add: inst_rs_def inst_rt_def inst_opcode_def simm32_def himm_def)
  moreover have "canon 0x7fffffff" by (simp add: canon_iff_sint)
  ultimately show ?thesis
    using addiu64_canonical_iff [of ?S "0x24440001" sample_env64 "\<lambda>_. Inl OutOfFuel"] by (simp add: returns_iff)
qed

end
