(* ===== verification/Interp64_Run.thy ===== *)
theory Interp64_Run
  imports Interp64_Sim
begin

text \<open>
  Whole runs of the two interpreters.  \<open>plain_ok\<close> and \<open>step_ok\<close> say, on the 32 bit side, when the next
  instruction is one on which \<open>src/interpret64.cc\<close> is correct: the arithmetic of \<open>Interp64_Sim\<close>, shifts and
  additions whose result fits, loads and stores with an address in the lower half (a word store only of a
  little endian guest), double precision arithmetic and comparison, branches and jumps with such an
  instruction in the delay slot.  As long as they hold, the 64 bit interpreter fetches the same instructions
  and stays in step.
\<close>

subsection \<open>Values\<close>

lemma canon_push_bit:
  assumes "- (2 ^ 31) \<le> sint x * 2 ^ n" "sint x * 2 ^ n < 2 ^ 31"
  shows "canon (push_bit n x)"
proof -
  have "push_bit n x = word_of_int (sint x * 2 ^ n)" by (simp add: push_bit_eq_mult)
  then have "sint (push_bit n x) = signed_take_bit 63 (sint x * 2 ^ n)" by (simp only: signed_of_int) simp
  also have "\<dots> = sint x * 2 ^ n" using assms by (intro signed_take_bit_int_eq_self) simp_all
  finally show ?thesis using assms by (simp only: canon_iff_sint)
qed

lemma canon_ucast: "\<not> bit v 31 \<Longrightarrow> canon (ucast v)" for v :: u32
  by (rule canonI) (auto simp: bit_simps dest: bit_imp_le_length)

lemma sint_nonneg_bit: "0 \<le> sint v \<longleftrightarrow> \<not> bit v 31" for v :: u32
  by (simp add: sint_uint bit_uint_iff)

lemma canon_set_low:
  assumes "canon x" "0 \<le> sint (low x)" "\<not> bit v 31"
  shows "canon (set_low x v)"
proof (rule canonI)
  have m: "(0xffffffff :: u64) = mask 32" by (simp add: mask_eq_exp_minus_1)
  have "\<not> bit x 31" using assms(2) by (simp add: sint_nonneg_bit low_bit)
  fix n :: nat assume "31 < n" "n < 64"
  then show "bit (set_low x v) n = bit (set_low x v) 31"
    using canon_high [OF assms(1), of n] \<open>\<not> bit x 31\<close> assms(3)
    unfolding set_low_def m by (auto simp: bit_simps dest: bit_imp_le_length simp del: mask_numeral)
qed

lemma bytes_positive: "\<not> bit (ucast v :: u32) 31" "\<not> bit (ucast w :: u32) 31" for v :: u8 and w :: u16
  by (simp_all add: bit_simps) (auto dest!: bit_imp_le_length)

lemma canon_small: "canon (scast v)" "canon (scast w)" "low (scast v) = scast v" "low (scast w) = scast w" for v :: u8 and w :: u16
  by (auto intro!: canonI bit_word_eqI simp: low_bit bit_simps min_def)

text \<open>The address of a load: both interpreters compute the same when it lies in the lower half.\<close>

lemma sint_simm: "sint (simm32 inst) = sint (himm inst)" "sint (scast (himm inst) :: u64) = sint (himm inst)"
  by (simp_all add: simm32_def sint_up_scast is_up)

lemma scast_himm: "scast (himm inst) = (scast (simm32 inst) :: u64)"
proof (rule signed_word_eqI)
  show "sint (scast (himm inst) :: u64) = sint (scast (simm32 inst) :: u64)"
    by (simp add: sint_simm sint_up_scast [of "simm32 inst"] is_up)
qed

lemma low_addr:
  assumes "canon x" "0 \<le> sint (low x) + sint i" "sint (low x) + sint i < 2 ^ 31"
  shows "x + scast i = ucast (low x + i)" "unat (low x + i) < 2 ^ 31"
proof -
  have i: "sint (scast i :: u64) = sint i" by (simp add: sint_up_scast is_up)
  have "sint (x + scast i) = signed_take_bit 63 (sint (low x) + sint i)" using assms(1) i by (simp add: sint_word_ariths sint_canon)
  also have "\<dots> = sint (low x) + sint i" using assms(2,3) by (intro signed_take_bit_int_eq_self) simp_all
  finally have X: "uint (x + scast i) = sint (low x) + sint i" using assms(2) by (simp add: uint_of_sint)
  have "sint (low x + i) = signed_take_bit 31 (sint (low x) + sint i)" by (simp add: sint_word_ariths)
  also have "\<dots> = sint (low x) + sint i" using assms(2,3) by (intro signed_take_bit_int_eq_self) simp_all
  finally have Y: "uint (low x + i) = sint (low x) + sint i" using assms(2) by (simp add: uint_of_sint)
  have "uint (ucast (low x + i) :: u64) = uint (low x + i)" by (simp add: uint_up_ucast is_up)
  with X Y show "x + scast i = ucast (low x + i)" by (intro word_uint_eqI) simp
  from Y assms(3) show "unat (low x + i) < 2 ^ 31" by (simp add: unat_eq_nat_uint nat_less_iff)
qed

lemma deref_in_range:
  "in_range (LENGTH('a::len) div 8) a \<Longrightarrow> (deref m a :: 'a word result) = mem_get m a"
  "in_range (LENGTH('a) div 8) a \<Longrightarrow> deref_set m a (v :: 'a word) = mem_set m a v"
  by (simp_all add: in_range_def deref_def deref_set_def mem_get_def mem_set_def)

subsection \<open>Related states and results\<close>

definition related :: "'w state64_t \<Rightarrow> 'w state_t \<Rightarrow> bool" where
  "related S s \<longleftrightarrow> sim64 S s \<and> canon64 S \<and> wf_state s"

definition agree :: "'w state64_t result \<Rightarrow> 'w state_t result \<Rightarrow> bool" where
  "agree R r \<longleftrightarrow> (\<exists>S s. R = Inr S \<and> r = Inr s \<and> related S s)"

lemma agree_Inr [simp]: "agree (Inr S) (Inr s) \<longleftrightarrow> related S s"
  by (simp add: agree_def)

lemma agree_bindE:
  assumes "agree R r" "\<And>S s. related S s \<Longrightarrow> agree (F S) (f s)"
  shows "agree (bindE R F) (bindE r f)"
  using assms by (auto simp: agree_def)

lemma related_gpr:
  assumes "related S s" "r < 32"
  shows "gpr s ! r = low (gpr64 S ! r)" "canon (gpr64 S ! r)"
  using assms sim64_gpr [of S s r] canon64_gpr [of S s r] by (simp_all add: related_def)

lemma related_mem [simp]: "related S s \<Longrightarrow> mem64 S = mem s"
  by (simp add: related_def sim64_def)

lemma related_jump: "related S s \<Longrightarrow> related (S\<lparr>pc64 := ucast t\<rparr>) (s\<lparr>pc := t\<rparr>)"
  and related_count [simp]: "related S (histo_inc h s) = related S s"
  by (auto simp: related_def sim64_def canon64_def wf_state_def histo_inc_def)

lemma histo_inc_out [simp]:
  "pc_inc (histo_inc h s) = histo_inc h (pc_inc s)" "(histo_inc h s)\<lparr>fcr1 := x\<rparr> = histo_inc h (s\<lparr>fcr1 := x\<rparr>)"
  by (simp_all add: pc_inc_def histo_inc_def)

lemma related_write:
  assumes "related S s" "unat (pc s) + 4 < 2 ^ 32" "canon V" "v = low V"
  shows "related (pc_inc64 (wr64 r V S)) (pc_inc (wr_gpr r v s))"
proof -
  have "related (pc_inc64 (wr64 r V S)) (histo_inc [] (pc_inc (wr_gpr r v s)))"
    using assms sim64_write [of S s v V r "[]"] canon64_updates(1) [of S V r] unfolding related_def by (simp add: wf_state_def)
  then show ?thesis by simp
qed

lemma related_store:
  assumes "related S s" "unat (pc s) + 4 < 2 ^ 32"
  shows "related (pc_inc64 (S\<lparr>mem64 := m\<rparr>)) (pc_inc (s\<lparr>mem := m\<rparr>))"
  using assms ucast_inc [of "pc s"]
  by (auto simp: related_def sim64_def canon64_def wf_state_def pc_inc64_def pc_inc_def)

lemma agree_store:
  assumes "related S s" "unat (pc s) + 4 < 2 ^ 32" "\<exists>m. r = Inr m"
  shows "agree (bindE r (\<lambda>m. Inr (pc_inc64 (S\<lparr>mem64 := m\<rparr>)))) (bindE r (\<lambda>m. Inr (histo_inc h (pc_inc (s\<lparr>mem := m\<rparr>)))))"
  using related_store [OF assms(1,2)] assms(3) by auto

subsection \<open>Instructions without a delay slot\<close>

definition fits :: "int \<Rightarrow> bool" where
  "fits i \<longleftrightarrow> - (2 ^ 31) \<le> i \<and> i < 2 ^ 31"

definition fp_ok :: "u32 \<Rightarrow> bool" where
  "fp_ok inst \<longleftrightarrow> inst_opcode inst = 0x11 \<and>
     (inst_rs inst = 4 \<and> inst AND (push_bit 11 1 - 1) = 0
      \<or> inst_rs inst = FMT_D \<and> inst_fd inst < 31 \<and> inst_fs inst < 31 \<and> inst_ft inst < 31 \<and>
        (inst_funct inst \<in> {0x00, 0x01, 0x02, 0x03, 0x04, 0x05, 0x06, 0x07, 0x15, 0x16}
         \<or> inst_funct inst div 16 = 3 \<and> unat (inst AND 15) \<in> {COND_UN, COND_EQ, COND_LT, COND_LE}))"

definition plain_ok :: "bool \<Rightarrow> u32 \<Rightarrow> u32 list \<Rightarrow> u32 \<Rightarrow> bool" where
  "plain_ok EL inst g p \<longleftrightarrow>
     (let opcode = inst_opcode inst; funct = inst_funct inst; a = sint (g ! inst_rs inst); b = sint (g ! inst_rt inst);
          ea = a + sint (simm32 inst); lower = (0 \<le> ea \<and> ea + 8 \<le> 2 ^ 31)
      in unat p + 4 < 2 ^ 32 \<and>
        (stable_insn inst
         \<or> opcode = 0 \<and> funct = 0x00 \<and> fits (b * 2 ^ inst_sa inst)
         \<or> opcode = 0 \<and> funct = 0x02 \<and> (inst_sa inst \<noteq> 0 \<or> 0 \<le> b)
         \<or> opcode \<in> {0x08, 0x09} \<and> fits ea
         \<or> opcode \<in> {0x20, 0x21, 0x23, 0x30} \<and> lower
         \<or> opcode \<in> {0x24, 0x25} \<and> lower \<and> 0 \<le> b
         \<or> opcode \<in> {0x28, 0x29} \<and> lower
         \<or> opcode = 0x2B \<and> EL \<and> lower
         \<or> opcode \<in> {0x31, 0x39} \<and> lower
         \<or> opcode \<in> {0x35, 0x3D} \<and> lower \<and> inst_rt inst < 31
         \<or> fp_ok inst
         \<or> opcode \<in> {0x22, 0x2e}))"

lemma stable_agree:
  assumes "related S s" "unat (pc s) + 4 < 2 ^ 32" "stable_insn inst"
  shows "agree (exec_insn64 E k inst S) (exec_insn E' k' inst s)"
proof -
  obtain S1 s1 where step: "exec_insn64 E k inst S = Inr S1" "exec_insn E' k' inst s = Inr s1" "sim64 S1 s1"
    using int_insn_low [OF _ _ assms(2) stable_int [OF assms(3)], of S E k E' k'] assms(1) by (auto simp: related_def)
  moreover have "canon64 S1" using stable_insn_canon [OF _ _ assms(3) step(1)] assms(1) by (simp add: related_def sim64_def)
  moreover have "wf_state s1" using int_insn_pc(2) [OF _ stable_int [OF assms(3)] step(2)] assms(1) by (simp add: related_def)
  ultimately show ?thesis by (simp add: related_def)
qed

lemma shift_agree:
  assumes "related S s" "unat (pc s) + 4 < 2 ^ 32" "inst_opcode inst = 0"
    and "inst_funct inst = 0x00 \<and> fits (sint (gpr s ! inst_rt inst) * 2 ^ inst_sa inst)
      \<or> inst_funct inst = 0x02 \<and> (inst_sa inst \<noteq> 0 \<or> 0 \<le> sint (gpr s ! inst_rt inst))"
  shows "agree (exec_insn64 E k inst S) (exec_insn E' k' inst s)"
proof -
  note g = related_gpr [OF assms(1), of "inst_rt inst"]
  have "canon (push_bit (inst_sa inst) (gpr64 S ! inst_rt inst))" if "fits (sint (gpr s ! inst_rt inst) * 2 ^ inst_sa inst)"
    using that g by (intro canon_push_bit) (simp_all add: fits_def sint_canon)
  moreover have "canon (ucast (drop_bit (inst_sa inst) (low (gpr64 S ! inst_rt inst))))"
    if "inst_sa inst \<noteq> 0 \<or> 0 \<le> sint (gpr s ! inst_rt inst)"
    using that g(1) by (intro canon_ucast) (auto simp: bit_simps sint_nonneg_bit low_bit)
  ultimately show ?thesis
    using assms(3,4) g
    by (elim disjE conjE; simp add: related_write [OF assms(1,2)] exec_insn64_def exec_insn_def exec_rtype64_def exec_rtype_def
        Let_def alu_insn_defs)
qed

lemma add_agree:
  assumes "related S s" "unat (pc s) + 4 < 2 ^ 32" "inst_opcode inst \<in> {0x08, 0x09}"
    and "fits (sint (gpr s ! inst_rs inst) + sint (simm32 inst))"
  shows "agree (exec_insn64 E k inst S) (exec_insn E' k' inst s)"
proof -
  note g = related_gpr [OF assms(1), of "inst_rs inst"]
  have "sint (gpr64 S ! inst_rs inst + scast (simm32 inst)) = signed_take_bit 63 (sint (gpr s ! inst_rs inst) + sint (simm32 inst))"
    using g by (simp add: sint_word_ariths sint_canon sint_up_scast is_up)
  also have "\<dots> = sint (gpr s ! inst_rs inst) + sint (simm32 inst)"
    using assms(4) by (intro signed_take_bit_int_eq_self) (simp_all add: fits_def)
  finally have "canon (gpr64 S ! inst_rs inst + scast (simm32 inst))" using assms(4) by (simp only: canon_iff_sint fits_def)
  then show ?thesis
    using assms(3) g
    by (elim insertE emptyE; simp add: related_write [OF assms(1,2)] exec_insn64_def exec_insn_def exec_itype64_def exec_itype_def Let_def alu_insn_defs)
qed

text \<open>The address both interpreters use.\<close>

lemma related_addr:
  assumes "related S s" "0 \<le> sint (gpr s ! inst_rs inst) + sint (simm32 inst)"
    "sint (gpr s ! inst_rs inst) + sint (simm32 inst) + 8 \<le> 2 ^ 31"
  shows "generateEA inst S = ucast (ea_of inst s)" "ea32 inst S = ea_of inst s" "in_range 1 (ucast (ea_of inst s))"
    "in_range 2 (ucast (ea_of inst s))" "in_range 4 (ucast (ea_of inst s))" "in_range 8 (ucast (ea_of inst s))"
proof -
  note g = related_gpr [OF assms(1), of "inst_rs inst"]
  have a: "gpr64 S ! inst_rs inst + scast (simm32 inst) = ucast (ea_of inst s)" "unat (ea_of inst s) < 2 ^ 31"
    using low_addr [of "gpr64 S ! inst_rs inst" "simm32 inst"] assms(2,3) g by (simp_all add: ea_of_def)
  then show "generateEA inst S = ucast (ea_of inst s)" by (simp add: generateEA_def scast_himm)
  from a(1) show "ea32 inst S = ea_of inst s" by (simp add: ea32_def del: low_arith)
  from a(2) show "in_range 1 (ucast (ea_of inst s))" "in_range 2 (ucast (ea_of inst s))" "in_range 4 (ucast (ea_of inst s))"
    "in_range 8 (ucast (ea_of inst s))"
    by (simp_all add: in_range_def sz_def word_less_nat_alt)
qed

lemma load_agree:
  assumes "related S s" "unat (pc s) + 4 < 2 ^ 32" "little64 E = little E'"
    and "inst_opcode inst \<in> {0x20, 0x21, 0x23, 0x30} \<or> inst_opcode inst \<in> {0x24, 0x25} \<and> 0 \<le> sint (gpr s ! inst_rt inst)"
    and ea: "0 \<le> sint (gpr s ! inst_rs inst) + sint (simm32 inst)" "sint (gpr s ! inst_rs inst) + sint (simm32 inst) + 8 \<le> 2 ^ 31"
  shows "agree (exec_insn64 E k inst S) (exec_insn E' k' inst s)"
proof -
  let ?a = "ucast (ea_of inst s) :: u64"
  note r = related_addr [OF assms(1) ea]
  obtain v8 :: u8 and v16 :: u16 and v32 :: u32
    where v: "mem_get (mem s) ?a = Inr v8" "mem_get (mem s) ?a = Inr v16" "mem_get (mem s) ?a = Inr v32"
    using mem8.rd_ok [of ?a "mem s"] mem16.rd_ok [of ?a "mem s"] mem32.rd_ok [of ?a "mem s"] r(3-5)
    by auto
  have d: "deref (mem s) ?a = Inr v8" "deref (mem s) ?a = Inr v16" "deref (mem s) ?a = Inr v32"
    using deref_in_range(1) [of ?a "mem s", where ?'a = 8] deref_in_range(1) [of ?a "mem s", where ?'a = 16]
      deref_in_range(1) [of ?a "mem s", where ?'a = 32] r(3-5) v by simp_all
  note g = related_gpr [OF assms(1), of "inst_rt inst"]
  have c: "canon (set_low (gpr64 S ! inst_rt inst) (ucast v8))" "canon (set_low (gpr64 S ! inst_rt inst) (ucast (bswap EL v16)))"
    if "0 \<le> sint (gpr s ! inst_rt inst)" for EL
    using that g by (simp_all add: canon_set_low bytes_positive)
  show ?thesis
    using assms(4)
    by (elim disjE insertE emptyE conjE;
        simp add: exec_insn64_def exec_insn_def exec_itype64_def exec_itype_def Let_def lw64_def lh64_def lb64_def lbu64_def lhu64_def
          insn_lw_def insn_lh_def insn_lb_def insn_lbu_def insn_lhu_def r(1,2) related_mem [OF assms(1)] v d assms(3) c canon_small
          related_write [OF assms(1,2)])
qed

lemma store_agree:
  assumes "related S s" "unat (pc s) + 4 < 2 ^ 32" "little64 E = little E'"
    and "inst_opcode inst \<in> {0x28, 0x29} \<or> inst_opcode inst = 0x2B \<and> little E'"
    and ea: "0 \<le> sint (gpr s ! inst_rs inst) + sint (simm32 inst)" "sint (gpr s ! inst_rs inst) + sint (simm32 inst) + 8 \<le> 2 ^ 31"
  shows "agree (exec_insn64 E k inst S) (exec_insn E' k' inst s)"
proof -
  let ?a = "ucast (ea_of inst s) :: u64"
  note r = related_addr [OF assms(1) ea] and g = related_gpr(1) [OF assms(1), of "inst_rt inst"]
  have ex: "\<exists>m. mem_set (mem s) ?a v8 = Inr m" "\<exists>m. mem_set (mem s) ?a v16 = Inr m" "\<exists>m. mem_set (mem s) ?a v32 = Inr m"
    for v8 :: u8 and v16 :: u16 and v32 :: u32
    using mem8.wr_ok mem16.wr_ok mem32.wr_ok r(3-5) by simp_all
  have d: "deref_set (mem s) ?a v16 = mem_set (mem s) ?a v16" "deref_set (mem s) ?a v32 = mem_set (mem s) ?a v32"
    for v16 :: u16 and v32 :: u32
    using deref_in_range(2) [of ?a "mem s" v16] deref_in_range(2) [of ?a "mem s" v32] r(4,5) by simp_all
  have c: "ucast (low x) = (ucast x :: u8)" "ucast (low x) = (ucast x :: u16)" for x
    by (rule bit_word_eqI; simp add: low_bit bit_simps; auto dest: bit_imp_le_length)+
  show ?thesis
    using assms(4)
    by (elim disjE insertE emptyE conjE;
        simp add: exec_insn64_def exec_insn_def exec_itype64_def exec_itype_def Let_def sw64_def sh64_def sb64_def
          insn_sw_def insn_sh_def insn_sb_def r(1,2) related_mem [OF assms(1)] assms(3) bswap_def g c d
          agree_store [OF assms(1,2) ex(1)] agree_store [OF assms(1,2) ex(2)] agree_store [OF assms(1,2) ex(3)])
qed

text \<open>LWL and SWR access the aligned word, wherever it is.\<close>

lemma masked_in_range: "in_range 4 (ucast (a AND 0xfffffffc :: u32))"
  using aligned_in_range [of a] by (simp add: aligned_parts in_range_def sz_def word_less_nat_alt)

lemma unaligned_agree:
  assumes "related S s" "unat (pc s) + 4 < 2 ^ 32" "little64 E = little E'" "inst_opcode inst \<in> {0x22, 0x2e}"
  shows "agree (exec_insn64 E k inst S) (exec_insn E' k' inst s)"
proof -
  let ?a = "ucast (ea_of inst s AND 0xfffffffc) :: u64"
  note g = related_gpr(1) [OF assms(1)]
  have e: "ea32 inst S = ea_of inst s" using g [of "inst_rs inst"] by (simp add: ea32_def ea_of_def)
  have n: "(- 4 :: u32) = 0xfffffffc" by simp
  obtain v :: u32 where v: "mem_get (mem s) ?a = Inr v" using mem32.rd_ok [OF masked_in_range] by blast
  have w: "\<exists>m. mem_set (mem s) ?a x = Inr m" for x :: u32 by (rule mem32.wr_ok [OF masked_in_range])
  have d: "deref (mem s) ?a = (mem_get (mem s) ?a :: u32 result)" "deref_set (mem s) ?a x = mem_set (mem s) ?a x" for x :: u32
    using masked_in_range [of "ea_of inst s"] by (simp_all add: deref_in_range)
  show ?thesis
    using assms(4)
    by (elim insertE emptyE;
        simp add: exec_insn64_def exec_insn_def exec_itype64_def exec_itype_def Let_def lwl64_def swr64_def insn_lwl_def insn_swr_def
          e n related_mem [OF assms(1)] assms(3) v d g related_write [OF assms(1,2)] agree_store [OF assms(1,2) w])
qed

text \<open>
  The floating point registers are the same in both states.  Double precision arithmetic and comparison
  agree; in single precision the 32 bit interpreter clears the odd register and the 64 bit one does not.
\<close>

lemma related_fp [simp]: "related S s \<Longrightarrow> get_dp64 S i = get_dp s i" "related S s \<Longrightarrow> get_sp64 S i = get_sp s i"
  by (simp_all add: related_def sim64_def get_dp64_def get_dp_def get_sp64_def get_sp_def)

lemma related_set_fp:
  assumes "related S s" "unat (pc s) + 4 < 2 ^ 32"
  shows "related (pc_inc64 (S\<lparr>cpr1_64 := (cpr1_64 S)[i := v]\<rparr>)) (pc_inc (s\<lparr>cpr1 := (cpr1 s)[i := v]\<rparr>))"
    "related (pc_inc64 (S\<lparr>cpr1_64 := (cpr1_64 S)[i := v, j := w]\<rparr>)) (pc_inc (s\<lparr>cpr1 := (cpr1 s)[i := v, j := w]\<rparr>))"
    "related (pc_inc64 (S\<lparr>fcr1_64 := (fcr1_64 S)[i := f (fcr1_64 S ! i)]\<rparr>)) (pc_inc (s\<lparr>fcr1 := (fcr1 s)[i := f (fcr1 s ! i)]\<rparr>))"
  using assms ucast_inc [of "pc s"] by (auto simp: related_def sim64_def canon64_def wf_state_def pc_inc64_def pc_inc_def)

lemma related_cpr1_state:
  assumes "related S s"
  shows "related S (s\<lparr>cpr1_state := (cpr1_state s)[i := v]\<rparr>)"
  using assms by (auto simp: related_def sim64_def wf_state_def)

lemma fp_op_agree:
  assumes "related S s" "unat (pc s) + 4 < 2 ^ 32" "inst_fmt inst = FMT_D" "inst_fd inst < 31" "inst_fs inst < 31" "inst_ft inst < 31"
    and "op \<in> {fp_add, fp_sub, fp_mul, fp_div, fp_sqrt, fp_abs, fp_mov, fp_neg, fp_recip, fp_rsqrt}"
  shows "agree (do_fp_op64 F op inst S) (do_fp_op F op inst s)"
proof -
  obtain a b where d: "get_dp s (inst_fs inst) = Inr a" "get_dp s (inst_ft inst) = Inr b" using assms(5,6) by (simp add: get_dp_def)
  obtain v h where v: "fp_value_d F op a b = Inr (v, h)" using assms(7) by fastforce
  have "related (pc_inc64 (S\<lparr>cpr1_64 := (cpr1_64 S)[inst_fd inst := ucast v, inst_fd inst + 1 := ucast (drop_bit 32 v)]\<rparr>))
      (pc_inc (histo_inc h (s\<lparr>cpr1 := (cpr1 s)[inst_fd inst := ucast v, inst_fd inst + 1 := ucast (drop_bit 32 v)]\<rparr>)))"
    using related_set_fp(2) [OF assms(1,2)] by simp
  from related_cpr1_state [OF this] assms(1,3,4) d v show ?thesis
    by (simp add: do_fp_op64_def do_fp_op_def FMT_D_def FMT_S_def execFP_d64_def execFP_d_def set_dp64_def set_dp_def
        set_cpr1_state_def Let_def)
qed

lemma fp_agree:
  assumes "related S s" "unat (pc s) + 4 < 2 ^ 32" "fpu64 E = fpu_of E'" "fp_ok inst"
  shows "agree (exec_insn64 E k inst S) (exec_insn E' k' inst s)"
proof -
  have o: "inst_opcode inst = 0x11" and f: "inst_fmt inst = inst_rs inst"
    using assms(4) by (simp_all add: fp_ok_def inst_fmt_def inst_rs_def)
  then have e: "exec_insn64 E k inst S = execCoproc1_64 (fpu_of E') k inst S" "exec_insn E' k' inst s = execCoproc1 E' k' inst s"
    using assms(3) by (simp_all add: exec_insn64_def exec_insn_def Let_def)
  consider (mtc1) "inst_rs inst = 4" "inst AND (push_bit 11 1 - 1) = 0"
    | (double) "inst_rs inst = FMT_D" "inst_fd inst < 31" "inst_fs inst < 31" "inst_ft inst < 31"
    using assms(4) by (auto simp: fp_ok_def)
  then show ?thesis
  proof cases
    case mtc1
    then show ?thesis
      using related_set_fp(1) [OF assms(1,2)] related_gpr(1) [OF assms(1), of "inst_rt inst"]
      by (simp add: e execCoproc1_64_def execCoproc1_def mtc1_64_def insn_mtc1_def)
  next
    case double
    obtain a b where d: "get_dp s (inst_fs inst) = Inr a" "get_dp s (inst_ft inst) = Inr b" using double by (simp add: get_dp_def)
    have l: "exec_insn64 E k inst S = exec_fp_lowop64 (fpu_of E') inst S" "exec_insn E' k' inst s = exec_fp_lowop (fpu_of E') inst s"
      using double(1) by (simp_all add: e execCoproc1_64_def execCoproc1_def FMT_D_def)
    note op = fp_op_agree [OF assms(1,2) _ double(2-4), of _ "fpu_of E'"]
    from assms(4) double(1) consider (arith) "inst_funct inst \<in> {0x00, 0x01, 0x02, 0x03, 0x04, 0x05, 0x06, 0x07, 0x15, 0x16}"
      | (compare) "inst_funct inst div 16 = 3" "unat (inst AND 15) \<in> {COND_UN, COND_EQ, COND_LT, COND_LE}"
      by (auto simp: fp_ok_def FMT_D_def)
    then show ?thesis
    proof cases
      case arith
      then show ?thesis
        unfolding l by (elim insertE emptyE; simp add: exec_fp_lowop64_def exec_fp_lowop_def op f double(1))
    next
      case compare
      then show ?thesis
        unfolding l using related_set_fp(3) [OF assms(1,2), of CP1_CR25 "\<lambda>x. setBit x _ _"] d assms(1) f double(1)
        by (elim insertE emptyE; simp add: exec_fp_lowop64_def exec_fp_lowop_def c64_def insn_c_def by_fmt_def fpCmp_d_def
            fpCmp_body64_def fpCmp_body_def FMT_S_def FMT_D_def machine_consts)
    qed
  qed
qed

lemma fp_mem_agree:
  assumes "related S s" "unat (pc s) + 4 < 2 ^ 32" "little64 E = little E'"
    and "inst_opcode inst \<in> {0x31, 0x39} \<or> inst_opcode inst \<in> {0x35, 0x3D} \<and> inst_rt inst < 31"
    and ea: "0 \<le> sint (gpr s ! inst_rs inst) + sint (simm32 inst)" "sint (gpr s ! inst_rs inst) + sint (simm32 inst) + 8 \<le> 2 ^ 31"
  shows "agree (exec_insn64 E k inst S) (exec_insn E' k' inst s)"
proof -
  let ?a = "ucast (ea_of inst s) :: u64"
  note r = related_addr [OF assms(1) ea]
  obtain v32 :: u32 and v64 :: u64 where v: "mem_get (mem s) ?a = Inr v32" "mem_get (mem s) ?a = Inr v64"
    using mem32.rd_ok [of ?a "mem s"] mem64.rd_ok [of ?a "mem s"] r(5,6) by auto
  have d: "deref (mem s) ?a = Inr v32" "deref (mem s) ?a = Inr v64"
    using deref_in_range(1) [of ?a "mem s", where ?'a = 32] deref_in_range(1) [of ?a "mem s", where ?'a = 64] r(5,6) v by simp_all
  have ex: "\<exists>m. mem_set (mem s) ?a w32 = Inr m" "\<exists>m. mem_set (mem s) ?a w64 = Inr m" for w32 :: u32 and w64 :: u64
    using mem32.wr_ok mem64.wr_ok r(5,6) by simp_all
  have ds: "deref_set (mem s) ?a w32 = mem_set (mem s) ?a w32" "deref_set (mem s) ?a w64 = mem_set (mem s) ?a w64"
    for w32 :: u32 and w64 :: u64
    using deref_in_range(2) [of ?a "mem s" w32] deref_in_range(2) [of ?a "mem s" w64] r(5,6) by simp_all
  show ?thesis
    using assms(4)
    by (elim disjE insertE emptyE conjE;
        simp add: exec_insn64_def exec_insn_def exec_itype64_def exec_itype_def Let_def lwc1_64_def ldc1_64_def swc1_64_def sdc1_64_def
          insn_lwc1_def insn_ldc1_def insn_swc1_def insn_sdc1_def set_sp64_def set_sp_def set_dp64_def set_dp_def get_sp_def get_dp_def
          related_fp [OF assms(1)] r(2) related_mem [OF assms(1)] v d ds assms(3) related_set_fp(1,2) [OF assms(1,2)]
          agree_store [OF assms(1,2) ex(1)] agree_store [OF assms(1,2) ex(2)])
qed

lemma plain_agree:
  assumes "related S s" "plain_ok (little E') inst (gpr s) (pc s)" "little64 E = little E'" "fpu64 E = fpu_of E'"
  shows "agree (exec_insn64 E k inst S) (exec_insn E' k' inst s)"
proof -
  have p: "unat (pc s) + 4 < 2 ^ 32" using assms(2) by (simp add: plain_ok_def Let_def)
  note rules = stable_agree [OF assms(1) p] shift_agree [OF assms(1) p] add_agree [OF assms(1) p] load_agree [OF assms(1) p assms(3)]
    store_agree [OF assms(1) p assms(3)] unaligned_agree [OF assms(1) p assms(3)]
    fp_mem_agree [OF assms(1) p assms(3)] fp_agree [OF assms(1) p assms(4)]
  from assms(2) show ?thesis
    unfolding plain_ok_def Let_def by (elim conjE disjE) (blast intro: rules)+
qed

subsection \<open>Branches and jumps\<close>

text \<open>The registers with which the delay slot runs, and the control transfers on which the interpreters agree.\<close>

definition slot_state :: "u32 \<Rightarrow> 'w state_t \<Rightarrow> 'w state_t" where
  "slot_state inst s =
     pc_inc (if inst_opcode inst = 3 \<or> inst_opcode inst = 0 \<and> inst_funct inst = 9 then wr_gpr 31 (pc s + 8) s else s)"

definition control_ok :: "u32 \<Rightarrow> u32 \<Rightarrow> bool" where
  "control_ok inst p \<longleftrightarrow> is_control inst \<and> unat p + 8 < 2 ^ 31 \<and> (inst_opcode inst = 1 \<longrightarrow> inst_rt inst < 4)"

lemma low_neg: "low (- x) = - low x"
  using low_arith(2) [of 0 x] by simp

lemma related_pc_inc:
  assumes "related S s" "unat (pc s) + 4 < 2 ^ 32"
  shows "related (pc_inc64 S) (pc_inc s)"
  using assms ucast_inc [of "pc s"] by (auto simp: related_def sim64_def canon64_def wf_state_def pc_inc64_def pc_inc_def)

lemma small_no_sign: "unat x < 2 ^ 31 \<Longrightarrow> \<not> bit x 31" for x :: u32
  using bit_unsigned_iff [of x 31, where ?'a = nat] by (simp add: bit_iff_odd)

lemma related_link:
  assumes "related S s" "unat (pc s) + 8 < 2 ^ 31"
  shows "related (pc_inc64 (wr64 31 (pc64 S + 8) S)) (pc_inc (wr_gpr 31 (pc s + 8) s))"
proof -
  have "\<not> bit (pc s + 8) 31" using assms(2) by (intro small_no_sign) (simp add: unat_word_ariths)
  moreover have p: "pc64 S = ucast (pc s)" using assms(1) by (simp add: related_def sim64_def)
  moreover have "ucast (pc s + 8) = (ucast (pc s) + 8 :: u64)" using assms(2) by (simp add: word_unat_eq_iff unat_word_ariths)
  ultimately have c: "canon (pc64 S + 8)" using canon_ucast [of "pc s + 8"] by simp
  show ?thesis using assms(2) p by (intro related_write [OF assms(1) _ c]) simp_all
qed

lemma getConditionCode_agree: "related S s \<Longrightarrow> getConditionCode64 S cc = getConditionCode s cc"
  by (simp add: related_def sim64_def getConditionCode64_def getConditionCode_def)

lemma branch_case_agree:
  assumes "related S s" "bt \<noteq> bgezal"
  shows "\<exists>l t h. branch_case64 bt inst S = Inr (l, t) \<and> branch_case bt inst s = (l, t, False, h)"
proof -
  note rs = related_gpr [OF assms(1), of "inst_rs inst"] and rt = related_gpr [OF assms(1), of "inst_rt inst"]
  have "gpr64 S ! inst_rt inst = gpr64 S ! inst_rs inst \<longleftrightarrow> gpr s ! inst_rt inst = gpr s ! inst_rs inst"
    using canon_compare(1) [of "gpr64 S ! inst_rt inst" "gpr64 S ! inst_rs inst"] rs rt by simp
  moreover have "sint (gpr64 S ! inst_rs inst) = sint (gpr s ! inst_rs inst)" using rs by (simp add: sint_canon)
  ultimately show ?thesis
    using assms(2) getConditionCode_agree [OF assms(1)] by (cases bt) (auto simp: word_sle_eq word_sless_alt)
qed

lemma branch_agree:
  assumes "related S s" "unat (pc s) + 8 < 2 ^ 31" "bt \<noteq> bgezal"
    and slot: "\<And>S1 s1. related S1 s1 \<Longrightarrow> pc s1 = pc s + 4 \<Longrightarrow> gpr s1 = gpr s \<Longrightarrow> mem s1 = mem s \<Longrightarrow> agree (k S1) (k' s1)"
  shows "agree (branch64 k bt inst S) (branch k' bt inst s)"
proof -
  obtain l t h where b: "branch_case64 bt inst S = Inr (l, t)" "branch_case bt inst s = (l, t, False, h)"
    using branch_case_agree [OF assms(1,3)] by blast
  let ?s1 = "pc_inc (histo_inc h s)"
  have r: "related (pc_inc64 S) ?s1" using assms(1,2) by (intro related_pc_inc) simp_all
  have p: "unat (pc ?s1) + 4 < 2 ^ 32" using assms(2) by (simp add: pc_inc_def histo_inc_def unat_word_ariths)
  have "low (pc64 S + 4) = pc s + 4" using assms(1) by (simp add: related_def sim64_def)
  moreover have "agree (k (pc_inc64 S)) (k' ?s1)" by (rule slot [OF r]) (simp_all add: pc_inc_def histo_inc_def)
  ultimately show ?thesis
    unfolding branch64_def branch_def Let_def b
    using related_pc_inc [OF r p] related_jump by (auto intro!: agree_bindE)
qed

lemma jump_agree:
  assumes "related S s" "unat (pc s) + 8 < 2 ^ 31"
    and slot: "\<And>S1 s1. related S1 s1 \<Longrightarrow> pc s1 = pc s + 4 \<Longrightarrow> gpr s1 = gpr (slot_state inst s) \<Longrightarrow> mem s1 = mem s \<Longrightarrow>
      agree (k S1) (k' s1)"
  shows "inst_opcode inst = 0 \<Longrightarrow> inst_funct inst = 8 \<Longrightarrow> agree (jr64 k inst S) (insn_jr k' inst s)"
    "inst_opcode inst = 0 \<Longrightarrow> inst_funct inst = 9 \<Longrightarrow> agree (jalr64 k inst S) (insn_jalr k' inst s)"
    "inst_opcode inst \<in> {2, 3} \<Longrightarrow> agree (exec_jtype64 k inst S) (exec_jtype k' inst s)"
proof -
  let ?s = "pc_inc s" and ?l = "pc_inc (wr_gpr 31 (pc s + 8) s)"
  have r: "related (pc_inc64 S) ?s" using assms(1,2) by (intro related_pc_inc) simp_all
  note l = related_link [OF assms(1,2)]
  have j: "low (gpr64 S ! inst_rs inst) = gpr s ! inst_rs inst" using related_gpr(1) [OF assms(1), of "inst_rs inst"] by simp
  have q: "agree (k (pc_inc64 S)) (k' (histo_inc h ?s))" "agree (k (pc_inc64 S)) (k' ?s)"
    if "inst_opcode inst = 0 \<and> inst_funct inst = 8 \<or> inst_opcode inst = 2" for h
    using that r by (auto intro!: slot simp: slot_state_def)
  have q': "agree (k (pc_inc64 (wr64 31 (pc64 S + 8) S))) (k' (histo_inc h ?l))" "agree (k (pc_inc64 (wr64 31 (pc64 S + 8) S))) (k' ?l)"
    if "inst_opcode inst = 0 \<and> inst_funct inst = 9 \<or> inst_opcode inst = 3" for h
    using that l by (auto intro!: slot simp: slot_state_def)
  show "agree (jr64 k inst S) (insn_jr k' inst s)" if "inst_opcode inst = 0" "inst_funct inst = 8"
    unfolding jr64_def insn_jr_def Let_def j using that q(2) by (auto intro!: agree_bindE related_jump)
  show "agree (jalr64 k inst S) (insn_jalr k' inst s)" if "inst_opcode inst = 0" "inst_funct inst = 9"
    unfolding jalr64_def insn_jalr_def Let_def j using that q'(2) by (auto intro!: agree_bindE related_jump)
  have p: "pc64 S = ucast (pc s)" using assms(1) by (simp add: related_def sim64_def)
  have t: "low (pc64 (pc_inc64 S) AND NOT (push_bit 28 1 - 1)) = pc s + 4 AND NOT (push_bit 28 1 - 1)"
    by (simp add: pc_inc64_def p low_neg)
  show "agree (exec_jtype64 k inst S) (exec_jtype k' inst s)" if "inst_opcode inst \<in> {2, 3}"
    using that
  proof (elim insertE emptyE)
    assume o: "inst_opcode inst = 2"
    show ?thesis
      unfolding exec_jtype64_def exec_jtype_def Let_def o using q(1) o t
      by (auto intro!: agree_bindE related_jump simp: wr64_def pc_inc64_def)
  next
    assume o: "inst_opcode inst = 3"
    show ?thesis
      unfolding exec_jtype64_def exec_jtype_def Let_def o using q'(1) o t
      by (auto intro!: agree_bindE related_jump simp: wr64_def pc_inc64_def)
  qed
qed

lemma control_agree:
  assumes "related S s" "control_ok inst (pc s)"
    and slot: "\<And>S1 s1. related S1 s1 \<Longrightarrow> pc s1 = pc s + 4 \<Longrightarrow> gpr s1 = gpr (slot_state inst s) \<Longrightarrow> mem s1 = mem s \<Longrightarrow>
      agree (k S1) (k' s1)"
  shows "agree (exec_insn64 E k inst S) (exec_insn E' k' inst s)"
proof -
  have p: "unat (pc s) + 8 < 2 ^ 31" using assms(2) by (simp add: control_ok_def)
  note j = jump_agree [OF assms(1) p slot]
  have g: "gpr (slot_state inst s) = gpr s" if "inst_opcode inst \<notin> {0, 3}" using that by (simp add: slot_state_def)
  have b: "agree (branch64 k bt inst S) (branch k' bt inst s)" if "inst_opcode inst \<notin> {0, 3}" "bt \<noteq> bgezal" for bt
    using branch_agree [OF assms(1) p that(2)] slot g [OF that(1)] by metis
  from assms(2) consider "inst_opcode inst = 0" "inst_funct inst = 8" | "inst_opcode inst = 0" "inst_funct inst = 9"
    | "inst_opcode inst \<in> {2, 3}" | "inst_opcode inst = 1" "inst_rt inst < 4" | "inst_opcode inst = 0x11" "inst_rs inst = 8"
    | "inst_opcode inst \<in> {0x04, 0x05, 0x06, 0x07, 0x14, 0x15, 0x16, 0x17}"
    by (auto simp: control_ok_def is_control_def)
  then show ?thesis
  proof cases
    case 3
    then have "exec_insn64 E k inst S = exec_jtype64 k inst S" "exec_insn E' k' inst s = exec_jtype k' inst s"
      by (auto simp: exec_insn64_def exec_insn_def Let_def)
    with j(3) [OF _ _ _ _ 3] show ?thesis by simp
  next
    case 4
    then have "inst_rt inst = 0 \<or> inst_rt inst = 1 \<or> inst_rt inst = 2 \<or> inst_rt inst = 3" by arith
    with 4 b show ?thesis
      by (elim disjE; simp add: exec_insn64_def exec_insn_def exec_itype64_def exec_itype_def bgez_bltz64_def bgez_bltz_def Let_def)
  next
    case 6
    then show ?thesis
      by (elim insertE emptyE; simp add: exec_insn64_def exec_insn_def exec_itype64_def exec_itype_def Let_def b)
  qed (simp_all add: exec_insn64_def exec_insn_def exec_rtype64_def exec_rtype_def execCoproc1_64_def execCoproc1_def Let_def j b)
qed

subsection \<open>Runs\<close>

text \<open>The next instruction, with its delay slot, is one on which the interpreters agree.\<close>

definition step_ok :: "'w env \<Rightarrow> 'w state_t \<Rightarrow> bool" where
  "step_ok E s \<longleftrightarrow>
     (case fetch E s of
        Inl _ \<Rightarrow> False
      | Inr inst \<Rightarrow>
          if is_control inst
          then control_ok inst (pc s) \<and>
            (case fetch E (slot_state inst s) of
               Inl _ \<Rightarrow> False
             | Inr inst1 \<Rightarrow> plain_ok (little E) inst1 (gpr (slot_state inst s)) (pc s + 4))
          else plain_ok (little E) inst (gpr s) (pc s))"

definition run_ok :: "'w env \<Rightarrow> nat \<Rightarrow> 'w state_t \<Rightarrow> bool" where
  "run_ok E = ok_along (execMips E 2) (step_ok E)"

lemma fetch_agree:
  assumes "related S s" "little64 E = little E'"
  shows "fetch64 E S = fetch E' s"
  using assms by (simp add: fetch64_def fetch_def related_def sim64_def)

lemma related_icnt: "related S s \<Longrightarrow> related (S\<lparr>icnt64 := icnt64 S + 1\<rparr>) (s\<lparr>icnt := icnt s + 1\<rparr>)"
  by (auto simp: related_def sim64_def canon64_def wf_state_def)

lemma plain_step_agree:
  assumes "related S s" "little64 E = little E' \<and> fpu64 E = fpu_of E'" "fetch E' s = Inr inst" "plain_ok (little E') inst (gpr s) (pc s)"
  shows "agree (execMips64 E (Suc n) S) (execMips E' (Suc n) s)"
  using plain_agree [OF related_icnt [OF assms(1)], of E' inst E] assms(2-4) fetch_agree [OF assms(1), of E E'] by simp

lemma step_agree:
  assumes "related S s" "little64 E = little E' \<and> fpu64 E = fpu_of E'" "step_ok E' s"
  shows "agree (execMips64 E 2 S) (execMips E' 2 s)"
proof -
  obtain inst where f: "fetch E' s = Inr inst" using assms(3) by (auto simp: step_ok_def split: sum.splits)
  show ?thesis
  proof (cases "is_control inst")
    case False
    with f assms(3) have "plain_ok (little E') inst (gpr s) (pc s)" by (simp add: step_ok_def)
    then show ?thesis using plain_step_agree [OF assms(1,2) f, of 1] by (simp add: numeral_2_eq_2)
  next
    case True
    let ?s = "s\<lparr>icnt := icnt s + 1\<rparr>"
    from True f assms(3) obtain inst1 where ok: "control_ok inst (pc s)" "fetch E' (slot_state inst s) = Inr inst1"
      "plain_ok (little E') inst1 (gpr (slot_state inst s)) (pc s + 4)"
      by (auto simp: step_ok_def split: sum.splits)
    have slot: "agree (execMips64 E (Suc 0) S1) (execMips E' (Suc 0) s1)"
      if "related S1 s1" "pc s1 = pc ?s + 4" "gpr s1 = gpr (slot_state inst ?s)" "mem s1 = mem ?s" for S1 s1
    proof (rule plain_step_agree [OF that(1) assms(2)])
      have "pc (slot_state inst s) = pc s + 4" "mem (slot_state inst s) = mem s" by (simp_all add: slot_state_def)
      with that ok(2) show "fetch E' s1 = Inr inst1" using fetch_cong [of s1 "slot_state inst s" E'] by simp
      have "gpr (slot_state inst ?s) = gpr (slot_state inst s)" by (simp add: slot_state_def)
      with ok(3) that show "plain_ok (little E') inst1 (gpr s1) (pc s1)" by simp
    qed
    have "agree (exec_insn64 E (execMips64 E (Suc 0)) inst (S\<lparr>icnt64 := icnt64 S + 1\<rparr>)) (exec_insn E' (execMips E' (Suc 0)) inst ?s)"
      using ok(1) by (intro control_agree [OF related_icnt [OF assms(1)]] slot) simp_all
    then show ?thesis using f fetch_agree [OF assms(1), of E E'] assms(2) by (simp add: numeral_2_eq_2)
  qed
qed

interpretation follow: lockstep "execMips64 E 2" "execMips E' 2"
  "\<lambda>S s. related S s \<and> little64 E = little E' \<and> fpu64 E = fpu_of E'" "step_ok E'"
proof
  fix S :: "'a state64_t" and s
  assume r: "related S s \<and> little64 E = little E' \<and> fpu64 E = fpu_of E'" "step_ok E' s"
  then have "agree (execMips64 E 2 S) (execMips E' 2 s)" by (intro step_agree) simp_all
  with r(1) show "returns (\<lambda>S'. returns (\<lambda>s'. related S' s' \<and> little64 E = little E' \<and> fpu64 E = fpu_of E') (execMips E' 2 s)) (execMips64 E 2 S)"
    by (auto simp: agree_def)
qed

text \<open>
  C11. The 64 bit interpreter runs 32 bit code as the 32 bit one does, on the instructions it gets
  right: from a canonical state that represents a state of the 32 bit interpreter, as long as each
  instruction that is fetched passes \<open>step_ok\<close> (which the 32 bit run decides), both interpreters return
  and the states represent each other again, with canonical registers.
\<close>

theorem interp64_follows_interp32:
  assumes "sim64 S s" "canon64 S" "wf_state s" "little64 E = little E' \<and> fpu64 E = fpu_of E'" "run_ok E' n s"
  shows "\<exists>S' s'. steps (execMips64 E 2) n S = Inr S' \<and> steps (execMips E' 2) n s = Inr s' \<and> sim64 S' s' \<and> canon64 S'"
proof -
  have "returns (\<lambda>S'. returns (related S') (steps (execMips E' 2) n s)) (steps (execMips64 E 2) n S)"
    using follow.steps_follow [of S s E E' n] assms by (auto simp: related_def run_ok_def returns_iff)
  then show ?thesis by (auto simp: related_def returns_iff)
qed

definition sample_prog64 :: "u64 \<Rightarrow> unit state64_t" where
  "sample_prog64 p = (state64_new (mem (sample_prog 0)) ())\<lparr>pc64 := p, gpr64 := (replicate 32 0)[4 := 0x1001, 5 := 0x12345678]\<rparr>"

lemma exec_two: "execMips E 2 s = bindE (fetch E s) (\<lambda>inst. exec_insn E (execMips E 1) inst (s\<lparr>icnt := icnt s + 1\<rparr>))"
  and exec_one: "execMips E 1 s = bindE (fetch E s) (\<lambda>inst. exec_insn E (execMips E 0) inst (s\<lparr>icnt := icnt s + 1\<rparr>))"
  by (simp_all add: numeral_2_eq_2)

lemma run_two:
  "run_ok E 2 s \<longleftrightarrow> step_ok E s \<and> returns (\<lambda>s'. step_ok E s' \<and> returns (\<lambda>_. True) (execMips E 2 s')) (execMips E 2 s)"
proof -
  have "run_ok E (Suc (Suc 0)) s \<longleftrightarrow>
      step_ok E s \<and> returns (\<lambda>s'. step_ok E s' \<and> returns (\<lambda>_. True) (execMips E 2 s')) (execMips E 2 s)"
    unfolding run_ok_def ok_along.simps by (simp add: returns_iff)
  then show ?thesis by (simp only: numeral_2_eq_2)
qed

text \<open>A branch with ADDIU in its delay slot, then a NOP at its target.\<close>

theorem interp64_follows_interp32_witness:
  "\<exists>S' s'. steps (execMips64 sample_env64 2) 2 (sample_prog64 0x100) = Inr S'
     \<and> steps (execMips sample_env 2) 2 (sample_prog 0x100) = Inr s' \<and> sim64 S' s' \<and> canon64 S'"
proof (rule interp64_follows_interp32)
  show "sim64 (sample_prog64 0x100) (sample_prog 0x100)"
    by (simp add: sim64_def sample_prog64_def sample_prog_def sample_state_def state64_new_def state_t_new_def map_update)
  show "canon64 (sample_prog64 0x100)"
    by (simp add: canon64_def sample_prog64_def state64_new_def list_all_length nth_list_update canon_iff_sint)
  have inst: "inst_opcode 0x24420001 = 9" "inst_rs 0x24420001 = 2" "inst_rt 0x24420001 = 2" "simm32 0x24420001 = 1"
    "inst_opcode 0x10000003 = 4" "inst_rs 0x10000003 = 0" "inst_rt 0x10000003 = 0" "simm32 0x10000003 = 3"
    "inst_opcode 0 = 0" "inst_funct 0 = 0" "inst_rt 0 = 0" "inst_sa 0 = 0" "\<not> is_control 0"
    by (simp_all add: inst_opcode_def inst_rs_def inst_rt_def simm32_def himm_def inst_funct_def inst_sa_def is_control_def)
  have slot: "slot_state 0x10000003 (sample_prog 0x100) = sample_prog 0x104"
    by (simp add: slot_state_def inst pc_inc_def sample_prog_def)
  have regs: "gpr (sample_prog p) = (replicate 32 0)[4 := 0x1001, 5 := 0x12345678]" for p
    by (simp add: sample_prog_def sample_state_def)
  have first: "step_ok sample_env (sample_prog 0x100)"
    by (simp add: step_ok_def sample_fetch sample_classes slot plain_ok_def control_ok_def inst regs fits_def)
  have f: "fetch sample_env (histo_inc h (pc_inc ((sample_prog 0x100)\<lparr>icnt := 1\<rparr>))) = Inr 0x24420001" for h
    using sample_fetch(2) fetch_cong [of "histo_inc h (pc_inc ((sample_prog 0x100)\<lparr>icnt := 1\<rparr>))" "sample_prog 0x104" sample_env]
    by (simp add: sample_prog_def)
  have f2: "fetch sample_env s = Inr 0" if "pc s = 0x110" "mem s = mem (sample_prog 0x100)" for s
    using that by (simp add: fetch_def sample_prog_def mem_get_def sz_def load_le4 sample_env_def bswap_def builtin_bswap_le4)
      (simp add: le4_def)
  have second: "step_ok sample_env s" "returns (\<lambda>_. True) (execMips sample_env 2 s)"
    if "pc s = 0x110" "mem s = mem (sample_prog 0x100)" for s
    using f2 [OF that] that sint_greater_eq [of "gpr s ! 0"] sint_less [of "gpr s ! 0"]
    by (simp_all add: Let_def step_ok_def plain_ok_def inst fits_def exec_two exec_insn_def exec_rtype_def)
  have "\<exists>s. execMips sample_env 2 (sample_prog 0x100) = Inr s \<and> pc s = 0x110 \<and> mem s = mem (sample_prog 0x100)"
    by (simp add: exec_two exec_one sample_fetch exec_insn_def exec_itype_def branch_def Let_def inst f insn_addiu_def)
  then show "run_ok sample_env 2 (sample_prog 0x100)" using first second by (auto simp: run_two)
qed (simp_all add: sample_env64_def sample_env_def)

end
