(* ===== verification/Dpi_FP.thy ===== *)
theory Dpi_FP
  imports Interp_FP
begin

text \<open>
  \<open>src/top.hh\<close>: the floating point functions the simulated processor calls back into the C++ side
  (\<open>fp32_add\<close> to \<open>fp64_compare_le\<close>), and \<open>compute_fp_insn\<close>, which evaluates an operation without
  executing it.  They work on the bit patterns of \<open>float\<close> and \<open>double\<close> (\<open>to_float\<close>, \<open>to_uint32\<close>,
  \<open>to_double\<close> and \<open>to_uint64\<close> are then the identity).  The host's unit is the parameter \<open>fpu\<close>; the
  conversion of a \<open>double\<close> to \<open>long long\<close>, which only \<open>fp64_to_int32\<close> uses, is a further parameter,
  undefined for a value that does not fit.

  The results of the processor come from these functions and those of the checker from \<open>execFP\<close> and
  the conversions of the interpreter: the theorems say where the two coincide.
\<close>

subsection \<open>Callbacks\<close>

definition fp32_add :: "fpu \<Rightarrow> u32 \<Rightarrow> u32 \<Rightarrow> u32" where "fp32_add F a b = f32_add F a b"
definition fp64_add :: "fpu \<Rightarrow> u64 \<Rightarrow> u64 \<Rightarrow> u64" where "fp64_add F a b = f64_add F a b"
definition fp32_mul :: "fpu \<Rightarrow> u32 \<Rightarrow> u32 \<Rightarrow> u32" where "fp32_mul F a b = f32_mul F a b"
definition fp64_mul :: "fpu \<Rightarrow> u64 \<Rightarrow> u64 \<Rightarrow> u64" where "fp64_mul F a b = f64_mul F a b"
definition fp32_div :: "fpu \<Rightarrow> u32 \<Rightarrow> u32 \<Rightarrow> u32" where "fp32_div F a b = f32_div F a b"
definition fp64_div :: "fpu \<Rightarrow> u64 \<Rightarrow> u64 \<Rightarrow> u64" where "fp64_div F a b = f64_div F a b"
definition fp32_sqrt :: "fpu \<Rightarrow> u32 \<Rightarrow> u32" where "fp32_sqrt F a = f32_sqrt F a"
definition fp64_sqrt :: "fpu \<Rightarrow> u64 \<Rightarrow> u64" where "fp64_sqrt F a = f64_sqrt F a"
definition int32_to_fp32 :: "fpu \<Rightarrow> u32 \<Rightarrow> u32" where "int32_to_fp32 F a = i32_to_f32 F a"
definition int32_to_fp64 :: "fpu \<Rightarrow> u32 \<Rightarrow> u64" where "int32_to_fp64 F a = i32_to_f64 F a"
definition fp64_to_fp32 :: "fpu \<Rightarrow> u64 \<Rightarrow> u32" where "fp64_to_fp32 F a = f64_to_f32 F a"
definition fp32_to_fp64 :: "fpu \<Rightarrow> u32 \<Rightarrow> u64" where "fp32_to_fp64 F a = f32_to_f64 F a"

text \<open>\<open>long long t = static_cast<long long>(a); t &= ((1L<<32) - 1)\<close>.\<close>

definition fp64_to_int32 :: "(u64 \<Rightarrow> u64 option) \<Rightarrow> u64 \<Rightarrow> u64 result" where
  "fp64_to_int32 f64_to_i64 a = bindE (of_conversion (f64_to_i64 a)) (\<lambda>t. Inr (t AND (push_bit 32 1 - 1)))"

definition fp32_to_int32 :: "fpu \<Rightarrow> u32 \<Rightarrow> u32 result" where
  "fp32_to_int32 F a = of_conversion (f32_to_i32 F a)"

definition fp32_compare_lt :: "fpu \<Rightarrow> u32 \<Rightarrow> u32 \<Rightarrow> u32" where "fp32_compare_lt F a b = of_bool (f32_lt F a b)"
definition fp64_compare_lt :: "fpu \<Rightarrow> u64 \<Rightarrow> u64 \<Rightarrow> u32" where "fp64_compare_lt F a b = of_bool (f64_lt F a b)"
definition fp32_compare_le :: "fpu \<Rightarrow> u32 \<Rightarrow> u32 \<Rightarrow> u32" where "fp32_compare_le F a b = of_bool (f32_le F a b)"
definition fp64_compare_le :: "fpu \<Rightarrow> u64 \<Rightarrow> u64 \<Rightarrow> u32" where "fp64_compare_le F a b = of_bool (f64_le F a b)"

text \<open>\<open>round_to_alignment\<close> on an unsigned type: the sum wraps, and a zero alignment divides by zero.\<close>

definition round_to_alignment :: "'a::len word \<Rightarrow> 'a word \<Rightarrow> 'a word result" where
  "round_to_alignment x m = definedE (m \<noteq> 0) (Inr ((x + m - 1) div m * m))"

subsection \<open>Evaluation without execution\<close>

text \<open>An operation outside the switch leaves \<open>x\<close> at zero.\<close>

fun compute_fp_s :: "fpu \<Rightarrow> fpOperation \<Rightarrow> u32 \<Rightarrow> u32 \<Rightarrow> u32" where
  "compute_fp_s F fp_abs a b = fabs a"
| "compute_fp_s F fp_neg a b = fneg a"
| "compute_fp_s F fp_mov a b = a"
| "compute_fp_s F fp_add a b = f32_add F a b"
| "compute_fp_s F fp_sub a b = f32_sub F a b"
| "compute_fp_s F fp_mul a b = f32_mul F a b"
| "compute_fp_s F fp_div a b = (if f32_eq F b 0 then f32_max else f32_div F a b)"
| "compute_fp_s F fp_sqrt a b = f32_sqrt F a"
| "compute_fp_s F fp_rsqrt a b = f32_div F f32_one (f32_sqrt F a)"
| "compute_fp_s F fp_recip a b = f32_div F f32_one a"
| "compute_fp_s F _ a b = 0"

fun compute_fp_d :: "fpu \<Rightarrow> fpOperation \<Rightarrow> u64 \<Rightarrow> u64 \<Rightarrow> u64" where
  "compute_fp_d F fp_abs a b = fabs a"
| "compute_fp_d F fp_neg a b = fneg a"
| "compute_fp_d F fp_mov a b = a"
| "compute_fp_d F fp_add a b = f64_add F a b"
| "compute_fp_d F fp_sub a b = f64_sub F a b"
| "compute_fp_d F fp_mul a b = f64_mul F a b"
| "compute_fp_d F fp_div a b = (if f64_eq F b 0 then f64_max else f64_div F a b)"
| "compute_fp_d F fp_sqrt a b = f64_sqrt F a"
| "compute_fp_d F fp_rsqrt a b = f64_div F f64_one (f64_sqrt F a)"
| "compute_fp_d F fp_recip a b = f64_div F f64_one a"
| "compute_fp_d F _ a b = 0"

definition compute_fp_insn_s :: "fpu \<Rightarrow> u32 \<Rightarrow> fpOperation \<Rightarrow> 'w state_t \<Rightarrow> u32 result" where
  "compute_fp_insn_s F r_inst op s =
     bindE (get_sp s (inst_fs r_inst)) (\<lambda>a. bindE (get_sp s (inst_ft r_inst)) (\<lambda>b. Inr (compute_fp_s F op a b)))"

definition compute_fp_insn_d :: "fpu \<Rightarrow> u32 \<Rightarrow> fpOperation \<Rightarrow> 'w state_t \<Rightarrow> u64 result" where
  "compute_fp_insn_d F r_inst op s =
     bindE (get_dp s (inst_fs r_inst)) (\<lambda>a. bindE (get_dp s (inst_ft r_inst)) (\<lambda>b. Inr (compute_fp_d F op a b)))"

lemmas dpi_defs = fp32_add_def fp64_add_def fp32_mul_def fp64_mul_def fp32_div_def fp64_div_def fp32_sqrt_def
  fp64_sqrt_def int32_to_fp32_def int32_to_fp64_def fp64_to_fp32_def fp32_to_fp64_def fp32_compare_lt_def
  fp64_compare_lt_def fp32_compare_le_def fp64_compare_le_def

subsection \<open>Agreement with the interpreter\<close>

lemma compute_fp_value:
  "fp_value_s F op a b = Inr (v, h) \<Longrightarrow> compute_fp_s F op a b = v"
  "fp_value_d F op x y = Inr (w, h) \<Longrightarrow> compute_fp_d F op x y = w"
  by (cases op; auto split: if_splits)+

text \<open>
  \<open>compute_fp_insn\<close> predicts the interpreter: after a double precision operation the destination pair
  holds the value computed beforehand from the same state.
\<close>

theorem compute_fp_insn_predicts:
  assumes "wf_state s" "inst_fmt inst = FMT_D" "inst_fs inst < 31" "inst_ft inst < 31" "inst_fd inst < 31"
    and "get_dp s (inst_fs inst) = Inr a" "get_dp s (inst_ft inst) = Inr b" "fp_value_d F op a b = Inr (v, h)"
  shows "returns (\<lambda>s'. get_dp s' (inst_fd inst) = compute_fp_insn_d F inst op s) (do_fp_op F op inst s)"
  using assms compute_fp_value(2) [OF assms(8)] join_halves [of v]
  by (simp add: compute_fp_insn_d_def do_fp_op_def execFP_d_def Let_def machine_consts set_dp_def set_cpr1_state_def
      get_dp_def wf_state_def histo_inc_def pc_inc_def)

text \<open>The host's division by zero is an infinity or not a number: its exponent is all ones.\<close>

definition ieee_div_zero :: "fpu \<Rightarrow> bool" where
  "ieee_div_zero F \<longleftrightarrow> (\<forall>a b. f64_eq F b 0 \<longrightarrow> f64_div F a b AND 0x7ff0000000000000 = 0x7ff0000000000000)
     \<and> (\<forall>a b. f32_eq F b 0 \<longrightarrow> f32_div F a b AND 0x7f800000 = 0x7f800000)"

lemma div_zero_not_max:
  assumes "ieee_div_zero F"
  shows "f64_eq F b 0 \<Longrightarrow> f64_div F a b \<noteq> f64_max" "f32_eq F y 0 \<Longrightarrow> f32_div F x y \<noteq> f32_max"
proof -
  show "f64_div F a b \<noteq> f64_max" if "f64_eq F b 0"
  proof
    assume "f64_div F a b = f64_max"
    with assms that have "f64_max AND 0x7ff0000000000000 = 0x7ff0000000000000" unfolding ieee_div_zero_def by metis
    then show False by (simp add: f64_max_def)
  qed
  show "f32_div F x y \<noteq> f32_max" if "f32_eq F y 0"
  proof
    assume "f32_div F x y = f32_max"
    with assms that have "f32_max AND 0x7f800000 = 0x7f800000" unfolding ieee_div_zero_def by metis
    then show False by (simp add: f32_max_def)
  qed
qed

text \<open>
  The processor's TRUNC.W.D converts to 64 bits and keeps the low half: where the interpreter's
  conversion is defined, and conversions agree on the values that fit, it is the same word.
\<close>

lemma fp64_to_int32_agrees:
  assumes "f64_to_i32 F a = Some v" "f64_to_i64 a = Some (scast v)"
  shows "fp64_to_int32 f64_to_i64 a = Inr (ucast v)"
proof -
  have "(scast v :: u64) AND mask 32 = ucast v"
  proof (rule bit_word_eqI)
    fix n :: nat
    assume "n < LENGTH(64)"
    then show "bit ((scast v :: u64) AND mask 32) n = bit (ucast v :: u64) n"
      by (cases n "31 :: nat" rule: linorder_cases)
        (auto simp: bit_simps min_def dest: bit_imp_le_length simp del: mask_numeral)
  qed
  then show ?thesis using assms by (simp add: fp64_to_int32_def of_conversion_def mask_eq_exp_minus_1 push_bit_eq_mult)
qed

text \<open>The conversion to 64 bits agrees with the one to 32 bits on the values that fit.\<close>

definition i64_extends :: "fpu \<Rightarrow> (u64 \<Rightarrow> u64 option) \<Rightarrow> bool" where
  "i64_extends F f64_to_i64 \<longleftrightarrow> (\<forall>a v. f64_to_i32 F a = Some v \<longrightarrow> f64_to_i64 a = Some (scast v))"

text \<open>Arithmetic: the value in the destination register is the callback's.\<close>

lemma double_arith_agrees:
  assumes "wf_state s" "inst_fs inst < 31" "inst_ft inst < 31" "inst_fd inst < 31" "ieee_div_zero F" "inst_fmt inst = FMT_D"
    and "get_dp s (inst_fs inst) = Inr a" "get_dp s (inst_ft inst) = Inr b"
    and "(op, v) \<in> {(fp_add, fp64_add F a b), (fp_mul, fp64_mul F a b), (fp_div, fp64_div F a b), (fp_sqrt, fp64_sqrt F a)}"
  shows "returns (\<lambda>s'. get_dp s' (inst_fd inst) = Inr v \<longleftrightarrow> op \<noteq> fp_div \<or> \<not> f64_eq F b 0) (do_fp_op F op inst s)"
proof -
  have "(if f64_eq F b 0 then f64_max else f64_div F a b) = f64_div F a b \<longleftrightarrow> \<not> f64_eq F b 0"
    using div_zero_not_max(1) [OF assms(5), of b a] by auto
  then obtain w n where w: "fp_value_d F op a b = Inr (w, n)" "w = v \<longleftrightarrow> op \<noteq> fp_div \<or> \<not> f64_eq F b 0"
    using assms(9) by (auto simp: dpi_defs)
  have "compute_fp_insn_d F inst op s = Inr w"
    using assms(7,8) compute_fp_value(2) [OF w(1)] by (simp add: compute_fp_insn_d_def)
  then show ?thesis
    using compute_fp_insn_predicts [OF assms(1,6,2,3,4,7,8) w(1)] w(2) by (auto simp: returns_iff)
qed

lemma single_arith_agrees:
  assumes "wf_state s" "even (inst_fd inst)" "ieee_div_zero F" "inst_fmt inst = FMT_S" "inst_fd inst < 31"
    and "get_sp s (inst_fs inst) = Inr x" "get_sp s (inst_ft inst) = Inr y"
    and "(op, v) \<in> {(fp_add, fp32_add F x y), (fp_mul, fp32_mul F x y), (fp_div, fp32_div F x y), (fp_sqrt, fp32_sqrt F x)}"
  shows "returns (\<lambda>s'. get_sp s' (inst_fd inst) = Inr v \<longleftrightarrow> op \<noteq> fp_div \<or> \<not> f32_eq F y 0) (do_fp_op F op inst s)"
proof -
  have "(if f32_eq F y 0 then f32_max else f32_div F x y) = f32_div F x y \<longleftrightarrow> \<not> f32_eq F y 0"
    using div_zero_not_max(2) [OF assms(3), of y x] by auto
  then obtain w n where w: "fp_value_s F op x y = Inr (w, n)" "w = v \<longleftrightarrow> op \<noteq> fp_div \<or> \<not> f32_eq F y 0"
    using assms(8) by (auto simp: dpi_defs)
  show ?thesis
    using assms(1,2,4-7) w
    by (simp add: do_fp_op_def execFP_s_def Let_def set_sp_def set_cpr1_state_def wf_state_def get_sp_def
        histo_inc_def pc_inc_def)
qed

text \<open>The conversions.\<close>

lemma conversions_agree:
  assumes "wf_state s" "even (inst_fs inst)" "even (inst_fd inst)" "inst_fd inst < 31"
    and "get_sp s (inst_fs inst) = Inr x" "get_dp s (inst_fs inst) = Inr a"
  shows "inst_fmt inst = FMT_D \<Longrightarrow> returns (\<lambda>s'. get_sp s' (inst_fd inst) = Inr (fp64_to_fp32 F a)) (insn_cvts F inst s)"
    and "inst_fmt inst = FMT_W \<Longrightarrow> returns (\<lambda>s'. get_sp s' (inst_fd inst) = Inr (int32_to_fp32 F x)) (insn_cvts F inst s)"
    and "inst_fmt inst = FMT_S \<Longrightarrow> returns (\<lambda>s'. get_dp s' (inst_fd inst) = Inr (fp32_to_fp64 F x)) (insn_cvtd F inst s)"
    and "inst_fmt inst = FMT_W \<Longrightarrow> returns (\<lambda>s'. get_dp s' (inst_fd inst) = Inr (int32_to_fp64 F x)) (insn_cvtd F inst s)"
    and "inst_fmt inst = FMT_S \<Longrightarrow> f32_to_i32 F x = Some v \<Longrightarrow>
           returns (\<lambda>s'. get_sp s' (inst_fd inst) = Inr v) (insn_truncw F inst s)"
    and "inst_fmt inst = FMT_D \<Longrightarrow> f64_to_i32 F a = Some v \<Longrightarrow>
           returns (\<lambda>s'. get_sp s' (inst_fd inst) = Inr v) (insn_truncw F inst s)"
  using assms join_halves [of "fp32_to_fp64 F x"] join_halves [of "int32_to_fp64 F x"]
  by (simp_all add: insn_cvts_def insn_cvtd_def insn_truncw_def Let_def machine_consts dpi_defs set_sp_def set_dp_def
      get_dp_def get_sp_def set_cpr1_state_def wf_state_def histo_inc_def pc_inc_def of_conversion_def)

text \<open>The comparisons for less and for less or equal, the two the processor has callbacks for.\<close>

lemma compares_agree:
  assumes "wf_state s" "get_sp s (inst_fs inst) = Inr x" "get_sp s (inst_ft inst) = Inr y"
    and "get_dp s (inst_fs inst) = Inr a" "get_dp s (inst_ft inst) = Inr b"
    and "inst_funct inst \<in> {0x3c, 0x3e}"
  defines "cc \<equiv> unat (drop_bit 8 inst AND 7)"
  shows "inst_fmt inst = FMT_S \<Longrightarrow> returns (\<lambda>s'. getConditionCode s' cc =
      (if inst_funct inst = 0x3c then fp32_compare_lt F x y else fp32_compare_le F x y)) (insn_c F inst s)"
    and "inst_fmt inst = FMT_D \<Longrightarrow> returns (\<lambda>s'. getConditionCode s' cc =
      (if inst_funct inst = 0x3c then fp64_compare_lt F a b else fp64_compare_le F a b)) (insn_c F inst s)"
proof -
  have "inst AND 15 = (inst AND 63) AND 15" by (simp add: and.assoc)
  moreover have "inst AND 63 = of_nat (inst_funct inst)" by (simp add: inst_funct_def)
  ultimately have cond: "unat (inst AND 15) = (if inst_funct inst = 0x3c then COND_LT else COND_LE)"
    using assms(6) by (auto simp: machine_consts)
  then have c: "unat (inst AND 15) \<in> {COND_UN, COND_EQ, COND_LT, COND_LE}" by simp
  have "drop_bit 8 inst AND 7 \<le> 7" by (simp add: word_and_le1)
  then have cc: "cc < 32" by (simp add: cc_def word_le_nat_alt)
  note sets = fpCmp_body_sets [OF assms(1) c, folded cc_def]
  show "returns (\<lambda>s'. getConditionCode s' cc =
      (if inst_funct inst = 0x3c then fp32_compare_lt F x y else fp32_compare_le F x y)) (insn_c F inst s)"
    if "inst_fmt inst = FMT_S"
    using that assms(2,3) cond cc
    by (auto simp: insn_c_def fpCmp_s_def dpi_defs machine_consts intro!: returns_mono [OF sets] split: if_splits)
  show "returns (\<lambda>s'. getConditionCode s' cc =
      (if inst_funct inst = 0x3c then fp64_compare_lt F a b else fp64_compare_le F a b)) (insn_c F inst s)"
    if "inst_fmt inst = FMT_D"
    using that assms(4,5) cond cc
    by (auto simp: insn_c_def fpCmp_d_def dpi_defs machine_consts intro!: returns_mono [OF sets] split: if_splits)
qed

text \<open>
  C26. The processor and the checker agree on floating point.  The checker executes the instruction \<open>inst\<close>
  (\<open>execCoproc1\<close>) on operands of which the processor computes the result with its callbacks:
  for addition, multiplication, division and square root in both precisions the destination holds the
  callback's value, except exactly for a division by zero, where the processor's value is the host's and
  the interpreter writes the largest finite number; CVT.S and CVT.D from the other precision and from
  an integer write the callback's value; TRUNC.W of a value that fits writes the callback's word, which
  for a \<open>double\<close> the callback returns in the low half of 64 bits; the comparisons for less and for
  less or equal write the callback's outcome into the condition code.
\<close>

theorem dpi_agrees_with_interpreter:
  assumes "wf_state s" "inst_fs inst < 31" "inst_ft inst < 31" "inst_fd inst < 31"
    and "get_dp s (inst_fs inst) = Inr a" "get_dp s (inst_ft inst) = Inr b"
    and "get_sp s (inst_fs inst) = Inr x" "get_sp s (inst_ft inst) = Inr y"
    and "ieee_div_zero F" "i64_extends F f64_to_i64"
  defines "run \<equiv> exec_fp_lowop F inst s" and "lowop \<equiv> inst_funct inst" and "fmt \<equiv> inst_fmt inst"
    and "single \<equiv> even (inst_fd inst)" and "conv \<equiv> even (inst_fd inst) \<and> even (inst_fs inst)"
    and "sp_is \<equiv> (\<lambda>v s'. get_sp s' (inst_fd inst) = Inr v)" and "dp_is \<equiv> (\<lambda>v s'. get_dp s' (inst_fd inst) = Inr v)"
    and "flag_is \<equiv> (\<lambda>v s'. getConditionCode s' (unat (drop_bit 8 inst AND 7)) = v)"
  shows "(fmt = FMT_D \<longrightarrow>
        (lowop = 0 \<longrightarrow> returns (dp_is (fp64_add F a b)) run)
      \<and> (lowop = 2 \<longrightarrow> returns (dp_is (fp64_mul F a b)) run)
      \<and> (lowop = 3 \<longrightarrow> returns (\<lambda>s'. dp_is (fp64_div F a b) s' \<longleftrightarrow> \<not> f64_eq F b 0) run)
      \<and> (lowop = 4 \<longrightarrow> returns (dp_is (fp64_sqrt F a)) run)
      \<and> (lowop = 0x20 \<and> conv \<longrightarrow> returns (sp_is (fp64_to_fp32 F a)) run)
      \<and> (\<forall>w. lowop = 0xd \<and> conv \<and> f64_to_i32 F a = Some w \<longrightarrow>
            returns (sp_is w) run \<and> fp64_to_int32 f64_to_i64 a = Inr (ucast w))
      \<and> (lowop = 0x3c \<longrightarrow> returns (flag_is (fp64_compare_lt F a b)) run)
      \<and> (lowop = 0x3e \<longrightarrow> returns (flag_is (fp64_compare_le F a b)) run))
    \<and> (fmt = FMT_S \<longrightarrow>
        (lowop = 0 \<and> single \<longrightarrow> returns (sp_is (fp32_add F x y)) run)
      \<and> (lowop = 2 \<and> single \<longrightarrow> returns (sp_is (fp32_mul F x y)) run)
      \<and> (lowop = 3 \<and> single \<longrightarrow> returns (\<lambda>s'. sp_is (fp32_div F x y) s' \<longleftrightarrow> \<not> f32_eq F y 0) run)
      \<and> (lowop = 4 \<and> single \<longrightarrow> returns (sp_is (fp32_sqrt F x)) run)
      \<and> (lowop = 0x21 \<and> conv \<longrightarrow> returns (dp_is (fp32_to_fp64 F x)) run)
      \<and> (\<forall>w. lowop = 0xd \<and> conv \<and> fp32_to_int32 F x = Inr w \<longrightarrow> returns (sp_is w) run)
      \<and> (lowop = 0x3c \<longrightarrow> returns (flag_is (fp32_compare_lt F x y)) run)
      \<and> (lowop = 0x3e \<longrightarrow> returns (flag_is (fp32_compare_le F x y)) run))
    \<and> (fmt = FMT_W \<longrightarrow>
        (lowop = 0x20 \<and> conv \<longrightarrow> returns (sp_is (int32_to_fp32 F x)) run)
      \<and> (lowop = 0x21 \<and> conv \<longrightarrow> returns (dp_is (int32_to_fp64 F x)) run))"
proof -
  note defs = run_def lowop_def fmt_def single_def conv_def sp_is_def dp_is_def flag_is_def exec_fp_lowop_def
  note double = double_arith_agrees [OF assms(1-4,9) _ assms(5,6)]
  note single = single_arith_agrees [OF assms(1) _ assms(9) _ assms(4,7,8)]
  note conv = conversions_agree [OF assms(1) _ _ assms(4,7,5)]
  have t: "returns (sp_is w) run \<and> fp64_to_int32 f64_to_i64 a = Inr (ucast w)"
    if "fmt = FMT_D" "lowop = 0xd \<and> conv \<and> f64_to_i32 F a = Some w" for w
    using that conv(6) [of F w] assms(10) fp64_to_int32_agrees [of F a w f64_to_i64] by (simp add: defs i64_extends_def)
  have u: "returns (sp_is w) run" if "fmt = FMT_S" "lowop = 0xd \<and> conv \<and> fp32_to_int32 F x = Inr w" for w
    using that conv(5) [of F w] by (simp add: defs fp32_to_int32_def of_conversion_def split: option.splits)
  show ?thesis
    using double [of fp_add] double [of fp_mul] double [of fp_div] double [of fp_sqrt] single [of fp_add] single [of fp_mul]
      single [of fp_div] single [of fp_sqrt] conv(1-4) compares_agree [OF assms(1,7,8,5,6)] t u
    by (intro conjI impI allI) (simp_all add: defs)
qed

text \<open>
  A unit whose division by zero is infinite and whose other results are immaterial here; DIV.D, ADD.S,
  TRUNC.W.D \<open>$f4, $f2, $f0\<close> and C.LT.D in a state whose registers are zero.
\<close>

definition inf_fpu :: fpu where
  "inf_fpu = \<lparr>f32_add = \<lambda>_ _. 5, f32_sub = \<lambda>_ _. 0, f32_mul = \<lambda>_ _. 0, f32_div = \<lambda>a b. if b = 0 then 0x7f800000 else a,
     f32_sqrt = \<lambda>_. 0, f32_eq = (=), f32_lt = (<), f32_le = (\<le>), f64_add = \<lambda>_ _. 0, f64_sub = \<lambda>_ _. 0, f64_mul = \<lambda>_ _. 0,
     f64_div = \<lambda>a b. if b = 0 then 0x7ff0000000000000 else a, f64_sqrt = \<lambda>_. 0, f64_eq = (=), f64_lt = (<), f64_le = (\<le>),
     f64_to_f32 = \<lambda>_. 0, f32_to_f64 = \<lambda>_. 0, i32_to_f32 = \<lambda>_. 0, i32_to_f64 = \<lambda>_. 0,
     f32_to_i32 = \<lambda>_. None, f64_to_i32 = \<lambda>a. if a = 0 then Some 0 else None\<rparr>"

definition zero_to_i64 :: "u64 \<Rightarrow> u64 option" where
  "zero_to_i64 a = (if a = 0 then Some 0 else None)"

lemma dpi_sample_fields:
  "inst_fs 0x46201103 = 2" "inst_ft 0x46201103 = 0" "inst_fd 0x46201103 = 4" "inst_fmt 0x46201103 = FMT_D" "inst_funct 0x46201103 = 3"
  "inst_fs 0x46001100 = 2" "inst_ft 0x46001100 = 0" "inst_fd 0x46001100 = 4" "inst_fmt 0x46001100 = FMT_S" "inst_funct 0x46001100 = 0"
  "inst_fs 0x4620110d = 2" "inst_ft 0x4620110d = 0" "inst_fd 0x4620110d = 4" "inst_fmt 0x4620110d = FMT_D" "inst_funct 0x4620110d = 0xd"
  "inst_fs 0x4620113c = 2" "inst_ft 0x4620113c = 0" "inst_fd 0x4620113c = 4" "inst_fmt 0x4620113c = FMT_D" "inst_funct 0x4620113c = 0x3c"
  by (simp_all add: inst_fs_def inst_ft_def inst_fd_def inst_fmt_def inst_funct_def machine_consts)

theorem dpi_agrees_with_interpreter_witness:
  "returns (\<lambda>s'. get_dp s' 4 \<noteq> Inr (fp64_div inf_fpu 0 0)) (exec_fp_lowop inf_fpu 0x46201103 sample_state)
   \<and> returns (\<lambda>s'. get_sp s' 4 = Inr (fp32_add inf_fpu 0 0)) (exec_fp_lowop inf_fpu 0x46001100 sample_state)
   \<and> returns (\<lambda>s'. get_sp s' 4 = Inr 0) (exec_fp_lowop inf_fpu 0x4620110d sample_state)
   \<and> fp64_to_int32 zero_to_i64 0 = Inr 0
   \<and> returns (\<lambda>s'. getConditionCode s' 1 = fp64_compare_lt inf_fpu 0 0) (exec_fp_lowop inf_fpu 0x4620113c sample_state)"
proof -
  have h: "ieee_div_zero inf_fpu" "i64_extends inf_fpu zero_to_i64"
    by (simp_all add: ieee_div_zero_def inf_fpu_def i64_extends_def zero_to_i64_def split: if_splits)
  have e: "f64_eq inf_fpu 0 0" "f64_to_i32 inf_fpu 0 = Some 0" by (simp_all add: inf_fpu_def)
  note agrees = dpi_agrees_with_interpreter [OF wf_sample_state _ _ _ _ _ _ _ h, where a = 0 and b = 0 and x = 0 and y = 0]
  show ?thesis
  proof (intro conjI)
    show "returns (\<lambda>s'. get_dp s' 4 \<noteq> Inr (fp64_div inf_fpu 0 0)) (exec_fp_lowop inf_fpu 0x46201103 sample_state)"
      using agrees [where inst = "0x46201103"] by (simp add: dpi_sample_fields sample_fp_fields e)
    show "returns (\<lambda>s'. get_sp s' 4 = Inr (fp32_add inf_fpu 0 0)) (exec_fp_lowop inf_fpu 0x46001100 sample_state)"
      using agrees [where inst = "0x46001100"] by (simp add: dpi_sample_fields sample_fp_fields)
    show "returns (\<lambda>s'. get_sp s' 4 = Inr 0) (exec_fp_lowop inf_fpu 0x4620110d sample_state)" "fp64_to_int32 zero_to_i64 0 = Inr 0"
      using agrees [where inst = "0x4620110d"] by (simp_all add: dpi_sample_fields sample_fp_fields e)
    show "returns (\<lambda>s'. getConditionCode s' 1 = fp64_compare_lt inf_fpu 0 0) (exec_fp_lowop inf_fpu 0x4620113c sample_state)"
      using agrees [where inst = "0x4620113c"] by (simp add: dpi_sample_fields sample_fp_fields)
  qed
qed

end
