(* ===== verification/Boot.thy ===== *)
theory Boot
  imports Top Save_State
begin

text \<open>
  \<open>src/top.cc\<close>: \<open>main\<close> up to the co-simulation loop, and \<open>main\<close> as a whole.  It loads the program into
  both states, resets the processor, lets it execute the start program at \<open>0x000d0000\<close> while serving
  its memory reads, waits until it has stopped, loads the program again into the processor's state and
  resumes the processor at its entry.

  The processor is the record \<open>verilated\<close>, a parameter: \<open>eval\<close> for a level of the clock and the input
  ports, and the output ports as functions of its state.  The two loops that wait for it need not end;
  they are bounded by fuel and \<open>None\<close> means the fuel was not enough.  The file is read three times and
  is the same each time.  The parsing of the command line is the library's; \<open>main_options\<close> holds what it
  stores into the variables of \<open>main\<close>.
\<close>

subsection \<open>Options\<close>

record main_options = options +
  mips_binary :: "u8 list"
  sysArgs :: "u8 list"
  use_checkpoint :: bool
  use_checker_only :: bool

text \<open>The variables with their default values, for a binary and its arguments.\<close>

definition default_options :: "u8 list \<Rightarrow> u8 list \<Rightarrow> main_options" where
  "default_options binary args =
     \<lparr>enable_checker = True, mem_lat = 4, max_cycle = push_bit 34 1, max_icnt = push_bit 50 1,
      heartbeat = push_bit 24 1, start_trace_at = NOT 0,
      mips_binary = binary, sysArgs = args, use_checkpoint = False, use_checker_only = False\<rparr>"

subsection \<open>The program\<close>

record program =
  checkpoint_file :: "u8 list option"
  binary_file :: elf_file
  getpagesize :: nat

definition load_program :: "bool \<Rightarrow> program \<Rightarrow> globals \<Rightarrow> 'w state_t \<Rightarrow> (globals \<times> 'w state_t) result" where
  "load_program ckpt prog G s =
     (if ckpt then bindE (loadState s (checkpoint_file prog)) (\<lambda>s1. Inr (G, s1))
      else bindE (load_elf (getpagesize prog) G (binary_file prog) s) (\<lambda>(G1, s1).
           bindE (mkMonitorVectors G1 s1) (\<lambda>s2. Inr (G1, s2))))"

subsection \<open>Ports and clock\<close>

record boot_in =
  ports :: tb_in
  reset :: bool
  resume :: bool
  resume_pc :: u64
  extern_irq :: bool

record 'h verilated =
  eval :: "bool \<Rightarrow> boot_in \<Rightarrow> 'h \<Rightarrow> 'h"
  outputs :: "'h \<Rightarrow> tb_out"
  ready_for_resume :: "'h \<Rightarrow> bool"
  finished :: "'h \<Rightarrow> bool"

record ('h, 'w) boot_t =
  tb :: 'h
  inputs :: boot_in
  boot_s :: "'w state_t"
  boot_cycle :: u64
  boot_last_retire :: u64
  boot_last_retired_pc :: u64

text \<open>\<open>tb->clk = 1; tb->eval(); tb->clk = 0; tb->eval()\<close>, and the two levels in the other order.\<close>

definition clock_high_low :: "'h verilated \<Rightarrow> ('h, 'w) boot_t \<Rightarrow> ('h, 'w) boot_t" where
  "clock_high_low W B = B\<lparr>tb := eval W False (inputs B) (eval W True (inputs B) (tb B))\<rparr>"

definition clock_low_high :: "'h verilated \<Rightarrow> ('h, 'w) boot_t \<Rightarrow> ('h, 'w) boot_t" where
  "clock_low_high W B = B\<lparr>tb := eval W True (inputs B) (eval W False (inputs B) (tb B))\<rparr>"

definition next_cycle :: "('h, 'w) boot_t \<Rightarrow> ('h, 'w) boot_t" where
  "next_cycle B = B\<lparr>boot_cycle := boot_cycle B + 1\<rparr>"

subsection \<open>Reset\<close>

definition reset_cycle :: "'h verilated \<Rightarrow> ('h, 'w) boot_t \<Rightarrow> ('h, 'w) boot_t" where
  "reset_cycle W B =
     (let i = inputs B
      in next_cycle (clock_high_low W
        (B\<lparr>inputs := i\<lparr>ports := (ports i)\<lparr>mem_rsp_valid := False, monitor_rsp_data := 0\<rparr>,
                      reset := True, extern_irq := False\<rparr>\<rparr>)))"

text \<open>The counter is incremented in the body and by the \<open>for\<close> statement.\<close>

function reset_loop :: "'h verilated \<Rightarrow> ('h, 'w) boot_t \<Rightarrow> ('h, 'w) boot_t" where
  "reset_loop W B =
     (if boot_cycle B < 4 \<and> \<not> finished W (tb B) then reset_loop W (next_cycle (reset_cycle W B)) else B)"
  by pat_completeness auto
termination
proof (relation "measure (\<lambda>(W, B). 4 - unat (boot_cycle B))", simp)
  fix W :: "'h verilated" and B :: "('h, 'w) boot_t"
  assume "boot_cycle B < 4 \<and> \<not> finished W (tb B)"
  then have "unat (boot_cycle B) < 4" by (simp add: word_less_nat_alt)
  moreover from this have "unat (boot_cycle B + 1 + 1) = unat (boot_cycle B) + 2" by (simp add: unat_word_ariths)
  ultimately show "((W, next_cycle (reset_cycle W B)), (W, B)) \<in> measure (\<lambda>(W, B). 4 - unat (boot_cycle B))"
    by (simp add: next_cycle_def reset_cycle_def clock_high_low_def Let_def)
qed

declare reset_loop.simps [simp del]

definition resume_core :: "'h verilated \<Rightarrow> ('h, 'w) boot_t \<Rightarrow> ('h, 'w) boot_t" where
  "resume_core W B =
     (let B1 = next_cycle B;
          B2 = clock_high_low W (B1\<lparr>inputs := (inputs B1)\<lparr>resume := True, resume_pc := ucast (pc (boot_s B1))\<rparr>\<rparr>);
          B3 = next_cycle B2
      in clock_high_low W (B3\<lparr>inputs := (inputs B3)\<lparr>resume := False\<rparr>\<rparr>))"

definition start_core :: "'h verilated \<Rightarrow> ('h, 'w) boot_t \<Rightarrow> ('h, 'w) boot_t" where
  "start_core W B =
     (let B1 = B\<lparr>boot_s := (boot_s B)\<lparr>pc := 0x000d0000\<rparr>, inputs := (inputs B)\<lparr>reset := False\<rparr>\<rparr>
      in resume_core W (clock_high_low W B1))"

subsection \<open>The start program on the processor\<close>

text \<open>The four words of a line; the address is not reduced to 32 bits.\<close>

definition boot_line :: "memory \<Rightarrow> u64 \<Rightarrow> u32 list result" where
  "boot_line m addr = foldE (\<lambda>i ws. bindE (mem_get m (addr + 4 * of_nat i)) (\<lambda>w. Inr (ws @ [w]))) [0..<4] []"

definition serve :: "'h verilated \<Rightarrow> ('h, 'w) boot_t \<Rightarrow> ('h, 'w) boot_t result" where
  "serve W B =
     (let P = outputs W (tb B); i = inputs B; put = (\<lambda>p. B\<lparr>inputs := i\<lparr>ports := p\<rparr>\<rparr>)
      in bindE
        (if mem_req_valid P
         then bindE (boot_line (mem (boot_s B)) (mem_req_addr P)) (\<lambda>ws.
              Inr (put ((ports i)\<lparr>mem_rsp_valid := True, mem_rsp_load_data := ws\<rparr>)))
         else Inr (put ((ports i)\<lparr>mem_rsp_valid := False\<rparr>)))
        (\<lambda>B1. Inr (clock_low_high W B1)))"

definition init_retire :: "tb_out \<Rightarrow> ('h, 'w) boot_t \<Rightarrow> ('h, 'w) boot_t" where
  "init_retire P B =
     (let B1 = (if retire_reg_valid P
                then B\<lparr>boot_s := wr_gpr (retire_reg_ptr P) (ucast (retire_reg_data P)) (boot_s B)\<rparr> else B);
          B2 = (if retire_valid P then B1\<lparr>boot_last_retire := 0, boot_last_retired_pc := retire_pc P\<rparr> else B1)
      in B2\<lparr>boot_last_retire := boot_last_retire B2 + 1\<rparr>)"

primrec init_loop :: "'h verilated \<Rightarrow> nat \<Rightarrow> ('h, 'w) boot_t \<Rightarrow> ('h, 'w) boot_t result option" where
  "init_loop W 0 B = None"
| "init_loop W (Suc n) B =
     (let should_break = got_break (outputs W (tb B))
      in case serve W B of
           Inl e \<Rightarrow> Some (Inl e)
         | Inr B1 \<Rightarrow>
             if should_break then Some (Inr B1) else init_loop W n (init_retire (outputs W (tb B1)) B1))"

definition drain :: "'h verilated \<Rightarrow> ('h, 'w) boot_t \<Rightarrow> ('h, 'w) boot_t result" where
  "drain W B = foldE (\<lambda>_ B. serve W B) [0..<128] B"

primrec wait_ready :: "'h verilated \<Rightarrow> nat \<Rightarrow> ('h, 'w) boot_t \<Rightarrow> ('h, 'w) boot_t option" where
  "wait_ready W 0 B = (if \<not> ready_for_resume W (tb B) then None else Some B)"
| "wait_ready W (Suc n) B =
     (if \<not> ready_for_resume W (tb B) then wait_ready W n (clock_high_low W (next_cycle B)) else Some B)"

text \<open>Sequencing of phases that may not end.\<close>

definition bindL :: "'a result option \<Rightarrow> ('a \<Rightarrow> 'b result option) \<Rightarrow> 'b result option" where
  "bindL r f = (case r of None \<Rightarrow> None | Some (Inl e) \<Rightarrow> Some (Inl e) | Some (Inr x) \<Rightarrow> f x)"

definition boot :: "'h verilated \<Rightarrow> nat \<Rightarrow> bool \<Rightarrow> program \<Rightarrow> globals \<Rightarrow> 'w state_t \<Rightarrow> ('h, 'w) boot_t \<Rightarrow>
    (globals \<times> ('h, 'w) boot_t) result option" where
  "boot W n ckpt prog G ss B =
     (let B1 = start_core W (reset_loop W (B\<lparr>boot_cycle := 0\<rparr>))
      in bindL (Some (write_stub (boot_s B1))) (\<lambda>s1.
         bindL (init_loop W n (B1\<lparr>boot_s := s1\<rparr>)) (\<lambda>B2.
         bindL (Some (drain W B2)) (\<lambda>B3.
         bindL (Some (load_program ckpt prog G (boot_s B3))) (\<lambda>(G1, s2).
         bindL (map_option Inr (wait_ready W n (B3\<lparr>boot_s := s2\<lparr>pc := pc ss\<rparr>\<rparr>))) (\<lambda>B4.
         Some (Inr (G1, (resume_core W B4)\<lparr>boot_cycle := 0\<rparr>))))))))"

subsection \<open>The whole program\<close>

definition start_driver :: "('h, 'w) boot_t \<Rightarrow> 'w state_t \<Rightarrow> 'w driver" where
  "start_driver B ss =
     \<lparr>rtl = boot_s B, sim = ss, world = os ss, tin = ports (inputs B), cyc = boot_cycle B, insns_retired = 0,
      last_retire = boot_last_retire B, last_retired_pc = boot_last_retired_pc B, last_retired_fp_pc = 0,
      last_match_pc = 0, last_check = 0, mismatches = 0, n_checks = 0, n_stores = 0, n_loads = 0, n_branches = 0,
      n_mispredicts = 0, n_flush_cycles = 0, n_iside_tlb_misses = 0, n_dside_tlb_misses = 0, mispredicts = \<lambda>_. 0,
      pushout_histo = \<lambda>_. 0, inflight = replicate 32 0, max_inflight = 0, mem_reply_cycle = - 1, last_store_addr = 0,
      last_load_addr = 0, last_addr = 0, touched_lines = \<lambda>_. False, got_monitor = False, incorrect = False,
      trace_retirement = False\<rparr>"

text \<open>In the loop only \<open>tin\<close> changes among the input ports.\<close>

definition hw_of :: "'h verilated \<Rightarrow> boot_in \<Rightarrow> 'h hw" where
  "hw_of W i =
     \<lparr>posedge = \<lambda>p h. let h1 = eval W True (i\<lparr>ports := p\<rparr>) h in (h1, outputs W h1),
      negedge = \<lambda>p h. eval W False (i\<lparr>ports := p\<rparr>) h,
      gotFinish = finished W\<rparr>"

record 'h machine =
  model :: "'h verilated"
  tb0 :: 'h
  inputs0 :: boot_in

definition initial_boot :: "'h machine \<Rightarrow> 'w state_t \<Rightarrow> ('h, 'w) boot_t" where
  "initial_boot M s =
     \<lparr>tb = tb0 M, inputs = inputs0 M, boot_s = s, boot_cycle = 0, boot_last_retire = 0, boot_last_retired_pc = 0\<rparr>"

definition initial_globals :: "main_options \<Rightarrow> globals" where
  "initial_globals opt =
     (case buildArgcArgv (mips_binary opt) (sysArgs opt) of (c, v) \<Rightarrow>
        \<lparr>sysArgc = c, sysArgv = v, isMipsEL = False, cycle = 0\<rparr>)"

text \<open>What \<open>main\<close> has when it reaches one of its two loops.\<close>

datatype ('h, 'w) started =
  Checker_only globals "'w state_t"
| Cosim globals 'h boot_in "'w driver"

definition main_start :: "'h machine \<Rightarrow> nat \<Rightarrow> program \<Rightarrow> main_options \<Rightarrow> 'w \<Rightarrow> ('h, 'w) started result option" where
  "main_start M n prog opt w =
     (let s0 = initState (state_t_new sparse_mem_new w); ss0 = initState (state_t_new sparse_mem_new w);
          ckpt = use_checkpoint opt
      in bindL (Some (load_program ckpt prog (initial_globals opt) s0)) (\<lambda>(G1, s).
         if use_checker_only opt then Some (Inr (Checker_only G1 s))
         else
           bindL (Some (load_program ckpt prog G1 ss0)) (\<lambda>(G2, ss).
           bindL (boot (model M) n ckpt prog G2 ss (initial_boot M s)) (\<lambda>(G3, B).
           Some (Inr (Cosim G3 (tb B) (inputs B) (start_driver B ss)))))))"

datatype 'w ended = Checked "'w state_t" | Cosimulated "'w driver"

definition map_result :: "('a \<Rightarrow> 'b) \<Rightarrow> 'a result option \<Rightarrow> 'b result option" where
  "map_result f r = bindL r (\<lambda>x. Some (Inr (f x)))"

text \<open>\<open>d\<close> bounds the nesting of delay slots in the interpreter, \<open>n\<close> the rounds of each loop.\<close>

definition main_prog :: "'h machine \<Rightarrow> fpu \<Rightarrow> 'w host_os \<Rightarrow> nat \<Rightarrow> nat \<Rightarrow> program \<Rightarrow> main_options \<Rightarrow> 'w \<Rightarrow> 'w ended result option" where
  "main_prog M F H d n prog opt w =
     bindL (main_start M n prog opt w) (\<lambda>st.
     case st of
       Checker_only G s \<Rightarrow>
         map_result Checked (run_checker \<lparr>little = False, fpu_of = F, globs = G, host = H\<rparr> d (max_icnt opt) n s)
     | Cosim G h i D \<Rightarrow>
         map_result Cosimulated (cosim (hw_of (model M) i) d \<lparr>little = False, fpu_of = F, globs = G, host = H\<rparr>
           (options.truncate opt) n h D))"

subsection \<open>Loading twice\<close>

lemma bindL_simps [simp]:
  "bindL None f = None" "bindL (Some (Inl e)) f = Some (Inl e)" "bindL (Some (Inr x)) f = f x"
  by (simp_all add: bindL_def)

lemma bindL_Inr_iff: "bindL r f = Some (Inr y) \<longleftrightarrow> (\<exists>x. r = Some (Inr x) \<and> f x = Some (Inr y))"
  by (auto simp: bindL_def split: option.splits sum.splits)

text \<open>Two runs that fault alike or return related values.\<close>

definition alike :: "('a \<Rightarrow> 'b \<Rightarrow> bool) \<Rightarrow> 'a result \<Rightarrow> 'b result \<Rightarrow> bool" where
  "alike R = rel_sum (=) R"

lemma alike_simps [simp]:
  "alike R (Inr x) (Inr y) \<longleftrightarrow> R x y" "alike R (Inl e) (Inl e') \<longleftrightarrow> e = e'"
  "\<not> alike R (Inr x) (Inl e')" "\<not> alike R (Inl e) (Inr y)"
  by (simp_all add: alike_def)

lemma alike_bindE:
  assumes "alike R a b" "\<And>x y. R x y \<Longrightarrow> alike S (f x) (g y)"
  shows "alike S (bindE a f) (bindE b g)"
  using assms by (cases a; cases b) auto

lemma alike_bindE_same: "(\<And>x. alike S (f x) (g x)) \<Longrightarrow> alike S (bindE a f) (bindE a g)"
  by (cases a) auto

lemma alike_foldE:
  assumes "\<And>i x y. R x y \<Longrightarrow> alike R (f i x) (g i y)" "R x y"
  shows "alike R (foldE f is x) (foldE g is y)"
  using assms(2) by (induction "is" arbitrary: x y) (auto intro: alike_bindE assms(1))

definition same_image :: "load_vars \<times> 'w state_t \<Rightarrow> load_vars \<times> 'w state_t \<Rightarrow> bool" where
  "same_image = (\<lambda>(V, ms) (V', ms'). V = V' \<and> mem ms = mem ms' \<and> pc ms = pc ms')"

lemma elf_bswap_cong: "isMipsEL G = isMipsEL G' \<Longrightarrow> elf_bswap G = elf_bswap G'"
  by (simp add: elf_bswap_def [abs_def])

lemma load_segment_alike:
  assumes "isMipsEL G = isMipsEL G'" "same_image vs vs'"
  shows "alike same_image (load_segment G buf ph vs) (load_segment G' buf ph vs')"
proof -
  note b = elf_bswap_cong [OF assms(1)]
  obtain V ms V' ms' where vs: "vs = (V, ms)" "vs' = (V', ms')" by fastforce
  show ?thesis
    unfolding load_segment_def Let_def b
    by (intro alike_bindE_same alike_bindE [where R = same_image])
      (use assms(2) in \<open>auto simp: vs same_image_def note_segment_def Let_def b intro!: alike_bindE_same\<close>)
qed

lemma load_image_alike:
  fixes ms ms' :: "'w state_t"
  assumes "isMipsEL G = isMipsEL G'" "mem ms = mem ms'"
  shows "alike (\<lambda>s s'. mem s = mem s' \<and> pc s = pc s') (load_image G buf ms) (load_image G' buf ms')"
proof -
  note b = elf_bswap_cong [OF assms(1)]
  show ?thesis
    unfolding load_image_def Let_def b
    by (rule alike_bindE [where R = same_image], rule alike_foldE, rule load_segment_alike [OF assms(1)])
      (use assms(2) in \<open>auto simp: same_image_def\<close>)
qed

text \<open>The parts of the state a program load determines: memory and entry, and for a checkpoint the registers.\<close>

definition loaded_alike :: "bool \<Rightarrow> 'w state_t \<Rightarrow> 'w state_t \<Rightarrow> bool" where
  "loaded_alike ckpt s s' \<longleftrightarrow> mem s = mem s' \<and> pc s = pc s' \<and>
     (ckpt \<longrightarrow> regs s = regs s' \<and> cpr0 s = cpr0 s' \<and> icnt s = icnt s')"

lemma loadState_alike: "alike (loaded_alike True) (loadState s f) (loadState s' f)"
  by (auto simp: loadState_def Let_def clear_def assertE_def loaded_alike_def regs_def intro!: alike_bindE_same
      split: option.splits prod.splits)

lemma load_elf_alike:
  fixes s s' :: "'w state_t"
  shows "alike (\<lambda>(G1, s1) (G2, s2). isMipsEL G1 = isMipsEL G2 \<and> mem s1 = mem s2 \<and> pc s1 = pc s2)
    (load_elf pg G f s) (load_elf pg G' f s')"
proof (cases f)
  case (Contents c)
  define buf where "buf = mapped pg c"
  let ?R = "\<lambda>(G1, s1) (G2, s2). isMipsEL G1 = isMipsEL G2 \<and> mem s1 = mem s2 \<and> pc s1 = (pc s2 :: u32)"
  let ?rest = "\<lambda>(s :: 'w state_t) G1. if elf_bswap G1 (e_machine (ehdr_of buf)) \<noteq> 8 then Inl (Exit (-1))
    else bindE (load_image G1 buf (s\<lparr>mem := \<lambda>_. 0\<rparr>)) (\<lambda>ms1. Inr (G1, ms1))"
  have "alike ?R (?rest s G1) (?rest s' G2)" if el: "isMipsEL G1 = isMipsEL G2" for G1 G2
    by (auto simp: elf_bswap_cong [OF el] el intro!: alike_bindE [OF load_image_alike [OF el]])
  then have "alike ?R
      (bindE (if checkLittleEndian (ehdr_of buf) then Inr (G\<lparr>isMipsEL := True\<rparr>)
        else if checkBigEndian (ehdr_of buf) then Inr (G\<lparr>isMipsEL := False\<rparr>) else Inl Abort) (?rest s))
      (bindE (if checkLittleEndian (ehdr_of buf) then Inr (G'\<lparr>isMipsEL := True\<rparr>)
        else if checkBigEndian (ehdr_of buf) then Inr (G'\<lparr>isMipsEL := False\<rparr>) else Inl Abort) (?rest s'))"
    by (intro alike_bindE [where R = "\<lambda>G1 G2. isMipsEL G1 = isMipsEL G2"]) auto
  then show ?thesis
    by (auto simp: load_elf_def Contents Let_def definedE_def buf_def [symmetric] clear_def)
qed (simp_all add: load_elf_def)

lemma mkMonitorVectors_alike:
  assumes "isMipsEL G = isMipsEL G'" "mem s = mem s'" "pc s = pc s'"
  shows "alike (loaded_alike False) (mkMonitorVectors G s) (mkMonitorVectors G' s')"
  using assms by (auto simp: mkMonitorVectors_def loaded_alike_def intro!: alike_bindE_same)

lemma load_program_alike:
  fixes s s' :: "'w state_t"
  shows "alike (\<lambda>(G1, s1) (G2, s2). loaded_alike ckpt s1 s2) (load_program ckpt prog G s) (load_program ckpt prog G' s')"
proof (cases ckpt)
  case True
  then show ?thesis by (auto simp: load_program_def intro!: alike_bindE [OF loadState_alike])
next
  case False
  then show ?thesis
    by (auto simp: load_program_def intro!: alike_bindE [OF load_elf_alike] alike_bindE [OF mkMonitorVectors_alike])
qed

subsection \<open>What the start leaves alone\<close>

text \<open>Every register but the integer ones.\<close>

definition other_regs :: "'w state_t \<Rightarrow> u32 \<times> u32 \<times> u32 list \<times> u32 list \<times> u32 list" where
  "other_regs s = (lo s, hi s, cpr0 s, cpr1 s, fcr1 s)"

definition boot_keeps :: "'w state_t \<Rightarrow> 'w state_t \<Rightarrow> bool" where
  "boot_keeps s s' \<longleftrightarrow> other_regs s' = other_regs s \<and> length (gpr s') = length (gpr s) \<and> cpr1_state s' = cpr1_state s"

lemma boot_keeps_wf: "boot_keeps s s' \<Longrightarrow> wf_state s \<Longrightarrow> wf_state s'"
  by (simp add: boot_keeps_def other_regs_def wf_state_def)

lemma boot_keeps_updates [simp]:
  "boot_keeps s (wr_gpr r v s') \<longleftrightarrow> boot_keeps s s'" "boot_keeps s (s'\<lparr>mem := m\<rparr>) \<longleftrightarrow> boot_keeps s s'"
  "boot_keeps s (s'\<lparr>pc := p\<rparr>) \<longleftrightarrow> boot_keeps s s'" "boot_keeps s (s'\<lparr>linux_image := im\<rparr>) \<longleftrightarrow> boot_keeps s s'"
  "boot_keeps s s"
  by (simp_all add: boot_keeps_def other_regs_def wr_gpr_def)

lemma load_segment_keeps:
  assumes "boot_keeps s (snd vs)"
  shows "on_ok (\<lambda>vs'. boot_keeps s (snd vs')) (load_segment G buf ph vs)"
proof -
  obtain V ms where vs: "vs = (V, ms)" by fastforce
  show ?thesis
    unfolding load_segment_def Let_def
    by (intro on_ok_bindE_any on_ok_bindE [where Q = "\<lambda>vs'. boot_keeps s (snd vs')"])
      (use assms in \<open>auto simp: vs note_segment_def Let_def intro!: on_ok_bindE_any\<close>)
qed

lemma load_elf_keeps: "on_ok (\<lambda>(G', s'). boot_keeps s s') (load_elf pg G f s)"
proof -
  have "on_ok (boot_keeps s) (load_image G1 buf (s\<lparr>mem := clear (mem s)\<rparr>))" for G1 buf
  proof -
    have "boot_keeps s (snd vs')" if "foldE (\<lambda>i. load_segment G1 buf (e + 32 * int i)) ns vs = Inr vs'" "boot_keeps s (snd vs)"
      for e ns vs vs'
      by (rule foldE_invariant [where P = "\<lambda>vs. boot_keeps s (snd vs)", OF that]) (rule on_okD [OF load_segment_keeps])
    then show ?thesis unfolding load_image_def Let_def by (auto simp: on_ok_def split: sum.splits prod.splits)
  qed
  then have "on_ok (\<lambda>(G', s'). boot_keeps s s') (bindE (load_image G1 buf (s\<lparr>mem := clear (mem s)\<rparr>)) (\<lambda>ms1. Inr (G1, ms1)))"
    for G1 buf by (rule on_ok_bindE) simp
  then show ?thesis by (cases f) (auto simp: load_elf_def Let_def definedE_def)
qed

lemma load_program_keeps:
  assumes "load_program ckpt prog G s = Inr (G', s')"
  shows "if ckpt then wf_state s \<longrightarrow> wf_state s' else boot_keeps s s'"
proof (cases ckpt)
  case True
  with assms show ?thesis
    by (auto simp: load_program_def loadState_def Let_def wf_state_def header_of_def words_at_def
        split: option.splits prod.splits)
next
  case False
  with assms obtain G1 s1 where "load_elf (getpagesize prog) G (binary_file prog) s = Inr (G1, s1)"
    "mkMonitorVectors G1 s1 = Inr s'" by (auto simp: load_program_def)
  then show ?thesis using on_okD [OF load_elf_keeps] False by (auto simp: mkMonitorVectors_def)
qed

text \<open>
  What \<open>main\<close> relies on when it loads the program into two states and again into the processor's, after the
  start program has run on it (\<open>s1\<close>): the second load undoes what the start program did.
\<close>

locale program_loader =
  fixes load :: "globals \<Rightarrow> 'w state_t \<Rightarrow> (globals \<times> 'w state_t) result"
  assumes keeps_wf: "load G s = Inr (G', s') \<Longrightarrow> wf_state s \<Longrightarrow> wf_state s'"
    and reload: "load G s0 = Inr (G1, s) \<Longrightarrow> boot_keeps s s1 \<Longrightarrow> load G1 s0 = Inr (G2, ss) \<Longrightarrow> load G2 s1 = Inr (G3, s2) \<Longrightarrow>
      mem s2 = mem ss \<and> pc s2 = pc ss \<and> other_regs s2 = other_regs ss"
begin

lemma reloaded:
  assumes "load G s0 = Inr (G1, s)" "boot_keeps s s1" "load G1 s0 = Inr (G2, ss)" "load G2 s1 = Inr (G3, s2)" "wf_state s0"
  shows "mem s2 = mem ss" "pc s2 = pc ss" "other_regs s2 = other_regs ss" "wf_state s2" "wf_state ss"
proof -
  show "mem s2 = mem ss" "pc s2 = pc ss" "other_regs s2 = other_regs ss" using reload [OF assms(1-4)] by simp_all
  show "wf_state ss" by (rule keeps_wf [OF assms(3,5)])
  have "wf_state s1" by (rule boot_keeps_wf [OF assms(2) keeps_wf [OF assms(1,5)]])
  then show "wf_state s2" by (rule keeps_wf [OF assms(4)])
qed

end

interpretation checkpoint: program_loader "load_program True prog"
proof
  show "wf_state s'" if "load_program True prog G s = Inr (G', s')" "wf_state s" for G G' and s s' :: "'a state_t"
    using load_program_keeps [OF that(1)] that(2) by simp
  fix G G1 G2 G3 and s0 s s1 ss s2 :: "'a state_t"
  assume "load_program True prog G1 s0 = Inr (G2, ss)" "load_program True prog G2 s1 = Inr (G3, s2)"
  then have "loaded_alike True ss s2" using load_program_alike [of True prog G1 s0 G2 s1] by simp
  then show "mem s2 = mem ss \<and> pc s2 = pc ss \<and> other_regs s2 = other_regs ss" by (simp add: loaded_alike_def regs_def other_regs_def)
qed

interpretation executable: program_loader "load_program False prog"
proof
  show "wf_state s'" if "load_program False prog G s = Inr (G', s')" "wf_state s" for G G' and s s' :: "'a state_t"
    using load_program_keeps [OF that(1)] boot_keeps_wf that(2) by simp
  fix G G1 G2 G3 and s0 s s1 ss s2 :: "'a state_t"
  assume *: "load_program False prog G s0 = Inr (G1, s)" "boot_keeps s s1" "load_program False prog G1 s0 = Inr (G2, ss)"
    "load_program False prog G2 s1 = Inr (G3, s2)"
  then have "loaded_alike False ss s2" using load_program_alike [of False prog G1 s0 G2 s1] by simp
  moreover have "boot_keeps s0 s" "boot_keeps s0 ss" "boot_keeps s1 s2"
    using load_program_keeps [OF *(1)] load_program_keeps [OF *(3)] load_program_keeps [OF *(4)] by simp_all
  with *(2) have "other_regs s2 = other_regs ss" by (simp add: boot_keeps_def)
  ultimately show "mem s2 = mem ss \<and> pc s2 = pc ss \<and> other_regs s2 = other_regs ss" by (simp add: loaded_alike_def)
qed

interpretation loader: program_loader "load_program ckpt prog"
  by (cases ckpt) (simp_all add: checkpoint.program_loader_axioms executable.program_loader_axioms)

subsection \<open>The phases of the start\<close>

definition same_lines :: "('h, 'w) boot_t \<Rightarrow> ('h, 'w) boot_t \<Rightarrow> bool" where
  "same_lines B B' \<longleftrightarrow> reset (inputs B') = reset (inputs B) \<and> resume (inputs B') = resume (inputs B)"

lemma clock_simps [simp]:
  "boot_s (clock_high_low W B) = boot_s B" "boot_s (clock_low_high W B) = boot_s B" "boot_s (next_cycle B) = boot_s B"
  "inputs (clock_high_low W B) = inputs B" "inputs (clock_low_high W B) = inputs B" "inputs (next_cycle B) = inputs B"
  by (simp_all add: clock_high_low_def clock_low_high_def next_cycle_def)

lemma reset_loop_state: "boot_s (reset_loop W B) = boot_s B"
proof (induction W B rule: reset_loop.induct)
  case (1 W B)
  then show ?case by (simp add: reset_loop.simps [of W B] reset_cycle_def Let_def)
qed

lemma resume_core_simps [simp]:
  "boot_s (resume_core W B) = boot_s B" "reset (inputs (resume_core W B)) = reset (inputs B)"
  "\<not> resume (inputs (resume_core W B))"
  by (simp_all add: resume_core_def Let_def)

lemma start_core_simps [simp]:
  "boot_s (start_core W B) = (boot_s B)\<lparr>pc := 0x000d0000\<rparr>" "\<not> reset (inputs (start_core W B))"
  by (simp_all add: start_core_def Let_def)

lemma serve_frame:
  assumes "serve W B = Inr B'"
  shows "boot_s B' = boot_s B" "same_lines B B'"
  using assms by (auto simp: serve_def Let_def same_lines_def split: if_splits)

lemma drain_frame:
  assumes "drain W B = Inr B'"
  shows "boot_s B' = boot_s B" "same_lines B B'"
proof -
  have "boot_s B' = boot_s B \<and> same_lines B B'"
    by (rule foldE_invariant [where P = "\<lambda>B'. boot_s B' = boot_s B \<and> same_lines B B'", OF assms [unfolded drain_def]])
      (auto simp: same_lines_def dest: serve_frame)
  then show "boot_s B' = boot_s B" "same_lines B B'" by simp_all
qed

lemma init_retire_frame:
  "boot_keeps s (boot_s (init_retire P B)) \<longleftrightarrow> boot_keeps s (boot_s B)" "inputs (init_retire P B) = inputs B"
  by (simp_all add: init_retire_def Let_def)

lemma init_loop_frame:
  assumes "init_loop W n B = Some (Inr B')" "boot_keeps s (boot_s B)"
  shows "boot_keeps s (boot_s B') \<and> same_lines B B'"
  using assms
proof (induction n arbitrary: B)
  case (Suc n)
  then obtain B1 where B1: "serve W B = Inr B1" by (cases "serve W B") auto
  note frame = serve_frame [OF B1]
  show ?case
  proof (cases "got_break (outputs W (tb B))")
    case True
    with Suc.prems B1 frame show ?thesis by simp
  next
    case False
    let ?B = "init_retire (outputs W (tb B1)) B1"
    have "init_loop W n ?B = Some (Inr B')" using Suc.prems(1) B1 False by simp
    moreover have "boot_keeps s (boot_s ?B)" using Suc.prems(2) frame by (simp add: init_retire_frame)
    ultimately have "boot_keeps s (boot_s B') \<and> same_lines ?B B'" by (rule Suc.IH)
    then show ?thesis using frame by (simp add: same_lines_def init_retire_frame)
  qed
qed simp

lemma wait_ready_frame:
  assumes "wait_ready W n B = Some B'"
  shows "boot_s B' = boot_s B \<and> inputs B' = inputs B"
  using assms by (induction n arbitrary: B) (auto split: if_splits)

lemma write_stub_keeps: "write_stub s = Inr s1 \<Longrightarrow> boot_keeps s0 s1 \<longleftrightarrow> boot_keeps s0 s"
  by (auto simp: write_stub_def split: prod.splits)

lemma boot_outcome:
  assumes "boot W n ckpt prog G ss B = Some (Inr (G', B'))"
  obtains s1 G1 s2 where "boot_keeps (boot_s B) s1" "load_program ckpt prog G s1 = Inr (G1, s2)"
    "boot_s B' = s2\<lparr>pc := pc ss\<rparr>" "boot_cycle B' = 0" "\<not> reset (inputs B')" "\<not> resume (inputs B')"
proof -
  let ?B1 = "start_core W (reset_loop W (B\<lparr>boot_cycle := 0\<rparr>))"
  from assms obtain s1 B2 B3 G1 s2 B4 where *: "write_stub (boot_s ?B1) = Inr s1"
      "init_loop W n (?B1\<lparr>boot_s := s1\<rparr>) = Some (Inr B2)" "drain W B2 = Inr B3"
      "load_program ckpt prog G (boot_s B3) = Inr (G1, s2)"
      "wait_ready W n (B3\<lparr>boot_s := s2\<lparr>pc := pc ss\<rparr>\<rparr>) = Some B4" "B' = (resume_core W B4)\<lparr>boot_cycle := 0\<rparr>"
    unfolding boot_def Let_def by (auto simp: bindL_Inr_iff)
  have "boot_keeps (boot_s B) s1" using write_stub_keeps [OF *(1), of "boot_s B"] by (simp add: reset_loop_state)
  then have "boot_keeps (boot_s B) (boot_s B2)" "same_lines (?B1\<lparr>boot_s := s1\<rparr>) B2"
    using init_loop_frame [OF *(2), of "boot_s B"] by simp_all
  moreover note drain_frame [OF *(3)] wait_ready_frame [OF *(5)]
  ultimately show ?thesis using that [of "boot_s B3" G1 s2] *(4,6) by (simp add: same_lines_def)
qed

subsection \<open>Properties of the start\<close>

lemma fresh_state [simp]: "wf_state (initState (state_t_new m w))"
  by (simp add: initState_def Let_def wf_state_def state_t_new_def)

lemma start_driver_simps [simp]:
  "rtl (start_driver B ss) = boot_s B" "sim (start_driver B ss) = ss" "cyc (start_driver B ss) = boot_cycle B"
  "incorrect (start_driver B ss) = False" "insns_retired (start_driver B ss) = 0"
  by (simp_all add: start_driver_def)

lemma main_start_cosim:
  assumes "main_start M n prog opt w = Some (Inr (Cosim G h i D))"
  shows "mem (rtl D) = mem (sim D) \<and> pc (rtl D) = pc (sim D) \<and> other_regs (rtl D) = other_regs (sim D)
    \<and> (use_checkpoint opt \<longrightarrow> gpr (rtl D) = gpr (sim D)) \<and> wf_state (rtl D) \<and> wf_state (sim D)
    \<and> cyc D = 0 \<and> insns_retired D = 0 \<and> \<not> incorrect D \<and> \<not> reset i \<and> \<not> resume i"
proof -
  let ?s0 = "initState (state_t_new sparse_mem_new w)" and ?ckpt = "use_checkpoint opt"
  from assms obtain G1 s G2 ss B where *: "load_program ?ckpt prog (initial_globals opt) ?s0 = Inr (G1, s)"
      "load_program ?ckpt prog G1 ?s0 = Inr (G2, ss)" "boot (model M) n ?ckpt prog G2 ss (initial_boot M s) = Some (Inr (G, B))"
      "h = tb B" "i = inputs B" "D = start_driver B ss"
    unfolding main_start_def Let_def by (auto simp: bindL_Inr_iff split: if_splits)
  obtain s1 G1' s2 where b: "boot_keeps s s1" "load_program ?ckpt prog G2 s1 = Inr (G1', s2)"
      "boot_s B = s2\<lparr>pc := pc ss\<rparr>" "boot_cycle B = 0" "\<not> reset (inputs B)" "\<not> resume (inputs B)"
    by (rule boot_outcome [OF *(3), unfolded initial_boot_def boot_t.select_convs]) blast
  note r = loader.reloaded [OF *(1) b(1) *(2) b(2) fresh_state]
  have "gpr s2 = gpr ss" if ?ckpt
    using that load_program_alike [of ?ckpt prog G1 ?s0 G2 s1] *(2) b(2) by (simp add: loaded_alike_def regs_def)
  with r show ?thesis using *(4-6) b(3-6) by (simp add: other_regs_def wf_state_def)
qed

lemma main_start_checker:
  assumes "main_start M n prog opt w = Some (Inr (Checker_only G s))"
  shows "wf_state s"
proof -
  let ?s0 = "initState (state_t_new sparse_mem_new w)"
  from assms have "load_program (use_checkpoint opt) prog (initial_globals opt) ?s0 = Inr (G, s)"
    unfolding main_start_def Let_def by (auto simp: bindL_Inr_iff split: if_splits)
  then show ?thesis by (rule loader.keeps_wf) simp
qed

text \<open>
  C6. The co-simulation starts from equal states: when \<open>main\<close> reaches its loop, the processor's state
  and the checker's have the same memory and program counter, the same HI, LO, coprocessor 0 and
  floating point registers and condition codes, and for a checkpoint the same integer registers; the
  processor is out of reset, and no cycle, instruction or difference has been counted.
\<close>

theorem main_starts_synchronised:
  assumes "main_start M n prog opt w = Some (Inr (Cosim G h i D))"
  shows "mem (rtl D) = mem (sim D) \<and> pc (rtl D) = pc (sim D) \<and> other_regs (rtl D) = other_regs (sim D)
    \<and> (use_checkpoint opt \<longrightarrow> gpr (rtl D) = gpr (sim D)) \<and> wf_state (rtl D) \<and> wf_state (sim D)
    \<and> cyc D = 0 \<and> insns_retired D = 0 \<and> \<not> incorrect D \<and> \<not> reset i \<and> \<not> resume i"
  using assms by (rule main_start_cosim)

subsection \<open>A processor that stops at once\<close>

definition idle_out :: tb_out where
  "idle_out = (sample_out 0)\<lparr>retire_valid := False, got_break := True, mem_req_valid := False\<rparr>"

definition idle_machine :: "unit machine" where
  "idle_machine =
     \<lparr>model = \<lparr>eval = \<lambda>_ _ h. h, outputs = \<lambda>_. idle_out, ready_for_resume = \<lambda>_. True, finished = \<lambda>_. False\<rparr>,
      tb0 = (),
      inputs0 = \<lparr>ports = tin sample_driver, reset = False, resume = False, resume_pc = 0, extern_irq = False\<rparr>\<rparr>"

definition sample_program :: program where
  "sample_program =
     \<lparr>checkpoint_file = Some (dump_bytes sample_header [sample_page]), binary_file = Open_fails, getpagesize = 4096\<rparr>"

definition checkpoint_options :: main_options where
  "checkpoint_options = (default_options [] [])\<lparr>use_checkpoint := True, max_cycle := 100, max_icnt := 100\<rparr>"

lemma load_sample_program: "\<exists>s'. load_program True sample_program G s = Inr (G, s') \<and> pc s' = 0x80020000"
proof -
  have "wf_header sample_header" "h_pc sample_header \<noteq> 0"
    "unat (num_nz_pages sample_header) = length [sample_page]" "\<forall>p \<in> set [sample_page]. length (page_data p) = 4096"
    by (simp_all add: wf_header_def sample_header_def sample_page_def)
  from loadState_dump [OF this, of s] show ?thesis
    by (simp add: load_program_def sample_program_def) (simp add: sample_header_def)
qed

lemma idle_serve: "\<exists>B'. serve (model idle_machine) B = Inr B'"
  by (simp add: serve_def Let_def idle_machine_def idle_out_def)

lemma idle_drain:
  fixes B :: "(unit, 'w) boot_t"
  shows "\<exists>B'. drain (model idle_machine) B = Inr B'"
proof -
  obtain g where "\<And>B. serve (model idle_machine) B = Inr (g B :: (unit, 'w) boot_t)" using idle_serve by metis
  then have "foldE (\<lambda>_ B. serve (model idle_machine) B) [0..<128] B = Inr (fold (\<lambda>_. g) [0..<128 :: nat] B)" for B :: "(unit, 'w) boot_t"
    by (intro foldE_total)
  then show ?thesis unfolding drain_def by blast
qed

lemma idle_boot:
  fixes ss :: "'w state_t"
  shows "\<exists>G' B'. boot (model idle_machine) (Suc k) True sample_program G ss B = Some (Inr (G', B'))"
proof -
  let ?W = "model idle_machine"
  define B1 where "B1 = start_core ?W (reset_loop ?W (B\<lparr>boot_cycle := 0\<rparr>))"
  have pc: "pc (boot_s B1) = 0x000d0000" by (simp add: B1_def)
  obtain s1 where s1: "write_stub (boot_s B1) = Inr s1"
    using write_stub_code [of "boot_s B1"] length_init_stub [of "boot_s B1"] pc by (auto simp: sz_def returns_iff)
  obtain B2 where "serve ?W (B1\<lparr>boot_s := s1\<rparr>) = Inr B2" using idle_serve by blast
  then have B2: "init_loop ?W (Suc k) (B1\<lparr>boot_s := s1\<rparr>) = Some (Inr B2)" by (simp add: idle_machine_def idle_out_def)
  obtain B3 where B3: "drain ?W B2 = Inr B3" using idle_drain by blast
  obtain s2 where s2: "load_program True sample_program G (boot_s B3) = Inr (G, s2)"
    using load_sample_program [of G "boot_s B3"] by blast
  have wait: "wait_ready ?W (Suc k) B = Some B" for B :: "(unit, 'w) boot_t" by (simp add: idle_machine_def)
  show ?thesis
    by (simp add: boot_def Let_def B1_def [symmetric] s1 B2 B3 s2 wait del: init_loop.simps wait_ready.simps)
qed

lemma idle_main_start:
  assumes "use_checkpoint opt" "\<not> use_checker_only opt"
  shows "\<exists>G B s. main_start idle_machine (Suc k) sample_program opt () = Some (Inr (Cosim G (tb B) (inputs B) (start_driver B s))) \<and> pc s = 0x80020000"
proof -
  let ?s0 = "initState (state_t_new sparse_mem_new ())" and ?G = "initial_globals opt"
  obtain s where s: "load_program True sample_program ?G ?s0 = Inr (?G, s)" "pc s = 0x80020000"
    using load_sample_program [of ?G ?s0] by blast
  obtain G B where B: "boot (model idle_machine) (Suc k) True sample_program ?G s (initial_boot idle_machine s) = Some (Inr (G, B))"
    using idle_boot [of k ?G s "initial_boot idle_machine s"] by auto
  have "main_start idle_machine (Suc k) sample_program opt () = Some (Inr (Cosim G (tb B) (inputs B) (start_driver B s)))"
    using s(1) B assms by (simp add: main_start_def Let_def)
  with s(2) show ?thesis by blast
qed

theorem main_starts_synchronised_witness:
  "\<exists>G h i D. main_start idle_machine 1 sample_program checkpoint_options () = Some (Inr (Cosim G h i D))
     \<and> mem (rtl D) = mem (sim D) \<and> pc (rtl D) = 0x80020000 \<and> gpr (rtl D) = gpr (sim D) \<and> cyc D = 0"
proof -
  have o: "use_checkpoint checkpoint_options" "\<not> use_checker_only checkpoint_options"
    by (simp_all add: checkpoint_options_def default_options_def)
  obtain G B s where st: "main_start idle_machine 1 sample_program checkpoint_options () = Some (Inr (Cosim G (tb B) (inputs B) (start_driver B s)))"
    "pc s = 0x80020000"
    using idle_main_start [OF o, of 0] unfolding One_nat_def by blast
  from main_starts_synchronised [OF st(1)] st o(1) show ?thesis by (auto intro!: exI [of _ "start_driver B s"])
qed

end
