(* ===== verification/Main_Ends.thy ===== *)
theory Main_Ends
  imports Boot
begin

text \<open>
  The end of \<open>main\<close>: the two loops of \<open>src/top.cc\<close> that run the guest program end, whatever the
  processor does, and the interpreter inside them runs out of its bound on nested delay slots only at
  a place of the program that has that many control transfers in a row.
\<close>

subsection \<open>Rows of control transfers\<close>

definition control_row :: "nat \<Rightarrow> 'w state_t \<Rightarrow> bool" where
  "control_row d s \<longleftrightarrow>
     (\<forall>i < d. \<exists>w. mem_get (mem s) (ucast (pc s + 4 * of_nat i)) = Inr w \<and> is_control (bswap False w))"

lemma control_row_Suc:
  assumes "mem_get (mem s) (ucast (pc s)) = Inr w" "is_control (bswap False w)" "control_row d t" "mem t = mem s" "pc t = pc s + 4"
  shows "control_row (Suc d) s"
  unfolding control_row_def
proof (intro allI impI)
  fix i assume i: "i < Suc d"
  show "\<exists>w. mem_get (mem s) (ucast (pc s + 4 * of_nat i)) = Inr w \<and> is_control (bswap False w)"
  proof (cases i)
    case 0
    with assms(1,2) show ?thesis by simp
  next
    case (Suc j)
    with i assms(3) have "\<exists>w. mem_get (mem t) (ucast (pc t + 4 * of_nat j)) = Inr w \<and> is_control (bswap False w)"
      by (simp add: control_row_def)
    with assms(4,5) Suc show ?thesis by (simp add: add.assoc)
  qed
qed

lemma out_of_fuel_row:
  assumes "\<not> little E" "wf_state s" "execMips E d s = Inl OutOfFuel"
  shows "control_row d s"
  using assms(2,3)
proof (induction d arbitrary: s)
  case 0
  show ?case by (simp add: control_row_def)
next
  case (Suc d)
  define s0 where "s0 = s\<lparr>icnt := icnt s + 1\<rparr>"
  have wf: "wf_state s0" using Suc.prems(1) by (simp add: s0_def wf_state_def)
  obtain inst where f: "fetch E s = Inr inst"
    using Suc.prems(2) fetch_fuel_free [of E s] by (cases "fetch E s") (auto simp: fuel_free_def)
  then have e: "exec_insn E (execMips E d) inst s0 = Inl OutOfFuel" using Suc.prems(2) by (simp add: s0_def)
  then have c: "is_control inst" using exec_insn_no_fuel [of inst E "execMips E d" s0] by (auto simp: fuel_free_def)
  have "\<exists>s1 f. quiet_step s0 s1 \<and> exec_insn E (execMips E d) inst s0 = bindE (execMips E d s1) (\<lambda>s2. Inr (f s2))"
    using exec_insn_control_shape [OF wf c, of E] unfolding slot_shape_def
  proof (elim disjE)
    assume "\<exists>n. \<forall>k. exec_insn E k inst s0 = Inl (Exit n)"
    with e show ?thesis by auto
  next
    assume "\<exists>s'. after_slot s0 s' \<and> pc s' = pc s0 + 8 \<and> (\<forall>k. exec_insn E k inst s0 = Inr s')"
    with e show ?thesis by auto
  qed blast
  then obtain s1 f where "quiet_step s0 s1" "exec_insn E (execMips E d) inst s0 = bindE (execMips E d s1) (\<lambda>s2. Inr (f s2))" by blast
  with e have s1: "quiet_step s0 s1" "execMips E d s1 = Inl OutOfFuel" by (auto simp: bindE_def split: sum.splits)
  then have k: "wf_state s1" "mem s1 = mem s" "pc s1 = pc s + 4" by (simp_all add: quiet_step_def plain_step_def s0_def)
  from f assms(1) obtain w where w: "mem_get (mem s) (ucast (pc s)) = Inr w" "is_control (bswap False w)"
    using c by (auto simp: fetch_def)
  from control_row_Suc [OF w Suc.IH [OF k(1) s1(2)] k(2,3)] show ?case .
qed

subsection \<open>The states of the checker\<close>

text \<open>
  The states the checker goes through from its start: it executes instructions, at any value of the cycle counter
  and of the program's arguments, and the host may change between them.
\<close>

inductive checker_reaches :: "fpu \<Rightarrow> 'w host_os \<Rightarrow> nat \<Rightarrow> 'w state_t \<Rightarrow> 'w state_t \<Rightarrow> bool" for F H d s0 where
  start: "checker_reaches F H d s0 s0"
| insn: "checker_reaches F H d s0 s \<Longrightarrow> execMips \<lparr>little = False, fpu_of = F, globs = G, host = H\<rparr> d s = Inr s' \<Longrightarrow>
    checker_reaches F H d s0 s'"
| host: "checker_reaches F H d s0 s \<Longrightarrow> checker_reaches F H d s0 (s\<lparr>os := w\<rparr>)"

definition meets_row :: "fpu \<Rightarrow> 'w host_os \<Rightarrow> nat \<Rightarrow> 'w state_t \<Rightarrow> bool" where
  "meets_row F H d s0 \<longleftrightarrow> (\<exists>s. checker_reaches F H d s0 s \<and> control_row d s)"

lemma reaches_wf:
  assumes "wf_state s0"
  shows "checker_reaches F H d s0 s \<Longrightarrow> wf_state s"
proof (induction rule: checker_reaches.induct)
  case (insn s G s')
  then show ?case using execMips_wf [of s "\<lparr>little = False, fpu_of = F, globs = G, host = H\<rparr>" d] by simp
qed (use assms in \<open>simp_all add: wf_state_def\<close>)

lemma reaches_row:
  assumes "wf_state s0" "checker_reaches F H d s0 s" "execMips \<lparr>little = False, fpu_of = F, globs = G, host = H\<rparr> d s = Inl OutOfFuel"
  shows "meets_row F H d s0"
  unfolding meets_row_def
  using out_of_fuel_row [OF _ reaches_wf [OF assms(1,2)] assms(3)] assms(2) by auto

text \<open>The loop of \<open>--checker\<close> alone.\<close>

lemma run_checker_row:
  assumes "wf_state s0" "checker_reaches F H d s0 s"
    and "run_checker \<lparr>little = False, fpu_of = F, globs = G, host = H\<rparr> d m n s = Some (Inl OutOfFuel)"
  shows "meets_row F H d s0"
  using assms(2,3)
proof (induction n arbitrary: s)
  case (Suc n)
  from Suc.prems(2) show ?case
    by (auto split: if_splits sum.splits intro: reaches_row [OF assms(1) Suc.prems(1)] Suc.IH checker_reaches.insn [OF Suc.prems(1)])
qed (simp split: if_splits)

subsection \<open>One cycle of the driver\<close>

text \<open>A phase of the loop keeps the checker on its way, and runs out of fuel only at a row.\<close>

definition on_way :: "fpu \<Rightarrow> 'w host_os \<Rightarrow> nat \<Rightarrow> 'w state_t \<Rightarrow> 'w driver flow result \<Rightarrow> bool" where
  "on_way F H d s0 r \<longleftrightarrow>
     (case r of Inl e \<Rightarrow> e = OutOfFuel \<longrightarrow> meets_row F H d s0
      | Inr fl \<Rightarrow> checker_reaches F H d s0 (sim (driver_of fl)))"

lemma on_way_andThen:
  assumes "on_way F H d s0 r" "\<And>D. checker_reaches F H d s0 (sim D) \<Longrightarrow> on_way F H d s0 (f D)"
  shows "on_way F H d s0 (andThen r f)"
proof (cases "\<exists>D. r = Inr (Go D)")
  case True
  then obtain D where r: "r = Inr (Go D)" ..
  with assms(1) have "checker_reaches F H d s0 (sim D)" by (simp add: on_way_def)
  from assms(2) [OF this] show ?thesis by (simp add: r andThen_def)
next
  case False
  with assms(1) show ?thesis by (auto simp: on_way_def andThen_def bindE_def split: sum.splits flow.splits)
qed

lemma on_wayI:
  assumes "fuel_free r" "on_ok (\<lambda>fl. sim (driver_of fl) = sim D) r" "checker_reaches F H d s0 (sim D)"
  shows "on_way F H d s0 r"
  using assms by (auto simp: on_way_def fuel_free_def on_ok_def split: sum.splits)

lemma phases_fuel_free [fuel_intros]:
  "fuel_free (get_insn p s)" "fuel_free (set_dp i v s)" "fuel_free (top_monitor G H n reason s rsp)"
  "fuel_free (monitor_phase E P D)" "fuel_free (retire_regs P D)" "fuel_free (branch_stats P D)" "fuel_free (stop_phase P D)"
  "fuel_free (count_retired opt P D)" "fuel_free (compare_states P D)" "fuel_free (mem_reply P D)" "fuel_free (mem_phase opt P D)"
proof -
  show g: "fuel_free (get_insn p s)" "fuel_free (set_dp i v s)" "fuel_free (top_monitor G H n reason s rsp)" for p s i v G H n reason rsp
    unfolding get_insn_def set_dp_def top_monitor_def getarg_def Let_def by (intro fuel_intros)+
  show m: "fuel_free (mem_reply P D)" unfolding mem_reply_def load_line_def store_line_def Let_def by (intro fuel_intros)
  show "fuel_free (monitor_phase E P D)" "fuel_free (retire_regs P D)" "fuel_free (branch_stats P D)" "fuel_free (stop_phase P D)"
    "fuel_free (count_retired opt P D)" "fuel_free (compare_states P D)"
    unfolding monitor_phase_def retire_regs_def branch_stats_def stop_phase_def count_retired_def compare_states_def Let_def
    by (intro fuel_intros g)+
  show "fuel_free (mem_phase opt P D)"
    unfolding mem_phase_def mem_reply_def load_line_def store_line_def Let_def by (intro fuel_intros)
qed

lemma on_okI: "(\<And>x. r = Inr x \<Longrightarrow> P x) \<Longrightarrow> on_ok P r"
  by (cases r) simp_all

lemma phases_keep_sim:
  "on_ok (\<lambda>fl. sim (driver_of fl) = sim D) (monitor_phase E P D)" "on_ok (\<lambda>fl. sim (driver_of fl) = sim D) (retire_regs P D)"
  "on_ok (\<lambda>fl. sim (driver_of fl) = sim D) (branch_stats P D)" "on_ok (\<lambda>fl. sim (driver_of fl) = sim D) (stop_phase P D)"
  "on_ok (\<lambda>fl. sim (driver_of fl) = sim D) (mem_phase opt P D)" "on_ok (\<lambda>fl. sim (driver_of fl) = sim D) (compare_states P D)"
  "on_ok (\<lambda>D1. sim D1 = sim D) (count_retired opt P D)"
proof -
  show "on_ok (\<lambda>fl. sim (driver_of fl) = sim D) (monitor_phase E P D)" by (rule on_okI) (auto simp: monitor_phase_def split: if_splits)
  show "on_ok (\<lambda>fl. sim (driver_of fl) = sim D) (retire_regs P D)" by (rule on_okI) (auto simp: retire_regs_def Let_def split: if_splits)
  show "on_ok (\<lambda>fl. sim (driver_of fl) = sim D) (branch_stats P D)" by (simp add: branch_stats_def)
  show "on_ok (\<lambda>fl. sim (driver_of fl) = sim D) (stop_phase P D)" by (rule on_okI) (auto simp: stop_phase_def Let_def split: if_splits)
  show "on_ok (\<lambda>fl. sim (driver_of fl) = sim D) (mem_phase opt P D)"
    by (rule on_okI) (auto simp: mem_phase_def mem_reply_def Let_def split: if_splits)
  show "on_ok (\<lambda>fl. sim (driver_of fl) = sim D) (compare_states P D)"
    unfolding compare_states_def Let_def by (rule on_ok_if; (rule on_ok_bindE_any)?; (rule on_ok_bindE_any)?; simp)
  show "on_ok (\<lambda>D1. sim D1 = sim D) (count_retired opt P D)" by (rule on_okI) (auto simp: count_retired_def Let_def)
qed

lemma driver_step_on_way:
  fixes D :: "'w driver"
  assumes "wf_state s0" "checker_reaches F H d s0 (sim D)"
  defines "E \<equiv> \<lambda>G. \<lparr>little = False, fpu_of = F, globs = G, host = H\<rparr>"
  shows "on_way F H d s0 (driver_step d (E G) opt P D)"
proof -
  have exec: "on_way F H d s0 (bindE (execMips (env_now (E G) D) d ((sim D)\<lparr>os := w\<rparr>)) f)"
    if D: "checker_reaches F H d s0 (sim D)"
      and f: "\<And>s. checker_reaches F H d s0 s \<Longrightarrow> on_way F H d s0 (f s)" for D :: "'w driver" and w f
  proof -
    note h = checker_reaches.host [OF D, of w]
    have e: "env_now (E G) D = \<lparr>little = False, fpu_of = F, globs = G\<lparr>cycle := cyc D\<rparr>, host = H\<rparr>" by (simp add: env_now_def E_def)
    show ?thesis
    proof (cases "execMips (env_now (E G) D) d ((sim D)\<lparr>os := w\<rparr>)")
      case (Inl x)
      with reaches_row [OF assms(1) h] e show ?thesis by (auto simp: on_way_def)
    next
      case (Inr s)
      with f [of s] checker_reaches.insn [OF h] e show ?thesis by simp
    qed
  qed
  have retire: "on_way F H d s0 (retire_phase d (E G) opt P D)" if D: "checker_reaches F H d s0 (sim D)" for D
  proof -
    have check: "on_way F H d s0 (check_retired d (E G) opt P D1)" if "checker_reaches F H d s0 (sim D1)" for D1
    proof -
      have c: "on_way F H d s0 (compare_states P (D1\<lparr>sim := s, world := os s\<rparr>))" if "checker_reaches F H d s0 s" for s
        by (rule on_wayI [OF phases_fuel_free(9) phases_keep_sim(6)]) (simp add: that)
      have l: "on_way F H d s0 (bindE (get_insn p s) (\<lambda>_. Inr (Stop D2)))" if "sim D2 = sim D1" for p s D2
        using that \<open>checker_reaches F H d s0 (sim D1)\<close> phases_fuel_free(1) [of p s]
        by (auto simp: on_way_def fuel_free_def bindE_def split: sum.splits)
      show ?thesis
        unfolding check_retired_def Let_def using that exec [OF that c, of "\<lambda>s. s" "world D1"]
        by (auto simp: on_way_def [of _ _ _ _ "Inr x" for x] intro!: l)
    qed
    show ?thesis
    proof (cases "count_retired opt P D")
      case (Inl e)
      with phases_fuel_free(8) [of opt P D] D show ?thesis by (auto simp: retire_phase_def on_way_def fuel_free_def)
    next
      case (Inr D1)
      with phases_keep_sim(7) [of D opt P] D have "checker_reaches F H d s0 (sim D1)" by simp
      from check [OF this] Inr D show ?thesis by (simp add: retire_phase_def on_way_def)
    qed
  qed
  have two: "on_way F H d s0 (retire_two_phase d (E G) opt P D)" if D: "checker_reaches F H d s0 (sim D)" for D
  proof -
    define D1 where "D1 = (if retire_reg_two_valid P
      then D\<lparr>rtl := wr_gpr (retire_reg_two_ptr P) (ucast (retire_reg_two_data P)) (rtl D)\<rparr> else D)"
    define r where "r = (if retire_reg_fp_two_valid P then assertE (even (retire_reg_two_ptr P))
        (bindE (set_dp (retire_reg_two_ptr P) (retire_reg_two_data P) (rtl D1)) (\<lambda>s. Inr (D1\<lparr>rtl := s\<rparr>))) else Inr D1)"
    have r: "fuel_free r" "on_ok (\<lambda>D2. sim D2 = sim D) r"
      unfolding r_def by (intro fuel_intros, rule on_okI) (auto simp: D1_def split: if_splits)
    show ?thesis
    proof (cases r)
      case (Inl e)
      with r(1) show ?thesis unfolding retire_two_phase_def Let_def D1_def [symmetric] r_def [symmetric]
        by (simp add: on_way_def fuel_free_def)
    next
      case (Inr D2)
      with r(2) D have D2: "checker_reaches F H d s0 (sim D2)" by simp
      have g: "on_way F H d s0 (Inr (Go (D2\<lparr>sim := s, world := os s, n_checks := n_checks D2 + 1, last_check := 0,
          last_match_pc := ucast (retire_two_pc P)\<rparr>)))" if "checker_reaches F H d s0 s" for s
        using that by (simp add: on_way_def)
      moreover have "on_way F H d s0 (Inr (Go D2))" using D2 by (simp add: on_way_def)
      ultimately show ?thesis
        unfolding retire_two_phase_def Let_def D1_def [symmetric] r_def [symmetric] Inr bindE_simps
        using exec [OF D2 g, of "\<lambda>s. s" "world D2"]
        by (cases "enable_checker opt \<and> retire_two_valid P \<and> retire_two_pc P = ucast (pc (sim D2))") (simp_all only: simp_thms if_True if_False)
    qed
  qed
  have others: "on_way F H d s0 (monitor_phase (E G) P D)" "on_way F H d s0 (retire_regs P D)" "on_way F H d s0 (branch_stats P D)"
    "on_way F H d s0 (stop_phase P D)" "on_way F H d s0 (mem_phase opt P D)" if "checker_reaches F H d s0 (sim D)" for D
    by (rule on_wayI [OF _ phases_keep_sim(1)] on_wayI [OF _ phases_keep_sim(2)] on_wayI [OF _ phases_keep_sim(3)]
        on_wayI [OF _ phases_keep_sim(4)] on_wayI [OF _ phases_keep_sim(5)], rule phases_fuel_free, rule that)+
  show ?thesis
    unfolding driver_step_def by (intro on_way_andThen others retire two assms(2))
qed

lemma cosim_row:
  assumes "wf_state s0" "checker_reaches F H d s0 (sim D)"
    and "cosim W d \<lparr>little = False, fpu_of = F, globs = G, host = H\<rparr> opt n h D = Some (Inl OutOfFuel)"
  shows "meets_row F H d s0"
  using assms(2,3)
proof (induction n arbitrary: h D)
  case (Suc n)
  let ?E = "\<lparr>little = False, fpu_of = F, globs = G, host = H\<rparr>"
  obtain h1 P where hw: "posedge W (tin D) h = (h1, P)" by fastforce
  note step = driver_step_on_way [OF assms(1) Suc.prems(1), of G opt P]
  from Suc.prems(2) consider "driver_step d ?E opt P D = Inl OutOfFuel"
    | D' where "driver_step d ?E opt P D = Inr (Go D')" "cosim W d ?E opt n (negedge W (tin D') h1) (end_cycle D') = Some (Inl OutOfFuel)"
    by (auto simp: hw split: if_splits sum.splits flow.splits)
  then show ?case
  proof cases
    case 1
    with step show ?thesis by (simp add: on_way_def)
  next
    case 2
    then have "checker_reaches F H d s0 (sim (end_cycle D'))" using step by (simp add: on_way_def end_cycle_def Let_def)
    from Suc.IH [OF this 2(2)] show ?thesis .
  qed
qed (simp split: if_splits)

subsection \<open>The program ends\<close>

text \<open>The state in which the checker starts.\<close>

primrec checker_start :: "('h, 'w) started \<Rightarrow> 'w state_t" where
  "checker_start (Checker_only G s) = s"
| "checker_start (Cosim G h i D) = sim D"

text \<open>
  C18. \<open>main\<close> ends.  Once it has started (the program is loaded and, with the processor, the start program has
  run), as many rounds of its loop as the limits on cycles and instructions say are enough for it to end,
  whatever the processor does, with a result or with a fault; and the fault is that the bound \<open>d\<close> on nested
  delay slots was too small only if the checker came to a place of the program that has \<open>d\<close> control transfers
  in a row, each in the delay slot of the one before it.
\<close>

theorem main_ends:
  assumes "main_start M n prog opt w = Some (Inr st)"
    and "unat (max_cycle opt) \<le> n" "unat (max_icnt opt) \<le> n" "unat (max_icnt opt) + d \<le> 2 ^ 64"
  shows "\<exists>r. main_prog M F H d n prog opt w = Some r
    \<and> (r = Inl OutOfFuel \<longrightarrow> (\<exists>s. checker_reaches F H d (checker_start st) s \<and> control_row d s))"
proof (cases st)
  case (Checker_only G s)
  let ?E = "\<lparr>little = False, fpu_of = F, globs = G, host = H\<rparr>"
  have wf: "wf_state s" using main_start_checker [OF assms(1) [unfolded Checker_only]] .
  have "unat (max_icnt opt) - unat (icnt s) \<le> n" using assms(3) by simp
  then obtain r where r: "run_checker ?E d (max_icnt opt) n s = Some r"
    using run_checker_finishes [OF wf assms(4)] by blast
  have "r = Inl OutOfFuel \<Longrightarrow> meets_row F H d s"
    using run_checker_row [OF wf checker_reaches.start] r by blast
  with r assms(1) Checker_only show ?thesis
    by (cases r) (auto simp: main_prog_def map_result_def meets_row_def)
next
  case (Cosim G h i D)
  let ?E = "\<lparr>little = False, fpu_of = F, globs = G, host = H\<rparr>" and ?W = "hw_of (model M) i"
  have wf: "wf_state (sim D)" "cyc D = 0" using main_start_cosim [OF assms(1) [unfolded Cosim]] by blast+
  have "unat (max_cycle (options.truncate opt)) - unat (cyc D) \<le> n" using assms(2) by (simp add: options.truncate_def)
  then have "\<exists>r. cosim ?W d ?E (options.truncate opt) n h D = Some r" by (rule cosim_finishes)
  then obtain r where r: "cosim ?W d ?E (options.truncate opt) n h D = Some r" ..
  have "meets_row F H d (sim D)" if "r = Inl OutOfFuel"
    using r unfolding that by (rule cosim_row [OF wf(1) checker_reaches.start])
  with r assms(1) Cosim show ?thesis
    by (cases r) (auto simp: main_prog_def map_result_def meets_row_def)
qed

theorem main_ends_witness:
  "\<exists>r. main_prog idle_machine sample_fpu sample_host 2 100 sample_program checkpoint_options () = Some r
     \<and> (r = Inl OutOfFuel \<longrightarrow> (\<exists>s0 s. pc s0 = 0x80020000 \<and> checker_reaches sample_fpu sample_host 2 s0 s \<and> control_row 2 s))"
proof -
  have o: "use_checkpoint checkpoint_options" "\<not> use_checker_only checkpoint_options"
    "unat (max_cycle checkpoint_options) \<le> 100" "unat (max_icnt checkpoint_options) \<le> 100"
    "unat (max_icnt checkpoint_options) + 2 \<le> 2 ^ 64"
    by (simp_all add: checkpoint_options_def default_options_def)
  obtain G B s where st: "main_start idle_machine (Suc 99) sample_program checkpoint_options () = Some (Inr (Cosim G (tb B) (inputs B) (start_driver B s)))"
    "pc s = 0x80020000"
    using idle_main_start [OF o(1,2), of 99] by blast
  have n: "Suc 99 = 100" by simp
  from main_ends [OF st(1) [unfolded n] o(3-5), of sample_fpu sample_host] st(2) show ?thesis by auto
qed

end
