(* ===== verification/Verdict.thy ===== *)
theory Verdict
  imports Boot
begin

text \<open>
  The verdict of a run: what \<open>incorrect\<close> and \<open>mismatches\<close> of \<open>src/top.cc\<close> mean when the co-simulation, and
  with it \<open>main\<close>, has ended.
\<close>

subsection \<open>Phases\<close>

text \<open>Only the comparison of the register files touches the two variables.\<close>

definition same_verdict :: "'w driver \<Rightarrow> 'w driver \<Rightarrow> bool" where
  "same_verdict D D' \<longleftrightarrow> incorrect D' = incorrect D \<and> mismatches D' = mismatches D"

text \<open>The comparison of \<open>src/top.cc\<close> finds a difference.\<close>

definition found_difference :: "'w driver \<Rightarrow> bool" where
  "found_difference D \<longleftrightarrow> gprs_differ (rtl D) (sim D) \<noteq> [] \<or> fprs_differ (rtl D) (sim D)"

text \<open>The verdict after a phase of a run that had \<open>m\<close> mismatches and was not incorrect.\<close>

definition verdict :: "bool \<Rightarrow> u64 \<Rightarrow> 'w driver \<Rightarrow> bool" where
  "verdict checked m D \<longleftrightarrow>
     (if incorrect D
      then checked \<and> found_difference D \<and> mismatches D = m + of_nat (length (gprs_differ (rtl D) (sim D)))
      else mismatches D = m)"

definition flow_verdict :: "bool \<Rightarrow> u64 \<Rightarrow> 'w driver flow \<Rightarrow> bool" where
  "flow_verdict c m fl = (case fl of Stop D \<Rightarrow> verdict c m D | Go D \<Rightarrow> \<not> incorrect D \<and> mismatches D = m)"

lemma flow_verdict_simps [simp]:
  "flow_verdict c m (Stop D) = verdict c m D" "flow_verdict c m (Go D) \<longleftrightarrow> \<not> incorrect D \<and> mismatches D = m"
  by (simp_all add: flow_verdict_def)

lemma same_verdict_flow:
  assumes "on_ok (\<lambda>fl. same_verdict D (driver_of fl)) r" "\<not> incorrect D" "mismatches D = m"
  shows "on_ok (flow_verdict c m) r"
  using assms by (auto simp: on_ok_def same_verdict_def verdict_def flow_verdict_def driver_of_def split: sum.splits flow.splits)

lemma andThen_verdict:
  assumes "on_ok (flow_verdict c m) r" "\<And>D. \<not> incorrect D \<Longrightarrow> mismatches D = m \<Longrightarrow> on_ok (flow_verdict c m) (f D)"
  shows "on_ok (flow_verdict c m) (andThen r f)"
  using assms by (auto simp: andThen_def bindE_def split: sum.splits flow.splits)

lemmas verdict_rules = on_ok_bindE_any on_ok_prod on_ok_if on_ok_assertE on_ok_definedE on_ok_simps(2) [THEN iffD2] on_ok_simps(1)

lemma phases_same_verdict:
  "on_ok (\<lambda>fl. same_verdict D (driver_of fl)) (monitor_phase E P D)" "on_ok (\<lambda>fl. same_verdict D (driver_of fl)) (retire_regs P D)"
  "on_ok (\<lambda>fl. same_verdict D (driver_of fl)) (branch_stats P D)" "on_ok (\<lambda>fl. same_verdict D (driver_of fl)) (stop_phase P D)"
  unfolding monitor_phase_def retire_regs_def branch_stats_def stop_phase_def Let_def
  by (intro verdict_rules; simp add: same_verdict_def)+

lemma retire_two_same_verdict: "on_ok (\<lambda>fl. same_verdict D (driver_of fl)) (retire_two_phase d E opt P D)"
  unfolding retire_two_phase_def Let_def
  by (rule on_ok_bindE [where Q = "same_verdict D"]; intro verdict_rules; simp add: same_verdict_def)

lemma mem_same_verdict:
  fixes D :: "'w driver"
  shows "on_ok (\<lambda>fl. same_verdict D (driver_of fl)) (mem_phase opt P D)"
proof -
  have r: "on_ok (same_verdict D1) (mem_reply P D1)" for D1 :: "'w driver"
    unfolding mem_reply_def Let_def
    by (intro on_ok_assertE on_ok_bindE [where Q = "same_verdict D1"] verdict_rules; simp add: same_verdict_def)
  have "on_ok (same_verdict D) (mem_reply P D1)" if "same_verdict D D1" for D1
    using that r [of D1] by (cases "mem_reply P D1") (auto simp: same_verdict_def)
  then show ?thesis
    unfolding mem_phase_def Let_def
    by (intro on_ok_if on_ok_bindE [where Q = "same_verdict D"]) (simp_all add: same_verdict_def)
qed

lemma check_verdict:
  assumes "\<not> incorrect D" "mismatches D = m"
  shows "on_ok (flow_verdict (enable_checker opt) m) (check_retired d E opt P D)"
proof -
  have c: "on_ok (flow_verdict True m) (compare_states P D1)" if "\<not> incorrect D1" "mismatches D1 = m" for D1 :: "'w driver"
    using that
    by (cases "ucast (pc (sim D1)) = retire_pc P + 4"; cases "gprs_differ (rtl D1) (sim D1) = []")
      (auto simp: compare_states_def verdict_def found_difference_def intro!: on_ok_bindE_any)
  show ?thesis
  proof (cases "enable_checker opt")
    case True
    have "on_ok (flow_verdict True m) (compare_states P (D\<lparr>sim := ss, world := os ss\<rparr>))" for ss using assms by (intro c) simp_all
    with assms True show ?thesis
      unfolding check_retired_def Let_def by (auto intro!: on_ok_bindE_any simp: verdict_def)
  qed (use assms in \<open>simp add: check_retired_def\<close>)
qed

lemma retire_verdict:
  assumes "\<not> incorrect D" "mismatches D = m"
  shows "on_ok (flow_verdict (enable_checker opt) m) (retire_phase d E opt P D)"
proof -
  have "on_ok (same_verdict D) (count_retired opt P D)"
    unfolding count_retired_def Let_def by (intro verdict_rules) (simp add: same_verdict_def)
  then have "on_ok (flow_verdict (enable_checker opt) m) (bindE (count_retired opt P D) (check_retired d E opt P))"
    by (rule on_ok_bindE) (use assms in \<open>auto simp: same_verdict_def intro: check_verdict\<close>)
  with assms show ?thesis by (simp add: retire_phase_def)
qed

lemma driver_step_verdict:
  assumes "\<not> incorrect D" "mismatches D = m"
  shows "on_ok (flow_verdict (enable_checker opt) m) (driver_step d E opt P D)"
  unfolding driver_step_def
  by (intro andThen_verdict retire_verdict same_verdict_flow [OF phases_same_verdict(1)] same_verdict_flow [OF phases_same_verdict(2)]
      same_verdict_flow [OF phases_same_verdict(3)] same_verdict_flow [OF phases_same_verdict(4)]
      same_verdict_flow [OF retire_two_same_verdict] same_verdict_flow [OF mem_same_verdict] assms)

lemma end_cycle_verdict [simp]: "incorrect (end_cycle D) = incorrect D" "mismatches (end_cycle D) = mismatches D"
  by (simp_all add: end_cycle_def Let_def)

lemma cosim_verdict:
  assumes "cosim W d E opt n h D = Some (Inr D')" "\<not> incorrect D" "mismatches D = m"
  shows "verdict (enable_checker opt) m D'"
  using assms
proof (induction n arbitrary: h D)
  case (Suc n)
  obtain h1 P where hw: "posedge W (tin D) h = (h1, P)" by fastforce
  note step = driver_step_verdict [OF Suc.prems(2,3), of opt d E P]
  show ?case
  proof (cases "\<not> gotFinish W h \<and> cyc D < max_cycle opt \<and> insns_retired D < max_icnt opt")
    case True
    with Suc.prems(1) obtain fl where fl: "driver_step d E opt P D = Inr fl" by (auto simp: hw split: sum.splits)
    with step have v: "flow_verdict (enable_checker opt) m fl" by simp
    show ?thesis
    proof (cases fl)
      case (Stop D1)
      with True fl v Suc.prems(1) show ?thesis by (simp add: hw)
    next
      case (Go D1)
      with True fl v Suc.prems(1) show ?thesis by (intro Suc.IH [of "negedge W (tin D1) h1" "end_cycle D1"]) (simp_all add: hw)
    qed
  qed (use Suc.prems in \<open>auto simp: verdict_def\<close>)
qed (auto simp: verdict_def split: if_splits)

subsection \<open>The verdict of a run\<close>

text \<open>
  C3. No false alarm: when \<open>main\<close> ends a co-simulation with \<open>incorrect\<close> set, the checker was enabled and the
  two register files differ at that moment, in the general or the floating point registers, and the
  number of mismatches reported is the number of general registers that differ; when it ends without,
  no mismatch has been counted.
\<close>

theorem main_reports_differences:
  assumes "main_prog M F H d n prog opt w = Some (Inr (Cosimulated D))"
  shows "if incorrect D
    then enable_checker opt \<and> (gpr (rtl D) \<noteq> gpr (sim D) \<or> cpr1 (rtl D) \<noteq> cpr1 (sim D))
      \<and> mismatches D = of_nat (card {r. r < 32 \<and> gpr (sim D) ! r \<noteq> gpr (rtl D) ! r})
    else mismatches D = 0"
proof -
  from assms obtain G h i D0 where st: "main_start M n prog opt w = Some (Inr (Cosim G h i D0))"
    and run: "cosim (hw_of (model M) i) d \<lparr>little = False, fpu_of = F, globs = G, host = H\<rparr> (options.truncate opt) n h D0 = Some (Inr D)"
    by (auto simp: main_prog_def map_result_def bindL_def split: option.splits sum.splits started.splits)
  note s = main_start_cosim [OF st]
  have m: "mismatches D0 = 0" "length (inflight D0) = 32" using st
    by (auto simp: main_start_def Let_def start_driver_def bindL_def split: option.splits sum.splits if_splits prod.splits)
  have "driver_ok D0" using s m(2) by (simp add: driver_ok_def)
  from cosim_keeps_sizes [OF this run] have wf: "wf_state (rtl D)" "wf_state (sim D)" by (simp_all add: driver_ok_def)
  have "enable_checker (options.truncate opt) = enable_checker opt" by (simp add: options.truncate_def)
  with cosim_verdict [OF run _ m(1)] s have v: "verdict (enable_checker opt) 0 D" by simp
  have g: "gprs_differ (rtl D) (sim D) = [] \<longleftrightarrow> gpr (rtl D) = gpr (sim D)" "fprs_differ (rtl D) (sim D) \<longleftrightarrow> cpr1 (rtl D) \<noteq> cpr1 (sim D)"
    using wf by (simp_all add: gprs_differ_Nil fprs_differ_iff wf_state_def)
  have "length (gprs_differ (rtl D) (sim D)) = card {r. r < 32 \<and> gpr (sim D) ! r \<noteq> gpr (rtl D) ! r}"
    unfolding gprs_differ_def by (subst distinct_card [symmetric]) (auto intro!: arg_cong [where f = card])
  with v g show ?thesis by (auto simp: verdict_def found_difference_def)
qed

theorem main_reports_differences_witness:
  "\<exists>D. main_prog idle_machine sample_fpu sample_host 2 1 sample_program (checkpoint_options\<lparr>max_cycle := 0\<rparr>) () = Some (Inr (Cosimulated D))
     \<and> (if incorrect D then gpr (rtl D) \<noteq> gpr (sim D) \<or> cpr1 (rtl D) \<noteq> cpr1 (sim D) else mismatches D = 0)"
proof -
  let ?opt = "checkpoint_options\<lparr>max_cycle := 0\<rparr>"
  have o: "use_checkpoint ?opt" "\<not> use_checker_only ?opt" "max_cycle (options.truncate ?opt) = 0"
    by (simp_all add: checkpoint_options_def default_options_def options.truncate_def)
  obtain G B s where st: "main_start idle_machine 1 sample_program ?opt () = Some (Inr (Cosim G (tb B) (inputs B) (start_driver B s)))"
    using idle_main_start [OF o(1,2), of 0] unfolding One_nat_def by blast
  have "main_prog idle_machine sample_fpu sample_host 2 1 sample_program ?opt () = Some (Inr (Cosimulated (start_driver B s)))"
    using st o(3) by (simp add: main_prog_def map_result_def)
  with main_reports_differences [OF this] show ?thesis by auto
qed

end
