(* ===== verification/Report.thy ===== *)
theory Report
  imports Top "HOL-Library.Product_Lexorder" "HOL-Library.Multiset"
begin

text \<open>
  The end of \<open>main\<close> in \<open>src/top.cc\<close> and \<open>dump_histo\<close> of \<open>src/top.hh\<close>: the statistics that are written
  when the run was not \<open>incorrect\<close>.  A \<open>std::map\<close> is iterated in the order of its keys; the loops take
  the list of its entries, which \<open>entries_of\<close> relates to the counters of \<open>Top_Stats\<close>.  The
  averages and the text around the numbers are in \<open>Final_Log\<close>.  The disassembler is a parameter.
\<close>

subsection \<open>Entries of a histogram\<close>

definition entries_of :: "'k::linorder list \<Rightarrow> ('k \<Rightarrow> u64) \<Rightarrow> ('k \<times> u64) list" where
  "entries_of ks m = map (\<lambda>k. (k, m k)) ks"

text \<open>The keys a map holds, in order: at least those with a nonzero count.\<close>

definition keys_of :: "'k::linorder list \<Rightarrow> ('k \<Rightarrow> u64) \<Rightarrow> bool" where
  "keys_of ks m \<longleftrightarrow> sorted ks \<and> distinct ks \<and> (\<forall>k. m k \<noteq> 0 \<longrightarrow> k \<in> set ks)"

subsection \<open>Listing by count\<close>

text \<open>
  The vector holds pairs of the map's types in the opposite roles: the count is converted to the
  type of the key and the key to that of the count.
\<close>

definition sorted_by_cnt :: "('a::len word \<times> u64) list \<Rightarrow> ('a word \<times> u64) list" where
  "sorted_by_cnt histo = sort (map (\<lambda>(k, c). (ucast c, ucast k)) histo)"

record 'c histo_row =
  row_pc :: u64
  row_asm :: string
  row_cnt :: 'c

definition dump_histo :: "(u32 \<Rightarrow> u32 \<Rightarrow> string) \<Rightarrow> ('a::len word \<times> u64) list \<Rightarrow> 'w state_t \<Rightarrow> 'a word histo_row list result" where
  "dump_histo getAsmString histo s =
     foldE (\<lambda>(c, k) rows.
       bindE (mem_get (mem s) k) (\<lambda>r_inst.
       Inr (rows @ [\<lparr>row_pc = k, row_asm = getAsmString (bswap False r_inst) (ucast k), row_cnt = c\<rparr>])))
     (rev (sorted_by_cnt histo)) []"

subsection \<open>Totals\<close>

definition total_fetch :: "u64 list \<Rightarrow> u64 \<times> u64" where
  "total_fetch fs =
     fold (\<lambda>i (cycles, fetched). (cycles + fs ! i, fetched + fs ! i * of_nat i)) [0..<5] (0, 0)"

text \<open>\<open>total_restart\<close> and the median, which is written only when the loop finds one.\<close>

definition restart_median :: "(u32 \<times> u64) list \<Rightarrow> u32 option" where
  "restart_median ps = median_from (histo_total ps 0 div 2) 0 ps"

record restart_report =
  total_restart :: u64
  median_restart :: "u32 option"
  min_max_restart :: "(u32 \<times> u32) option"

definition report_restarts :: "(u32 \<times> u64) list \<Rightarrow> restart_report" where
  "report_restarts ps =
     \<lparr>total_restart = histo_total ps 0, median_restart = restart_median ps,
      min_max_restart = (if histo_total ps 0 \<noteq> 0 then Some (fst (hd ps), fst (last ps)) else None)\<rparr>"

definition total_pushout :: "(u64 \<times> u64) list \<Rightarrow> u64" where
  "total_pushout ps = fold (\<lambda>p t. t + snd p) ps 0"

definition total_retire :: "(u64 \<times> u64) list \<Rightarrow> u64" where
  "total_retire ps = fold (\<lambda>p t. t + snd p) ps 0"

definition total_cycle :: "(u64 \<times> u64) list \<Rightarrow> u64" where
  "total_cycle ps = fold (\<lambda>p t. t + fst p * snd p) ps 0"

definition stall_lines :: "u64 list \<Rightarrow> (nat \<times> u64) list" where
  "stall_lines reasons = filter (\<lambda>(i, n). n \<noteq> 0) (map (\<lambda>i. (i, reasons ! i)) [1..<8])"

text \<open>The lines of the instruction histogram and their total.\<close>

definition histo_lines :: "(mipsInsn \<times> u64) list \<Rightarrow> (mipsInsn \<times> u64) list \<times> u64" where
  "histo_lines ps = fold (\<lambda>p (lines, t). if snd p \<noteq> 0 then (lines @ [p], t + snd p) else (lines, t)) ps ([], 0)"

subsection \<open>The listing\<close>

lemma dump_histo_rows:
  assumes "dump_histo asm histo s = Inr rows"
  shows "map (\<lambda>r. (row_cnt r, row_pc r)) rows = rev (sorted_by_cnt histo)"
proof -
  have "map (\<lambda>r. (row_cnt r, row_pc r)) rows = map (\<lambda>r. (row_cnt r, row_pc r)) acc @ ps"
    if "foldE (\<lambda>(c, k) rows. bindE (mem_get (mem s) k) (\<lambda>r_inst.
          Inr (rows @ [\<lparr>row_pc = k, row_asm = asm (bswap False r_inst) (ucast k), row_cnt = c\<rparr>]))) ps acc = Inr rows"
    for ps :: "('a word \<times> u64) list" and acc
    using that by (induction ps arbitrary: acc) auto
  from this [OF assms [unfolded dump_histo_def]] show ?thesis by simp
qed

text \<open>
  The listing of a histogram has one row for each entry, and the rows come in decreasing order of
  their counts; the count of a row is the entry's, reduced to the width of the key, and is the
  entry's count whenever that fits.
\<close>

theorem dump_histo_sorted:
  fixes histo :: "('a::len word \<times> u64) list"
  assumes "dump_histo asm histo s = Inr rows" "LENGTH('a) \<le> 64"
  shows "sorted_wrt (\<ge>) (map row_cnt rows)
    \<and> mset (map (\<lambda>r. (row_pc r, row_cnt r)) rows) = image_mset (\<lambda>(k, c). (ucast k, ucast c)) (mset histo)
    \<and> (\<forall>(k, c) \<in> set histo. unat c < 2 ^ LENGTH('a) \<longrightarrow> (\<exists>r \<in> set rows. row_pc r = ucast k \<and> unat (row_cnt r) = unat c))"
proof -
  let ?ps = "sorted_by_cnt histo"
  have rows: "map (\<lambda>r. (row_cnt r, row_pc r)) rows = rev ?ps" by (rule dump_histo_rows [OF assms(1)])
  have "map row_cnt rows = map fst (rev ?ps)" unfolding rows [symmetric] by (simp add: comp_def)
  moreover have "sorted (map fst ?ps)"
    by (rule sorted_map_mono [of _ fst]) (auto simp: sorted_by_cnt_def intro!: mono_onI simp: less_eq_prod_def less_imp_le)
  ultimately have "sorted_wrt (\<ge>) (map row_cnt rows)" by (simp add: sorted_wrt_rev flip: rev_map)
  moreover have m: "mset (map (\<lambda>r. (row_pc r, row_cnt r)) rows) = image_mset (\<lambda>(k, c). (ucast k, ucast c)) (mset histo)"
  proof -
    have "mset (map (\<lambda>r. (row_pc r, row_cnt r)) rows) = image_mset prod.swap (mset (map (\<lambda>r. (row_cnt r, row_pc r)) rows))"
      by (simp add: comp_def image_mset.compositionality)
    also have "\<dots> = image_mset prod.swap (image_mset (\<lambda>(k, c). (ucast c, ucast k)) (mset histo))"
      unfolding rows by (simp add: sorted_by_cnt_def)
    also have "\<dots> = image_mset (\<lambda>(k, c). (ucast k, ucast c)) (mset histo)"
      by (simp add: image_mset.compositionality comp_def case_prod_unfold)
    finally show ?thesis .
  qed
  moreover have "\<exists>r \<in> set rows. row_pc r = ucast k \<and> unat (row_cnt r) = unat c"
    if "(k, c) \<in> set histo" "unat c < 2 ^ LENGTH('a)" for k c
  proof -
    have "(ucast k, ucast c) \<in># mset (map (\<lambda>r. (row_pc r, row_cnt r)) rows)"
      unfolding m using that(1) by force
    then obtain r where "r \<in> set rows" "row_pc r = ucast k" "row_cnt r = ucast c" by auto
    moreover have "unat (ucast c :: 'a word) = unat c" using that(2) by (simp add: unsigned_ucast_eq take_bit_nat_eq_self)
    ultimately show ?thesis by metis
  qed
  ultimately show ?thesis by auto
qed

subsection \<open>Retirement accounts\<close>

lemma sum_bump:
  "sum (bump m k) UNIV = sum m UNIV + 1" "(\<Sum>j \<in> UNIV. j * bump m k j) = (\<Sum>j \<in> UNIV. j * m j) + k" for m :: "u64 \<Rightarrow> u64"
proof -
  have b: "bump m k = (\<lambda>j. m j + (if j = k then 1 else 0))" by (auto simp: bump_def)
  show "sum (bump m k) UNIV = sum m UNIV + 1" by (simp add: b sum.distrib)
  have "j * (m j + (if j = k then 1 else 0)) = j * m j + (if j = k then k else 0)" for j by (simp add: distrib_left)
  then show "(\<Sum>j \<in> UNIV. j * bump m k j) = (\<Sum>j \<in> UNIV. j * m j) + k" by (simp add: b sum.distrib)
qed

lemma entries_total:
  fixes m :: "u64 \<Rightarrow> u64"
  assumes "keys_of ks m"
  shows "fold (\<lambda>p t. t + snd p) (entries_of ks m) 0 = sum m UNIV"
    "fold (\<lambda>p t. t + fst p * snd p) (entries_of ks m) 0 = (\<Sum>j \<in> UNIV. j * m j)"
proof -
  have f: "fold (\<lambda>p t. t + g p) ps a = a + sum_list (map g ps)" for g :: "u64 \<times> u64 \<Rightarrow> u64" and ps a
    by (induction ps arbitrary: a) (simp_all add: add.assoc)
  have u: "(\<Sum>k \<in> set ks. g k) = sum g UNIV" if "\<And>k. m k = 0 \<Longrightarrow> g k = 0" for g :: "u64 \<Rightarrow> u64"
    by (rule sum.mono_neutral_left) (use assms that in \<open>auto simp: keys_of_def\<close>)
  have d: "distinct ks" using assms by (simp add: keys_of_def)
  show "fold (\<lambda>p t. t + snd p) (entries_of ks m) 0 = sum m UNIV"
    using u [of m] by (simp add: f entries_of_def comp_def sum_list_distinct_conv_sum_set [OF d])
  show "fold (\<lambda>p t. t + fst p * snd p) (entries_of ks m) 0 = (\<Sum>j \<in> UNIV. j * m j)"
    using u [of "\<lambda>j. j * m j"] by (simp add: f entries_of_def comp_def sum_list_distinct_conv_sum_set [OF d])
qed

definition retire_balance :: "top_stats \<Rightarrow> bool" where
  "retire_balance T \<longleftrightarrow> sum (retire_map T) UNIV = record_insns_retired T
     \<and> (\<Sum>j \<in> UNIV. j * retire_map T j) = last_retire_cycle T"

lemma record_retirement_balance:
  assumes "record_retirement p ac cc rc is_mem is_fp missed s T = Inr T'" "retire_balance T"
  shows "retire_balance T'"
proof -
  have "retire_map T' = bump (retire_map T) (rc - last_retire_cycle T)" "last_retire_cycle T' = rc"
    "record_insns_retired T' = record_insns_retired T + 1"
    using assms(1) by (auto simp: record_retirement_def Let_def split: if_splits)
  then show ?thesis using assms(2) by (simp add: retire_balance_def sum_bump)
qed

text \<open>
  C29. The retirement histogram accounts for every instruction and every cycle: after any sequence of
  retirements from the start, its entries add up to the number of instructions retired
  (\<open>total_retire\<close>), and weighted by their distances to the cycle of the last one (\<open>total_cycle\<close>), so
  the reported rate is instructions per cycle.
\<close>

theorem retire_map_accounts:
  assumes "foldE (\<lambda>(p, ac, cc, rc, is_mem, is_fp, missed). record_retirement p ac cc rc is_mem is_fp missed s)
      evs top_stats_init = Inr T"
    and "keys_of ks (retire_map T)"
  shows "total_retire (entries_of ks (retire_map T)) = record_insns_retired T
    \<and> total_cycle (entries_of ks (retire_map T)) = last_retire_cycle T"
proof -
  have "retire_balance top_stats_init" by (simp add: retire_balance_def top_stats_init_def)
  with assms(1) have "retire_balance T"
    by (rule foldE_invariant) (auto intro: record_retirement_balance)
  then show ?thesis
    by (simp add: total_retire_def total_cycle_def entries_total [OF assms(2)] retire_balance_def)
qed

text \<open>Three retirements in cycles 5, 5 and 9, and the histogram of two branches.\<close>

definition sample_retirements :: "(u64 \<times> u64 \<times> u64 \<times> u64 \<times> u32 \<times> u32 \<times> u32) list" where
  "sample_retirements = [(0x100, 1, 4, 5, 0, 0, 0), (0x104, 1, 5, 5, 1, 0, 1), (0x108, 2, 8, 9, 0, 1, 0)]"

theorem retire_map_accounts_witness:
  "\<exists>T. foldE (\<lambda>(p, ac, cc, rc, is_mem, is_fp, missed). record_retirement p ac cc rc is_mem is_fp missed sample_state)
        sample_retirements top_stats_init = Inr T
     \<and> total_retire (entries_of [0, 4, 5] (retire_map T)) = 3 \<and> total_cycle (entries_of [0, 4, 5] (retire_map T)) = 9"
proof -
  let ?rec = "\<lambda>(p, ac, cc, rc, is_mem, is_fp, missed). record_retirement p ac cc rc is_mem is_fp missed sample_state"
  obtain T1 where T1: "?rec (0x100, 1, 4, 5, 0, 0, 0) top_stats_init = Inr T1" "lrc T1 = 5" "retire_map T1 = (\<lambda>_. 0)(5 := 1)"
      "last_retire_cycle T1 = 5" "record_insns_retired T1 = 1"
    using record_retirement_returns [where p = "0x100" and rc = 5 and T = top_stats_init and ac = 1 and cc = 4 and is_mem = 0 and is_fp = 0 and missed = 0 and s = sample_state]
    by (auto simp: top_stats_init_def bump_def sz_def word_sless_alt)
  obtain T2 where T2: "?rec (0x104, 1, 5, 5, 1, 0, 1) T1 = Inr T2" "lrc T2 = 5" "retire_map T2 = (\<lambda>_. 0)(5 := 1, 0 := 1)"
      "last_retire_cycle T2 = 5" "record_insns_retired T2 = 2"
    using record_retirement_returns [where p = "0x104" and rc = 5 and T = T1 and ac = 1 and cc = 5 and is_mem = 1 and is_fp = 0 and missed = 1 and s = sample_state] T1(2-5) by (auto simp: bump_def sz_def)
  obtain T where T3: "?rec (0x108, 2, 8, 9, 0, 1, 0) T2 = Inr T" "retire_map T = (\<lambda>_. 0)(5 := 1, 0 := 1, 4 := 1)"
      "last_retire_cycle T = 9" "record_insns_retired T = 3"
    using record_retirement_returns [where p = "0x108" and rc = 9 and T = T2 and ac = 2 and cc = 8 and is_mem = 0 and is_fp = 1 and missed = 0 and s = sample_state] T2(2-5) by (auto simp: bump_def sz_def word_sless_alt)
  have T: "foldE ?rec sample_retirements top_stats_init = Inr T"
    using T1(1) T2(1) T3(1) by (simp add: sample_retirements_def)
  have "keys_of [0, 4, 5] (retire_map T)" by (simp add: keys_of_def T3(2))
  from retire_map_accounts [OF T this] T T3 show ?thesis by auto
qed

theorem dump_histo_sorted_witness:
  "\<exists>rows. dump_histo (\<lambda>_ _. []) [(0x100 :: u32, 7), (0x200, 0x100000009)] sample_state = Inr rows
     \<and> sorted_wrt (\<ge>) (map row_cnt rows) \<and> (\<exists>r \<in> set rows. row_pc r = 0x100 \<and> unat (row_cnt r) = 7)"
proof -
  have "\<exists>w :: u32. mem_get (mem sample_state) (0x100 :: u64) = Inr w" "\<exists>w :: u32. mem_get (mem sample_state) (0x200 :: u64) = Inr w"
    by (simp_all add: mem_get_def sz_def)
  moreover have "sorted_by_cnt [(0x100 :: u32, 7), (0x200, 0x100000009)] = [(7, 0x100), (9, 0x200)]"
    by (simp add: sorted_by_cnt_def less_eq_prod_def)
  ultimately obtain rows where r: "dump_histo (\<lambda>_ _. []) [(0x100 :: u32, 7), (0x200, 0x100000009)] sample_state = Inr rows"
    by (auto simp: dump_histo_def)
  from dump_histo_sorted [OF r] r show ?thesis by auto
qed

end
