(* ===== verification/Text_Out.thy ===== *)
theory Text_Out
  imports Prelude
begin

text \<open>
  Text as the output streams of the sources write it: unsigned integers in base 10 and 16, signed
  integers in base 10, and lines made of fixed text and numbers.  The lemmas show that what is
  written can be read back: a number ends at the first character that is no digit, so the fields of
  a line are determined by the line.
\<close>

definition nl :: string where "nl = [CHR 0x0A]"

definition digit :: "nat \<Rightarrow> char" where
  "digit d = char_of (if d < 10 then 48 + d else 87 + d)"

function digits :: "nat \<Rightarrow> nat \<Rightarrow> string" where
  "digits b n = (if n < b \<or> b < 2 then [digit n] else digits b (n div b) @ [digit (n mod b)])"
  by pat_completeness auto
termination by (relation "measure snd") auto

declare digits.simps [simp del]

definition dec :: "u64 \<Rightarrow> string" where "dec x = digits 10 (unat x)"
definition hex :: "u64 \<Rightarrow> string" where "hex x = digits 16 (unat x)"

text \<open>Signed integers: with \<open>std::hex\<close> they are written as the unsigned integer of their width.\<close>

definition dec_signed :: "'a::len word \<Rightarrow> string" where
  "dec_signed x = (if x <s 0 then ''-'' @ digits 10 (nat (- sint x)) else digits 10 (nat (sint x)))"

definition hex_word :: "'a::len word \<Rightarrow> string" where
  "hex_word x = digits 16 (unat x)"

subsection \<open>Reading numbers back\<close>

definition digit_value :: "char \<Rightarrow> nat" where
  "digit_value c = (let d = of_char c :: nat in if d < 58 then d - 48 else d - 87)"

definition number_value :: "nat \<Rightarrow> string \<Rightarrow> nat" where
  "number_value b = foldl (\<lambda>n c. n * b + digit_value c) 0"

lemma digit_value_digit: "d < 16 \<Longrightarrow> digit_value (digit d) = d"
  by (simp add: digit_value_def digit_def Let_def)

text \<open>The digits written for a number denote it.\<close>

lemma number_value_digits: "2 \<le> b \<Longrightarrow> b \<le> 16 \<Longrightarrow> number_value b (digits b n) = n"
proof (induction b n rule: digits.induct)
  case (1 b n)
  then show ?case
    by (simp add: digits.simps [of b n] number_value_def digit_value_digit less_le_trans [of "n mod b" b 16])
qed

definition is_digit :: "char \<Rightarrow> bool" where
  "is_digit c \<longleftrightarrow> (let d = of_char c :: nat in 48 \<le> d \<and> d < 58 \<or> 97 \<le> d \<and> d < 103)"

lemma is_digit_digit: "d < 16 \<Longrightarrow> is_digit (digit d)"
  by (auto simp: is_digit_def digit_def Let_def)

lemma digits_are_digits: "2 \<le> b \<Longrightarrow> b \<le> 16 \<Longrightarrow> c \<in> set (digits b n) \<Longrightarrow> is_digit c"
proof (induction b n rule: digits.induct)
  case (1 b n)
  have "n mod b < 16" using 1(2,3) less_le_trans [of "n mod b" b 16] by simp
  with 1 show ?case by (auto simp: digits.simps [of b n] is_digit_digit split: if_splits)
qed

lemma take_digits:
  assumes "2 \<le> b" "b \<le> 16" "\<not> is_digit c"
  shows "takeWhile is_digit (digits b n @ c # xs) = digits b n" "dropWhile is_digit (digits b n @ c # xs) = c # xs"
  using assms digits_are_digits [of b _ n] by (simp_all add: takeWhile_append dropWhile_append)

lemma digits_end:
  assumes "2 \<le> b" "b \<le> 16" "digits b n @ c # xs = digits b m @ d # ys" "\<not> is_digit c" "\<not> is_digit d"
  shows "n = m \<and> c = d \<and> xs = ys"
proof -
  have "digits b n = digits b m" "c # xs = d # ys"
    using take_digits [OF assms(1,2,4), of n xs] take_digits [OF assms(1,2,5), of m ys] assms(3) by simp_all
  then show ?thesis using number_value_digits [OF assms(1,2)] by (metis list.inject)
qed

lemma dec_end: "dec x @ c # xs = dec y @ c # ys \<Longrightarrow> \<not> is_digit c \<Longrightarrow> x = y \<and> xs = ys"
  and hex_word_end: "hex_word v @ c # xs = hex_word w @ c # ys \<Longrightarrow> \<not> is_digit c \<Longrightarrow> v = w \<and> xs = ys"
  using digits_end [of 10 "unat x" c xs "unat y" c ys] digits_end [of 16 "unat v" c xs "unat w" c ys]
  by (auto simp: dec_def hex_word_def word_unat_eq_iff)

lemma dec_signed_end:
  assumes "dec_signed x @ c # xs = dec_signed y @ c # ys" "\<not> is_digit c"
  shows "x = y \<and> xs = ys"
proof -
  have minus: "\<not> is_digit (CHR ''-'')" by (simp add: is_digit_def)
  have first: "digits 10 n = d # ds \<Longrightarrow> is_digit d" for n d ds using digits_are_digits [of 10 d n] by simp
  have ne: "digits 10 n \<noteq> []" for n by (subst digits.simps) simp
  have neg: "x <s 0 \<longleftrightarrow> y <s 0"
    using assms(1) minus ne first
    by (cases "digits 10 (nat (sint x))"; cases "digits 10 (nat (sint y))") (auto simp: dec_signed_def split: if_splits)
  have d: "digits 10 n @ c # xs = digits 10 m @ c # ys \<Longrightarrow> n = m \<and> xs = ys" for n m
    using digits_end [of 10 n c xs m c ys] assms(2) by simp
  have "sint x = sint y \<and> xs = ys"
  proof (cases "x <s 0")
    case True
    with assms(1) neg d [of "nat (- sint x)" "nat (- sint y)"] show ?thesis by (auto simp: dec_signed_def word_sless_alt)
  next
    case False
    with assms(1) neg d [of "nat (sint x)" "nat (sint y)"] show ?thesis by (auto simp: dec_signed_def word_sless_alt)
  qed
  then show ?thesis using signed_word_eqI by blast
qed

subsection \<open>Unambiguous fields\<close>

text \<open>
  A field printer, for a field with an index (a register number, say): from what follows the start
  of the field, its value and the rest of the text are determined.  A sequence of such fields then
  determines the values of all of them.
\<close>

locale field_printer =
  fixes print :: "'i \<Rightarrow> 'v \<Rightarrow> string"
  assumes unambiguous: "print i x @ u = print i y @ v \<Longrightarrow> x = y \<and> u = v"
begin

lemma fields_unambiguous:
  assumes "concat (map (\<lambda>i. print i (f i)) idx) @ u = concat (map (\<lambda>i. print i (g i)) idx) @ v"
  shows "(\<forall>i \<in> set idx. f i = g i) \<and> u = v"
  using assms
proof (induction idx)
  case (Cons i idx)
  from Cons.prems have "print i (f i) @ (concat (map (\<lambda>i. print i (f i)) idx) @ u) = print i (g i) @ (concat (map (\<lambda>i. print i (g i)) idx) @ v)"
    by simp
  from unambiguous [OF this] have "f i = g i" "concat (map (\<lambda>i. print i (f i)) idx) @ u = concat (map (\<lambda>i. print i (g i)) idx) @ v"
    by blast+
  with Cons.IH show ?case by simp
qed simp

end

end
