(* ===== verification/Pipeline_Log.thy ===== *)
theory Pipeline_Log
  imports Top_Stats Text_Out "HOL-Library.Sublist"
begin

text \<open>
  \<open>src/pipeline_record.hh\<close>, the logging part of \<open>record_retirement\<close> in \<open>src/top.cc\<close>, and the renderer
  \<open>src/gen_html.cc\<close>.  The log is the list of its records; writing it to a file and reading it back is
  the serialisation library's, and a file that cannot be read is \<open>None\<close>.  The template file is the list
  of its lines.  The disassembler is a parameter.
\<close>

subsection \<open>Records\<close>

record pipeline_record =
  uuid :: u64
  disasm :: string
  rec_pc :: u64
  fetch_cycle :: u64
  alloc_cycle :: u64
  complete_cycle :: u64
  retire_cycle :: u64
  faulted :: bool

definition pipeline_record_default :: pipeline_record where
  "pipeline_record_default =
     \<lparr>uuid = NOT 0, disasm = [], rec_pc = 0, fetch_cycle = 0, alloc_cycle = 0, complete_cycle = 0, retire_cycle = 0,
      faulted = False\<rparr>"

definition append_record :: "u64 \<Rightarrow> string \<Rightarrow> u64 \<Rightarrow> u64 \<Rightarrow> u64 \<Rightarrow> u64 \<Rightarrow> u64 \<Rightarrow> bool \<Rightarrow> pipeline_record list \<Rightarrow> pipeline_record list" where
  "append_record u d p f a c r e records =
     records @ [\<lparr>uuid = u, disasm = d, rec_pc = p, fetch_cycle = f, alloc_cycle = a, complete_cycle = c, retire_cycle = r,
                faulted = e\<rparr>]"

text \<open>The end of \<open>record_retirement\<close>; \<open>pl\<close> is \<open>None\<close> when there is no logger.\<close>

definition log_retirement ::
  "(u32 \<Rightarrow> u32 \<Rightarrow> string) \<Rightarrow> u64 \<Rightarrow> u64 \<Rightarrow> u64 \<Rightarrow> u64 \<Rightarrow> u64 \<Rightarrow> u64 \<Rightarrow> u64 \<Rightarrow> u32 \<Rightarrow> 'w state_t \<Rightarrow> u64 \<Rightarrow>
    pipeline_record list option \<Rightarrow> pipeline_record list option result" where
  "log_retirement getAsmString pipestart pipeend p fc ac cc rc flt s n pl =
     (case pl of
        None \<Rightarrow> Inr None
      | Some records \<Rightarrow>
          if n \<ge> pipestart \<and> n < pipeend
          then bindE (get_insn (ucast p) s) (\<lambda>insn.
               Inr (Some (append_record n (getAsmString insn (ucast p)) p fc ac cc rc (flt \<noteq> 0) records)))
          else Inr (Some records))"

text \<open>The whole callback: the counters of \<open>Top_Stats\<close> and the log.\<close>

record retirement =
  rt_pc :: u64
  rt_fetch :: u64
  rt_alloc :: u64
  rt_complete :: u64
  rt_retire :: u64
  rt_faulted :: u32
  rt_is_mem :: u32
  rt_is_fp :: u32
  rt_missed :: u32

definition record_retirement_log ::
  "(u32 \<Rightarrow> u32 \<Rightarrow> string) \<Rightarrow> u64 \<Rightarrow> u64 \<Rightarrow> 'w state_t \<Rightarrow> retirement \<Rightarrow> top_stats \<times> pipeline_record list option \<Rightarrow>
    (top_stats \<times> pipeline_record list option) result" where
  "record_retirement_log getAsmString pipestart pipeend s r = (\<lambda>(T, pl).
     bindE (record_retirement (rt_pc r) (rt_alloc r) (rt_complete r) (rt_retire r) (rt_is_mem r) (rt_is_fp r) (rt_missed r) s T) (\<lambda>T1.
     bindE (log_retirement getAsmString pipestart pipeend (rt_pc r) (rt_fetch r) (rt_alloc r) (rt_complete r) (rt_retire r)
       (rt_faulted r) s (record_insns_retired T) pl) (\<lambda>pl1.
     Inr (T1, pl1))))"

subsection \<open>The renderer\<close>

text \<open>\<open>regex_search\<close> with a pattern that has no special characters.\<close>

definition regex_search :: "string \<Rightarrow> string \<Rightarrow> bool" where
  "regex_search line pat \<longleftrightarrow> list_ex (prefix pat) (suffixes line)"

definition read_template :: "string list \<Rightarrow> string list \<times> string list" where
  "read_template lines =
     snd (fold (\<lambda>line (use_pre, pre, post).
       if regex_search line ''var tableData'' then (False, pre, post)
       else if use_pre then (use_pre, pre @ [line], post) else (use_pre, pre, post @ [line])) lines (True, [], []))"

text \<open>The output operator of a record.\<close>

definition show_record :: "pipeline_record \<Rightarrow> string" where
  "show_record r =
     disasm r @ '','' @ hex (rec_pc r) @ '','' @ dec (fetch_cycle r) @ '','' @ dec (alloc_cycle r) @ '','' @ dec (complete_cycle r)
     @ '','' @ dec (retire_cycle r) @ '','' @ (if faulted r then ''1'' else ''0'')"

definition row :: "pipeline_record \<Rightarrow> string" where
  \<open>row r = ''{'' @ ''"str":"'' @ hex (rec_pc r) @ '' '' @ disasm r @ ''"''
     @ '',uops:[{'' @ ''"uuid":'' @ ''"'' @ dec (uuid r) @ ''",'' @ ''"events":{''
     @ ''"'' @ dec (fetch_cycle r) @ ''":"F",'' @ ''"'' @ dec (alloc_cycle r) @ ''":"A",''
     @ ''"'' @ dec (complete_cycle r) @ ''":"C",'' @ ''"'' @ dec (retire_cycle r) @ ''":"R"''
     @ ''}}]'' @ ''}''\<close>

primrec ops_from :: "u64 \<Rightarrow> u64 \<Rightarrow> u64 \<Rightarrow> pipeline_record list \<Rightarrow> string list" where
  "ops_from start len cnt [] = []"
| "ops_from start len cnt (r # rs) =
     (let cnt1 = cnt + 1
      in if cnt1 < start then ops_from start len cnt1 rs
         else if cnt1 > start + len then []
         else row r # ops_from start len cnt1 rs)"

text \<open>A comma after every entry but the last.\<close>

fun joined :: "string list \<Rightarrow> string" where
  "joined [] = []"
| "joined [s] = s"
| "joined (s # t # ss) = s @ '','' @ joined (t # ss)"

definition gen_html :: "string list \<Rightarrow> pipeline_record list option \<Rightarrow> u64 \<Rightarrow> u64 \<Rightarrow> string result" where
  "gen_html template records start len =
     (case read_template template of (pre, post) \<Rightarrow>
        case records of
          None \<Rightarrow> Inl (Exit (-1))
        | Some rs \<Rightarrow>
            Inr (concat (map (\<lambda>l. l @ nl) pre) @ ''var tableData = ['' @ joined (ops_from start len 0 rs) @ '']'' @ nl
              @ concat (map (\<lambda>l. l @ nl) post)))"

text \<open>The default values of the options.\<close>

definition default_start :: u64 where "default_start = push_bit 20 1"
definition default_len :: u64 where "default_len = 512"

subsection \<open>The window\<close>

lemma ops_from_eq:
  assumes "unat cnt + length rs < 2 ^ 64" "unat start + unat len < 2 ^ 64"
  shows "ops_from start len cnt rs =
    map row (take (unat start + unat len - max (unat cnt) (unat start - 1)) (drop (unat start - 1 - unat cnt) rs))"
  using assms(1)
proof (induction rs arbitrary: cnt)
  case (Cons r rs)
  have cnt: "unat (cnt + 1) = unat cnt + 1" using Cons.prems by (simp add: unat_word_ariths)
  have sl: "unat (start + len) = unat start + unat len" using assms(2) by (simp add: unat_word_ariths)
  note IH = Cons.IH [of "cnt + 1", unfolded cnt]
  have lt: "cnt + 1 < start \<longleftrightarrow> unat cnt + 1 < unat start" and gt: "start + len < cnt + 1 \<longleftrightarrow> unat start + unat len < unat cnt + 1"
    by (simp_all only: word_less_nat_alt cnt sl)
  show ?case
  proof (cases "unat cnt + 1 < unat start")
    case True
    define k where "k = unat start - unat cnt - 2"
    with True have k: "unat start = unat cnt + 2 + k" by simp
    show ?thesis using IH Cons.prems by (simp add: lt k max_def)
  next
    case False
    then have m: "max (unat cnt) (unat start - 1) = unat cnt" "max (unat cnt + 1) (unat start - 1) = unat cnt + 1"
      "unat start - 1 - unat cnt = 0" by simp_all
    show ?thesis using False IH Cons.prems by (simp add: lt gt m take_Cons')
  qed
qed simp

subsection \<open>The log\<close>

text \<open>The record of a retirement, for the number of instructions retired before it.\<close>

definition record_of :: "retirement \<Rightarrow> nat \<Rightarrow> pipeline_record \<Rightarrow> bool" where
  "record_of e n r \<longleftrightarrow> unat (uuid r) = n \<and> rec_pc r = rt_pc e \<and> fetch_cycle r = rt_fetch e \<and> alloc_cycle r = rt_alloc e
     \<and> complete_cycle r = rt_complete e \<and> retire_cycle r = rt_retire e \<and> faulted r = (rt_faulted e \<noteq> 0)"

lemma log_step:
  assumes "record_retirement_log asm ps pe s e (T, pl) = Inr st"
  obtains T' where "record_insns_retired T' = record_insns_retired T + 1" "pl = None \<Longrightarrow> st = (T', None)"
    "\<And>recs. pl = Some recs \<Longrightarrow> \<exists>new. st = (T', Some (recs @ new)) \<and>
       (if ps \<le> record_insns_retired T \<and> record_insns_retired T < pe
        then \<exists>r. new = [r] \<and> record_of e (unat (record_insns_retired T)) r else new = [])"
proof -
  from assms obtain T' pl' where *: "record_retirement (rt_pc e) (rt_alloc e) (rt_complete e) (rt_retire e) (rt_is_mem e)
        (rt_is_fp e) (rt_missed e) s T = Inr T'" "st = (T', pl')"
      "log_retirement asm ps pe (rt_pc e) (rt_fetch e) (rt_alloc e) (rt_complete e) (rt_retire e) (rt_faulted e) s
        (record_insns_retired T) pl = Inr pl'"
    by (auto simp: record_retirement_log_def)
  have n: "record_insns_retired T' = record_insns_retired T + 1"
    using *(1) by (auto simp: record_retirement_def Let_def split: if_splits)
  have "\<exists>new. pl' = Some (recs @ new) \<and> (if ps \<le> record_insns_retired T \<and> record_insns_retired T < pe
      then \<exists>r. new = [r] \<and> record_of e (unat (record_insns_retired T)) r else new = [])" if "pl = Some recs" for recs
    using *(3) that by (auto simp: log_retirement_def append_record_def record_of_def split: if_splits)
  moreover have "pl' = None" if "pl = None" using *(3) that by (simp add: log_retirement_def)
  ultimately show ?thesis using that [OF n] *(2) by simp
qed

text \<open>Without a logger the retirements are only counted.\<close>

lemma unlogged:
  assumes "foldE (record_retirement_log asm ps pe s) evs (T, None) = Inr st"
  shows "\<exists>T'. st = (T', None) \<and> record_insns_retired T' = record_insns_retired T + of_nat (length evs)"
  using assms
proof (induction evs arbitrary: T)
  case (Cons e evs)
  then obtain st1 where st1: "record_retirement_log asm ps pe s e (T, None) = Inr st1"
    "foldE (record_retirement_log asm ps pe s) evs st1 = Inr st" by auto
  obtain T1 where "st1 = (T1, None)" "record_insns_retired T1 = record_insns_retired T + 1"
    by (rule log_step [OF st1(1)]) simp
  with Cons.IH st1(2) show ?case by (fastforce simp: algebra_simps)
qed auto

lemma upt_clip:
  "(if a \<le> n \<and> n < b then [n] else []) @ [max (n + 1) a..<min (n + 1 + k) b] = [max n a..<min (n + Suc k) b]" for a b n k :: nat
proof (cases "a \<le> n \<and> n < b")
  case True
  then have "max n a = n" "max (n + 1) a = n + 1" by simp_all
  moreover have "[n..<min (n + Suc k) b] = n # [n + 1..<min (n + Suc k) b]" using True by (simp add: upt_conv_Cons)
  ultimately show ?thesis using True by simp
qed (auto simp: max_def min_def)

text \<open>The events of a run that are logged, each with its number: those of the window.\<close>

definition window :: "nat \<Rightarrow> retirement list \<Rightarrow> nat \<Rightarrow> nat \<Rightarrow> (nat \<times> retirement) list" where
  "window n evs a b = filter (\<lambda>(i, e). a \<le> i \<and> i < b) (enumerate n evs)"

lemma log_records:
  assumes "foldE (record_retirement_log asm ps pe s) evs (T, Some recs) = Inr (T', Some recs')"
    "unat (record_insns_retired T) + length evs < 2 ^ 64"
  shows "\<exists>new. recs' = recs @ new
    \<and> list_all2 (\<lambda>(i, e) r. record_of e i r) (window (unat (record_insns_retired T)) evs (unat ps) (unat pe)) new"
  using assms
proof (induction evs arbitrary: T recs)
  case (Cons e evs)
  let ?n = "record_insns_retired T"
  from Cons.prems(1) obtain st where st: "record_retirement_log asm ps pe s e (T, Some recs) = Inr st"
    "foldE (record_retirement_log asm ps pe s) evs st = Inr (T', Some recs')" by auto
  obtain T1 new where T1: "st = (T1, Some (recs @ new))" "record_insns_retired T1 = ?n + 1"
      "if ps \<le> ?n \<and> ?n < pe then \<exists>r. new = [r] \<and> record_of e (unat ?n) r else new = []"
    by (rule log_step [OF st(1)]) blast
  have n: "unat (?n + 1) = Suc (unat ?n)" using Cons.prems(2) by (simp add: unat_word_ariths)
  have "\<exists>new'. recs' = (recs @ new) @ new'
      \<and> list_all2 (\<lambda>(i, e) r. record_of e i r) (window (Suc (unat ?n)) evs (unat ps) (unat pe)) new'"
    using Cons.IH [of T1 "recs @ new"] st(2) T1(1,2) n Cons.prems(2) by simp
  then show ?case using T1(3) by (auto simp: window_def word_le_nat_alt word_less_nat_alt split: if_splits)
qed (simp add: window_def)

lemma window_numbers: "map fst (window n evs a b) = [max n a..<min (n + length evs) b]"
proof (induction evs arbitrary: n)
  case (Cons e evs)
  have "map fst (window n (e # evs) a b) = (if a \<le> n \<and> n < b then [n] else []) @ map fst (window (n + 1) evs a b)"
    by (simp add: window_def)
  also have "\<dots> = [max n a..<min (n + length (e # evs)) b]" using upt_clip [of a n b "length evs"] Cons.IH [of "n + 1"] by simp
  finally show ?case .
qed (simp add: window_def)

subsection \<open>Properties of the trace\<close>

text \<open>
  C33. The trace of a run.  The \<open>k\<close> instructions of the start program retire before the logger exists and
  are counted but not logged; the log then holds one record for each retirement whose number, counted
  from the first of the start program, lies from \<open>pipestart\<close> up to \<open>pipeend\<close>, with the address and the
  cycles that were reported for it.  The page for \<open>start\<close> and \<open>len\<close> has a row for each record from
  the \<open>start\<close>-th to the \<open>start + len\<close>-th of the log, in order: positions in the log, not instruction counts.
\<close>

theorem trace_renders_window:
  fixes evs0 evs :: "retirement list" and pipestart pipeend :: u64
  assumes "foldE (record_retirement_log asm pipestart pipeend s0) evs0 (top_stats_init, None) = Inr (T0, pl0)"
    and "foldE (record_retirement_log asm pipestart pipeend s) evs (T0, Some []) = Inr (T, Some recs)"
    and "length evs0 + length evs < 2 ^ 64" "unat start + unat len < 2 ^ 64"
  defines "logged \<equiv> window (length evs0) evs (unat pipestart) (unat pipeend)"
  shows "pl0 = None \<and> list_all2 (\<lambda>(i, e) r. record_of e i r) logged recs
    \<and> map fst logged = [max (length evs0) (unat pipestart)..<min (length evs0 + length evs) (unat pipeend)]
    \<and> (\<exists>pre post. gen_html template (Some recs) start len =
        Inr (pre @ ''var tableData = ['' @ joined (map row (drop (unat start - 1) (take (unat start + unat len) recs))) @ '']'' @ nl @ post))"
proof -
  from unlogged [OF assms(1)] have pl0: "pl0 = None" "record_insns_retired T0 = of_nat (length evs0)"
    by (simp_all add: top_stats_init_def)
  have n: "unat (record_insns_retired T0) = length evs0"
    unfolding pl0(2) using assms(3) by (simp add: unsigned_of_nat take_bit_nat_eq_self)
  have recs: "list_all2 (\<lambda>(i, e) r. record_of e i r) logged recs"
    using log_records [OF assms(2)] assms(3) by (simp add: n logged_def)
  have "length recs = length logged" using recs by (simp add: list_all2_lengthD)
  also have "\<dots> \<le> length evs" using length_filter_le [of _ "enumerate (length evs0) evs"] by (simp add: logged_def window_def)
  finally have "ops_from start len 0 recs = map row (take (unat start + unat len - (unat start - 1)) (drop (unat start - 1) recs))"
    using ops_from_eq [of 0 recs start len] assms(3,4) by simp
  then have "ops_from start len 0 recs = map row (drop (unat start - 1) (take (unat start + unat len) recs))" by (simp add: drop_take)
  then show ?thesis using pl0(1) recs by (auto simp: logged_def window_numbers gen_html_def split: prod.splits)
qed

definition sample_retirement :: "u64 \<Rightarrow> u64 \<Rightarrow> retirement" where
  "sample_retirement p c = \<lparr>rt_pc = p, rt_fetch = c - 4, rt_alloc = c - 3, rt_complete = c - 1, rt_retire = c, rt_faulted = 0,
     rt_is_mem = 0, rt_is_fp = 0, rt_missed = 0\<rparr>"

lemma log_returns:
  assumes "unat (ucast (rt_pc r) :: u32) + 4 \<le> sz" "\<not> rt_retire r <s lrc T"
  shows "\<exists>T' recs'. record_retirement_log asm ps pe s r (T, Some recs) = Inr (T', Some recs') \<and> lrc T' = rt_retire r"
proof -
  obtain w where "get_insn (ucast (rt_pc r)) s = Inr w" using assms(1) by (rule get_insn_returns)
  then show ?thesis
    using record_retirement_returns [OF assms, of "rt_alloc r" "rt_complete r" "rt_is_mem r" "rt_is_fp r" "rt_missed r" s]
    by (auto simp: record_retirement_log_def log_retirement_def)
qed

text \<open>One instruction retires before there is a logger and two after; the page starts at the second record.\<close>

theorem trace_renders_window_witness:
  "\<exists>T0 T recs. foldE (record_retirement_log (\<lambda>_ _. ''nop'') 0 100 sample_state) [sample_retirement 0x100 5] (top_stats_init, None) = Inr (T0, None)
     \<and> foldE (record_retirement_log (\<lambda>_ _. ''nop'') 0 100 sample_state) [sample_retirement 0x104 6, sample_retirement 0x108 7] (T0, Some [])
         = Inr (T, Some recs)
     \<and> length recs = 2 \<and> unat (uuid (recs ! 1)) = 2 \<and> rec_pc (recs ! 1) = 0x108
     \<and> (\<exists>pre post. gen_html [] (Some recs) 2 7 = Inr (pre @ ''var tableData = ['' @ joined [row (recs ! 1)] @ '']'' @ nl @ post))"
proof -
  let ?log = "record_retirement_log (\<lambda>_ _. ''nop'') 0 100 sample_state"
  obtain T0 where 0: "?log (sample_retirement 0x100 5) (top_stats_init, None) = Inr (T0, None)" "lrc T0 = 5"
    using record_retirement_returns [of "0x100" 5 top_stats_init 2 4 0 0 0 sample_state]
    by (auto simp: record_retirement_log_def log_retirement_def sample_retirement_def top_stats_init_def sz_def word_sless_alt)
  obtain T1 r1 where 1: "?log (sample_retirement 0x104 6) (T0, Some []) = Inr (T1, Some r1)" "lrc T1 = 6"
    using log_returns [of "sample_retirement 0x104 6" T0 "\<lambda>_ _. ''nop''" 0 100 sample_state "[]"] 0(2)
    by (auto simp: sample_retirement_def sz_def word_sless_alt)
  obtain T recs where 2: "?log (sample_retirement 0x108 7) (T1, Some r1) = Inr (T, Some recs)"
    using log_returns [of "sample_retirement 0x108 7" T1 "\<lambda>_ _. ''nop''" 0 100 sample_state r1] 1(2)
    by (auto simp: sample_retirement_def sz_def word_sless_alt)
  have run0: "foldE ?log [sample_retirement 0x100 5] (top_stats_init, None) = Inr (T0, None)" using 0(1) by simp
  have run: "foldE ?log [sample_retirement 0x104 6, sample_retirement 0x108 7] (T0, Some []) = Inr (T, Some recs)"
    using 1(1) 2 by simp
  note t = trace_renders_window [OF run0 run, of 2 7 "[]"]
  then have "list_all2 (\<lambda>(i, e) r. record_of e i r) [(1, sample_retirement 0x104 6), (Suc 1, sample_retirement 0x108 7)] recs"
    by (simp add: window_def)
  then obtain a b where ab: "recs = [a, b]" "record_of (sample_retirement 0x108 7) (Suc 1) b" by (auto simp: list_all2_Cons1)
  then have "unat (uuid b) = 2" "rec_pc b = 0x108" by (simp_all add: record_of_def sample_retirement_def)
  with t run0 run ab(1) show ?thesis by auto
qed

end
