(* ===== verification/State_Print.thy ===== *)
theory State_Print
  imports Text_Out Interp64
begin

text \<open>
  The output operators of the two state classes (\<open>src/interpret.cc\<close>, \<open>src/interpret64.cc\<close>), the
  conversions to text of \<open>src/helper.hh\<close>, and the disassembler of \<open>src/disassemble.cc\<close>, whose
  decoding is a library's: \<open>cs_disasm\<close> takes the bytes of the instruction and its address and
  returns the mnemonic and the operands of each instruction it finds; \<open>cs_open\<close> returns an error
  code.
\<close>

subsection \<open>Numbers and instructions\<close>

definition toString :: "u64 \<Rightarrow> string" where
  "toString x = dec x"

definition toStringHex :: "u64 \<Rightarrow> string" where
  "toStringHex x = hex x"

text \<open>The bytes of an instruction word as the little endian host stores them.\<close>

definition insn_bytes :: "u32 \<Rightarrow> u8 list" where
  "insn_bytes inst = map (\<lambda>i. ucast (drop_bit (8 * i) inst)) [0..<4]"

text \<open>
  The names of the error codes the program knows; an error code is represented by its name, and
  \<open>at\<close> throws for one that is not in the map.
\<close>

definition cs_error_map :: "string list" where
  "cs_error_map =
     [''CS_ERR_OK'', ''CS_ERR_MEM'', ''CS_ERR_ARCH'', ''CS_ERR_HANDLE'', ''CS_ERR_CSH'', ''CS_ERR_MODE'', ''CS_ERR_DETAIL'',
      ''CS_ERR_MEMSETUP'', ''CS_ERR_VERSION'', ''CS_ERR_DIET'', ''CS_ERR_SKIPDATA'', ''CS_ERR_X86_ATT'', ''CS_ERR_X86_INTEL'']"

definition initCapstone :: "string \<Rightarrow> unit result" where
  "initCapstone cs_err =
     (if cs_err \<noteq> ''CS_ERR_OK'' then (if List.member cs_error_map cs_err then Inl (Exit (-1)) else Inl Abort) else Inr ())"

definition getAsmString :: "(u8 list \<Rightarrow> u64 \<Rightarrow> (string \<times> string) list) \<Rightarrow> u32 \<Rightarrow> u32 \<Rightarrow> string" where
  "getAsmString cs_disasm inst addr =
     (case cs_disasm (insn_bytes inst) (ucast addr) of
        [(mnemonic, op_str)] \<Rightarrow> mnemonic @ '' '' @ op_str
      | _ \<Rightarrow> [])"

definition disassemble :: "(u8 list \<Rightarrow> u64 \<Rightarrow> (string \<times> string) list) \<Rightarrow> string \<Rightarrow> u32 \<Rightarrow> u32 \<Rightarrow> string" where
  "disassemble cs_disasm out inst addr = out @ getAsmString cs_disasm inst addr"

subsection \<open>States\<close>

definition gpr_line :: "nat \<Rightarrow> 'a::len word \<Rightarrow> string" where
  "gpr_line i v = getGPRName (of_nat i) @ '' : 0x'' @ hex_word v @ ''('' @ dec_signed v @ '')'' @ nl"

definition cpr1_line :: "nat \<Rightarrow> u32 \<Rightarrow> string" where
  "cpr1_line i v = ''cpr1_'' @ dec (of_nat i) @ '' : 0x'' @ hex_word v @ nl"

definition show_state :: "'w state_t \<Rightarrow> string" where
  "show_state s = concat (map (\<lambda>i. gpr_line i (gpr s ! i)) [0..<32]) @ ''icnt : '' @ dec (icnt s) @ nl"

definition show_state64 :: "'w state64_t \<Rightarrow> string" where
  "show_state64 s =
     concat (map (\<lambda>i. gpr_line i (gpr64 s ! i)) [0..<32]) @ concat (map (\<lambda>i. cpr1_line i (cpr1_64 s ! i)) [0..<32])
     @ ''icnt : '' @ dec (icnt64 s) @ nl"

lemma separators [simp]: "\<not> is_digit (CHR ''('')" "\<not> is_digit (CHR '')'')" "\<not> is_digit (CHR 0x0A)"
  by (simp_all add: is_digit_def)

interpretation gpr32: field_printer "gpr_line :: nat \<Rightarrow> u32 \<Rightarrow> string"
  by unfold_locales (auto simp: gpr_line_def nl_def dest!: hex_word_end dest: dec_signed_end)

interpretation gpr64: field_printer "gpr_line :: nat \<Rightarrow> u64 \<Rightarrow> string"
  by unfold_locales (auto simp: gpr_line_def nl_def dest!: hex_word_end dest: dec_signed_end)

interpretation cpr1: field_printer cpr1_line
  by unfold_locales (auto simp: cpr1_line_def nl_def dest: hex_word_end)

text \<open>
  C28. The dump of a state is a faithful record: two states with well-formed register files print the
  same text exactly when they agree in every general register and in the instruction count, and two
  states of the 64 bit interpreter exactly when they agree in these and in the floating point
  registers.
\<close>

theorem state_dump_faithful:
  assumes "wf_state s" "wf_state t" "wf64 x" "wf64 y"
  shows "(show_state s = show_state t \<longleftrightarrow> gpr s = gpr t \<and> icnt s = icnt t)
    \<and> (show_state64 x = show_state64 y \<longleftrightarrow> gpr64 x = gpr64 y \<and> cpr1_64 x = cpr1_64 y \<and> icnt64 x = icnt64 y)"
proof
  have icnt: "''icnt : '' @ dec a @ nl = ''icnt : '' @ dec b @ nl \<Longrightarrow> a = b" for a b
    using dec_end [of a "CHR 0x0A" "[]" b "[]"] by (simp add: nl_def)
  have regs: "xs = ys" if "\<forall>i \<in> set [0..<32]. xs ! i = ys ! i" "length xs = 32" "length ys = 32" for xs ys :: "'z::len word list"
    using that by (intro nth_equalityI) auto
  show "show_state s = show_state t \<longleftrightarrow> gpr s = gpr t \<and> icnt s = icnt t"
  proof
    assume eq: "show_state s = show_state t"
    note g = gpr32.fields_unambiguous [OF eq [unfolded show_state_def]]
    show "gpr s = gpr t \<and> icnt s = icnt t"
      using regs [OF conjunct1 [OF g]] icnt [OF conjunct2 [OF g]] assms by (simp add: wf_state_def)
  qed (simp add: show_state_def)
  show "show_state64 x = show_state64 y \<longleftrightarrow> gpr64 x = gpr64 y \<and> cpr1_64 x = cpr1_64 y \<and> icnt64 x = icnt64 y"
  proof
    assume eq: "show_state64 x = show_state64 y"
    note g = gpr64.fields_unambiguous [OF eq [unfolded show_state64_def]]
    note c = cpr1.fields_unambiguous [OF conjunct2 [OF g]]
    show "gpr64 x = gpr64 y \<and> cpr1_64 x = cpr1_64 y \<and> icnt64 x = icnt64 y"
      using regs [OF conjunct1 [OF g]] regs [OF conjunct1 [OF c]] icnt [OF conjunct2 [OF c]] assms by (simp add: wf64_def)
  qed (simp add: show_state64_def)
qed

theorem state_dump_faithful_witness:
  "show_state sample_state \<noteq> show_state (sample_state\<lparr>icnt := 1\<rparr>)
    \<and> show_state64 (state64_new sparse_mem_new ()) \<noteq> show_state64 ((state64_new sparse_mem_new ())\<lparr>cpr1_64 := (replicate 32 0)[3 := 1]\<rparr>)"
proof -
  have "(replicate 32 0 :: u32 list) ! 3 \<noteq> (replicate 32 0)[3 := 1] ! 3" by simp
  then have "replicate 32 0 \<noteq> (replicate 32 0 :: u32 list)[3 := 1]" by metis
  then show ?thesis
    using state_dump_faithful [of sample_state "sample_state\<lparr>icnt := 1\<rparr>" "state64_new sparse_mem_new ()"
        "(state64_new sparse_mem_new ())\<lparr>cpr1_64 := (replicate 32 0)[3 := 1]\<rparr>"]
    by (simp add: wf_state_def wf64_def state64_new_def sample_state_def state_t_new_def)
qed

end
