(* ===== verification/Final_Log.thy ===== *)
theory Final_Log
  imports Report Text_Out Boot
begin

text \<open>
  The end of \<open>main\<close> in \<open>src/top.cc\<close>, after the loop: the comparison of the two memories when the run
  was \<open>incorrect\<close>, and otherwise the text of the statistics log, the two listings and the summary on
  the standard output.  Numbers of type \<open>double\<close> are bit patterns, with the operations of the host's
  floating point unit as in \<open>Interp_FP\<close>; the conversion of an integer to \<open>double\<close> and the text of a
  \<open>double\<close> are parameters (\<open>double_io\<close>), and so is the time that the run took.  A \<open>std::map\<close> is the
  list of its entries in the order of its keys.  The five counters of the caches (\<open>CACHE_STATS\<close>) are
  outputs of the processor; their values at the end are the record \<open>cache_ports\<close>.
\<close>

record double_io =
  fpu_io :: fpu
  of_uint64 :: "u64 \<Rightarrow> u64"
  show_double :: "u64 \<Rightarrow> string"

record histograms =
  mispredict_entries :: "(u32 \<times> u64) list"
  pushout_entries :: "(u64 \<times> u64) list"
  restart_entries :: "(u32 \<times> u64) list"
  restart_ds_entries :: "(u32 \<times> u64) list"
  retire_entries :: "(u64 \<times> u64) list"
  int_rdy_entries :: "(u32 \<times> u64) list"
  mem_lat_entries :: "(u32 \<times> u64) list"
  non_mem_lat_entries :: "(u32 \<times> u64) list"
  fp_lat_entries :: "(u32 \<times> u64) list"
  insn_entries :: "(mipsInsn \<times> u64) list"

record cache_ports =
  l1d_cache_hits :: u64
  l1d_cache_accesses :: u64
  l1d_cache_hits_under_miss :: u64
  l1i_cache_hits :: u64
  l1i_cache_accesses :: u64

subsection \<open>Averages\<close>

definition ratio :: "double_io \<Rightarrow> u64 \<Rightarrow> u64 \<Rightarrow> u64" where
  "ratio X a b = f64_div (fpu_io X) (of_uint64 X a) (of_uint64 X b)"

text \<open>
  \<open>acc += p.first * p.second\<close>: the key, an \<open>int\<close>, is converted to \<open>uint64_t\<close>, the product wraps around
  and is converted to \<open>double\<close>.
\<close>

definition weighted_sum :: "double_io \<Rightarrow> (u32 \<times> u64) list \<Rightarrow> u64" where
  "weighted_sum X ps = fold (\<lambda>p acc. f64_add (fpu_io X) acc (of_uint64 X (scast (fst p) * snd p))) ps 0"

definition histo_mean :: "double_io \<Rightarrow> (u32 \<times> u64) list \<Rightarrow> u64" where
  "histo_mean X ps = (if ps = [] then 0 else f64_div (fpu_io X) (weighted_sum X ps) (of_uint64 X (histo_total ps 0)))"

definition avg_inflight :: "double_io \<Rightarrow> u64 list \<Rightarrow> u64" where
  "avg_inflight X infl =
     (case fold (\<lambda>i (avg, n).
        if infl ! i = 0 then (avg, n)
        else (f64_add (fpu_io X) avg (of_uint64 X (of_nat i * infl ! i)), f64_add (fpu_io X) n (of_uint64 X (infl ! i))))
       [0..<32] (0, 0)
      of (avg, n) \<Rightarrow> f64_div (fpu_io X) avg n)"

subsection \<open>The log\<close>

text \<open>A line made of the texts of a list.\<close>

definition line :: "string list \<Rightarrow> string" where
  "line parts = concat parts @ nl"

definition log_counts :: "'w driver \<Rightarrow> string" where
  "log_counts D = line [''n_mispredicts = '', dec (n_mispredicts D), '', cycles = '', dec (cyc D),
     '', insns = '', dec (insns_retired D), '', n_checks = '', dec (n_checks D)]"

definition log_caches :: "double_io \<Rightarrow> cache_ports \<Rightarrow> string" where
  "log_caches X C =
     line [''l1d cache hits = '', dec (l1d_cache_hits C)]
     @ line [''l1d cache accesses = '', dec (l1d_cache_accesses C)]
     @ line [''l1d cache hit under miss = '', dec (l1d_cache_hits_under_miss C)]
     @ line [''l1d hit rate = '',
         show_double X (f64_mul (fpu_io X) (of_uint64 X 100) (ratio X (l1d_cache_hits C) (l1d_cache_accesses C)))]
     @ line [''l1i cache hits = '', dec (l1i_cache_hits C)]
     @ line [''l1i cache accesses = '', dec (l1i_cache_accesses C)]
     @ line [''l1i hit rate = '',
         show_double X (f64_mul (fpu_io X) (of_uint64 X 100) (ratio X (l1i_cache_hits C) (l1i_cache_accesses C)))]"

definition log_rates :: "double_io \<Rightarrow> cache_ports \<Rightarrow> 'w driver \<Rightarrow> string" where
  "log_rates X C D =
     line [show_double X (ratio X (insns_retired D) (cyc D)), '' insn per cycle'']
     @ line [dec (insns_retired D), '' insns retired'']
     @ line [''avg insns in ROB = '', show_double X (avg_inflight X (inflight D)), '', max inflight = '',
         dec (ucast (max_inflight D))]
     @ log_caches X C
     @ line [''iside tlb misses = '', dec (n_iside_tlb_misses D)]
     @ line [''dside tlb misses = '', dec (n_dside_tlb_misses D)]
     @ line [''branch mispredict rate = '',
         show_double X (f64_mul (fpu_io X) (ratio X (n_mispredicts D) (n_branches D)) (of_uint64 X 100))]
     @ line [''mispredicts per kiloinsn = '',
         show_double X (f64_mul (fpu_io X) (ratio X (n_mispredicts D) (insns_retired D)) (of_uint64 X 1000))]
     @ line [dec (n_flush_cycles D), '' cycles spent flushing caches'']
     @ line [dec (n_loads D), '' cache line loads'']
     @ line [dec (n_stores D), '' cache line stores'']"

definition log_frontend :: "double_io \<Rightarrow> top_stats \<Rightarrow> string" where
  "log_frontend X T =
     line [dec (l1d_misses T), '' l1d misses'']
     @ line [dec (l1d_insns T), '' insns access the l1d'']
     @ (case total_fetch (n_fetch T) of (cycles, fetched) \<Rightarrow> line [''avg fetch = '', show_double X (ratio X fetched cycles)])
     @ line [''resteer bubble = '', dec (n_resteer_bubble T)]
     @ line [''front-end queues full = '', dec (n_fq_full T)]"

definition log_queues :: "top_stats \<Rightarrow> string" where
  "log_queues T =
     line [dec (n_int_exec T ! 0), '' cycles where int exec queue is not empty'']
     @ line [dec (n_int_exec T ! 1), '' cycles where int exec queue dispatches'']
     @ line [dec (n_mem_exec T ! 0), '' cycles where mem exec queue is not empty'']
     @ line [dec (n_mem_exec T ! 1), '' cycles where mem exec queue dispatches'']
     @ line [dec (n_mem_exec T ! 2), '' cycles where mem exec queue is blocked by a store'']
     @ line [dec (n_fp_exec T ! 0), '' cycles where fp exec queue is not empty'']
     @ line [dec (n_fp_exec T ! 1), '' cycles where fp exec queue dispatches'']
     @ line [dec (sched_full T ! 0), '' cycles with int queue full'']
     @ line [dec (sched_full T ! 1), '' cycles with mem queue full'']
     @ line [dec (sched_full T ! 2), '' cycles with fp  queue full'']
     @ line [dec (dq_empty T), '' cycles with an empty decode queue'']
     @ line [dec (uq_full T), '' cycles with a  full uop queue'']
     @ line [dec (n_active T), '' cycles where the machine is in active state'']
     @ line [dec (rob_full T), '' cycles where the rob is full'']"

definition log_restarts :: "double_io \<Rightarrow> (u32 \<times> u64) list \<Rightarrow> string" where
  "log_restarts X ps =
     (let R = report_restarts ps; avg = weighted_sum X ps
      in (case median_restart R of None \<Rightarrow> [] | Some k \<Rightarrow> line [dec_signed k, '' median flush cycles''])
         @ (case min_max_restart R of None \<Rightarrow> [] | Some (mn, mx) \<Rightarrow>
              line [show_double X avg, '' cycles spent in pipeline flush'']
              @ line [dec (total_restart R), '' times pipeline was flushed'']
              @ line [show_double X (f64_div (fpu_io X) avg (of_uint64 X (total_restart R))), '' cycles to flush on avg'']
              @ line [dec_signed mn, '' min cycles to flush'']
              @ line [dec_signed mx, '' max cycles to flush'']))"

definition log_ds_restarts :: "double_io \<Rightarrow> (u32 \<times> u64) list \<Rightarrow> string" where
  "log_ds_restarts X ps =
     (let R = report_restarts ps; avg = weighted_sum X ps
      in (case median_restart R of None \<Rightarrow> [] | Some k \<Rightarrow> line [dec_signed k, '' median delay slot flush cycles''])
         @ (case min_max_restart R of None \<Rightarrow> [] | Some (mn, mx) \<Rightarrow>
              line [show_double X avg, '' cycles spent waiting for delay slot in flush'']
              @ line [show_double X (f64_div (fpu_io X) avg (of_uint64 X (total_restart R))), '' cycles waiting on delay slot on avg'']
              @ line [dec_signed mn, '' min cycles for delay slot'']
              @ line [dec_signed mx, '' max cycles for delay slot'']))"

definition log_latency :: "double_io \<Rightarrow> string \<Rightarrow> (u32 \<times> u64) list \<Rightarrow> string" where
  "log_latency X what ps =
     line [''avg '', what, '' = '', show_double X (histo_mean X ps)] @ line [''median '', what, '' = '', dec_signed (histo_median 0 0 ps)]"

definition l1d_stall_str :: "string list" where
  "l1d_stall_str = [''no stall'', ''got miss'', ''full memory queue'', ''not possible'', ''load retry'', ''store to same set'',
     ''cm block stall'', ''inflight rob ptr'']"

definition log_l1d :: "double_io \<Rightarrow> top_stats \<Rightarrow> string" where
  "log_l1d X T =
     line [''l1d_reqs = '', dec (l1d_reqs T)]
     @ line [''l1d_acks = '', dec (l1d_acks T)]
     @ line [''l1d_stores = '', dec (l1d_stores T)]
     @ line [''l1d tput = '', show_double X (ratio X (l1d_acks T) (l1d_reqs T))]
     @ concat (map (\<lambda>(i, n). line [dec n, '' '', l1d_stall_str ! i]) (stall_lines (l1d_stall_reasons T)))"

definition log_insns :: "(mipsInsn \<times> u64) list \<Rightarrow> string" where
  "log_insns ps =
     (case histo_lines ps of (ls, total_histo) \<Rightarrow>
        concat (map (\<lambda>(i, n). line [i, '','', dec n]) ls) @ line [''total_histo = '', dec total_histo])"

definition log_text :: "double_io \<Rightarrow> cache_ports \<Rightarrow> 'w driver \<Rightarrow> top_stats \<Rightarrow> histograms \<Rightarrow> string" where
  "log_text X C D T H =
     log_counts D @ log_rates X C D @ log_frontend X T @ log_queues T
     @ log_restarts X (restart_entries H) @ log_ds_restarts X (restart_ds_entries H)
     @ line [dec (total_pushout (pushout_entries H)), '' cycles of pushout'']
     @ log_latency X ''int rdy insn'' (int_rdy_entries H)
     @ log_latency X ''mem alloc to complete'' (mem_lat_entries H)
     @ log_latency X ''non-mem alloc to complete'' (non_mem_lat_entries H)
     @ log_latency X ''fp alloc to complete'' (fp_lat_entries H)
     @ log_l1d X T
     @ log_insns (insn_entries H)"

text \<open>The rows of \<open>dump_histo\<close> as text.\<close>

definition histo_text :: "'a::len word histo_row list \<Rightarrow> string" where
  "histo_text rows = concat (map (\<lambda>r. line [hex (row_pc r), '':'', row_asm r, '','', digits 10 (unat (row_cnt r))]) rows)"

subsection \<open>The standard output\<close>

definition totals_text :: "double_io \<Rightarrow> (u64 \<times> u64) list \<Rightarrow> string" where
  "totals_text X ps =
     line [''total_retire = '', dec (total_retire ps)] @ line [''total_cycle  = '', dec (total_cycle ps)]
     @ line [''total ipc    = '', show_double X (ratio X (total_retire ps) (total_cycle ps))]"

definition compare_text :: "memory \<Rightarrow> memory \<Rightarrow> string" where
  "compare_text m other =
     concat (map (\<lambda>b. let a = of_nat b :: u32 in
         if m a \<noteq> other a then line [''byte '', digits 16 b, '' differs '', hex_word (m a), '' vs '', hex_word (other a)] else [])
       [0..<sz])"

definition took_text :: "double_io \<Rightarrow> u64 \<Rightarrow> u64 \<Rightarrow> string" where
  "took_text X t0 insns =
     line [''simulation took '', show_double X t0, '' seconds, '', show_double X (f64_div (fpu_io X) (of_uint64 X insns) t0),
       '' insns per second'']"

record final_output =
  log_file :: "string option"
  branch_file :: "string option"
  pushout_file :: "string option"
  cout :: string

definition main_end :: "double_io \<Rightarrow> cache_ports \<Rightarrow> (u32 \<Rightarrow> u32 \<Rightarrow> string) \<Rightarrow> u64 \<Rightarrow> 'w driver \<Rightarrow> top_stats \<Rightarrow> histograms \<Rightarrow> final_output result" where
  "main_end X C getAsmString t0 D T H =
     (if incorrect D then
        Inr \<lparr>log_file = None, branch_file = None, pushout_file = None,
             cout = compare_text (mem (rtl D)) (mem (sim D)) @ line [''instructions retired = '', dec (insns_retired D)]
               @ took_text X t0 (insns_retired D)\<rparr>
      else
        bindE (dump_histo getAsmString (mispredict_entries H) (rtl D)) (\<lambda>branches.
        bindE (dump_histo getAsmString (pushout_entries H) (rtl D)) (\<lambda>pushouts.
        Inr \<lparr>log_file = Some (log_text X C D T H), branch_file = Some (histo_text branches), pushout_file = Some (histo_text pushouts),
             cout = totals_text X (retire_entries H) @ took_text X t0 (insns_retired D)\<rparr>)))"

subsection \<open>Reading the log\<close>

lemma line_dec:
  assumes "p @ dec a @ c # q @ nl @ u = p @ dec b @ c # q @ nl @ v" "\<not> is_digit c"
  shows "a = b \<and> u = v"
  using dec_end [of a c "q @ nl @ u" b "q @ nl @ v"] assms by auto

lemma line_any:
  assumes "x @ nl @ u = y @ nl @ v" "CHR 0x0A \<notin> set x" "CHR 0x0A \<notin> set y"
  shows "x = y \<and> u = v"
proof -
  have "takeWhile (\<lambda>c. c \<noteq> CHR 0x0A) (x @ nl @ u) = x" "takeWhile (\<lambda>c. c \<noteq> CHR 0x0A) (y @ nl @ v) = y"
    using assms(2,3) by (auto simp: nl_def takeWhile_append2 takeWhile_tail intro: takeWhile_append2)
  with assms(1) show ?thesis by auto
qed

text \<open>A number and a fixed text without digits at its start.\<close>

lemma num_line:
  assumes "line [dec a, c # q] @ u = line [dec b, c # q] @ v" "\<not> is_digit c"
  shows "a = b \<and> u = v"
  using line_dec [of "[]" a c q u b v] assms by (simp add: line_def)

lemma end_line:
  assumes "line [p, dec a] @ u = line [p, dec b] @ v"
  shows "a = b \<and> u = v"
  using dec_end [of a "CHR 0x0A" u b v] assms by (simp add: line_def nl_def is_digit_def)

lemma double_line:
  assumes "\<And>x. CHR 0x0A \<notin> set (show_double X x)" "CHR 0x0A \<notin> set p" "CHR 0x0A \<notin> set q"
    and "line [p, show_double X x, q] @ u = line [p, show_double X y, q] @ v"
  shows "u = v"
  using line_any [of "p @ show_double X x @ q" u "p @ show_double X y @ q" v] assms by (simp add: line_def)

lemma sep_chars [simp]: "\<not> is_digit (CHR '' '')" "\<not> is_digit (CHR '','')" "\<not> is_digit (CHR 0x0A)"
  by (simp_all add: is_digit_def)

lemma log_counts_read:
  assumes "log_counts D @ u = log_counts D' @ v"
  shows "n_mispredicts D = n_mispredicts D' \<and> cyc D = cyc D' \<and> insns_retired D = insns_retired D' \<and> n_checks D = n_checks D' \<and> u = v"
  using assms by (auto simp: log_counts_def line_def nl_def dest!: dec_end)

text \<open>The text of a number of type \<open>double\<close> does not contain the end of a line.\<close>

definition one_line_doubles :: "double_io \<Rightarrow> bool" where
  "one_line_doubles X \<longleftrightarrow> (\<forall>x. CHR 0x0A \<notin> set (show_double X x))"

lemma digits_no_nl: "CHR 0x0A \<notin> set (dec x)"
  using digits_are_digits [of 10 "CHR 0x0A" "unat x"] by (auto simp: dec_def)

text \<open>A number at the end of a line.\<close>

lemma dec_at_end:
  assumes "x @ c # dec a = y @ c # dec b" "\<not> is_digit c"
  shows "a = b"
proof -
  have t: "takeWhile is_digit (rev (z @ c # dec n)) = rev (dec n)" for z n
    using assms(2) digits_are_digits [of 10 _ "unat n"] by (auto simp: takeWhile_append dec_def)
  from t [of x a] t [of y b] have "dec a = dec b" unfolding assms(1) by simp
  then show ?thesis using dec_end [of a "CHR '' ''" "[]" b "[]"] by simp
qed

lemma show_double_line:
  assumes "one_line_doubles X" "show_double X x @ q @ CHR 0x0A # u = show_double X y @ r @ CHR 0x0A # v"
    "CHR 0x0A \<notin> set q" "CHR 0x0A \<notin> set r"
  shows "u = v"
  using line_any [of "show_double X x @ q" u "show_double X y @ r" v] assms by (simp add: one_line_doubles_def nl_def)

lemma show_double_ends:
  assumes "one_line_doubles X"
  shows "show_double X x @ CHR 0x0A # u = show_double X y @ CHR 0x0A # v \<Longrightarrow> u = v"
    "show_double X x @ '' insn per cycle'' @ CHR 0x0A # u = show_double X y @ '' insn per cycle'' @ CHR 0x0A # v \<Longrightarrow> u = v"
    "show_double X x @ '', max inflight = '' @ dec a @ CHR 0x0A # u = show_double X y @ '', max inflight = '' @ dec b @ CHR 0x0A # v
      \<Longrightarrow> a = b \<and> u = v"
  using show_double_line [OF assms, of x "[]" u y "[]" v] show_double_line [OF assms, of x "'' insn per cycle''" u y "'' insn per cycle''" v]
proof -
  assume "show_double X x @ '', max inflight = '' @ dec a @ CHR 0x0A # u = show_double X y @ '', max inflight = '' @ dec b @ CHR 0x0A # v"
  then have "show_double X x @ '', max inflight = '' @ dec a = show_double X y @ '', max inflight = '' @ dec b \<and> u = v"
    using line_any [of "show_double X x @ '', max inflight = '' @ dec a" u "show_double X y @ '', max inflight = '' @ dec b" v] assms
    by (simp add: one_line_doubles_def nl_def digits_no_nl)
  then show "a = b \<and> u = v"
    using dec_at_end [of "show_double X x @ '', max inflight ='' " "CHR '' ''" a "show_double X y @ '', max inflight =''" b] by simp
qed simp_all

lemma log_rates_read:
  assumes "one_line_doubles X" "log_rates X C D @ u = log_rates X C' D' @ v"
  shows "C = C' \<and> max_inflight D = max_inflight D' \<and> n_iside_tlb_misses D = n_iside_tlb_misses D' \<and> n_dside_tlb_misses D = n_dside_tlb_misses D'
    \<and> n_flush_cycles D = n_flush_cycles D' \<and> n_loads D = n_loads D' \<and> n_stores D = n_stores D' \<and> u = v"
proof -
  note ends = show_double_ends [OF assms(1), simplified]
  have c: "C = C' \<and> (ucast (max_inflight D) :: u64) = ucast (max_inflight D') \<and> n_iside_tlb_misses D = n_iside_tlb_misses D'
    \<and> n_dside_tlb_misses D = n_dside_tlb_misses D' \<and> n_flush_cycles D = n_flush_cycles D' \<and> n_loads D = n_loads D'
    \<and> n_stores D = n_stores D' \<and> u = v"
    using assms(2) by (auto simp: log_rates_def log_caches_def line_def nl_def dest!: dec_end ends)
  then have "max_inflight D = max_inflight D'" by (metis ucast_ucast_32)
  with c show ?thesis by simp
qed

lemma log_frontend_read:
  assumes "one_line_doubles X" "log_frontend X T @ u = log_frontend X T' @ v"
  shows "l1d_misses T = l1d_misses T' \<and> l1d_insns T = l1d_insns T' \<and> n_resteer_bubble T = n_resteer_bubble T'
    \<and> n_fq_full T = n_fq_full T' \<and> u = v"
proof -
  note ends = show_double_ends [OF assms(1), simplified]
  show ?thesis using assms(2) by (auto simp: log_frontend_def line_def nl_def dest!: dec_end ends split: prod.splits)
qed

lemma short_lists:
  "length xs = 2 \<Longrightarrow> length ys = 2 \<Longrightarrow> xs ! 0 = ys ! 0 \<Longrightarrow> xs ! 1 = ys ! 1 \<Longrightarrow> xs = ys"
  "length zs = 3 \<Longrightarrow> length ws = 3 \<Longrightarrow> zs ! 0 = ws ! 0 \<Longrightarrow> zs ! 1 = ws ! 1 \<Longrightarrow> zs ! 2 = ws ! 2 \<Longrightarrow> zs = ws"
  by (auto simp: list_eq_iff_nth_eq less_Suc_eq numeral_2_eq_2 numeral_3_eq_3)

lemma log_queues_read:
  assumes "log_queues T @ u = log_queues T' @ v" "stats_ok T" "stats_ok T'"
  shows "n_int_exec T = n_int_exec T' \<and> n_mem_exec T = n_mem_exec T' \<and> n_fp_exec T = n_fp_exec T' \<and> sched_full T = sched_full T'
    \<and> dq_empty T = dq_empty T' \<and> uq_full T = uq_full T' \<and> n_active T = n_active T' \<and> rob_full T = rob_full T' \<and> u = v"
proof -
  from assms(1) have r: "n_int_exec T ! 0 = n_int_exec T' ! 0" "n_int_exec T ! 1 = n_int_exec T' ! 1"
    "n_mem_exec T ! 0 = n_mem_exec T' ! 0" "n_mem_exec T ! 1 = n_mem_exec T' ! 1" "n_mem_exec T ! 2 = n_mem_exec T' ! 2"
    "n_fp_exec T ! 0 = n_fp_exec T' ! 0" "n_fp_exec T ! 1 = n_fp_exec T' ! 1"
    "sched_full T ! 0 = sched_full T' ! 0" "sched_full T ! 1 = sched_full T' ! 1" "sched_full T ! 2 = sched_full T' ! 2"
    "dq_empty T = dq_empty T'" "uq_full T = uq_full T'" "n_active T = n_active T'" "rob_full T = rob_full T'" "u = v"
    by (auto simp: log_queues_def line_def nl_def dest!: dec_end)
  note ok = assms(2,3) [unfolded stats_ok_def]
  have "n_int_exec T = n_int_exec T'" "n_fp_exec T = n_fp_exec T'" by (rule short_lists(1); use ok r in simp)+
  moreover have "n_mem_exec T = n_mem_exec T'" "sched_full T = sched_full T'" by (rule short_lists(2); use ok r in simp)+
  ultimately show ?thesis using r by simp
qed

subsection \<open>What the output says\<close>

text \<open>Texts made of lines: without a line end inside them, the text determines the lines.\<close>

definition unlines :: "string list \<Rightarrow> string" where
  "unlines ls = concat (map (\<lambda>l. l @ nl) ls)"

definition no_nl :: "string list \<Rightarrow> bool" where
  "no_nl ls \<longleftrightarrow> (\<forall>l \<in> set ls. CHR 0x0A \<notin> set l)"

lemma unlines_simps [simp]:
  "unlines [] = []" "unlines (l # ls) = line [l] @ unlines ls" "unlines (ls @ ms) = unlines ls @ unlines ms"
  by (simp_all add: unlines_def line_def)

lemma no_nl_simps [simp]:
  "no_nl []" "no_nl (l # ls) \<longleftrightarrow> CHR 0x0A \<notin> set l \<and> no_nl ls" "no_nl (ls @ ms) \<longleftrightarrow> no_nl ls \<and> no_nl ms"
  by (auto simp: no_nl_def)

lemma unlines_eq: "unlines ls = unlines ms \<Longrightarrow> no_nl ls \<Longrightarrow> no_nl ms \<Longrightarrow> ls = ms"
proof (induction ls arbitrary: ms)
  case Nil
  then show ?case by (cases ms) (simp_all add: line_def nl_def)
next
  case (Cons l ls)
  then obtain m ms' where ms: "ms = m # ms'" by (cases ms) (simp_all add: line_def nl_def)
  with Cons.prems have "l = m \<and> unlines ls = unlines ms'"
    using line_any [of l "unlines ls" m "unlines ms'"] by (simp add: line_def)
  with Cons ms show ?case by simp
qed

text \<open>Splitting a list of lines at the first one of a kind.\<close>

lemma split_at:
  assumes "xs @ zs = xs' @ zs'" "\<forall>x \<in> set xs. \<not> P x" "\<forall>x \<in> set xs'. \<not> P x" "zs \<noteq> []" "zs' \<noteq> []" "P (hd zs)" "P (hd zs')"
  shows "xs = xs'" "zs = zs'"
proof -
  have "takeWhile (\<lambda>x. \<not> P x) (xs @ zs) = xs" "takeWhile (\<lambda>x. \<not> P x) (xs' @ zs') = xs'"
    using assms(2-7) by (auto simp: takeWhile_append neq_Nil_conv)
  then show "xs = xs'" using assms(1) by simp
  then show "zs = zs'" using assms(1) by simp
qed

definition ends_with :: "string \<Rightarrow> string \<Rightarrow> bool" where
  "ends_with t l \<longleftrightarrow> take (length t) (rev l) = rev t"

definition restart_lines :: "double_io \<Rightarrow> (u32 \<times> u64) list \<Rightarrow> string list" where
  "restart_lines X ps =
     (let R = report_restarts ps; avg = weighted_sum X ps
      in (case median_restart R of None \<Rightarrow> [] | Some k \<Rightarrow> [dec_signed k @ '' median flush cycles''])
         @ (case min_max_restart R of None \<Rightarrow> [] | Some (mn, mx) \<Rightarrow>
              [show_double X avg @ '' cycles spent in pipeline flush'',
               dec (total_restart R) @ '' times pipeline was flushed'',
               show_double X (f64_div (fpu_io X) avg (of_uint64 X (total_restart R))) @ '' cycles to flush on avg'',
               dec_signed mn @ '' min cycles to flush'', dec_signed mx @ '' max cycles to flush'']))"

definition ds_restart_lines :: "double_io \<Rightarrow> (u32 \<times> u64) list \<Rightarrow> string list" where
  "ds_restart_lines X ps =
     (let R = report_restarts ps; avg = weighted_sum X ps
      in (case median_restart R of None \<Rightarrow> [] | Some k \<Rightarrow> [dec_signed k @ '' median delay slot flush cycles''])
         @ (case min_max_restart R of None \<Rightarrow> [] | Some (mn, mx) \<Rightarrow>
              [show_double X avg @ '' cycles spent waiting for delay slot in flush'',
               show_double X (f64_div (fpu_io X) avg (of_uint64 X (total_restart R))) @ '' cycles waiting on delay slot on avg'',
               dec_signed mn @ '' min cycles for delay slot'', dec_signed mx @ '' max cycles for delay slot'']))"

lemma restart_unlines:
  "log_restarts X ps = unlines (restart_lines X ps)" "log_ds_restarts X ps = unlines (ds_restart_lines X ps)"
  by (simp_all add: log_restarts_def restart_lines_def log_ds_restarts_def ds_restart_lines_def Let_def line_def
      split: option.splits prod.splits)

lemma dec_signed_no_nl: "CHR 0x0A \<notin> set (dec_signed x)"
  using digits_are_digits [of 10 "CHR 0x0A"] by (auto simp: dec_signed_def)

lemma restart_no_nl: "one_line_doubles X \<Longrightarrow> no_nl (restart_lines X ps)" "one_line_doubles X \<Longrightarrow> no_nl (ds_restart_lines X ps)"
  by (auto simp: restart_lines_def ds_restart_lines_def Let_def one_line_doubles_def dec_signed_no_nl digits_no_nl split: option.splits prod.splits)

text \<open>The lines about restarts, found by their ends.\<close>

definition find_lines :: "string \<Rightarrow> string list \<Rightarrow> string list" where
  "find_lines t ls = filter (ends_with t) ls"

lemma ends_with_append: "ends_with t (x @ u) \<longleftrightarrow> take (length t) (rev u @ rev x) = rev t"
  by (simp add: ends_with_def)

lemma find_lines_append [simp]: "find_lines t (ls @ ms) = find_lines t ls @ find_lines t ms"
  by (simp add: find_lines_def)

lemma restarts_found:
  "find_lines '' median flush cycles'' (restart_lines X ps)
    = (case median_restart (report_restarts ps) of None \<Rightarrow> [] | Some k \<Rightarrow> [dec_signed k @ '' median flush cycles''])"
  "find_lines '' times pipeline was flushed'' (restart_lines X ps) = (case min_max_restart (report_restarts ps) of None \<Rightarrow> []
      | Some _ \<Rightarrow> [dec (total_restart (report_restarts ps)) @ '' times pipeline was flushed''])"
  "find_lines '' min cycles to flush'' (restart_lines X ps) = (case min_max_restart (report_restarts ps) of None \<Rightarrow> []
      | Some m \<Rightarrow> [dec_signed (fst m) @ '' min cycles to flush''])"
  "find_lines '' max cycles to flush'' (restart_lines X ps) = (case min_max_restart (report_restarts ps) of None \<Rightarrow> []
      | Some m \<Rightarrow> [dec_signed (snd m) @ '' max cycles to flush''])"
  "find_lines '' median delay slot flush cycles'' (restart_lines X ps) = []"
  "find_lines '' min cycles for delay slot'' (restart_lines X ps) = []"
  "find_lines '' max cycles for delay slot'' (restart_lines X ps) = []"
  "find_lines '' cycles of pushout'' (restart_lines X ps) = []"
  by (simp_all add: find_lines_def restart_lines_def Let_def ends_with_append split: option.split prod.split)

lemma ds_restarts_found:
  "find_lines '' median delay slot flush cycles'' (ds_restart_lines X qs)
    = (case median_restart (report_restarts qs) of None \<Rightarrow> [] | Some k \<Rightarrow> [dec_signed k @ '' median delay slot flush cycles''])"
  "find_lines '' min cycles for delay slot'' (ds_restart_lines X qs) = (case min_max_restart (report_restarts qs) of None \<Rightarrow> []
      | Some m \<Rightarrow> [dec_signed (fst m) @ '' min cycles for delay slot''])"
  "find_lines '' max cycles for delay slot'' (ds_restart_lines X qs) = (case min_max_restart (report_restarts qs) of None \<Rightarrow> []
      | Some m \<Rightarrow> [dec_signed (snd m) @ '' max cycles for delay slot''])"
  "find_lines '' median flush cycles'' (ds_restart_lines X qs) = []" "find_lines '' times pipeline was flushed'' (ds_restart_lines X qs) = []"
  "find_lines '' min cycles to flush'' (ds_restart_lines X qs) = []" "find_lines '' max cycles to flush'' (ds_restart_lines X qs) = []"
  "find_lines '' cycles of pushout'' (ds_restart_lines X qs) = []"
  by (simp_all add: find_lines_def ds_restart_lines_def Let_def ends_with_append split: option.split prod.split)

lemma dec_eq [simp]: "dec x = dec y \<longleftrightarrow> x = y"
  by (metis dec_end sep_chars(1))

lemma dec_signed_eq [simp]: "dec_signed v = dec_signed w \<longleftrightarrow> v = w"
  by (metis dec_signed_end sep_chars(1))

text \<open>The numbers the log has of a histogram of restarts.\<close>

lemma restarts_read:
  assumes "restart_lines X ps @ ds_restart_lines X qs = restart_lines X ps' @ ds_restart_lines X qs'"
  shows "report_restarts ps = report_restarts ps'"
    "median_restart (report_restarts qs) = median_restart (report_restarts qs')"
    "min_max_restart (report_restarts qs) = min_max_restart (report_restarts qs')"
proof -
  have f: "find_lines t (restart_lines X ps @ ds_restart_lines X qs) = find_lines t (restart_lines X ps' @ ds_restart_lines X qs')" for t
    using assms by (rule arg_cong)
  note found = restarts_found ds_restarts_found
  have m: "median_restart (report_restarts ps) = median_restart (report_restarts ps')"
    "median_restart (report_restarts qs) = median_restart (report_restarts qs')"
    using f [of "'' median flush cycles''"] f [of "'' median delay slot flush cycles''"]
    by (simp_all add: found split: option.splits)
  show "median_restart (report_restarts qs) = median_restart (report_restarts qs')" by (rule m)
  have mm: "min_max_restart (report_restarts ps) = min_max_restart (report_restarts ps')"
    using f [of "'' min cycles to flush''"] f [of "'' max cycles to flush''"] unfolding find_lines_append found
    by (auto simp: prod_eq_iff split: option.splits)
  show "min_max_restart (report_restarts qs) = min_max_restart (report_restarts qs')"
    using f [of "'' min cycles for delay slot''"] f [of "'' max cycles for delay slot''"] unfolding find_lines_append found
    by (auto simp: prod_eq_iff split: option.splits)
  have "total_restart (report_restarts ps) = total_restart (report_restarts ps')"
  proof (cases "min_max_restart (report_restarts ps)")
    case None
    with mm show ?thesis by (auto simp: report_restarts_def split: if_splits)
  next
    case (Some m)
    with mm have "min_max_restart (report_restarts ps') = Some m" by simp
    with Some f [of "'' times pipeline was flushed''"] show ?thesis by (simp add: found)
  qed
  with m(1) mm show "report_restarts ps = report_restarts ps'" by simp
qed

subsection \<open>The end of the log\<close>

definition stall_text :: "top_stats \<Rightarrow> string list" where
  "stall_text T = map (\<lambda>(i, n). dec n @ '' '' @ l1d_stall_str ! i) (stall_lines (l1d_stall_reasons T))"

definition insn_text :: "(mipsInsn \<times> u64) list \<Rightarrow> string list" where
  "insn_text ps = map (\<lambda>(i, n). i @ '','' @ dec n) (fst (histo_lines ps))"

definition middle_text :: "double_io \<Rightarrow> top_stats \<Rightarrow> histograms \<Rightarrow> string list" where
  "middle_text X T H =
     [dec (total_pushout (pushout_entries H)) @ '' cycles of pushout'',
      ''avg int rdy insn = '' @ show_double X (histo_mean X (int_rdy_entries H)),
      ''median int rdy insn = '' @ dec_signed (histo_median 0 0 (int_rdy_entries H)),
      ''avg mem alloc to complete = '' @ show_double X (histo_mean X (mem_lat_entries H)),
      ''median mem alloc to complete = '' @ dec_signed (histo_median 0 0 (mem_lat_entries H)),
      ''avg non-mem alloc to complete = '' @ show_double X (histo_mean X (non_mem_lat_entries H)),
      ''median non-mem alloc to complete = '' @ dec_signed (histo_median 0 0 (non_mem_lat_entries H)),
      ''avg fp alloc to complete = '' @ show_double X (histo_mean X (fp_lat_entries H)),
      ''median fp alloc to complete = '' @ dec_signed (histo_median 0 0 (fp_lat_entries H)),
      ''l1d_reqs = '' @ dec (l1d_reqs T), ''l1d_acks = '' @ dec (l1d_acks T), ''l1d_stores = '' @ dec (l1d_stores T),
      ''l1d tput = '' @ show_double X (ratio X (l1d_acks T) (l1d_reqs T))]"

definition tail_lines :: "double_io \<Rightarrow> top_stats \<Rightarrow> histograms \<Rightarrow> string list" where
  "tail_lines X T H =
     (restart_lines X (restart_entries H) @ ds_restart_lines X (restart_ds_entries H)) @ middle_text X T H @ stall_text T
     @ insn_text (insn_entries H) @ [''total_histo = '' @ dec (snd (histo_lines (insn_entries H)))]"

lemma unlines_map: "unlines (map f xs) = concat (map (\<lambda>x. line [f x]) xs)"
  by (induction xs) simp_all

lemma log_text_tail:
  "log_text X C D T H = log_counts D @ log_rates X C D @ log_frontend X T @ log_queues T @ unlines (tail_lines X T H)"
proof -
  have "log_insns ps = unlines (insn_text ps @ [''total_histo = '' @ dec (snd (histo_lines ps))])" for ps
    by (simp add: log_insns_def insn_text_def unlines_map case_prod_unfold line_def)
  moreover have "log_l1d X T = unlines ([''l1d_reqs = '' @ dec (l1d_reqs T), ''l1d_acks = '' @ dec (l1d_acks T), ''l1d_stores = '' @ dec (l1d_stores T),
      ''l1d tput = '' @ show_double X (ratio X (l1d_acks T) (l1d_reqs T))] @ stall_text T)"
    by (simp add: log_l1d_def stall_text_def unlines_map case_prod_unfold line_def)
  ultimately show ?thesis
    by (simp add: log_text_def tail_lines_def middle_text_def restart_unlines log_latency_def line_def)
qed

text \<open>The names of the instructions: no comma, no line end, no digit at the start.\<close>

lemma insn_list_names:
  "i \<in> set INSN_LIST \<Longrightarrow> CHR '','' \<notin> set i \<and> CHR 0x0A \<notin> set i \<and> i \<noteq> [] \<and> \<not> is_digit (hd i)"
  by (auto simp: INSN_LIST_def is_digit_def)

lemma histo_lines_eq: "histo_lines ps = (filter (\<lambda>p. snd p \<noteq> 0) ps, sum_list (map snd (filter (\<lambda>p. snd p \<noteq> 0) ps)))"
proof -
  have "fold (\<lambda>p (lines, t). if snd p \<noteq> 0 then (lines @ [p], t + snd p) else (lines, t)) ps (ls, t)
      = (ls @ filter (\<lambda>p. snd p \<noteq> 0) ps, t + sum_list (map snd (filter (\<lambda>p. snd p \<noteq> 0) ps)))" for ls t
    by (induction ps arbitrary: ls t) (simp_all add: add.assoc)
  then show ?thesis by (simp add: histo_lines_def)
qed

lemma stall_strings:
  "length l1d_stall_str = 8" "distinct l1d_stall_str" "t \<in> set l1d_stall_str \<Longrightarrow> CHR 0x0A \<notin> set t"
  by (auto simp: l1d_stall_str_def)

lemma stall_lines_index: "(i, n) \<in> set (stall_lines r) \<Longrightarrow> 1 \<le> i \<and> i < 8"
  by (auto simp: stall_lines_def)

lemma stall_text_inj:
  assumes "stall_text T = stall_text T'"
  shows "stall_lines (l1d_stall_reasons T) = stall_lines (l1d_stall_reasons T')"
  using assms unfolding stall_text_def
proof (rule map_inj_on, intro inj_onI, clarify)
  fix i n j m
  assume ij: "(i, n) \<in> set (stall_lines (l1d_stall_reasons T)) \<union> set (stall_lines (l1d_stall_reasons T'))"
      "(j, m) \<in> set (stall_lines (l1d_stall_reasons T)) \<union> set (stall_lines (l1d_stall_reasons T'))"
    and e: "dec n @ '' '' @ l1d_stall_str ! i = dec m @ '' '' @ l1d_stall_str ! j"
  then have "n = m" "l1d_stall_str ! i = l1d_stall_str ! j"
    using dec_end [of n "CHR '' ''" "l1d_stall_str ! i" m "l1d_stall_str ! j"] by simp_all
  moreover have "i < 8" "j < 8" using ij stall_lines_index by blast+
  ultimately show "i = j \<and> n = m" using nth_eq_iff_index_eq [OF stall_strings(2)] stall_strings(1) by simp
qed

lemma stall_lines_reason:
  assumes "1 \<le> i" "i < 8"
  shows "r ! i = (case map_of (stall_lines r) i of None \<Rightarrow> 0 | Some n \<Rightarrow> n)"
proof -
  have "map_of (filter (\<lambda>(i, n). n \<noteq> 0) (map (\<lambda>i. (i, r ! i)) is)) i = (if i \<in> set is \<and> r ! i \<noteq> 0 then Some (r ! i) else None)" for "is"
    by (induction "is") auto
  then show ?thesis using assms by (simp add: stall_lines_def)
qed

lemma insn_text_inj:
  assumes "insn_text ps = insn_text qs" "fst ` set ps \<subseteq> set INSN_LIST" "fst ` set qs \<subseteq> set INSN_LIST"
  shows "histo_lines ps = histo_lines qs"
proof -
  have "fst (histo_lines ps) = fst (histo_lines qs)"
    using assms(1) unfolding insn_text_def
  proof (rule map_inj_on, intro inj_onI, clarify)
    fix i n j m
    assume ij: "(i, n) \<in> set (fst (histo_lines ps)) \<union> set (fst (histo_lines qs))"
        "(j, m) \<in> set (fst (histo_lines ps)) \<union> set (fst (histo_lines qs))"
      and e: "i @ '','' @ dec n = j @ '','' @ dec m"
    have "i \<in> set INSN_LIST" "j \<in> set INSN_LIST" using ij assms(2,3) by (auto simp: histo_lines_eq)
    then have "takeWhile (\<lambda>c. c \<noteq> CHR '','') (i @ '','' @ dec n) = i" "takeWhile (\<lambda>c. c \<noteq> CHR '','') (j @ '','' @ dec m) = j"
      using insn_list_names by (auto simp: takeWhile_append2 takeWhile_tail intro: takeWhile_append2)
    with e show "i = j \<and> n = m" by simp
  qed
  then show ?thesis by (simp add: histo_lines_eq)
qed

lemma tail_no_nl:
  assumes "one_line_doubles X" "fst ` set (insn_entries H) \<subseteq> set INSN_LIST"
  shows "no_nl (tail_lines X T H)"
proof -
  have "no_nl (stall_text T)"
    using stall_strings stall_lines_index by (fastforce simp: no_nl_def stall_text_def digits_no_nl)
  moreover have "no_nl (insn_text (insn_entries H))"
    using assms(2) insn_list_names by (fastforce simp: no_nl_def insn_text_def digits_no_nl histo_lines_eq)
  moreover have "no_nl (middle_text X T H)"
    using assms(1) by (simp add: middle_text_def one_line_doubles_def digits_no_nl dec_signed_no_nl)
  ultimately show ?thesis using restart_no_nl [OF assms(1)] by (simp add: tail_lines_def digits_no_nl)
qed

definition starts_with_digit :: "string \<Rightarrow> bool" where
  "starts_with_digit l \<longleftrightarrow> l \<noteq> [] \<and> is_digit (hd l)"

lemma dec_starts: "starts_with_digit (dec n @ x)"
proof -
  have "dec n \<noteq> []" by (simp add: dec_def) (subst digits.simps, simp)
  then have "hd (dec n) \<in> set (dec n)" "hd (dec n @ x) = hd (dec n)" by simp_all
  then show ?thesis using digits_are_digits [of 10 "hd (dec n)" "unat n"] \<open>dec n \<noteq> []\<close>
    by (simp add: starts_with_digit_def dec_def)
qed

lemma insn_text_starts:
  assumes "fst ` set ps \<subseteq> set INSN_LIST"
  shows "\<not> starts_with_digit (hd (insn_text ps @ [''total_histo = '' @ x]))"
proof (cases "insn_text ps")
  case Nil
  then show ?thesis by (simp add: starts_with_digit_def is_digit_def)
next
  case (Cons l ls)
  then have "l \<in> set (insn_text ps)" by simp
  then obtain i n where l: "l = i @ '','' @ dec n" "i \<in> set INSN_LIST" using assms by (auto simp: insn_text_def histo_lines_eq)
  then show ?thesis using insn_list_names [OF l(2)] by (simp add: Cons starts_with_digit_def)
qed

text \<open>The integers of the log: those of the loop, of the callbacks and of the histograms.\<close>

definition same_driver_counts :: "'w driver \<Rightarrow> 'w driver \<Rightarrow> bool" where
  "same_driver_counts D D' \<longleftrightarrow> n_mispredicts D = n_mispredicts D' \<and> cyc D = cyc D' \<and> insns_retired D = insns_retired D'
     \<and> n_checks D = n_checks D' \<and> max_inflight D = max_inflight D' \<and> n_iside_tlb_misses D = n_iside_tlb_misses D'
     \<and> n_dside_tlb_misses D = n_dside_tlb_misses D' \<and> n_flush_cycles D = n_flush_cycles D' \<and> n_loads D = n_loads D'
     \<and> n_stores D = n_stores D'"

definition same_stats :: "top_stats \<Rightarrow> top_stats \<Rightarrow> bool" where
  "same_stats T T' \<longleftrightarrow> l1d_misses T = l1d_misses T' \<and> l1d_insns T = l1d_insns T' \<and> n_resteer_bubble T = n_resteer_bubble T'
     \<and> n_fq_full T = n_fq_full T' \<and> n_int_exec T = n_int_exec T' \<and> n_mem_exec T = n_mem_exec T' \<and> n_fp_exec T = n_fp_exec T'
     \<and> sched_full T = sched_full T' \<and> dq_empty T = dq_empty T' \<and> uq_full T = uq_full T' \<and> n_active T = n_active T'
     \<and> rob_full T = rob_full T' \<and> l1d_reqs T = l1d_reqs T' \<and> l1d_acks T = l1d_acks T' \<and> l1d_stores T = l1d_stores T'
     \<and> (\<forall>i. 1 \<le> i \<and> i < 8 \<longrightarrow> l1d_stall_reasons T ! i = l1d_stall_reasons T' ! i)"

definition same_histograms :: "histograms \<Rightarrow> histograms \<Rightarrow> bool" where
  "same_histograms H H' \<longleftrightarrow> total_pushout (pushout_entries H) = total_pushout (pushout_entries H')
     \<and> report_restarts (restart_entries H) = report_restarts (restart_entries H')
     \<and> median_restart (report_restarts (restart_ds_entries H)) = median_restart (report_restarts (restart_ds_entries H'))
     \<and> min_max_restart (report_restarts (restart_ds_entries H)) = min_max_restart (report_restarts (restart_ds_entries H'))
     \<and> histo_median 0 0 (int_rdy_entries H) = histo_median 0 0 (int_rdy_entries H')
     \<and> histo_median 0 0 (mem_lat_entries H) = histo_median 0 0 (mem_lat_entries H')
     \<and> histo_median 0 0 (non_mem_lat_entries H) = histo_median 0 0 (non_mem_lat_entries H')
     \<and> histo_median 0 0 (fp_lat_entries H) = histo_median 0 0 (fp_lat_entries H')
     \<and> histo_lines (insn_entries H) = histo_lines (insn_entries H')"

text \<open>The keys of the histogram of instructions are instructions.\<close>

definition insn_keys :: "histograms \<Rightarrow> bool" where
  "insn_keys H \<longleftrightarrow> fst ` set (insn_entries H) \<subseteq> set INSN_LIST"

lemma tail_read:
  assumes "one_line_doubles X" "insn_keys H" "insn_keys H'" "unlines (tail_lines X T H) = unlines (tail_lines X T' H')"
  shows "same_histograms H H' \<and> l1d_reqs T = l1d_reqs T' \<and> l1d_acks T = l1d_acks T' \<and> l1d_stores T = l1d_stores T'
    \<and> (\<forall>i. 1 \<le> i \<and> i < 8 \<longrightarrow> l1d_stall_reasons T ! i = l1d_stall_reasons T' ! i)"
proof -
  note keys = assms(2,3) [unfolded insn_keys_def]
  let ?R = "\<lambda>H. restart_lines X (restart_entries H) @ ds_restart_lines X (restart_ds_entries H)"
  let ?I = "\<lambda>H. insn_text (insn_entries H) @ [''total_histo = '' @ dec (snd (histo_lines (insn_entries H)))]"
  let ?Z = "\<lambda>T H. middle_text X T H @ stall_text T @ ?I H"
  have eq: "?R H @ ?Z T H = ?R H' @ ?Z T' H'"
    using unlines_eq [OF assms(4) tail_no_nl [OF assms(1) keys(1)] tail_no_nl [OF assms(1) keys(2)]] by (simp add: tail_lines_def)
  have R: "\<forall>l \<in> set (?R H). \<not> ends_with '' cycles of pushout'' l" for H
    using restarts_found(8) [of X] ds_restarts_found(8) [of X] by (auto simp: find_lines_def filter_empty_conv)
  have Z: "?Z T H \<noteq> []" "ends_with '' cycles of pushout'' (hd (?Z T H))" for T H
    by (simp_all add: middle_text_def ends_with_append)
  note restarts = split_at(1) [OF eq R R Z(1) Z(1) Z(2) Z(2)] and rest = split_at(2) [OF eq R R Z(1) Z(1) Z(2) Z(2)]
  have m: "middle_text X T H = middle_text X T' H'" and i: "stall_text T @ ?I H = stall_text T' @ ?I H'"
    using rest by (simp_all add: append_eq_append_conv middle_text_def)
  have S: "\<forall>l \<in> set (stall_text T). \<not> \<not> starts_with_digit l" for T
    using dec_starts by (auto simp: stall_text_def)
  have ne: "?I H \<noteq> []" for H by simp
  note st = split_at(1) [OF i S S ne ne insn_text_starts [OF keys(1)] insn_text_starts [OF keys(2)]]
    and it = split_at(2) [OF i S S ne ne insn_text_starts [OF keys(1)] insn_text_starts [OF keys(2)]]
  have "insn_text (insn_entries H) = insn_text (insn_entries H')" using it by simp
  from insn_text_inj [OF this keys] have h: "histo_lines (insn_entries H) = histo_lines (insn_entries H')" .
  have "l1d_stall_reasons T ! i = l1d_stall_reasons T' ! i" if "1 \<le> i \<and> i < 8" for i
    using that stall_text_inj [OF st] stall_lines_reason [of i "l1d_stall_reasons T"] stall_lines_reason [of i "l1d_stall_reasons T'"] by simp
  with m h restarts_read [OF restarts] show ?thesis unfolding same_histograms_def by (simp add: middle_text_def)
qed

lemma log_text_read:
  assumes "one_line_doubles X" "stats_ok T" "stats_ok T'" "insn_keys H" "insn_keys H'" "log_text X C D T H = log_text X C' D' T' H'"
  shows "C = C' \<and> same_driver_counts D D' \<and> same_stats T T' \<and> same_histograms H H'"
proof -
  note c = log_counts_read [OF assms(6) [unfolded log_text_tail]]
  note r = log_rates_read [OF assms(1) conjunct2 [OF conjunct2 [OF conjunct2 [OF conjunct2 [OF c]]]]]
  then have f: "log_frontend X T @ log_queues T @ unlines (tail_lines X T H) = log_frontend X T' @ log_queues T' @ unlines (tail_lines X T' H')" by blast
  note f' = log_frontend_read [OF assms(1) f]
  then have q: "log_queues T @ unlines (tail_lines X T H) = log_queues T' @ unlines (tail_lines X T' H')" by blast
  note q' = log_queues_read [OF q assms(2,3)]
  then have "unlines (tail_lines X T H) = unlines (tail_lines X T' H')" by blast
  from tail_read [OF assms(1,4,5) this] c r f' q' show ?thesis unfolding same_driver_counts_def same_stats_def by simp
qed

text \<open>The lines about differing bytes, and the rest of the output of an incorrect run.\<close>

definition byte_line :: "memory \<Rightarrow> memory \<Rightarrow> u32 \<Rightarrow> string" where
  "byte_line m other a = ''byte '' @ digits 16 (unat a) @ '' differs '' @ hex_word (m a) @ '' vs '' @ hex_word (other a)"

lemma compare_text_lines:
  "compare_text m other = unlines (map (\<lambda>b. byte_line m other (of_nat b)) (filter (\<lambda>b. m (of_nat b) \<noteq> other (of_nat b)) [0..<sz]))"
proof -
  have "concat (map (\<lambda>b. let a = of_nat b :: u32 in
         if m a \<noteq> other a then line [''byte '', digits 16 b, '' differs '', hex_word (m a), '' vs '', hex_word (other a)] else []) bs)
      = unlines (map (\<lambda>b. byte_line m other (of_nat b)) (filter (\<lambda>b. m (of_nat b) \<noteq> other (of_nat b)) bs))"
    if "\<forall>b \<in> set bs. b < sz" for bs
    using that by (induction bs) (auto simp: Let_def byte_line_def line_def unsigned_of_nat take_bit_nat_eq_self sz_def)
  from this [of "[0..<sz]"] show ?thesis unfolding compare_text_def by simp
qed

lemma incorrect_output:
  fixes D :: "'w driver"
  assumes "one_line_doubles X"
  defines "m \<equiv> mem (rtl D)" and "other \<equiv> mem (sim D)"
  shows "\<exists>ls. compare_text m other @ line [''instructions retired = '', dec (insns_retired D)] @ took_text X t (insns_retired D) = unlines ls
    \<and> no_nl ls \<and> {l \<in> set ls. take 5 l = ''byte ''} = byte_line m other ` {a. m a \<noteq> other a}
    \<and> ''instructions retired = '' @ dec (insns_retired D) \<in> set ls"
proof -
  let ?bs = "filter (\<lambda>b. m (of_nat b) \<noteq> other (of_nat b)) [0..<sz]"
  define took where "took = ''simulation took '' @ show_double X t @ '' seconds, ''
    @ show_double X (f64_div (fpu_io X) (of_uint64 X (insns_retired D)) t) @ '' insns per second''"
  let ?ls = "map (\<lambda>b. byte_line m other (of_nat b)) ?bs @ [''instructions retired = '' @ dec (insns_retired D), took]"
  have hex: "CHR 0x0A \<notin> set (digits 16 n)" for n using digits_are_digits [of 16 "CHR 0x0A" n] by auto
  have nl: "no_nl ?ls"
    using assms(1) by (auto simp: no_nl_def byte_line_def took_def one_line_doubles_def digits_no_nl hex hex_word_def)
  have "\<exists>b < sz. a = of_nat b" for a :: u32
    by (rule exI [of _ "unat a"]) (use unsigned_less [of a] in \<open>simp add: sz_def\<close>)
  then have "(\<lambda>b. of_nat b :: u32) ` set ?bs = {a. m a \<noteq> other a}" by (fastforce simp: image_iff)
  from arg_cong [OF this, of "image (byte_line m other)"]
  have "set (map (\<lambda>b. byte_line m other (of_nat b)) ?bs) = byte_line m other ` {a. m a \<noteq> other a}"
    by (simp only: image_image set_map)
  moreover have "{l \<in> set ?ls. take 5 l = ''byte ''} = set (map (\<lambda>b. byte_line m other (of_nat b)) ?bs)"
    by (auto simp: byte_line_def took_def)
  ultimately have "{l \<in> set ?ls. take 5 l = ''byte ''} = byte_line m other ` {a. m a \<noteq> other a}" by (rule trans [rotated])
  moreover have "compare_text m other @ line [''instructions retired = '', dec (insns_retired D)] @ took_text X t (insns_retired D) = unlines ?ls"
    unfolding unlines_simps compare_text_lines [symmetric] by (simp add: took_text_def took_def line_def)
  ultimately show ?thesis using nl by (intro exI [of _ ?ls]) simp
qed

text \<open>
  C4. What a run leaves behind tells what happened.  A run that is \<open>incorrect\<close> writes no statistics, and its
  output is a text of lines in which those that start with \<open>byte\<close> are exactly one for each address at
  which the two memories differ, with the address and the two bytes; another line has the number of
  retired instructions.  Two correct runs that leave the same statistics log agree in every integer of
  it: the counters of the loop (with the largest number of instructions in flight), of the caches and of the
  processor's callbacks (with the requests, acknowledgements, stores and stall reasons of the data cache), the cycles of
  pushout, the median, least and largest length and, for the flushes, the number of restarts, the medians of the
  four latencies, and the histogram of instructions with its total.  Averages and rates, which are written as
  \<open>double\<close>, are only assumed to fit on a line.
\<close>

theorem final_output_tells:
  assumes "one_line_doubles X" "stats_ok T" "stats_ok T'" "insn_keys H" "insn_keys H'"
    and "main_end X C asm t D T H = Inr out" "main_end X C' asm' t' D' T' H' = Inr out'"
  shows "if incorrect D
    then log_file out = None \<and> branch_file out = None \<and> pushout_file out = None
      \<and> (\<exists>ls. cout out = unlines ls \<and> no_nl ls
          \<and> {l \<in> set ls. take 5 l = ''byte ''} = byte_line (mem (rtl D)) (mem (sim D)) ` {a. mem (rtl D) a \<noteq> mem (sim D) a}
          \<and> ''instructions retired = '' @ dec (insns_retired D) \<in> set ls)
    else log_file out \<noteq> None \<and> (log_file out = log_file out' \<longrightarrow>
      \<not> incorrect D' \<and> C = C' \<and> same_driver_counts D D' \<and> same_stats T T' \<and> same_histograms H H')"
proof (cases "incorrect D")
  case True
  then have "out = \<lparr>log_file = None, branch_file = None, pushout_file = None,
      cout = compare_text (mem (rtl D)) (mem (sim D)) @ line [''instructions retired = '', dec (insns_retired D)] @ took_text X t (insns_retired D)\<rparr>"
    using assms(6) by (simp add: main_end_def)
  with True incorrect_output [OF assms(1), of D t] show ?thesis by simp
next
  case False
  with assms(6) have o: "log_file out = Some (log_text X C D T H)" by (auto simp: main_end_def)
  have "\<not> incorrect D' \<and> log_file out' = Some (log_text X C' D' T' H')" if "log_file out = log_file out'"
    using assms(7) o that by (auto simp: main_end_def split: if_splits)
  with False o log_text_read [OF assms(1-5), of C D C' D'] show ?thesis by auto
qed

text \<open>Two runs without histograms that differ in the number of cache line loads.\<close>

definition sample_io :: double_io where
  "sample_io = \<lparr>fpu_io = sample_fpu, of_uint64 = \<lambda>x. x, show_double = \<lambda>_. ''0''\<rparr>"

definition no_histograms :: histograms where
  "no_histograms = \<lparr>mispredict_entries = [], pushout_entries = [], restart_entries = [], restart_ds_entries = [], retire_entries = [],
     int_rdy_entries = [], mem_lat_entries = [], non_mem_lat_entries = [], fp_lat_entries = [], insn_entries = []\<rparr>"

definition no_caches :: cache_ports where
  "no_caches = \<lparr>l1d_cache_hits = 0, l1d_cache_accesses = 0, l1d_cache_hits_under_miss = 0, l1i_cache_hits = 0, l1i_cache_accesses = 0\<rparr>"

theorem final_output_tells_witness:
  "\<exists>out out'. main_end sample_io no_caches (\<lambda>_ _. []) 0 sample_driver top_stats_init no_histograms = Inr out
     \<and> main_end sample_io no_caches (\<lambda>_ _. []) 0 (sample_driver\<lparr>n_loads := n_loads sample_driver + 1\<rparr>) top_stats_init no_histograms = Inr out'
     \<and> log_file out \<noteq> log_file out'"
proof -
  have c: "\<not> incorrect sample_driver" by (simp add: sample_driver_def)
  have d: "dump_histo asm [] s = Inr []" for asm and s :: "unit state_t" by (simp add: dump_histo_def sorted_by_cnt_def)
  obtain out where o: "main_end sample_io no_caches (\<lambda>_ _. []) 0 sample_driver top_stats_init no_histograms = Inr out"
    using c by (simp add: main_end_def no_histograms_def d)
  obtain out' where o': "main_end sample_io no_caches (\<lambda>_ _. []) 0 (sample_driver\<lparr>n_loads := n_loads sample_driver + 1\<rparr>) top_stats_init
      no_histograms = Inr out'"
    using c by (simp add: main_end_def no_histograms_def d)
  have "one_line_doubles sample_io" by (simp add: one_line_doubles_def sample_io_def)
  moreover have "insn_keys no_histograms" by (simp add: insn_keys_def no_histograms_def)
  ultimately have "log_file out \<noteq> log_file out'"
    using final_output_tells [OF _ stats_ok_init stats_ok_init _ _ o o'] c by (auto simp: same_driver_counts_def)
  with o o' show ?thesis by blast
qed

end
