(* ===== verification/Insn_Histo.thy ===== *)
theory Insn_Histo
  imports Report
begin

text \<open>
  The instruction histogram of \<open>src/interpret.cc\<close> (\<open>insn_histo\<close>, printed at the end of \<open>src/top.cc\<close>) against
  the instruction counter \<open>icnt\<close>.  Every instruction raises exactly one counter of the histogram, except
  the ones \<open>uncounted\<close> lists: conversions between floating point formats, conditional floating point
  moves, the comparison \<open>C.UN\<close>, coprocessor 1X and the prefetch.  The difference between the total of
  the histogram and the instruction counter is the \<open>ledger\<close>; each group of instructions has a lemma
  for what it posts there, and a control transfer adds what its delay slot does.
\<close>

subsection \<open>The ledger\<close>

definition histo_sum :: "'w state_t \<Rightarrow> u64" where
  "histo_sum s = (\<Sum>i \<in> set INSN_LIST. insn_histo s i)"

definition ledger :: "'w state_t \<Rightarrow> u64" where
  "ledger s = histo_sum s - icnt s"

text \<open>The names that the interpreter uses are in the list.\<close>

lemma insn_names [simp]:
  "''SLL'' \<in> set INSN_LIST" "''SRL'' \<in> set INSN_LIST" "''SRA'' \<in> set INSN_LIST" "''SLLV'' \<in> set INSN_LIST"
  "''SRLV'' \<in> set INSN_LIST" "''SRAV'' \<in> set INSN_LIST" "''JR'' \<in> set INSN_LIST" "''JALR'' \<in> set INSN_LIST"
  "''MFHI'' \<in> set INSN_LIST" "''MTHI'' \<in> set INSN_LIST" "''MULT'' \<in> set INSN_LIST" "''MULTU'' \<in> set INSN_LIST"
  "''DIV'' \<in> set INSN_LIST" "''DIVU'' \<in> set INSN_LIST" "''ADD'' \<in> set INSN_LIST" "''ADDU'' \<in> set INSN_LIST"
  "''SUBU'' \<in> set INSN_LIST" "''AND'' \<in> set INSN_LIST" "''OR'' \<in> set INSN_LIST" "''XOR'' \<in> set INSN_LIST"
  "''NOR'' \<in> set INSN_LIST" "''SLT'' \<in> set INSN_LIST" "''SLTU'' \<in> set INSN_LIST" "''MFLO'' \<in> set INSN_LIST"
  "''MTLO'' \<in> set INSN_LIST" "''BEQ'' \<in> set INSN_LIST" "''BNE'' \<in> set INSN_LIST" "''BLEZ'' \<in> set INSN_LIST"
  "''BGTZ'' \<in> set INSN_LIST" "''ADDI'' \<in> set INSN_LIST" "''ADDIU'' \<in> set INSN_LIST" "''SLTI'' \<in> set INSN_LIST"
  "''SLTIU'' \<in> set INSN_LIST" "''ANDI'' \<in> set INSN_LIST" "''ORI'' \<in> set INSN_LIST" "''XORI'' \<in> set INSN_LIST"
  "''LUI'' \<in> set INSN_LIST" "''J'' \<in> set INSN_LIST" "''JAL'' \<in> set INSN_LIST" "''MFC0'' \<in> set INSN_LIST"
  "''MTC0'' \<in> set INSN_LIST" "''MFC1'' \<in> set INSN_LIST" "''MTC1'' \<in> set INSN_LIST" "''LW'' \<in> set INSN_LIST"
  "''LB'' \<in> set INSN_LIST" "''LBU'' \<in> set INSN_LIST" "''LH'' \<in> set INSN_LIST" "''LHU'' \<in> set INSN_LIST"
  "''SB'' \<in> set INSN_LIST" "''SH'' \<in> set INSN_LIST" "''SW'' \<in> set INSN_LIST" "''BEQL'' \<in> set INSN_LIST"
  "''BNEL'' \<in> set INSN_LIST" "''BLTZ'' \<in> set INSN_LIST" "''BGEZ'' \<in> set INSN_LIST" "''BLTZL'' \<in> set INSN_LIST"
  "''BGEZL'' \<in> set INSN_LIST" "''BGTZL'' \<in> set INSN_LIST" "''BLEZL'' \<in> set INSN_LIST" "''MOVN'' \<in> set INSN_LIST"
  "''MOVZ'' \<in> set INSN_LIST" "''TEQ'' \<in> set INSN_LIST" "''EXT'' \<in> set INSN_LIST" "''INS'' \<in> set INSN_LIST"
  "''MADD'' \<in> set INSN_LIST" "''MADDU'' \<in> set INSN_LIST" "''MUL'' \<in> set INSN_LIST" "''MSUB'' \<in> set INSN_LIST"
  "''CLZ'' \<in> set INSN_LIST" "''LWL'' \<in> set INSN_LIST" "''LWR'' \<in> set INSN_LIST" "''SWL'' \<in> set INSN_LIST"
  "''SWR'' \<in> set INSN_LIST" "''SEB'' \<in> set INSN_LIST" "''SEH'' \<in> set INSN_LIST" "''BGEZAL'' \<in> set INSN_LIST"
  "''RDHWR'' \<in> set INSN_LIST" "''SC'' \<in> set INSN_LIST" "''SYNC'' \<in> set INSN_LIST" "''BREAK'' \<in> set INSN_LIST"
  "''SDC1'' \<in> set INSN_LIST" "''LDC1'' \<in> set INSN_LIST" "''SWC1'' \<in> set INSN_LIST" "''LWC1'' \<in> set INSN_LIST"
  "''SP_ABS'' \<in> set INSN_LIST" "''DP_ABS'' \<in> set INSN_LIST" "''SP_NEG'' \<in> set INSN_LIST" "''DP_NEG'' \<in> set INSN_LIST"
  "''SP_SQRT'' \<in> set INSN_LIST" "''DP_SQRT'' \<in> set INSN_LIST" "''SP_RSQRT'' \<in> set INSN_LIST" "''DP_RSQRT'' \<in> set INSN_LIST"
  "''SP_RECIP'' \<in> set INSN_LIST" "''DP_RECIP'' \<in> set INSN_LIST" "''SP_ADD'' \<in> set INSN_LIST" "''DP_ADD'' \<in> set INSN_LIST"
  "''SP_SUB'' \<in> set INSN_LIST" "''DP_SUB'' \<in> set INSN_LIST" "''SP_MUL'' \<in> set INSN_LIST" "''DP_MUL'' \<in> set INSN_LIST"
  "''SP_DIV'' \<in> set INSN_LIST" "''DP_DIV'' \<in> set INSN_LIST" "''SP_MOV'' \<in> set INSN_LIST" "''DP_MOV'' \<in> set INSN_LIST"
  "''BC1TL'' \<in> set INSN_LIST" "''BC1T'' \<in> set INSN_LIST" "''BC1FL'' \<in> set INSN_LIST" "''BC1F'' \<in> set INSN_LIST"
  "''SP_CMP_LT'' \<in> set INSN_LIST" "''DP_CMP_LT'' \<in> set INSN_LIST" "''SP_CMP_EQ'' \<in> set INSN_LIST" "''DP_CMP_EQ'' \<in> set INSN_LIST"
  "''SP_CMP_LE'' \<in> set INSN_LIST" "''DP_CMP_LE'' \<in> set INSN_LIST" "''TRUNC_DP_W'' \<in> set INSN_LIST" "''TRUNC_SP_W'' \<in> set INSN_LIST"
  "''MOVF'' \<in> set INSN_LIST" "''MOVT'' \<in> set INSN_LIST" "''DI'' \<in> set INSN_LIST" "''EI'' \<in> set INSN_LIST"
  "''WAIT'' \<in> set INSN_LIST" "''MONITOR'' \<in> set INSN_LIST" "''NOP'' \<in> set INSN_LIST"
  by (simp_all add: INSN_LIST_def)

lemma ledger_updates [simp]:
  "ledger (wr_gpr r v s) = ledger s" "ledger (pc_inc s) = ledger s" "ledger (s\<lparr>pc := a\<rparr>) = ledger s"
  "ledger (s\<lparr>lo := v\<rparr>) = ledger s" "ledger (s\<lparr>hi := v\<rparr>) = ledger s" "ledger (s\<lparr>mem := m\<rparr>) = ledger s"
  "ledger (s\<lparr>os := w\<rparr>) = ledger s" "ledger (s\<lparr>brk := b\<rparr>) = ledger s" "ledger (s\<lparr>cpr0 := c\<rparr>) = ledger s"
  "ledger (s\<lparr>cpr1 := c\<rparr>) = ledger s" "ledger (s\<lparr>fcr1 := c\<rparr>) = ledger s" "ledger (s\<lparr>cpr1_state := t\<rparr>) = ledger s"
  "ledger (s\<lparr>icnt := n\<rparr>) = ledger s + icnt s - n"
  by (simp_all add: ledger_def histo_sum_def wr_gpr_def pc_inc_def)

lemma ledger_histo_inc [simp]: "i \<in> set INSN_LIST \<Longrightarrow> ledger (histo_inc i s) = ledger s + 1"
proof -
  assume i: "i \<in> set INSN_LIST"
  have "insn_histo (histo_inc i s) j = insn_histo s j + (if j = i then 1 else 0)" for j by (simp add: histo_inc_def)
  with i show ?thesis by (simp add: ledger_def histo_sum_def sum.distrib)
qed

text \<open>What an instruction adds to the histogram beyond the instructions its delay slot counts.\<close>

abbreviation posts :: "u64 \<Rightarrow> 'w state_t \<Rightarrow> 'w state_t result \<Rightarrow> bool" where
  "posts c s \<equiv> on_ok (\<lambda>s'. ledger s' = ledger s + c)"

named_theorems posts_intros \<open>what an instruction adds to the histogram\<close>

lemmas posts_simps = Let_def on_ok_def definedE_def assertE_def bindE_def

lemma alu_posts [posts_intros]:
  "posts 1 s (execSpecial2 inst s)" "posts 1 s (execSpecial3 inst s)" "posts 1 s (exec_coproc0 inst s)"
  "posts 1 s (insn_div inst s)" "posts 1 s (insn_teq inst s)"
  by (auto simp: execSpecial2_def execSpecial3_def exec_coproc0_def alu_insn_defs posts_simps split: sum.splits if_splits)

lemma mem_posts [posts_intros]:
  "posts 1 s (insn_lw EL inst s)" "posts 1 s (insn_lh EL inst s)" "posts 1 s (insn_lb inst s)" "posts 1 s (insn_lbu inst s)"
  "posts 1 s (insn_lhu EL inst s)" "posts 1 s (insn_sw EL inst s)" "posts 1 s (insn_sc EL inst s)" "posts 1 s (insn_sh EL inst s)"
  "posts 1 s (insn_sb inst s)" "posts 1 s (insn_swl EL inst s)" "posts 1 s (insn_swr EL inst s)" "posts 1 s (insn_lwl EL inst s)"
  "posts 1 s (insn_lwr EL inst s)" "posts 1 s (insn_ldc1 EL inst s)" "posts 1 s (insn_sdc1 EL inst s)"
  "posts 1 s (insn_lwc1 EL inst s)" "posts 1 s (insn_swc1 EL inst s)" "posts 0 s (lxc1_w EL inst s)" "posts 0 s (lxc1_d EL inst s)"
  by (auto simp: mem_insn_defs posts_simps split: sum.splits if_splits)

lemma fp_value_names:
  "fp_value_s F op a b = Inr (v, h) \<Longrightarrow> h \<in> set INSN_LIST" "fp_value_d F op x y = Inr (w, h) \<Longrightarrow> h \<in> set INSN_LIST"
  by (cases op; auto)+

lemma fp_move_posts [posts_intros]:
  "posts 0 s (insn_fmovc inst s)" "posts 0 s (insn_fmovn inst s)" "posts 0 s (insn_fmovz inst s)"
  "posts 0 s (insn_cvts F inst s)" "posts 0 s (insn_cvtd F inst s)" "posts 1 s (insn_truncw F inst s)"
  by (auto simp: fp_insn_defs posts_simps split: sum.splits if_splits)

lemma fp_op_posts [posts_intros]: "posts 1 s (do_fp_op F op inst s)"
  by (auto simp: do_fp_op_def execFP_s_def execFP_d_def fp_insn_defs posts_simps dest: fp_value_names
      split: sum.splits if_splits prod.splits)

lemma fp_compare_posts [posts_intros]: "posts (if unat (inst AND 15) = COND_UN then 0 else 1) s (insn_c F inst s)"
  by (auto simp: insn_c_def fpCmp_s_def fpCmp_d_def fpCmp_body_def machine_consts fp_insn_defs posts_simps
      split: sum.splits if_splits)

lemma coproc1x_posts [posts_intros]: "posts 0 s (execCoproc1x EL F inst s)"
  by (auto simp: execCoproc1x_def c1xExec_s_def c1xExec_d_def lxc1_w_def lxc1_d_def fp_insn_defs posts_simps
      split: sum.splits if_splits)

subsection \<open>Monitor calls\<close>

lemma monitor_calls_same:
  "posts 0 s (mon_open H s)" "posts 0 s (mon_rdwr_read H fd n s)" "posts 0 s (mon_write H s)" "posts 0 s (mon_lseek H s)"
  "posts 0 s (mon_close H s)" "posts 0 s (mon_gettimeofday s)" "posts 0 s (mon_times s)" "posts 0 s (mon_getargs EL G s)"
  "posts 0 s (mon_getcwd H s)" "posts 0 s (mon_chdir H s)" "posts 0 s (mon_get_mem_info EL s)"
  unfolding monitor_defs Let_def
  by (intro on_ok_bindE_any on_ok_prod on_ok_if on_ok_simps(2) [THEN iffD2]; simp)+

lemma mon_read_same: "posts 0 s (mon_read H s)"
proof -
  have "posts 0 s (mon_rdwr_read H fd n (s\<lparr>os := w\<rparr>))" for fd n w using monitor_calls_same(2) [of "s\<lparr>os := w\<rparr>"] by simp
  then show ?thesis
    using monitor_calls_same(2) [of s]
    by (auto simp: mon_read_def coalesce_def Let_def split: option.splits
        intro!: on_ok_prod on_ok_bindE [where Q = "\<lambda>s'. ledger s' = ledger s"])
qed

lemma monitorBody_posts [posts_intros]: "posts 1 s (monitorBody EL G H inst s)"
proof -
  have "posts 0 s (monitor_call EL G H (monitor_reason inst) s)"
    unfolding monitor_call_def
    by (intro on_ok_if monitor_calls_same mon_read_same on_ok_simps(1) on_ok_simps(2) [THEN iffD2]) simp
  then show ?thesis unfolding monitorBody_def by (rule on_ok_bindE) simp
qed

subsection \<open>Dispatch\<close>

text \<open>The instructions that raise no counter.\<close>

definition uncounted :: "u32 \<Rightarrow> bool" where
  "uncounted inst \<longleftrightarrow> inst_opcode inst \<in> {0x13, 0x33}
     \<or> (inst_opcode inst = 0x11 \<and> inst_rs inst \<noteq> 0x8
         \<and> \<not> (inst AND (push_bit 11 1 - 1) = 0 \<and> (inst_rs inst = 0x0 \<or> inst_rs inst = 0x4))
         \<and> (inst_funct inst \<in> {0x11, 0x12, 0x13, 0x20, 0x21}
             \<or> (inst_funct inst div 16 = 3 \<and> unat (inst AND 15) = COND_UN)))"

text \<open>What a continuation posts when it executes the instruction at an address of a memory.\<close>

definition slot_posts :: "u64 set \<Rightarrow> memory \<Rightarrow> u32 \<Rightarrow> ('w state_t \<Rightarrow> 'w state_t result) \<Rightarrow> bool" where
  "slot_posts U m p k \<longleftrightarrow> (\<forall>t. mem t = m \<and> pc t = p \<longrightarrow> on_ok (\<lambda>t'. \<exists>u \<in> U. ledger t' + u = ledger t) (k t))"

lemma slot_postsD:
  "slot_posts U (mem s) p k \<Longrightarrow> mem t = mem s \<Longrightarrow> pc t = p \<Longrightarrow> k t = Inr t' \<Longrightarrow> \<exists>u \<in> U. ledger t' + u = ledger t"
  by (auto simp: slot_posts_def on_ok_def dest!: spec [of _ t])

lemma branch_case_names: "branch_case bt inst s = (l, t, r, h) \<Longrightarrow> h \<in> set INSN_LIST"
  by (cases bt) auto

lemma branch_posts:
  assumes "slot_posts U (mem s) (pc s + 4) k" "0 \<in> U"
  shows "on_ok (\<lambda>s'. \<exists>u \<in> U. ledger s' + u = ledger s + 1) (branch k bt inst s)"
proof -
  obtain l t r h where b: "branch_case bt inst s = (l, t, r, h)" by (metis prod_cases4)
  have h: "h \<in> set INSN_LIST" using b by (rule branch_case_names)
  have p: "pc (pc_inc (histo_inc h s)) = pc s + 4" by (simp add: pc_inc_def histo_inc_def)
  have k: "\<exists>u \<in> U. ledger t' + u = ledger s + 1" if "k (pc_inc (histo_inc h s)) = Inr t'" for t'
    using slot_postsD [OF assms(1) _ p that] h by simp
  with assms(2) b h show ?thesis
    by (auto simp: branch_def posts_simps split: sum.splits if_splits)
qed

lemma on_ok_if_cond: "(b \<Longrightarrow> on_ok P r) \<Longrightarrow> (\<not> b \<Longrightarrow> on_ok P r') \<Longrightarrow> on_ok P (if b then r else r')"
  by simp

lemma rtype_posts:
  assumes "inst_funct inst \<noteq> 0x08" "inst_funct inst \<noteq> 0x09"
  shows "posts 1 s (exec_rtype E k inst s)"
  unfolding exec_rtype_def Let_def
  by (intro on_ok_if_cond; simp add: assms posts_intros alu_insn_defs definedE_def Let_def)

lemma lowop_posts:
  "posts (if inst_funct inst \<in> {0x11, 0x12, 0x13, 0x20, 0x21} \<or> (inst_funct inst div 16 = 3 \<and> unat (inst AND 15) = COND_UN) then 0 else 1) s
    (exec_fp_lowop F inst s)"
proof (cases "inst_funct inst div 16 = 3")
  case True
  then have "inst_funct inst \<notin> {0x11, 0x12, 0x13, 0x20, 0x21}" by auto
  with True show ?thesis using fp_compare_posts [where inst = inst and s = s and F = F] by (simp add: exec_fp_lowop_def)
next
  case False
  then show ?thesis
    by (simp add: exec_fp_lowop_def Let_def insn_truncl_def posts_intros fp_move_posts [simplified])
qed

lemma coproc1_posts:
  "inst_opcode inst = 0x11 \<Longrightarrow> inst_rs inst \<noteq> 0x8 \<Longrightarrow> posts (if uncounted inst then 0 else 1) s (execCoproc1 E k inst s)"
  using lowop_posts [where inst = inst and s = s and F = "fpu_of E"]
  by (auto simp: execCoproc1_def uncounted_def insn_mfc1_def insn_mtc1_def Let_def)

lemma itype_posts:
  assumes "\<not> is_control inst"
  shows "posts (if inst_opcode inst = 0x33 then 0 else 1) s (exec_itype E k inst s)"
proof (cases "inst_opcode inst = 0x33")
  case False
  with assms show ?thesis
    unfolding exec_itype_def Let_def is_control_def
    by (intro on_ok_if_cond; simp add: posts_intros alu_insn_defs)
qed (simp add: exec_itype_def)

lemma exec_insn_posts:
  assumes "\<not> is_control inst"
  shows "posts (if uncounted inst then 0 else 1) s (exec_insn E k inst s)"
proof -
  let ?op = "inst_opcode inst"
  consider "?op = 0" | "?op = 0x11" | "?op = 0x13" | "?op \<in> {0x1c, 0x1f, 0x10, 0x12, 0x30, 0x38}"
    | "?op \<notin> {0, 0x11, 0x13, 0x1c, 0x1f, 0x10, 0x12, 0x30, 0x38}" by auto
  then show ?thesis
  proof cases
    case 1
    with assms have "posts 1 s (exec_rtype E k inst s)" by (intro rtype_posts) (auto simp: is_control_def)
    with 1 show ?thesis by (simp add: exec_insn_def uncounted_def)
  next
    case 2
    with assms coproc1_posts [of inst s E k] show ?thesis by (simp add: exec_insn_def is_control_def)
  next
    case 3
    with coproc1x_posts [of s] show ?thesis by (simp add: exec_insn_def uncounted_def)
  next
    case 4
    with alu_posts [of s] mem_posts [of s] show ?thesis by (auto simp: exec_insn_def uncounted_def)
  next
    case 5
    with assms itype_posts [OF assms, of s E k] show ?thesis
      by (auto simp: exec_insn_def uncounted_def opcode_jtype is_control_def Let_def)
  qed
qed

lemma exec_insn_control_posts:
  assumes "is_control inst" "slot_posts U (mem s) (pc s + 4) k" "0 \<in> U"
  shows "on_ok (\<lambda>s'. \<exists>u \<in> U. ledger s' + u = ledger s + 1) (exec_insn E k inst s)"
proof -
  note b = branch_posts [OF assms(2,3)]
  have k: "\<exists>u \<in> U. ledger t' + u = ledger t" if "k t = Inr t'" "mem t = mem s" "pc t = pc s + 4" for t t'
    by (rule slot_postsD [OF assms(2) that(2,3,1)])
  have j: "on_ok (\<lambda>s'. \<exists>u \<in> U. ledger s' + u = ledger s + 1) (insn_jr k inst s)"
    "on_ok (\<lambda>s'. \<exists>u \<in> U. ledger s' + u = ledger s + 1) (insn_jalr k inst s)"
    "on_ok (\<lambda>s'. \<exists>u \<in> U. ledger s' + u = ledger s + 1) (exec_jtype k inst s)"
    by (auto simp: insn_jr_def insn_jalr_def exec_jtype_def posts_simps algebra_simps split: sum.splits dest!: k)
  have "on_ok (\<lambda>s'. \<exists>u \<in> U. ledger s' + u = ledger s + 1) (bgez_bltz k inst s)"
    unfolding bgez_bltz_def Let_def by (intro on_ok_if b on_ok_simps(1))
  moreover have "on_ok (\<lambda>s'. \<exists>u \<in> U. ledger s' + u = ledger s + 1) (execCoproc1 E k inst s)" if "inst_rs inst = 8"
    using that b by (simp add: execCoproc1_def Let_def)
  moreover have "inst_opcode inst = 0 \<and> (inst_funct inst = 8 \<or> inst_funct inst = 9) \<or> inst_opcode inst = 0x01
    \<or> inst_opcode inst = 0x02 \<or> inst_opcode inst = 0x03 \<or> inst_opcode inst = 0x04 \<or> inst_opcode inst = 0x05
    \<or> inst_opcode inst = 0x06 \<or> inst_opcode inst = 0x07 \<or> inst_opcode inst = 0x14 \<or> inst_opcode inst = 0x15
    \<or> inst_opcode inst = 0x16 \<or> inst_opcode inst = 0x17 \<or> (inst_opcode inst = 0x11 \<and> inst_rs inst = 8)"
    using assms(1) by (simp add: is_control_def)
  ultimately show ?thesis
    using b j by (elim disjE conjE) (simp_all add: exec_insn_def exec_rtype_def exec_itype_def Let_def)
qed

subsection \<open>The histogram and the instruction counter\<close>

text \<open>
  The instruction at the program counter is counted, and when it is a control transfer, so is the one
  in its delay slot, down to the nesting that \<open>execMips\<close> follows.  No other word is looked at.
\<close>

primrec slots_counted :: "'w env \<Rightarrow> nat \<Rightarrow> 'w state_t \<Rightarrow> bool" where
  "slots_counted E 0 s \<longleftrightarrow> True"
| "slots_counted E (Suc d) s \<longleftrightarrow>
     (case fetch E s of
        Inl e \<Rightarrow> True
      | Inr inst \<Rightarrow> \<not> uncounted inst \<and> (if is_control inst then slots_counted E d (s\<lparr>pc := pc s + 4\<rparr>) else True))"

lemma execMips_posts: "slot_posts (if slots_counted E n s then {0} else {0, 1}) (mem s) (pc s) (execMips E n)"
proof (induction n arbitrary: s)
  case 0
  then show ?case by (simp add: slot_posts_def)
next
  case (Suc n)
  let ?U = "\<lambda>n s. if slots_counted E n s then {0} else {0, 1} :: u64 set"
  have "\<exists>u \<in> ?U (Suc n) s. ledger t' + u = ledger t"
    if m: "mem t = mem s" "pc t = pc s" and t': "execMips E (Suc n) t = Inr t'" for t t'
  proof -
    from t' obtain inst where i: "fetch E t = Inr inst"
      and x: "exec_insn E (execMips E n) inst (t\<lparr>icnt := icnt t + 1\<rparr>) = Inr t'" by auto
    have f: "fetch E s = Inr inst" using i m by (simp add: fetch_def)
    show ?thesis
    proof (cases "is_control inst")
      case True
      then have "\<not> uncounted inst" by (auto simp: is_control_def uncounted_def)
      then have U: "?U (Suc n) s = ?U n (s\<lparr>pc := pc s + 4\<rparr>)" using True f by simp
      have "slot_posts (?U n (s\<lparr>pc := pc s + 4\<rparr>)) (mem (t\<lparr>icnt := icnt t + 1\<rparr>)) (pc (t\<lparr>icnt := icnt t + 1\<rparr>) + 4) (execMips E n)"
        using Suc [of "s\<lparr>pc := pc s + 4\<rparr>"] m by simp
      from exec_insn_control_posts [OF True this, of E] x show ?thesis unfolding U by simp
    next
      case False
      with exec_insn_posts [OF False, of "t\<lparr>icnt := icnt t + 1\<rparr>" E "execMips E n"] x f show ?thesis
        by (cases "uncounted inst") simp_all
    qed
  qed
  then have "on_ok (\<lambda>t'. \<exists>u \<in> ?U (Suc n) s. ledger t' + u = ledger t) (execMips E (Suc n) t)" if "mem t = mem s" "pc t = pc s" for t
    using that unfolding on_ok_def by (cases "execMips E (Suc n) t") (simp_all del: execMips.simps slots_counted.simps)
  then show ?case unfolding slot_posts_def by blast
qed

lemma execMips_ledger:
  assumes "execMips E n s = Inr s'"
  shows "\<exists>u \<le> (1 :: nat). ledger s' + of_nat u = ledger s" "slots_counted E n s \<Longrightarrow> ledger s' = ledger s"
proof -
  note p = slot_postsD [OF execMips_posts refl refl assms]
  then show "\<exists>u \<le> (1 :: nat). ledger s' + of_nat u = ledger s"
    by (auto split: if_splits intro: exI [of _ 0] exI [of _ 1])
  show "slots_counted E n s \<Longrightarrow> ledger s' = ledger s" using p by simp
qed

lemma steps_ledger:
  assumes "steps (execMips E d) n s = Inr s'"
  shows "\<exists>u \<le> n. ledger s' + of_nat u = ledger s"
    "ok_along (execMips E d) (slots_counted E d) n s \<Longrightarrow> ledger s' = ledger s"
proof -
  show "\<exists>u \<le> n. ledger s' + of_nat u = ledger s"
    using assms
  proof (induction n arbitrary: s)
    case (Suc n)
    then obtain t where t: "execMips E d s = Inr t" "steps (execMips E d) n t = Inr s'" by auto
    obtain u v where "u \<le> n" "ledger s' + of_nat u = ledger t" "v \<le> 1" "ledger t + of_nat v = ledger s"
      using Suc.IH [OF t(2)] execMips_ledger(1) [OF t(1)] by blast
    then show ?case by (intro exI [of _ "u + v"]) (simp flip: add.assoc)
  qed simp
  show "ledger s' = ledger s" if "ok_along (execMips E d) (slots_counted E d) n s"
    using assms that
  proof (induction n arbitrary: s)
    case (Suc n)
    then obtain t where t: "execMips E d s = Inr t" "steps (execMips E d) n t = Inr s'" by auto
    with Suc execMips_ledger(2) [OF t(1)] show ?case by auto
  qed simp
qed

text \<open>The lines of the log and their total.\<close>

lemma histo_lines_total: "snd (histo_lines ps) = (\<Sum>p \<leftarrow> ps. snd p)"
proof -
  have "snd (fold (\<lambda>p (lines, t). if snd p \<noteq> 0 then (lines @ [p], t + snd p) else (lines, t)) ps (ls, t)) = t + (\<Sum>p \<leftarrow> ps. snd p)"
    for ls t by (induction ps arbitrary: ls t) (auto simp: add.assoc)
  then show ?thesis by (simp add: histo_lines_def)
qed

text \<open>
  C21. The instruction histogram accounts for the instructions executed: over \<open>n\<close> calls of \<open>execMips\<close> the
  total that the log reports for the histogram grows by as much as the instruction counter, delay
  slots included, less at most one for each call; and by exactly as much when neither the instruction
  at the program counter of a call nor one in its delay slot is one of those without a counter.
\<close>

theorem histogram_accounts:
  assumes "steps (execMips E d) n s = Inr s'" "distinct ks" "set ks = set INSN_LIST"
  shows "\<exists>u \<le> n. snd (histo_lines (map (\<lambda>i. (i, insn_histo s' i)) ks)) + of_nat u
      = snd (histo_lines (map (\<lambda>i. (i, insn_histo s i)) ks)) + (icnt s' - icnt s)
    \<and> (ok_along (execMips E d) (slots_counted E d) n s \<longrightarrow> u = 0)"
proof -
  have h: "snd (histo_lines (map (\<lambda>i. (i, insn_histo t i)) ks)) = ledger t + icnt t" for t :: "'a state_t"
    using assms(2,3) by (simp add: histo_lines_total ledger_def histo_sum_def comp_def sum_list_distinct_conv_sum_set)
  show ?thesis
  proof (cases "ok_along (execMips E d) (slots_counted E d) n s")
    case True
    with steps_ledger(2) [OF assms(1)] show ?thesis by (auto simp: h)
  next
    case False
    with steps_ledger(1) [OF assms(1)] show ?thesis by (auto simp: h algebra_simps)
  qed
qed

text \<open>A memory of zeros holds \<open>sll\<close> with no effect everywhere.\<close>

lemma sample_nops:
  assumes "mem t = mem sample_state"
  shows "slots_counted sample_env 1 t"
    "unat (pc t) + 4 \<le> sz \<Longrightarrow> \<exists>t'. execMips sample_env 1 t = Inr t' \<and> mem t' = mem t \<and> icnt t' = icnt t + 1 \<and> pc t' = pc t + 4"
proof -
  have z: "load_le 4 (\<lambda>_. 0) a = (0 :: u32)" for a by (simp add: load_le4 le4_def)
  have b: "fold (\<lambda>i. push_bit 8) xs (0 :: u32) = 0" for xs :: "nat list" by (induction xs) simp_all
  have f: "fetch sample_env t = definedE (unat (pc t) + 4 \<le> sz) (Inr 0)" if "mem t = mem sample_state" for t
    using that by (simp add: fetch_def sample_state_def state_t_new_def sparse_mem_new_def mem_get_def z bswap_def
        builtin_bswap_def sample_env_def definedE_def b)
  show "slots_counted sample_env 1 t"
    using f [OF assms] by (simp add: uncounted_def is_control_def inst_opcode_def inst_funct_def inst_rs_def definedE_def)
  show "\<exists>t'. execMips sample_env 1 t = Inr t' \<and> mem t' = mem t \<and> icnt t' = icnt t + 1 \<and> pc t' = pc t + 4"
    if "unat (pc t) + 4 \<le> sz"
    using f [OF assms] that by (simp add: exec_insn_def exec_rtype_def inst_opcode_def inst_funct_def insn_sll_def)
qed

theorem histogram_accounts_witness:
  "\<exists>s'. steps (execMips sample_env 1) 2 sample_state = Inr s'
     \<and> snd (histo_lines (map (\<lambda>i. (i, insn_histo s' i)) (remdups INSN_LIST)))
       = snd (histo_lines (map (\<lambda>i. (i, insn_histo sample_state i)) (remdups INSN_LIST))) + 2"
proof -
  have "pc sample_state = 0" by (simp add: sample_state_def state_t_new_def)
  then obtain s1 where s1: "execMips sample_env 1 sample_state = Inr s1" "mem s1 = mem sample_state"
      "icnt s1 = icnt sample_state + 1" "pc s1 = 4"
    using sample_nops(2) [OF refl] by (auto simp: sz_def)
  obtain s2 where s2: "execMips sample_env 1 s1 = Inr s2" "icnt s2 = icnt s1 + 1"
    using sample_nops(2) [OF s1(2)] s1(4) by (auto simp: sz_def)
  have r: "steps (execMips sample_env 1) 2 sample_state = Inr s2"
    "ok_along (execMips sample_env 1) (slots_counted sample_env 1) 2 sample_state"
    using s1(1) s2(1) sample_nops(1) [OF refl] sample_nops(1) [OF s1(2)] by (simp_all add: numeral_2_eq_2 del: execMips.simps)
  from histogram_accounts [OF r(1) distinct_remdups set_remdups] r s1(3) s2(2) show ?thesis by auto
qed

end
