(* ===== verification/Interp_Frame.thy ===== *)
theory Interp_Frame
  imports Insn_Histo
begin

text \<open>
  What an instruction of the 32 bit interpreter may write: the general registers its encoding names, HI and
  LO, the floating point registers with the condition codes.  \<open>writes\<close> reads this off the instruction
  word as the MIPS manual has it, with the link register 31 of the calls (the interpreter's JALR links in 31
  whatever the encoding says) and the result register 2 of a monitor call.  The theorem is that
  \<open>execMips\<close> writes nothing else, the delay slots included.
\<close>

datatype target = Gpr nat | HiLo | Fp

definition writes :: "u32 \<Rightarrow> target set" where
  "writes inst =
     (let opcode = inst_opcode inst; funct = inst_funct inst
      in if opcode = 0 then
           (if funct = 0x05 then {Gpr 2} else if funct = 0x09 then {Gpr 31}
            else if funct \<in> {0x08, 0x0C, 0x0D, 0x0f, 0x34} then {}
            else if funct \<in> {0x11, 0x13, 0x18, 0x19, 0x1A, 0x1B} then {HiLo}
            else {Gpr (inst_rd inst)})
         else if opcode = 0x01 then (if inst_rt inst = 17 then {Gpr 31} else {})
         else if opcode = 0x03 then {Gpr 31}
         else if opcode = 0x10 then (if inst_rs inst \<in> {0x0, 11} then {Gpr (inst_rt inst)} else {})
         else if opcode = 0x11 then
           (if inst_rs inst = 0x8 then {}
            else if inst_rs inst = 0x0 \<and> inst AND (push_bit 11 1 - 1) = 0 then {Gpr (inst_rt inst)} else {Fp})
         else if opcode = 0x1c then (if funct \<in> {0x2, 0x20} then {Gpr (inst_rd inst)} else {HiLo})
         else if opcode = 0x1f then (if funct = 32 then {Gpr (inst_rd inst)} else {Gpr (inst_rt inst)})
         else if opcode \<in> {0x13, 0x31, 0x35} then {Fp}
         else if opcode \<in> {0x08, 0x09, 0x0A, 0x0B, 0x0c, 0x0d, 0x0e, 0x0F, 0x20, 0x21, 0x22, 0x23, 0x24, 0x25, 0x26, 0x30, 0x38}
         then {Gpr (inst_rt inst)}
         else {})"

definition frame :: "target set \<Rightarrow> 'w state_t \<Rightarrow> 'w state_t \<Rightarrow> bool" where
  "frame X s s' \<longleftrightarrow> (\<forall>i. Gpr i \<notin> X \<longrightarrow> gpr s' ! i = gpr s ! i) \<and> (HiLo \<notin> X \<longrightarrow> hi s' = hi s \<and> lo s' = lo s)
     \<and> (Fp \<notin> X \<longrightarrow> cpr1 s' = cpr1 s \<and> fcr1 s' = fcr1 s)"

lemma frame_refl [simp]: "frame X s s"
  by (simp add: frame_def)

lemma frame_trans: "frame X s t \<Longrightarrow> frame Y t u \<Longrightarrow> frame (X \<union> Y) s u"
  by (auto simp: frame_def)

lemma frame_mono: "frame X s t \<Longrightarrow> X \<subseteq> Y \<Longrightarrow> frame Y s t"
  by (auto simp: frame_def)

lemma frame_updates [simp]:
  "frame X s (pc_inc t) = frame X s t" "frame X s (histo_inc h t) = frame X s t" "frame X s (t\<lparr>pc := p\<rparr>) = frame X s t"
  "frame X s (t\<lparr>mem := m\<rparr>) = frame X s t" "frame X s (t\<lparr>os := w\<rparr>) = frame X s t" "frame X s (t\<lparr>brk := b\<rparr>) = frame X s t"
  "frame X s (t\<lparr>icnt := n\<rparr>) = frame X s t" "frame X s (t\<lparr>cpr0 := c\<rparr>) = frame X s t" "frame X s (t\<lparr>cpr1_state := r\<rparr>) = frame X s t"
  by (simp_all add: frame_def pc_inc_def histo_inc_def)

lemma frame_writes [simp]:
  "Gpr r \<in> X \<Longrightarrow> frame X s t \<Longrightarrow> frame X s (wr_gpr r v t)"
  "HiLo \<in> X \<Longrightarrow> frame X s (t\<lparr>hi := x\<rparr>) = frame X s t" "HiLo \<in> X \<Longrightarrow> frame X s (t\<lparr>lo := x\<rparr>) = frame X s t"
  "Fp \<in> X \<Longrightarrow> frame X s (t\<lparr>cpr1 := c\<rparr>) = frame X s t" "Fp \<in> X \<Longrightarrow> frame X s (t\<lparr>fcr1 := c\<rparr>) = frame X s t"
proof -
  show "Gpr r \<in> X \<Longrightarrow> frame X s t \<Longrightarrow> frame X s (wr_gpr r v t)"
    unfolding frame_def wr_gpr_simps by (metis nth_list_update_neq)
qed (simp_all add: frame_def)

text \<open>An operation that returns keeps what is outside a set of targets.\<close>

abbreviation confined :: "target set \<Rightarrow> 'w state_t \<Rightarrow> 'w state_t result \<Rightarrow> bool" where
  "confined X s \<equiv> on_ok (frame X s)"

named_theorems confined_intros \<open>what an instruction may write\<close>

subsection \<open>Groups of instructions\<close>

lemma special_confined:
  "inst_opcode inst = 0x1c \<Longrightarrow> confined (writes inst) s (execSpecial2 inst s)"
  "inst_opcode inst = 0x1f \<Longrightarrow> confined (writes inst) s (execSpecial3 inst s)"
  "inst_opcode inst = 0x10 \<Longrightarrow> confined (writes inst) s (exec_coproc0 inst s)"
  by (auto simp: execSpecial2_def execSpecial3_def exec_coproc0_def alu_insn_defs posts_simps writes_def split: sum.splits if_splits)

lemma loads_confined [confined_intros]:
  "Gpr (inst_rt inst) \<in> X \<Longrightarrow> confined X s (insn_lw EL inst s)" "Gpr (inst_rt inst) \<in> X \<Longrightarrow> confined X s (insn_lh EL inst s)"
  "Gpr (inst_rt inst) \<in> X \<Longrightarrow> confined X s (insn_lb inst s)" "Gpr (inst_rt inst) \<in> X \<Longrightarrow> confined X s (insn_lbu inst s)"
  "Gpr (inst_rt inst) \<in> X \<Longrightarrow> confined X s (insn_lhu EL inst s)" "Gpr (inst_rt inst) \<in> X \<Longrightarrow> confined X s (insn_sc EL inst s)"
  "Gpr (inst_rt inst) \<in> X \<Longrightarrow> confined X s (insn_lwl EL inst s)" "Gpr (inst_rt inst) \<in> X \<Longrightarrow> confined X s (insn_lwr EL inst s)"
  "Fp \<in> X \<Longrightarrow> confined X s (insn_ldc1 EL inst s)" "Fp \<in> X \<Longrightarrow> confined X s (insn_lwc1 EL inst s)"
  "Fp \<in> X \<Longrightarrow> confined X s (lxc1_w EL inst s)" "Fp \<in> X \<Longrightarrow> confined X s (lxc1_d EL inst s)"
  by (auto simp: mem_insn_defs posts_simps split: sum.splits if_splits)

lemma stores_confined [confined_intros]:
  "confined X s (insn_sw EL inst s)" "confined X s (insn_sh EL inst s)" "confined X s (insn_sb inst s)" "confined X s (insn_swl EL inst s)"
  "confined X s (insn_swr EL inst s)" "confined X s (insn_sdc1 EL inst s)" "confined X s (insn_swc1 EL inst s)"
  by (auto simp: mem_insn_defs posts_simps split: sum.splits if_splits)

lemma fp_confined:
  assumes "Fp \<in> X"
  shows "confined X s (exec_fp_lowop F inst s)" "confined X s (execCoproc1x EL F inst s)"
proof -
  note defs = fp_insn_defs posts_simps
  have "confined X s (insn_c F inst s)" "confined X s (do_fp_op F op inst s)" for op
    using assms by (auto simp: insn_c_def fpCmp_s_def fpCmp_d_def fpCmp_body_def do_fp_op_def execFP_s_def execFP_d_def defs
        split: sum.splits if_splits prod.splits)
  moreover have "confined X s (insn_fmovc inst s)" "confined X s (insn_fmovn inst s)" "confined X s (insn_fmovz inst s)"
    "confined X s (insn_cvts F inst s)" "confined X s (insn_cvtd F inst s)" "confined X s (insn_truncw F inst s)"
    using assms by (auto simp: defs split: sum.splits if_splits)
  ultimately show "confined X s (exec_fp_lowop F inst s)"
    unfolding exec_fp_lowop_def insn_truncl_def Let_def by (intro on_ok_if on_ok_simps(1))
  show "confined X s (execCoproc1x EL F inst s)"
    using assms by (auto simp: execCoproc1x_def c1xExec_s_def c1xExec_d_def lxc1_w_def lxc1_d_def defs split: sum.splits if_splits)
qed

lemma monitor_confined: "Gpr 2 \<in> X \<Longrightarrow> wf_state s \<Longrightarrow> confined X s (monitorBody EL G H inst s)"
proof -
  assume X: "Gpr 2 \<in> X" and "wf_state s"
  have "gpr t ! i = gpr s ! i" if "\<forall>r. r \<noteq> 2 \<longrightarrow> gpr t ! r = gpr s ! r" "Gpr i \<notin> X" for t i
    using that X by (cases "i = 2") auto
  with \<open>wf_state s\<close> show ?thesis
    unfolding monitorBody_def by (intro on_ok_bindE [OF monitor_call_frame]) (auto simp: monitor_frame_def frame_def R_v0_def)
qed

subsection \<open>Dispatch\<close>

lemma rtype_confined:
  assumes "inst_opcode inst = 0" "inst_funct inst \<noteq> 0x08" "inst_funct inst \<noteq> 0x09" "wf_state s"
  shows "confined (writes inst) s (exec_rtype E k inst s)"
  unfolding exec_rtype_def Let_def
  by (intro on_ok_if_cond; simp add: assms monitor_confined writes_def alu_insn_defs definedE_def Let_def)

lemma coproc1_confined:
  assumes "inst_opcode inst = 0x11" "inst_rs inst \<noteq> 0x8"
  shows "confined (writes inst) s (execCoproc1 E k inst s)"
  using assms fp_confined(1) [of "writes inst" s "fpu_of E" inst]
  by (auto simp: execCoproc1_def insn_mfc1_def insn_mtc1_def writes_def Let_def)

lemma itype_confined:
  assumes "\<not> is_control inst" "inst_opcode inst \<notin> {0, 0x10, 0x11, 0x13, 0x1c, 0x1f}"
  shows "confined (writes inst) s (exec_itype E k inst s)"
  using assms unfolding exec_itype_def Let_def is_control_def
  by (intro on_ok_if_cond; simp add: confined_intros writes_def alu_insn_defs)

lemma exec_insn_confined:
  assumes "\<not> is_control inst" "wf_state s"
  shows "confined (writes inst) s (exec_insn E k inst s)"
proof -
  let ?op = "inst_opcode inst"
  consider "?op = 0" | "?op = 0x11" | "?op = 0x13" | "?op \<in> {0x1c, 0x1f, 0x10}" | "?op \<in> {0x12, 0x30, 0x38}"
    | "?op \<notin> {0, 0x11, 0x13, 0x1c, 0x1f, 0x10, 0x12, 0x30, 0x38}" by auto
  then show ?thesis
  proof cases
    case 1
    with assms have "confined (writes inst) s (exec_rtype E k inst s)" by (intro rtype_confined) (auto simp: is_control_def)
    with 1 show ?thesis by (simp add: exec_insn_def)
  next
    case 2
    with assms coproc1_confined [of inst s E k] show ?thesis by (simp add: exec_insn_def is_control_def)
  next
    case 3
    with fp_confined(2) [of "writes inst" s] show ?thesis by (simp add: exec_insn_def writes_def)
  next
    case 4
    with special_confined [of inst s] show ?thesis by (auto simp: exec_insn_def)
  next
    case 5
    then show ?thesis by (auto simp: exec_insn_def writes_def intro!: loads_confined)
  next
    case 6
    with assms itype_confined [OF assms(1), of s E k] show ?thesis
      by (auto simp: exec_insn_def opcode_jtype is_control_def Let_def)
  qed
qed

subsection \<open>Delay slots\<close>

definition slot_confined :: "target set \<Rightarrow> memory \<Rightarrow> u32 \<Rightarrow> ('w state_t \<Rightarrow> 'w state_t result) \<Rightarrow> bool" where
  "slot_confined X m p k \<longleftrightarrow> (\<forall>t. wf_state t \<and> mem t = m \<and> pc t = p \<longrightarrow> confined X t (k t))"

lemma slot_confinedD:
  assumes "slot_confined X (mem s) (pc s + 4) k" "wf_state t" "mem t = mem s" "pc t = pc s + 4" "k t = Inr t'" "frame Y s t"
  shows "frame (Y \<union> X) s t'"
proof -
  from assms(1-5) have "frame X t t'" by (auto simp: slot_confined_def on_ok_def dest!: spec [of _ t])
  with assms(6) show ?thesis by (rule frame_trans)
qed

lemma branch_confined:
  assumes "slot_confined X (mem s) (pc s + 4) k" "wf_state s"
  shows "confined ((if bt = bgezal then {Gpr 31} else {}) \<union> X) s (branch k bt inst s)"
proof -
  let ?Y = "(if bt = bgezal then {Gpr 31} else {}) \<union> X"
  obtain l t r h where b: "branch_case bt inst s = (l, t, r, h)" by (metis prod_cases4)
  then have r: "r \<Longrightarrow> bt = bgezal" by (cases bt) auto
  have wf: "wf_state (pc_inc (histo_inc h s))" using assms(2) by (simp add: wf_state_def)
  have f: "frame ?Y s t'" if "k (pc_inc (histo_inc h s)) = Inr t'" for t'
    by (rule frame_mono [OF slot_confinedD [OF assms(1) wf _ _ that, of "{}"]]) (auto simp: pc_inc_def)
  with b r show ?thesis by (auto simp: branch_def posts_simps split: sum.splits if_splits)
qed

lemma exec_insn_control_confined:
  assumes "is_control inst" "slot_confined X (mem s) (pc s + 4) k" "wf_state s"
  shows "confined (writes inst \<union> X) s (exec_insn E k inst s)"
proof -
  have b: "confined (writes inst \<union> X) s (branch k bt inst s)" if "bt = bgezal \<longrightarrow> Gpr 31 \<in> writes inst" for bt
  proof -
    have "(if bt = bgezal then {Gpr 31} else {}) \<union> X \<subseteq> writes inst \<union> X" using that by auto
    with branch_confined [OF assms(2,3), of bt inst] show ?thesis by (auto simp: on_ok_def split: sum.splits elim: frame_mono)
  qed
  have k: "frame (writes inst \<union> X) s t'"
    if "k t = Inr t'" "mem t = mem s" "pc t = pc s + 4" "wf_state t" "frame (writes inst) s t" for t t'
    by (rule slot_confinedD [OF assms(2) that(4,2,3,1,5)])
  have wf: "wf_state (pc_inc s)" "wf_state (pc_inc (wr_gpr 31 v s))" "wf_state (histo_inc h (pc_inc s))"
    "wf_state (histo_inc h (pc_inc (wr_gpr 31 v s)))" for v h using assms(3) by (simp_all add: wf_state_def pc_inc_def histo_inc_def wr_gpr_def)
  have j: "inst_opcode inst = 0 \<Longrightarrow> inst_funct inst = 8 \<Longrightarrow> confined (writes inst \<union> X) s (insn_jr k inst s)"
    "inst_opcode inst = 0 \<Longrightarrow> inst_funct inst = 9 \<Longrightarrow> confined (writes inst \<union> X) s (insn_jalr k inst s)"
    "inst_opcode inst = 2 \<or> inst_opcode inst = 3 \<Longrightarrow> confined (writes inst \<union> X) s (exec_jtype k inst s)"
    by (auto simp: insn_jr_def insn_jalr_def exec_jtype_def posts_simps writes_def wf split: sum.splits dest!: k)
  have z: "inst_opcode inst = 1 \<Longrightarrow> confined (writes inst \<union> X) s (bgez_bltz k inst s)"
    unfolding bgez_bltz_def Let_def by (intro on_ok_if_cond b on_ok_simps(1)) (simp_all add: writes_def)
  have c: "inst_rs inst = 8 \<Longrightarrow> confined (writes inst \<union> X) s (execCoproc1 E k inst s)"
    using b by (simp add: execCoproc1_def Let_def)
  have "inst_opcode inst = 0 \<and> (inst_funct inst = 8 \<or> inst_funct inst = 9) \<or> inst_opcode inst = 0x01
    \<or> inst_opcode inst = 0x02 \<or> inst_opcode inst = 0x03 \<or> inst_opcode inst = 0x04 \<or> inst_opcode inst = 0x05
    \<or> inst_opcode inst = 0x06 \<or> inst_opcode inst = 0x07 \<or> inst_opcode inst = 0x14 \<or> inst_opcode inst = 0x15
    \<or> inst_opcode inst = 0x16 \<or> inst_opcode inst = 0x17 \<or> (inst_opcode inst = 0x11 \<and> inst_rs inst = 8)"
    using assms(1) by (simp add: is_control_def)
  then show ?thesis
    using b j z c by (elim disjE conjE) (simp_all add: exec_insn_def exec_rtype_def exec_itype_def Let_def)
qed

text \<open>What the instruction at the program counter writes, with its delay slot.\<close>

primrec touched :: "'w env \<Rightarrow> nat \<Rightarrow> 'w state_t \<Rightarrow> target set" where
  "touched E 0 s = {}"
| "touched E (Suc d) s =
     (case fetch E s of
        Inl e \<Rightarrow> {}
      | Inr inst \<Rightarrow> writes inst \<union> (if is_control inst then touched E d (s\<lparr>pc := pc s + 4\<rparr>) else {}))"

lemma execMips_confined: "slot_confined (touched E d s) (mem s) (pc s) (execMips E d)"
proof (induction d arbitrary: s)
  case 0
  show ?case by (simp add: slot_confined_def)
next
  case (Suc d)
  have "frame (touched E (Suc d) s) t t'"
    if m: "wf_state t" "mem t = mem s" "pc t = pc s" and t': "execMips E (Suc d) t = Inr t'" for t t'
  proof -
    define t0 where "t0 = t\<lparr>icnt := icnt t + 1\<rparr>"
    have wf: "wf_state t0" using m(1) by (simp add: t0_def wf_state_def)
    from t' obtain inst where i: "fetch E t = Inr inst" and x: "exec_insn E (execMips E d) inst t0 = Inr t'"
      by (auto simp: t0_def)
    have f: "fetch E s = Inr inst" using i m by (simp add: fetch_def)
    have "frame (touched E (Suc d) s) t0 t'"
    proof (cases "is_control inst")
      case True
      have "slot_confined (touched E d (s\<lparr>pc := pc s + 4\<rparr>)) (mem t0) (pc t0 + 4) (execMips E d)"
        using Suc [of "s\<lparr>pc := pc s + 4\<rparr>"] m by (simp add: t0_def)
      from exec_insn_control_confined [OF True this wf, of E] x f True show ?thesis by simp
    next
      case False
      with exec_insn_confined [OF False wf, of E "execMips E d"] x f show ?thesis by simp
    qed
    then show ?thesis by (simp add: frame_def t0_def)
  qed
  then show ?case unfolding slot_confined_def by (auto simp: on_ok_def simp del: execMips.simps touched.simps split: sum.splits)
qed


text \<open>BEQ \<open>$0, $0\<close> with ADDIU \<open>$2, $2, 1\<close> in its delay slot.\<close>

lemma sample_touched: "touched sample_env (Suc (Suc 0)) (sample_prog 0x100) = {Gpr 2}"
  by (simp add: sample_fetch sample_classes) (simp add: writes_def inst_opcode_def inst_rt_def)

lemma sample_runs: "\<exists>s'. execMips sample_env (Suc (Suc 0)) (sample_prog 0x100) = Inr s'"
proof -
  have f: "fetch sample_env (sample_prog 0x100) = Inr 0x10000003" "fetch sample_env t = Inr 0x24420001"
    if "mem t = mem (sample_prog 0x104)" "pc t = 0x104" for t :: "unit state_t"
    using sample_fetch(1,2) that by (simp_all add: fetch_def)
  have i: "exec_insn sample_env k 0x24420001 t = Inr (insn_addiu 0x24420001 t)" for k t
    by (simp add: exec_insn_def exec_itype_def inst_opcode_def Let_def)
  have b: "exec_insn sample_env k 0x10000003 t = branch k beq 0x10000003 t" for k t
    by (simp add: exec_insn_def exec_itype_def inst_opcode_def Let_def)
  have m: "mem (sample_prog 0x100) = mem (sample_prog 0x104)" by (simp add: sample_prog_def)
  show ?thesis using m by (auto simp: f i b branch_def Let_def)
qed


end
