(* ===== verification/Paged_Mem.thy ===== *)
theory Paged_Mem
  imports Monitor "HOL-Library.AList"
begin

text \<open>
  The second version of the memory class that \<open>src/sparse_mem.hh\<close> and \<open>src/sparse_mem.cc\<close> keep under
  \<open>#if 0\<close>: guest pages of 4096 bytes that are allocated when they are first used.  The initial Linux
  stack of \<open>src/loadelf.cc\<close> is written for it.

  The model is at the level of host addresses.  \<open>heap\<close> holds the bytes of the host, \<open>allocations\<close> the
  blocks that were mapped with their sizes, and \<open>smem\<close> the host address of each guest page; 0 is the
  null pointer.  An access through a host pointer is undefined unless its bytes lie inside one
  block.  \<open>mmap\<close> is a parameter: given the blocks that exist and a size it returns the address of a new
  block, or -1; \<open>mmap_fresh\<close> states that a new block does not overlap the others.
\<close>

type_synonym mmap = "(u64 \<times> u64) list \<Rightarrow> u64 \<Rightarrow> u64"

record paged =
  heap :: "u64 \<Rightarrow> u8"
  allocations :: "(u64 \<times> u64) list"
  smem :: "(u64 \<times> u64) list"

definition pgsize :: u64 where "pgsize = 4096"

definition paged_new :: "(u64 \<Rightarrow> u8) \<Rightarrow> paged" where
  "paged_new h = \<lparr>heap = h, allocations = [], smem = []\<rparr>"

subsection \<open>Pages\<close>

definition map_block :: "mmap \<Rightarrow> u64 \<Rightarrow> paged \<Rightarrow> (u64 \<times> paged) result" where
  "map_block M n P =
     (let pg = M (allocations P) n
      in assertE (pg \<noteq> - 1)
        (Inr (pg, P\<lparr>allocations := AList.update pg n (allocations P),
                   heap := (\<lambda>a. if unat (a - pg) < unat n then 0 else heap P a)\<rparr>)))"

definition add_page :: "mmap \<Rightarrow> u64 \<Rightarrow> paged \<Rightarrow> (u64 \<times> paged) result" where
  "add_page M addr P =
     bindE (map_block M pgsize P) (\<lambda>(pg, P1).
     Inr (pg, P1\<lparr>smem := AList.update (addr div pgsize) pg (smem P1)\<rparr>))"

definition get_page :: "mmap \<Rightarrow> u64 \<Rightarrow> paged \<Rightarrow> (u64 \<times> paged) result" where
  "get_page M addr P =
     (case map_of (smem P) (addr div pgsize) of
        None \<Rightarrow> add_page M addr P
      | Some pg \<Rightarrow> Inr (pg, P))"

subsection \<open>Accesses\<close>

text \<open>The bytes from a host address on lie inside one block.\<close>

definition inside_block :: "paged \<Rightarrow> u64 \<Rightarrow> nat \<Rightarrow> bool" where
  "inside_block P p n \<longleftrightarrow> list_ex (\<lambda>(b, k). unat b \<le> unat p \<and> unat p + n \<le> unat b + unat k) (allocations P)"

text \<open>The value of \<open>n\<close> bytes from a host address on, and the heap after storing such a value.\<close>

definition host_load :: "nat \<Rightarrow> paged \<Rightarrow> u64 \<Rightarrow> 'a::len word" where
  "host_load n P p = load_le n (\<lambda>i. heap P (p + ucast i)) 0"

definition host_store :: "nat \<Rightarrow> u64 \<Rightarrow> 'a::len word \<Rightarrow> paged \<Rightarrow> paged" where
  "host_store n p v P =
     P\<lparr>heap := (\<lambda>a. if unat (a - p) < n then ucast (drop_bit (8 * unat (a - p)) v) else heap P a)\<rparr>"

definition paged_at :: "mmap \<Rightarrow> u64 \<Rightarrow> paged \<Rightarrow> (u64 \<times> paged) result" where
  "paged_at M addr P =
     bindE (get_page M addr P) (\<lambda>(m, P1). assertE (m \<noteq> 0) (Inr (m + addr mod pgsize, P1)))"

definition paged_ptr :: "mmap \<Rightarrow> u64 \<Rightarrow> paged \<Rightarrow> (u64 \<times> paged) result" where
  "paged_ptr M addr P = bindE (get_page M addr P) (\<lambda>(m, P1). Inr (m + addr mod pgsize, P1))"

definition paged_get :: "mmap \<Rightarrow> u64 \<Rightarrow> paged \<Rightarrow> ('a::len word \<times> paged) result" where
  "paged_get M byte_addr P =
     bindE (paged_ptr M byte_addr P) (\<lambda>(p, P1).
     definedE (inside_block P1 p (LENGTH('a) div 8)) (Inr (host_load (LENGTH('a) div 8) P1 p, P1)))"

definition paged_set :: "mmap \<Rightarrow> u64 \<Rightarrow> 'a::len word \<Rightarrow> paged \<Rightarrow> paged result" where
  "paged_set M byte_addr v P =
     bindE (paged_ptr M byte_addr P) (\<lambda>(p, P1).
     definedE (inside_block P1 p (LENGTH('a) div 8)) (Inr (host_store (LENGTH('a) div 8) p v P1)))"

text \<open>\<open>get32\<close> reads a \<open>uint64_t\<close> and truncates it.\<close>

definition get32 :: "mmap \<Rightarrow> u64 \<Rightarrow> paged \<Rightarrow> (u32 \<times> paged) result" where
  "get32 M byte_addr P = bindE (paged_get M byte_addr P) (\<lambda>(v :: u64, P1). Inr (ucast v, P1))"

definition set_byte_at :: "mmap \<Rightarrow> u64 \<Rightarrow> u8 \<Rightarrow> paged \<Rightarrow> paged result" where
  "set_byte_at M addr v P =
     bindE (paged_at M addr P) (\<lambda>(p, P1). definedE (inside_block P1 p 1) (Inr (host_store 1 p v P1)))"

definition page_count :: "paged \<Rightarrow> u64" where
  "page_count P = of_nat (length (smem P))"

definition paged_bytes_allocated :: "paged \<Rightarrow> u64" where
  "paged_bytes_allocated P = pgsize * page_count P"

definition paged_clear :: "paged \<Rightarrow> paged" where
  "paged_clear P = P\<lparr>allocations := [], smem := []\<rparr>"

text \<open>The loop over the pages is compiled out a second time.\<close>

definition paged_crc32 :: "paged \<Rightarrow> u32" where
  "paged_crc32 P = (let c = NOT 0 in c XOR NOT 0)"

subsection \<open>Ranges of pages\<close>

definition page_range :: "u64 \<Rightarrow> u64 \<Rightarrow> u64 list" where
  "page_range pstart pstop = map of_nat [unat pstart..<unat pstop]"

definition first_page :: "u64 \<Rightarrow> u64" where "first_page addr = addr div pgsize"

definition end_page :: "u64 \<Rightarrow> u64 \<Rightarrow> u64" where
  "end_page addr n = (let eaddr = addr + n in (eaddr + pgsize - 1) div pgsize)"

definition paged_prefault :: "mmap \<Rightarrow> u64 \<Rightarrow> u64 \<Rightarrow> paged \<Rightarrow> paged result" where
  "paged_prefault M addr alloc_size P =
     (let pstart = first_page addr; pstop = end_page addr alloc_size;
          any_present = list_ex (\<lambda>paddr. map_of (smem P) paddr \<noteq> None) (page_range pstart pstop)
      in if \<not> any_present then
           bindE (map_block M ((pstop - pstart) * pgsize) P) (\<lambda>(pg, P1).
           Inr (P1\<lparr>smem := fold (\<lambda>c. AList.update (pstart + of_nat c) (pg + of_nat c * pgsize))
                            [0..<unat pstop - unat pstart] (smem P1)\<rparr>))
         else
           foldE (\<lambda>paddr P1. if map_of (smem P1) paddr = None then bindE (add_page M (paddr * pgsize) P1) (\<lambda>(_, P2). Inr P2) else Inr P1)
             (page_range pstart pstop) P)"

text \<open>
  \<open>operator[]\<close> of \<open>std::map\<close> inserts a null pointer for a page that is absent.  The loop stops at the
  first page that does not follow its predecessor.
\<close>

definition smem_ref :: "u64 \<Rightarrow> (u64 \<times> u64) list \<Rightarrow> u64 \<times> (u64 \<times> u64) list" where
  "smem_ref paddr sm = (case map_of sm paddr of Some pg \<Rightarrow> (pg, sm) | None \<Rightarrow> (0, AList.update paddr 0 sm))"

primrec coalesce_loop :: "u64 list \<Rightarrow> (u64 \<times> u64) list \<Rightarrow> bool \<times> (u64 \<times> u64) list" where
  "coalesce_loop [] sm = (False, sm)"
| "coalesce_loop (paddr # ps) sm =
     (let (a, sm1) = smem_ref paddr sm; (b, sm2) = smem_ref (paddr - 1) sm1
      in if a \<noteq> b + pgsize then (True, sm2) else coalesce_loop ps sm2)"

definition paged_coalesce :: "u64 \<Rightarrow> u64 \<Rightarrow> paged \<Rightarrow> bool \<times> paged" where
  "paged_coalesce addr n P =
     (let (need_coalesce, sm) = coalesce_loop (page_range (first_page addr + 1) (end_page addr n)) (smem P)
      in (need_coalesce, P\<lparr>smem := sm\<rparr>))"

subsection \<open>Files\<close>

text \<open>
  \<open>per_page_rdwr\<close>.  Writing goes page by page; the fuel bounds the number of rounds.  \<open>acc\<close> is an \<open>int\<close>.
  Reading copies the bytes that were read from a buffer whose other bytes are not initialised.
\<close>

primrec write_pages :: "nat \<Rightarrow> mmap \<Rightarrow> 'w host_os \<Rightarrow> u32 \<Rightarrow> u64 \<Rightarrow> u64 \<Rightarrow> u32 \<Rightarrow> paged \<Rightarrow> 'w \<Rightarrow> (u32 \<times> paged \<times> 'w) result" where
  "write_pages 0 M H fd last_byte offset acc P w = Inl OutOfFuel"
| "write_pages (Suc n) M H fd last_byte offset acc P w =
     (if offset = last_byte then Inr (acc, P, w)
      else
        let next_page = min ((offset AND NOT (pgsize - 1)) + pgsize) last_byte; disp = next_page - offset
        in bindE (paged_prefault M offset pgsize P) (\<lambda>P1.
           bindE (paged_ptr M offset P1) (\<lambda>(p, P2).
           definedE (inside_block P2 p (unat disp))
             (case os_write H fd (map (\<lambda>i. heap P2 (p + of_nat i)) [0..<unat disp]) w of (rc, w1) \<Rightarrow>
                if rc = 0 then Inr (0, P2, w1)
                else write_pages n M H fd last_byte (offset + disp) (if 0 \<le>s rc then acc + rc else - 1) P2 w1))))"

definition paged_rdwr_write :: "nat \<Rightarrow> mmap \<Rightarrow> 'w host_os \<Rightarrow> u32 \<Rightarrow> u64 \<Rightarrow> u64 \<Rightarrow> paged \<Rightarrow> 'w \<Rightarrow> (u32 \<times> paged \<times> 'w) result" where
  "paged_rdwr_write fuel M H fd offset nbytes P w = write_pages fuel M H fd (offset + nbytes) offset 0 P w"

definition paged_rdwr_read :: "mmap \<Rightarrow> 'w host_os \<Rightarrow> u32 \<Rightarrow> u64 \<Rightarrow> u64 \<Rightarrow> paged \<Rightarrow> 'w \<Rightarrow> (u32 \<times> paged \<times> 'w) result" where
  "paged_rdwr_read M H fd offset nbytes P w =
     (case os_read H fd nbytes w of (bs, acc, w1) \<Rightarrow>
        definedE (sint acc \<le> int (length bs))
          (bindE (foldE (\<lambda>(i, b) P1. set_byte_at M (offset + of_nat i) b P1) (enumerate 0 (take (nat (sint acc)) bs)) P) (\<lambda>P1.
           Inr (acc, P1, w1))))"

subsection \<open>The guest's view\<close>

text \<open>The byte at a guest address: zero in a page that does not exist.\<close>

definition view :: "paged \<Rightarrow> u64 \<Rightarrow> u8" where
  "view P a = (case map_of (smem P) (a div pgsize) of None \<Rightarrow> 0 | Some pg \<Rightarrow> heap P (pg + a mod pgsize))"

text \<open>The part of the guest's memory that the flat class has.\<close>

definition flat_view :: "paged \<Rightarrow> memory" where
  "flat_view P = (\<lambda>a. view P (ucast a))"

text \<open>
  What the manual of \<open>mmap\<close> promises of a length, and of a block that is returned: a length of 0 is
  refused, and a new block overlaps no other.
\<close>

definition mmap_fresh :: "mmap \<Rightarrow> bool" where
  "mmap_fresh M \<longleftrightarrow> (\<forall>A n. M A n \<noteq> - 1 \<longrightarrow> n \<noteq> 0 \<and> M A n \<noteq> 0 \<and> unat (M A n) + unat n < 2 ^ 64
     \<and> (\<forall>(b, k) \<in> set A. unat (M A n) + unat n \<le> unat b \<or> unat b + unat k \<le> unat (M A n)))"

definition in_block :: "u64 \<Rightarrow> nat \<Rightarrow> u64 \<times> u64 \<Rightarrow> bool" where
  "in_block p n blk \<longleftrightarrow> unat (fst blk) \<le> unat p \<and> unat p + n \<le> unat (fst blk) + unat (snd blk)"

definition disjoint_pages :: "u64 \<Rightarrow> u64 \<Rightarrow> bool" where
  "disjoint_pages p q \<longleftrightarrow> unat p + 4096 \<le> unat q \<or> unat q + 4096 \<le> unat p"

definition paged_ok :: "paged \<Rightarrow> bool" where
  "paged_ok P \<longleftrightarrow> (\<forall>(b, k) \<in> set (allocations P). b \<noteq> 0 \<and> k \<noteq> 0 \<and> unat b + unat k < 2 ^ 64)
     \<and> (\<forall>p pg. map_of (smem P) p = Some pg \<longrightarrow> (\<exists>blk \<in> set (allocations P). in_block pg 4096 blk))
     \<and> (\<forall>p q pg qg. map_of (smem P) p = Some pg \<longrightarrow> map_of (smem P) q = Some qg \<longrightarrow> p \<noteq> q \<longrightarrow> disjoint_pages pg qg)"

lemma inside_block_iff: "inside_block P p n \<longleftrightarrow> (\<exists>blk \<in> set (allocations P). in_block p n blk)"
  by (simp add: inside_block_def in_block_def list_ex_iff case_prod_unfold)

lemma unat_page [simp]: "unat (a div pgsize) = unat a div 4096" "unat (a mod pgsize) = unat a mod 4096"
  by (simp_all add: pgsize_def unat_div_distrib unat_mod_distrib)

lemma unat_add_off: "unat p + n < 2 ^ 64 \<Longrightarrow> unat x = n \<Longrightarrow> unat (p + x) = unat p + n" for p x :: u64
  by (simp add: unat_word_ariths)

lemma in_range_iff: "unat p + n \<le> 2 ^ 64 \<Longrightarrow> unat (a - p) < n \<longleftrightarrow> unat p \<le> unat a \<and> unat a < unat p + n" for a p :: u64
  using unsigned_less [of a] by (auto simp: unat_sub_if')

lemma set_update_fresh: "k \<notin> fst ` set al \<Longrightarrow> set (AList.update k v al) = insert (k, v) (set al)"
  by (induction al) auto

lemma page_block:
  assumes "paged_ok P" "map_of (smem P) p = Some pg"
  shows "\<exists>blk \<in> set (allocations P). in_block pg 4096 blk" "0 < unat pg" "unat pg + 4096 < 2 ^ 64"
proof -
  from assms show b: "\<exists>blk \<in> set (allocations P). in_block pg 4096 blk" unfolding paged_ok_def by blast
  then obtain c k where c: "(c, k) \<in> set (allocations P)" "unat c \<le> unat pg" "unat pg + 4096 \<le> unat c + unat k"
    by (auto simp: in_block_def)
  with assms(1) have "c \<noteq> 0" "unat c + unat k < 2 ^ 64" by (auto simp: paged_ok_def)
  with c show "0 < unat pg" "unat pg + 4096 < 2 ^ 64" using unat_gt_0 [of c] by simp_all
qed

lemma map_block_ok:
  assumes "mmap_fresh M" "paged_ok P" "map_block M n P = Inr (pg, P1)"
  shows "paged_ok P1" "view P1 = view P" "smem P1 = smem P" "(pg, n) \<in> set (allocations P1)" "pg \<noteq> 0" "n \<noteq> 0" "unat pg + unat n < 2 ^ 64"
    "set (allocations P) \<subseteq> set (allocations P1)"
    "\<And>p qg. map_of (smem P) p = Some qg \<Longrightarrow> unat pg + unat n \<le> unat qg \<or> unat qg + 4096 \<le> unat pg"
    "\<And>a. unat pg \<le> unat a \<Longrightarrow> unat a < unat pg + unat n \<Longrightarrow> heap P1 a = 0"
proof -
  from assms(3) have M: "M (allocations P) n = pg" "pg \<noteq> - 1"
    and P1: "P1 = P\<lparr>allocations := AList.update pg n (allocations P), heap := (\<lambda>a. if unat (a - pg) < unat n then 0 else heap P a)\<rparr>"
    by (auto simp: map_block_def Let_def)
  with assms(1) have f: "n \<noteq> 0" "pg \<noteq> 0" "unat pg + unat n < 2 ^ 64"
    "\<And>b k. (b, k) \<in> set (allocations P) \<Longrightarrow> unat pg + unat n \<le> unat b \<or> unat b + unat k \<le> unat pg"
    unfolding mmap_fresh_def by fastforce+
  then show "pg \<noteq> 0" "n \<noteq> 0" "unat pg + unat n < 2 ^ 64" "smem P1 = smem P" by (simp_all add: P1)
  have "pg \<noteq> b" if "(b, k) \<in> set (allocations P)" for b k
    using f(1) f(4) [OF that] assms(2) that by (auto simp: paged_ok_def unat_eq_zero)
  then have s: "set (allocations P1) = insert (pg, n) (set (allocations P))" by (force simp: P1 intro!: set_update_fresh)
  then show "(pg, n) \<in> set (allocations P1)" "set (allocations P) \<subseteq> set (allocations P1)" by auto
  show "paged_ok P1"
    unfolding paged_ok_def
  proof (intro conjI)
    show "\<forall>(b, k) \<in> set (allocations P1). b \<noteq> 0 \<and> k \<noteq> 0 \<and> unat b + unat k < 2 ^ 64"
      using assms(2) f(1-3) unfolding s paged_ok_def by simp
    show "\<forall>p pg. map_of (smem P1) p = Some pg \<longrightarrow> (\<exists>blk \<in> set (allocations P1). in_block pg 4096 blk)"
      using assms(2) unfolding s paged_ok_def by (simp add: P1)
    show "\<forall>p q pg qg. map_of (smem P1) p = Some pg \<longrightarrow> map_of (smem P1) q = Some qg \<longrightarrow> p \<noteq> q \<longrightarrow> disjoint_pages pg qg"
      using assms(2) unfolding paged_ok_def by (simp add: P1)
  qed
  show d: "unat pg + unat n \<le> unat qg \<or> unat qg + 4096 \<le> unat pg" if "map_of (smem P) p = Some qg" for p qg
    using page_block(1) [OF assms(2) that] f(4) by (fastforce simp: in_block_def)
  show "view P1 = view P"
  proof
    fix a
    have "\<not> unat (qg + a mod pgsize - pg) < unat n" if q: "map_of (smem P) (a div pgsize) = Some qg" for qg
    proof -
      have "unat (qg + a mod pgsize) = unat qg + unat a mod 4096"
        using page_block(3) [OF assms(2) q] by (intro unat_add_off) simp_all
      then show ?thesis using d [OF q] f(3) by (subst in_range_iff) auto
    qed
    then show "view P1 a = view P a" by (auto simp: view_def P1 split: option.splits)
  qed
  show "heap P1 a = 0" if "unat pg \<le> unat a" "unat a < unat pg + unat n" for a
    using that f(3) in_range_iff [of pg "unat n" a] by (simp add: P1)
qed

lemma disjoint_pages_sym: "disjoint_pages p q \<longleftrightarrow> disjoint_pages q p"
  by (auto simp: disjoint_pages_def)

text \<open>A zeroed page outside all others may be entered for a guest page that does not exist.\<close>

lemma new_page_ok:
  assumes "paged_ok P" "map_of (smem P) p = None" "\<exists>blk \<in> set (allocations P). in_block q 4096 blk"
    and "\<And>p' qg. map_of (smem P) p' = Some qg \<Longrightarrow> disjoint_pages q qg"
    and "\<And>a. unat q \<le> unat a \<Longrightarrow> unat a < unat q + 4096 \<Longrightarrow> heap P a = 0"
  shows "paged_ok (P\<lparr>smem := AList.update p q (smem P)\<rparr>)" "view (P\<lparr>smem := AList.update p q (smem P)\<rparr>) = view P"
proof -
  have m: "map_of (AList.update p q (smem P)) = (map_of (smem P))(p \<mapsto> q)" by (rule update_conv')
  show ok: "paged_ok (P\<lparr>smem := AList.update p q (smem P)\<rparr>)"
    unfolding paged_ok_def
  proof (intro conjI)
    show "\<forall>(b, k) \<in> set (allocations (P\<lparr>smem := AList.update p q (smem P)\<rparr>)). b \<noteq> 0 \<and> k \<noteq> 0 \<and> unat b + unat k < 2 ^ 64"
      using assms(1) unfolding paged_ok_def by simp
    show "\<forall>p' pg. map_of (smem (P\<lparr>smem := AList.update p q (smem P)\<rparr>)) p' = Some pg \<longrightarrow>
        (\<exists>blk \<in> set (allocations (P\<lparr>smem := AList.update p q (smem P)\<rparr>)). in_block pg 4096 blk)"
      using assms(3) page_block(1) [OF assms(1)] by (simp add: m)
    show "\<forall>p' p'' pg qg. map_of (smem (P\<lparr>smem := AList.update p q (smem P)\<rparr>)) p' = Some pg \<longrightarrow>
        map_of (smem (P\<lparr>smem := AList.update p q (smem P)\<rparr>)) p'' = Some qg \<longrightarrow> p' \<noteq> p'' \<longrightarrow> disjoint_pages pg qg"
      using assms(1,4) disjoint_pages_sym unfolding paged_ok_def by (simp add: m)
  qed
  have "heap P (q + a mod pgsize) = 0" if "a div pgsize = p" for a
  proof (rule assms(5))
    have "unat q + 4096 < 2 ^ 64" using page_block(3) [OF ok, of p q] by (simp add: m)
    then have "unat (q + a mod pgsize) = unat q + unat a mod 4096" by (intro unat_add_off) simp_all
    then show "unat q \<le> unat (q + a mod pgsize)" "unat (q + a mod pgsize) < unat q + 4096" by simp_all
  qed
  then show "view (P\<lparr>smem := AList.update p q (smem P)\<rparr>) = view P"
    using assms(2) by (auto simp: view_def m fun_eq_iff split: option.splits)
qed

lemma add_page_ok:
  assumes "mmap_fresh M" "paged_ok P" "map_of (smem P) (addr div pgsize) = None" "add_page M addr P = Inr (pg, P1)"
  shows "paged_ok P1" "view P1 = view P" "map_of (smem P1) = (map_of (smem P))(addr div pgsize \<mapsto> pg)"
proof -
  from assms(4) obtain P0 where P0: "map_block M pgsize P = Inr (pg, P0)"
    and P1: "P1 = P0\<lparr>smem := AList.update (addr div pgsize) pg (smem P0)\<rparr>" by (auto simp: add_page_def)
  note b = map_block_ok [OF assms(1,2) P0]
  have n: "unat pgsize = 4096" by (simp add: pgsize_def)
  note new = new_page_ok [of P0 "addr div pgsize" pg]
  have k: "\<exists>blk \<in> set (allocations P0). in_block pg 4096 blk"
    by (rule bexI [of _ "(pg, pgsize)"]) (use b(4) n in \<open>simp_all add: in_block_def\<close>)
  have d: "disjoint_pages pg qg" if "map_of (smem P0) p' = Some qg" for p' qg
    using b(9) [of p' qg] that b(3) n by (auto simp: disjoint_pages_def)
  show "paged_ok P1" "view P1 = view P"
    using new [OF b(1) _ k d b(10)] assms(3) b(2,3) n by (simp_all add: P1)
  show "map_of (smem P1) = (map_of (smem P))(addr div pgsize \<mapsto> pg)" by (simp add: P1 b(3) update_conv')
qed

lemma get_page_ok:
  assumes "mmap_fresh M" "paged_ok P" "get_page M addr P = Inr (pg, P1)"
  shows "paged_ok P1" "view P1 = view P" "map_of (smem P1) (addr div pgsize) = Some pg"
  using assms add_page_ok [OF assms(1,2), of addr pg P1] by (auto simp: get_page_def split: option.splits)

text \<open>
  \<open>mmap\<close> provides \<open>k\<close> more pages, one after the other, and it provides those pages of a set that do not
  exist yet.
\<close>

primrec serves :: "mmap \<Rightarrow> nat \<Rightarrow> (u64 \<times> u64) list \<Rightarrow> bool" where
  "serves M 0 A = True"
| "serves M (Suc k) A = (M A pgsize \<noteq> - 1 \<and> serves M k (AList.update (M A pgsize) pgsize A))"

definition enough :: "mmap \<Rightarrow> u64 set \<Rightarrow> paged \<Rightarrow> bool" where
  "enough M S P \<longleftrightarrow> serves M (card (S - dom (map_of (smem P)))) (allocations P)"

lemma serves_mono: "serves M k A \<Longrightarrow> j \<le> k \<Longrightarrow> serves M j A"
proof (induction k arbitrary: j A)
  case (Suc k)
  then show ?case by (cases j) simp_all
qed simp

lemma serves_enough: "serves M k (allocations P) \<Longrightarrow> finite S \<Longrightarrow> card S \<le> k \<Longrightarrow> enough M S P"
  unfolding enough_def by (erule serves_mono) (meson card_mono Diff_subset order_trans)

text \<open>The only fault of \<open>get_page\<close> is that \<open>mmap\<close> does not provide the page.\<close>

lemma get_page_enough:
  assumes "finite S" "a div pgsize \<in> S"
  shows "get_page M a P = Inr (pg, P1) \<Longrightarrow> enough M S P1 \<longleftrightarrow> enough M S P" "get_page M a P = Inl e \<Longrightarrow> e = Assert \<and> \<not> enough M S P"
proof -
  let ?d = "dom (map_of (smem P))" and ?p = "a div pgsize"
  have c: "card (S - ?d) = Suc (card (S - insert ?p ?d))" if "?p \<notin> ?d"
  proof -
    have "S - ?d = insert ?p (S - insert ?p ?d)" using assms(2) that by blast
    then show ?thesis using assms(1) by (metis DiffD2 card_insert_disjoint finite_Diff insertI1)
  qed
  show "enough M S P1 \<longleftrightarrow> enough M S P" if g: "get_page M a P = Inr (pg, P1)"
  proof (cases "map_of (smem P) ?p")
    case None
    then show ?thesis
      using g c by (auto simp: get_page_def add_page_def map_block_def Let_def enough_def dom_if update_conv' domIff)
  qed (use g in \<open>simp add: get_page_def\<close>)
  show "e = Assert \<and> \<not> enough M S P" if g: "get_page M a P = Inl e"
  proof (cases "map_of (smem P) ?p")
    case None
    then show ?thesis using g c
      by (auto simp: get_page_def add_page_def map_block_def Let_def enough_def domIff assertE_def split: if_splits)
  qed (use g in \<open>simp add: get_page_def\<close>)
qed

subsection \<open>Accesses inside a page\<close>

definition within_page :: "nat \<Rightarrow> u64 \<Rightarrow> bool" where
  "within_page n a \<longleftrightarrow> unat a mod 4096 + n \<le> 4096"

lemma within_page_addr:
  fixes a :: u64
  assumes "unat a mod 4096 + i < 4096"
  shows "unat (a + of_nat i) = unat a + i" "(a + of_nat i) div pgsize = a div pgsize" "(a + of_nat i) mod pgsize = a mod pgsize + of_nat i"
proof -
  have "unat a div 4096 < 2 ^ 52" using unsigned_less [of a] by (simp add: div_less_iff_less_mult)
  moreover have "unat a + i < 4096 * (unat a div 4096) + 4096" using assms div_mult_mod_eq [of "unat a" 4096] by linarith
  ultimately have lt: "unat a + i < 2 ^ 64" by simp
  have "i < 2 ^ 64" using assms by simp
  then have i: "unat (of_nat i :: u64) = i" by (simp add: unsigned_of_nat take_bit_nat_eq_self)
  show ai: "unat (a + of_nat i) = unat a + i" using lt i by (rule unat_add_off)
  have split: "unat a + i = (unat a mod 4096 + i) + unat a div 4096 * 4096" using div_mult_mod_eq [of "unat a" 4096] by linarith
  have "(unat a + i) div 4096 = unat a div 4096" "(unat a + i) mod 4096 = unat a mod 4096 + i"
    by (subst split, subst div_mult_self1 mod_mult_self1, use assms in simp_all)+
  moreover have "unat (a mod pgsize + of_nat i) = unat a mod 4096 + i"
    using unat_add_off [of "a mod pgsize" i "of_nat i"] assms i by simp
  ultimately show "(a + of_nat i) div pgsize = a div pgsize" "(a + of_nat i) mod pgsize = a mod pgsize + of_nat i"
    by (simp_all add: word_unat_eq_iff ai)
qed

lemma view_within_page:
  assumes "map_of (smem P) (a div pgsize) = Some pg" "unat a mod 4096 + i < 4096"
  shows "view P (a + of_nat i) = heap P (pg + a mod pgsize + of_nat i)"
  using assms by (simp add: view_def within_page_addr add.assoc)

lemma paged_ptr_ok:
  assumes "mmap_fresh M" "paged_ok P" "paged_ptr M a P = Inr (p, P1)"
  obtains pg where "paged_ok P1" "view P1 = view P" "map_of (smem P1) (a div pgsize) = Some pg" "p = pg + a mod pgsize"
    "unat p = unat pg + unat a mod 4096" "unat pg + 4096 < 2 ^ 64" "\<And>n. within_page n a \<Longrightarrow> inside_block P1 p n"
proof -
  from assms(3) obtain pg where pg: "get_page M a P = Inr (pg, P1)" "p = pg + a mod pgsize" by (auto simp: paged_ptr_def)
  note g = get_page_ok [OF assms(1,2) pg(1)]
  note b = page_block [OF g(1,3)]
  have u: "unat p = unat pg + unat a mod 4096" unfolding pg(2) using b(3) by (intro unat_add_off) simp_all
  moreover have "inside_block P1 p n" if "within_page n a" for n
    unfolding inside_block_iff using b(1)
    by (elim bexE, intro bexI) (use that u in \<open>auto simp: in_block_def within_page_def\<close>)
  ultimately show thesis using that g pg(2) b(3) by blast
qed

lemma load_le_eq:
  assumes "8 * n \<le> LENGTH('a)" "\<And>i. i < n \<Longrightarrow> m (a + of_nat i) = m' (b + of_nat i)"
  shows "(load_le n m a :: 'a::len word) = load_le n m' b"
  by (rule bit_word_eqI) (use assms in \<open>auto simp: bit_load_le div_less_iff_less_mult ac_simps\<close>)

lemma ucast_add_of_nat: "unat a + i < sz \<Longrightarrow> (ucast (ucast a + of_nat i :: u32) :: u64) = a + of_nat i" for a :: u64
proof -
  assume i: "unat a + i < sz"
  then have "unat (ucast a :: u32) = unat a" by (intro unat_ucast_32) simp
  moreover have "i < 2 ^ 32" using i by (simp add: sz_def)
  ultimately show ?thesis using i
    by (simp add: word_unat_eq_iff unat_word_ariths sz_def unsigned_of_nat take_bit_nat_eq_self)
qed

lemma paged_get_flat:
  fixes v :: "'a::len word"
  assumes "mmap_fresh M" "paged_ok P" "paged_get M a P = Inr (v, P1)" "8 * n = LENGTH('a)" "n \<le> 8" "within_page n a" "unat a + n \<le> sz"
  shows "paged_ok P1 \<and> flat_view P1 = flat_view P \<and> mem_get (flat_view P) a = Inr v"
proof -
  have n: "LENGTH('a) div 8 = n" "0 < n" using assms(4) by (simp_all, cases n) simp_all
  from assms(3) obtain p where p: "paged_ptr M a P = Inr (p, P1)" "v = host_load n P1 p" by (auto simp: paged_get_def n)
  from paged_ptr_ok [OF assms(1,2) p(1)] obtain pg where ok: "paged_ok P1" "view P1 = view P"
    and pg: "map_of (smem P1) (a div pgsize) = Some pg" "p = pg + a mod pgsize" by metis
  have "v = load_le n (flat_view P1) (ucast a)"
    unfolding p(2) host_load_def
  proof (rule load_le_eq)
    fix i assume i: "i < n"
    then have "unat a mod 4096 + i < 4096" "unat a + i < sz" "i < 2 ^ 32" using assms(5-7) by (simp_all add: within_page_def)
    then show "heap P1 (p + ucast (0 + of_nat i :: u32)) = flat_view P1 (ucast a + of_nat i)"
      using view_within_page [OF pg(1)] pg(2)
      by (simp add: flat_view_def ucast_add_of_nat unsigned_of_nat take_bit_nat_eq_self)
  qed (use assms(4) in simp)
  moreover have "a < 0x100000000" using assms(7) n(2) by (simp add: less_2p32_iff)
  ultimately show ?thesis using ok assms(7) by (simp add: mem_get_def n(1) flat_view_def)
qed

lemma paged_ok_heap [simp]: "paged_ok (host_store n p v P) = paged_ok P"
  by (simp add: paged_ok_def host_store_def)

text \<open>A store inside a page changes the bytes it names and no others.\<close>

lemma host_store_view:
  assumes "paged_ok P" "map_of (smem P) (a div pgsize) = Some pg" "within_page n a" "unat a + n \<le> 2 ^ 64"
  shows "view (host_store n (pg + a mod pgsize) v P) x
    = (if unat (x - a) < n then ucast (drop_bit (8 * unat (x - a)) v) else view P x)"
proof (cases "map_of (smem P) (x div pgsize)")
  case None
  have "\<not> unat (x - a) < n"
  proof
    assume "unat (x - a) < n"
    moreover from this have "x = a + of_nat (unat (x - a))" "unat a mod 4096 + unat (x - a) < 4096"
      using assms(3) by (simp_all add: within_page_def)
    ultimately have "x div pgsize = a div pgsize" using within_page_addr(2) by metis
    with None assms(2) show False by simp
  qed
  with None show ?thesis by (simp add: view_def host_store_def)
next
  case (Some qg)
  note pb = page_block [OF assms(1,2)] and qb = page_block [OF assms(1) Some]
  define p q where "p = pg + a mod pgsize" and "q = qg + x mod pgsize"
  have up: "unat p = unat pg + unat a mod 4096" unfolding p_def using pb(3) by (intro unat_add_off) simp_all
  have uq: "unat q = unat qg + unat x mod 4096" unfolding q_def using qb(3) by (intro unat_add_off) simp_all
  have rp: "unat p + n \<le> 2 ^ 64" using up pb(3) assms(3) by (simp add: within_page_def)
  have v: "view (host_store n p v P) x = (if unat (q - p) < n then ucast (drop_bit (8 * unat (q - p)) v) else view P x)"
    by (simp add: view_def host_store_def Some q_def)
  show ?thesis
  proof (cases "x div pgsize = a div pgsize")
    case True
    then have "qg = pg" using Some assms(2) by simp
    moreover have "x - a = x mod pgsize - a mod pgsize"
      using True div_mult_mod_eq [of x pgsize] div_mult_mod_eq [of a pgsize] by (metis add_diff_cancel_left)
    ultimately show ?thesis using v by (simp add: p_def q_def)
  next
    case False
    then have "disjoint_pages pg qg" using assms(1,2) Some unfolding paged_ok_def by metis
    then have "\<not> unat (q - p) < n" using rp up uq assms(3) by (subst in_range_iff) (auto simp: disjoint_pages_def within_page_def)
    moreover have "\<not> unat (x - a) < n"
    proof
      assume "unat (x - a) < n"
      then have "unat a mod 4096 + unat (x - a) < 4096" using assms(3) by (simp add: within_page_def)
      from within_page_addr(2) [OF this] False show False by simp
    qed
    ultimately show ?thesis using v by (simp add: p_def)
  qed
qed

lemma paged_set_flat:
  fixes v :: "'a::len word"
  assumes "mmap_fresh M" "paged_ok P" "paged_set M a v P = Inr P1" "8 * n = LENGTH('a)" "n \<le> 8" "within_page n a" "unat a + n \<le> sz"
  shows "paged_ok P1 \<and> mem_set (flat_view P) a v = Inr (flat_view P1)"
proof -
  have n: "LENGTH('a) div 8 = n" "0 < n" using assms(4) by (simp_all, cases n) simp_all
  from assms(3) obtain p P0 where p: "paged_ptr M a P = Inr (p, P0)" "P1 = host_store n p v P0" by (auto simp: paged_set_def n)
  from paged_ptr_ok [OF assms(1,2) p(1)] obtain pg where ok: "paged_ok P0" "view P0 = view P"
    and pg: "map_of (smem P0) (a div pgsize) = Some pg" "p = pg + a mod pgsize" by metis
  have a: "unat a + n \<le> 2 ^ 64" "a < 0x100000000" using assms(7) n(2) by (simp_all add: sz_def less_2p32_iff)
  have "view P1 x = (if unat (x - a) < n then ucast (drop_bit (8 * unat (x - a)) v) else view P x)" for x
    unfolding p(2) pg(2) host_store_view [OF ok(1) pg(1) assms(6) a(1)] ok(2) ..
  moreover have "unat (x - ucast a) < n \<longleftrightarrow> unat (ucast x - a) < n"
    "unat (x - ucast a) < n \<Longrightarrow> unat (x - ucast a) = unat (ucast x - a)" for x :: u32
  proof -
    have ua: "unat (ucast a :: u32) = unat a" using assms(7) n(2) by (intro unat_ucast_32) simp
    have lx: "unat x < sz" by simp
    show "unat (x - ucast a) < n \<longleftrightarrow> unat (ucast x - a) < n"
      "unat (x - ucast a) < n \<Longrightarrow> unat (x - ucast a) = unat (ucast x - a)"
      using assms(5,7) ua lx by (auto simp: unat_sub_if' sz_def split: if_splits)
  qed
  moreover have "n \<le> sz" using assms(5) by (simp add: sz_def)
  ultimately have "flat_view P1 = store_le n (flat_view P) (ucast a) v"
    by (auto simp: flat_view_def store_le_byte fun_eq_iff)
  then show ?thesis using a(2) assms(7) ok(1) by (simp add: mem_set_def n(1) p(2))
qed

subsection \<open>Ranges\<close>

lemma unat_mult_pgsize: "unat x * 4096 < 2 ^ 64 \<Longrightarrow> unat (x * pgsize) = unat x * 4096"
  by (simp add: unat_word_ariths pgsize_def)

lemma enter_pages:
  fixes pstart pg :: u64
  assumes "paged_ok P" "(pg, n) \<in> set (allocations P)" "unat pg + unat n < 2 ^ 64" "4096 * N \<le> unat n" "unat pstart + N < 2 ^ 64"
    and "\<And>p qg. map_of (smem P) p = Some qg \<Longrightarrow> unat pg + unat n \<le> unat qg \<or> unat qg + 4096 \<le> unat pg"
    and "\<And>a. unat pg \<le> unat a \<Longrightarrow> unat a < unat pg + unat n \<Longrightarrow> heap P a = 0"
    and "\<And>c. c < N \<Longrightarrow> map_of (smem P) (pstart + of_nat c) = None" and "k \<le> N"
  defines "sm \<equiv> \<lambda>j. fold (\<lambda>c. AList.update (pstart + of_nat c) (pg + of_nat c * pgsize)) [0..<j] (smem P)"
  shows "paged_ok (P\<lparr>smem := sm k\<rparr>) \<and> view (P\<lparr>smem := sm k\<rparr>) = view P
    \<and> map_of (sm k) = (\<lambda>p. if unat (p - pstart) < k then Some (pg + (p - pstart) * pgsize) else map_of (smem P) p)"
  using \<open>k \<le> N\<close>
proof (induction k)
  case 0
  then show ?case using assms(1) by (simp add: sm_def)
next
  case (Suc k)
  define Q where "Q = P\<lparr>smem := sm k\<rparr>"
  from Suc have IH: "paged_ok Q" "view Q = view P"
    "map_of (sm k) = (\<lambda>p. if unat (p - pstart) < k then Some (pg + (p - pstart) * pgsize) else map_of (smem P) p)"
    and k: "k < N" by (simp_all add: Q_def)
  have "N < 2 ^ 64" using assms(5) by simp
  have c: "unat (of_nat i :: u64) = i" if "i \<le> k" for i
    using k \<open>N < 2 ^ 64\<close> that by (simp add: unsigned_of_nat take_bit_nat_eq_self)
  have off: "unat (x * pgsize) = 4096 * unat x" "unat (pg + x * pgsize) = unat pg + 4096 * unat x" if "unat x \<le> k" for x
  proof -
    have "4096 * unat x < 2 ^ 64" using that k assms(3,4) by linarith
    then show "unat (x * pgsize) = 4096 * unat x" by (simp add: unat_word_ariths pgsize_def mult.commute)
    then show "unat (pg + x * pgsize) = unat pg + 4096 * unat x" using that k assms(3,4) by (intro unat_add_off) linarith+
  qed
  define q where "q = pg + of_nat k * pgsize"
  have uq: "unat q = unat pg + 4096 * k" unfolding q_def using off(2) [of "of_nat k"] c [of k] by simp
  have end_q: "unat q + 4096 \<le> unat pg + unat n" using uq k assms(4) by linarith
  have new: "map_of (smem Q) (pstart + of_nat k) = None" using assms(8) [OF k] c [of k] by (simp add: Q_def IH(3))
  have blk: "\<exists>blk \<in> set (allocations Q). in_block q 4096 blk"
    by (rule bexI [of _ "(pg, n)"]) (use assms(2) uq end_q in \<open>simp_all add: in_block_def Q_def\<close>)
  have dis: "disjoint_pages q qg" if "map_of (smem Q) p' = Some qg" for p' qg
  proof (cases "unat (p' - pstart) < k")
    case True
    with that have "qg = pg + (p' - pstart) * pgsize" by (simp add: Q_def IH(3))
    with True off(2) [of "p' - pstart"] uq show ?thesis by (simp add: disjoint_pages_def)
  next
    case False
    with that have "map_of (smem P) p' = Some qg" by (simp add: Q_def IH(3))
    from assms(6) [OF this] uq end_q show ?thesis by (auto simp: disjoint_pages_def)
  qed
  have zero: "heap Q a = 0" if "unat q \<le> unat a" "unat a < unat q + 4096" for a
    using assms(7) [of a] that uq end_q by (simp add: Q_def)
  have sm: "sm (Suc k) = AList.update (pstart + of_nat k) q (smem Q)" by (simp add: sm_def Q_def q_def)
  note np = new_page_ok [OF IH(1) new blk dis zero]
  have "map_of (sm (Suc k)) = (\<lambda>p. if unat (p - pstart) < Suc k then Some (pg + (p - pstart) * pgsize) else map_of (smem P) p)"
  proof
    fix p
    have "p = pstart + of_nat k \<longleftrightarrow> p - pstart = of_nat k" by (simp add: diff_eq_eq add.commute)
    then have "p = pstart + of_nat k \<longleftrightarrow> unat (p - pstart) = k" unfolding word_unat_eq_iff [of "p - pstart"] c [OF order_refl] .
    then show "map_of (sm (Suc k)) p = (if unat (p - pstart) < Suc k then Some (pg + (p - pstart) * pgsize) else map_of (smem P) p)"
      unfolding sm by (auto simp: update_conv' Q_def IH(3) q_def less_Suc_eq)
  qed
  moreover have "P\<lparr>smem := sm (Suc k)\<rparr> = Q\<lparr>smem := AList.update (pstart + of_nat k) q (smem Q)\<rparr>" by (simp add: sm Q_def)
  ultimately show ?case using np IH(2) by simp
qed

lemma add_pages_ok:
  assumes "mmap_fresh M" "paged_ok P"
    and "foldE (\<lambda>paddr P1. if map_of (smem P1) paddr = None then bindE (add_page M (paddr * pgsize) P1) (\<lambda>(_, P2). Inr P2) else Inr P1)
      ps P = Inr P'"
    and "\<And>p. p \<in> set ps \<Longrightarrow> p * pgsize div pgsize = p"
  shows "paged_ok P' \<and> view P' = view P"
  using assms(3)
proof (rule foldE_invariant [where P = "\<lambda>P'. paged_ok P' \<and> view P' = view P"])
  show "paged_ok P \<and> view P = view P" using assms(2) by simp
next
  fix p Q Q'
  assume p: "p \<in> set ps" and Q: "paged_ok Q \<and> view Q = view P"
    and s: "(if map_of (smem Q) p = None then bindE (add_page M (p * pgsize) Q) (\<lambda>(_, P2). Inr P2) else Inr Q) = Inr Q'"
  show "paged_ok Q' \<and> view Q' = view P"
  proof (cases "map_of (smem Q) p")
    case None
    with s obtain pg where "add_page M (p * pgsize) Q = Inr (pg, Q')" by auto
    from add_page_ok(1,2) [OF assms(1) _ _ this] Q None assms(4) [OF p] show ?thesis by simp
  qed (use s Q in simp)
qed

lemma unat_pages:
  "unat (first_page a) = unat a div 4096" "unat (end_page a n) < 2 ^ 52"
  "p \<in> set (page_range (first_page a) (end_page a n)) \<Longrightarrow> p * pgsize div pgsize = p"
proof -
  show "unat (first_page a) = unat a div 4096" by (simp add: first_page_def)
  show e: "unat (end_page a n) < 2 ^ 52"
    using unsigned_less [of "a + n + pgsize - 1"] by (simp add: end_page_def Let_def div_less_iff_less_mult)
  assume "p \<in> set (page_range (first_page a) (end_page a n))"
  then obtain i where i: "p = of_nat i" "i < 2 ^ 52" using e by (auto simp: page_range_def)
  then have u: "unat p = i" by (simp add: unsigned_of_nat take_bit_nat_eq_self)
  have "unat (p * pgsize) = i * 4096" using i(2) u by (simp add: unat_word_ariths pgsize_def)
  then show "p * pgsize div pgsize = p" using u by (simp add: word_unat_eq_iff)
qed

text \<open>
  \<open>prefault\<close> keeps the invariant and the contents; when none of the pages existed, they are next to
  each other afterwards.
\<close>

lemma prefault_ok:
  assumes "mmap_fresh M" "paged_ok P" "paged_prefault M a n P = Inr P'"
  shows "paged_ok P'" "view P' = view P"
    "\<not> list_ex (\<lambda>p. map_of (smem P) p \<noteq> None) (page_range (first_page a) (end_page a n)) \<Longrightarrow>
       \<exists>pg k. (pg, k) \<in> set (allocations P') \<and> unat pg + 4096 * (unat (end_page a n) - unat (first_page a)) \<le> unat pg + unat k
         \<and> (\<forall>c < unat (end_page a n) - unat (first_page a). map_of (smem P') (first_page a + of_nat c) = Some (pg + of_nat c * pgsize))"
proof -
  let ?s = "first_page a" and ?e = "end_page a n"
  let ?N = "unat ?e - unat ?s"
  have "paged_ok P' \<and> view P' = view P \<and> (\<not> list_ex (\<lambda>p. map_of (smem P) p \<noteq> None) (page_range ?s ?e) \<longrightarrow>
      (\<exists>pg k. (pg, k) \<in> set (allocations P') \<and> unat pg + 4096 * ?N \<le> unat pg + unat k
         \<and> (\<forall>c < ?N. map_of (smem P') (?s + of_nat c) = Some (pg + of_nat c * pgsize))))"
  proof (cases "list_ex (\<lambda>p. map_of (smem P) p \<noteq> None) (page_range ?s ?e)")
    case True
    with assms(3) have "foldE (\<lambda>paddr P1. if map_of (smem P1) paddr = None then bindE (add_page M (paddr * pgsize) P1) (\<lambda>(_, P2). Inr P2)
        else Inr P1) (page_range ?s ?e) P = Inr P'" by (simp add: paged_prefault_def)
    from add_pages_ok [OF assms(1,2) this unat_pages(3)] True show ?thesis by simp
  next
    case False
    with assms(3) obtain pg P1 where P1: "map_block M ((?e - ?s) * pgsize) P = Inr (pg, P1)"
      and P': "P' = P1\<lparr>smem := fold (\<lambda>c. AList.update (?s + of_nat c) (pg + of_nat c * pgsize)) [0..<?N] (smem P1)\<rparr>"
      by (auto simp: paged_prefault_def Let_def)
    note b = map_block_ok [OF assms(1,2) P1]
    have N: "4096 * ?N \<le> unat ((?e - ?s) * pgsize)"
    proof (cases "unat ?s \<le> unat ?e")
      case True
      then have "unat (?e - ?s) = ?N" by (simp add: unat_sub_if')
      moreover have "?N * 4096 < 2 ^ 64" using unat_pages(2) [of a n] by simp
      ultimately show ?thesis by (simp only: unat_mult_pgsize)
    qed simp
    have new: "map_of (smem P1) (?s + of_nat c) = None" if "c < ?N" for c
    proof -
      from that have "?s + of_nat c \<in> set (page_range ?s ?e)"
        unfolding page_range_def set_map by (intro image_eqI [of _ _ "unat ?s + c"]) simp_all
      with False show ?thesis by (auto simp: list_ex_iff b(3))
    qed
    have sN: "unat ?s + ?N < 2 ^ 64" using unat_pages(2) [of a n] unsigned_less [of ?s] by (cases "unat ?s \<le> unat ?e") simp_all
    have d: "unat pg + unat ((?e - ?s) * pgsize) \<le> unat qg \<or> unat qg + 4096 \<le> unat pg" if "map_of (smem P1) p = Some qg" for p qg
      using b(9) [of p qg] that by (simp add: b(3))
    have "smem P' = fold (\<lambda>c. AList.update (?s + of_nat c) (pg + of_nat c * pgsize)) [0..<?N] (smem P1)" by (simp add: P')
    then have e: "paged_ok P' \<and> view P' = view P1 \<and> map_of (smem P') =
        (\<lambda>p. if unat (p - ?s) < ?N then Some (pg + (p - ?s) * pgsize) else map_of (smem P1) p)"
      unfolding P' by simp (rule enter_pages [OF b(1,4,7) N sN _ b(10) new order_refl], rule d)
    have "map_of (smem P') (?s + of_nat c) = Some (pg + of_nat c * pgsize)" if "c < ?N" for c
    proof -
      have "unat (of_nat c :: u64) = c" using that unat_pages(2) [of a n] by (simp add: unsigned_of_nat take_bit_nat_eq_self)
      with that e show ?thesis by simp
    qed
    moreover have "allocations P' = allocations P1" by (simp add: P')
    ultimately have "(pg, (?e - ?s) * pgsize) \<in> set (allocations P') \<and> unat pg + 4096 * ?N \<le> unat pg + unat ((?e - ?s) * pgsize)
        \<and> (\<forall>c < ?N. map_of (smem P') (?s + of_nat c) = Some (pg + of_nat c * pgsize))" using b(4) N by simp
    with e b(2) show ?thesis by auto
  qed
  then show "paged_ok P'" "view P' = view P"
    "\<not> list_ex (\<lambda>p. map_of (smem P) p \<noteq> None) (page_range ?s ?e) \<Longrightarrow>
       \<exists>pg k. (pg, k) \<in> set (allocations P') \<and> unat pg + 4096 * ?N \<le> unat pg + unat k
         \<and> (\<forall>c < ?N. map_of (smem P') (?s + of_nat c) = Some (pg + of_nat c * pgsize))" by blast+
qed

subsection \<open>Writing to a file\<close>

lemma page_start: "unat (a AND NOT (pgsize - 1)) = 4096 * (unat a div 4096)" for a :: u64
proof -
  have m: "pgsize - 1 = mask 12" by (simp add: pgsize_def mask_eq_exp_minus_1)
  have "a AND NOT (mask 12) = push_bit 12 (drop_bit 12 a)"
    by (rule bit_word_eqI) (auto simp: bit_simps simp del: mask_numeral)
  moreover have "unat a < 2 ^ LENGTH(64)" by (rule unsigned_less)
  then have "4096 * (unat a div 4096) < 2 ^ 64" using times_div_less_eq_dividend [of 4096 "unat a"] by simp
  ultimately show ?thesis
    unfolding m by (simp add: push_bit_eq_mult drop_bit_eq_div unat_word_ariths unat_div_distrib mult.commute)
qed

lemma next_chunk:
  fixes offset lb :: u64
  assumes "unat offset < unat lb" "unat lb + 4096 < 2 ^ 64"
  defines "disp \<equiv> min ((offset AND NOT (pgsize - 1)) + pgsize) lb - offset"
  shows "0 < unat disp" "unat disp \<le> unat lb - unat offset" "unat offset mod 4096 + unat disp \<le> 4096"
    "unat (offset + disp) = unat offset + unat disp"
    "unat offset mod 4096 + unat disp = 4096 \<or> offset + disp = lb"
proof -
  have "4096 * (unat offset div 4096) + 4096 < 2 ^ 64" using assms(1,2) div_mult_mod_eq [of "unat offset" 4096] by linarith
  then have "unat ((offset AND NOT (pgsize - 1)) + pgsize) = 4096 * (unat offset div 4096) + 4096"
    using unat_add_off [of "offset AND NOT (pgsize - 1)" 4096 pgsize] unfolding page_start by (simp add: pgsize_def)
  then have m: "unat (min ((offset AND NOT (pgsize - 1)) + pgsize) lb) = min (4096 * (unat offset div 4096) + 4096) (unat lb)"
    by (simp add: min_def word_le_nat_alt)
  have o: "unat offset = 4096 * (unat offset div 4096) + unat offset mod 4096" "unat offset mod 4096 < 4096" by simp_all
  then have "unat offset < min (4096 * (unat offset div 4096) + 4096) (unat lb)" using assms(1) by linarith
  then have d: "unat disp = min (4096 * (unat offset div 4096) + 4096) (unat lb) - unat offset"
    unfolding disp_def m [symmetric] by (simp add: unat_sub_if')
  with o assms(1) show "0 < unat disp" "unat disp \<le> unat lb - unat offset" "unat offset mod 4096 + unat disp \<le> 4096" by linarith+
  then show a: "unat (offset + disp) = unat offset + unat disp" using assms(1,2) by (intro unat_add_off) linarith+
  show "unat offset mod 4096 + unat disp = 4096 \<or> offset + disp = lb"
    unfolding word_unat_eq_iff a using d o assms(1) by linarith
qed

text \<open>
  As long as the host accepts at least one byte of each chunk, \<open>per_page_rdwr<true>\<close> hands it the bytes of
  the guest's range in order, cut at the page boundaries, and leaves the contents of the memory alone.
\<close>

lemma write_pages_writes:
  assumes "mmap_fresh M" "\<And>bs w. 0 <s fst (os_write H fd bs w)" "unat lb + 4096 < 2 ^ 64"
    and "paged_ok P" "unat offset \<le> unat lb" "write_pages fuel M H fd lb offset acc P w = Inr (acc', P', w')"
  shows "paged_ok P' \<and> view P' = view P \<and> (\<exists>chunks. concat chunks = map (\<lambda>i. view P (offset + of_nat i)) [0..<unat lb - unat offset]
    \<and> w' = fold (\<lambda>bs w. snd (os_write H fd bs w)) chunks w)"
  using assms(4-6)
proof (induction fuel arbitrary: offset acc P w)
  case (Suc fuel)
  show ?case
  proof (cases "offset = lb")
    case True
    with Suc.prems show ?thesis by (auto intro: exI [of _ "[]"])
  next
    case False
    then have lt: "unat offset < unat lb" using Suc.prems(2) by (simp add: le_less word_unat_eq_iff)
    define disp where "disp = min ((offset AND NOT (pgsize - 1)) + pgsize) lb - offset"
    note c = next_chunk [OF lt assms(3), folded disp_def]
    have "bindE (paged_prefault M offset pgsize P) (\<lambda>P1. bindE (paged_ptr M offset P1) (\<lambda>(p, P2).
        definedE (inside_block P2 p (unat disp))
          (case os_write H fd (map (\<lambda>i. heap P2 (p + of_nat i)) [0..<unat disp]) w of (rc, w1) \<Rightarrow>
             if rc = 0 then Inr (0, P2, w1)
             else write_pages fuel M H fd lb (offset + disp) (if 0 \<le>s rc then acc + rc else - 1) P2 w1))) = Inr (acc', P', w')"
      using Suc.prems(3) False unfolding disp_def by (simp add: Let_def)
    then obtain P1 p P2 where
      P1: "paged_prefault M offset pgsize P = Inr P1" and P2: "paged_ptr M offset P1 = Inr (p, P2)"
      and rest: "(case os_write H fd (map (\<lambda>i. heap P2 (p + of_nat i)) [0..<unat disp]) w of (rc, w1) \<Rightarrow>
          if rc = 0 then Inr (0, P2, w1)
          else write_pages fuel M H fd lb (offset + disp) (if 0 \<le>s rc then acc + rc else - 1) P2 w1) = Inr (acc', P', w')"
      by auto
    note pf = prefault_ok(1,2) [OF assms(1) Suc.prems(1) P1]
    from paged_ptr_ok [OF assms(1) pf(1) P2] obtain pg where P2ok: "paged_ok P2" "view P2 = view P1"
      and pg: "map_of (smem P2) (offset div pgsize) = Some pg" "p = pg + offset mod pgsize" by metis
    define bs where "bs = map (\<lambda>i. view P (offset + of_nat i)) [0..<unat disp]"
    have "heap P2 (p + of_nat i) = view P (offset + of_nat i)" if "i < unat disp" for i
      using view_within_page [OF pg(1), of i] c(3) that pg(2) P2ok(2) pf(2) by simp
    then have bs: "map (\<lambda>i. heap P2 (p + of_nat i)) [0..<unat disp] = bs" by (simp add: bs_def)
    obtain rc w1 where w1: "os_write H fd bs w = (rc, w1)" by fastforce
    have "rc \<noteq> 0" using assms(2) [of bs w] w1 by auto
    with rest obtain acc1 where r: "write_pages fuel M H fd lb (offset + disp) acc1 P2 w1 = Inr (acc', P', w')"
      by (auto simp: bs w1)
    have le: "unat (offset + disp) \<le> unat lb" using c(2,4) lt by linarith
    from Suc.IH [OF P2ok(1) le r] obtain chunks where ch: "paged_ok P'" "view P' = view P"
      "concat chunks = map (\<lambda>i. view P (offset + disp + of_nat i)) [0..<unat lb - unat (offset + disp)]"
      "w' = fold (\<lambda>bs w. snd (os_write H fd bs w)) chunks w1"
      using P2ok(2) pf(2) by auto
    define k where "k = unat lb - unat (offset + disp)"
    have n: "unat lb - unat offset = unat disp + k" using c(2,4) lt by (simp add: k_def)
    have shift: "map f [d..<d + k] = map (\<lambda>i. f (d + i)) [0..<k]" for f :: "nat \<Rightarrow> u8" and d by (rule nth_equalityI) simp_all
    have "map (\<lambda>i. view P (offset + of_nat i)) [0..<unat lb - unat offset] = bs @ concat chunks"
      unfolding n upt_add_eq_append [OF le0] map_append bs_def ch(3) k_def [symmetric]
      by (simp add: shift add.assoc)
    with ch w1 show ?thesis by (intro conjI exI [of _ "bs # chunks"]) auto
  qed
qed simp

lemma pages_fuel_free [fuel_intros]:
  "fuel_free (add_page M a P)" "fuel_free (get_page M a P)" "fuel_free (paged_ptr M a P)" "fuel_free (paged_prefault M a n P)"
proof -
  show a: "fuel_free (add_page M a P)" for a P
    unfolding add_page_def map_block_def Let_def by (intro fuel_intros)
  show g: "fuel_free (get_page M a P)"
    using a by (auto simp: get_page_def fuel_free_def split: option.splits)
  show "fuel_free (paged_ptr M a P)" unfolding paged_ptr_def by (intro fuel_intros g)
  show "fuel_free (paged_prefault M a n P)" unfolding paged_prefault_def map_block_def Let_def by (intro fuel_intros a)
qed

text \<open>The number of rounds: one for each page that the range touches, and one to see the end.\<close>

lemma write_pages_fuel:
  assumes "unat lb + 4096 < 2 ^ 64" "unat offset \<le> unat lb" "unat offset mod 4096 + (unat lb - unat offset) \<le> 4096 * k" "k < fuel"
  shows "fuel_free (write_pages fuel M H fd lb offset acc P w)"
  using assms(2-4)
proof (induction fuel arbitrary: k offset acc P w)
  case (Suc fuel)
  show ?case
  proof (cases "offset = lb")
    case False
    then have lt: "unat offset < unat lb" using Suc.prems(1) by (simp add: le_less word_unat_eq_iff)
    define disp where "disp = min ((offset AND NOT (pgsize - 1)) + pgsize) lb - offset"
    note c = next_chunk [OF lt assms(1), folded disp_def]
    have le: "unat (offset + disp) \<le> unat lb" using c(2,4) lt by linarith
    have k: "0 < k" using Suc.prems(2) lt by (cases k) simp_all
    have "unat (offset + disp) mod 4096 + (unat lb - unat (offset + disp)) \<le> 4096 * (k - 1)" if "offset + disp \<noteq> lb"
    proof -
      from c(5) that have e: "unat offset mod 4096 + unat disp = 4096" by blast
      then have "(unat offset + unat disp) mod 4096 = 0" by (metis mod_add_left_eq mod_self)
      then show ?thesis using e Suc.prems(2) c(2,4) k by (simp add: diff_mult_distrib2)
    qed
    then have "fuel_free (write_pages fuel M H fd lb (offset + disp) acc1 P1 w1)" for acc1 P1 w1
      using Suc.IH [OF le, of "k - 1" acc1 P1 w1] Suc.prems(3) k
      by (cases "offset + disp = lb"; cases fuel) (simp_all add: fuel_intros)
    then show ?thesis using False unfolding disp_def by (auto simp: Let_def intro!: fuel_intros split: prod.splits)
  qed (simp add: fuel_intros)
qed simp

subsection \<open>The two classes\<close>

text \<open>Accesses of the four sizes, on either class; the value of a store is 0.\<close>

datatype width = W8 | W16 | W32 | W64

datatype access = Load width u64 | Store width u64 u64

primrec width_bytes :: "width \<Rightarrow> nat" where
  "width_bytes W8 = 1" | "width_bytes W16 = 2" | "width_bytes W32 = 4" | "width_bytes W64 = 8"

fun paged_access :: "mmap \<Rightarrow> access \<Rightarrow> paged \<Rightarrow> (u64 \<times> paged) result" where
  "paged_access M (Load W8 a) P = bindE (paged_get M a P) (\<lambda>(v :: u8, P1). Inr (ucast v, P1))"
| "paged_access M (Load W16 a) P = bindE (paged_get M a P) (\<lambda>(v :: u16, P1). Inr (ucast v, P1))"
| "paged_access M (Load W32 a) P = bindE (paged_get M a P) (\<lambda>(v :: u32, P1). Inr (ucast v, P1))"
| "paged_access M (Load W64 a) P = paged_get M a P"
| "paged_access M (Store W8 a v) P = bindE (paged_set M a (ucast v :: u8) P) (\<lambda>P1. Inr (0, P1))"
| "paged_access M (Store W16 a v) P = bindE (paged_set M a (ucast v :: u16) P) (\<lambda>P1. Inr (0, P1))"
| "paged_access M (Store W32 a v) P = bindE (paged_set M a (ucast v :: u32) P) (\<lambda>P1. Inr (0, P1))"
| "paged_access M (Store W64 a v) P = bindE (paged_set M a v P) (\<lambda>P1. Inr (0, P1))"

fun flat_access :: "access \<Rightarrow> memory \<Rightarrow> (u64 \<times> memory) result" where
  "flat_access (Load W8 a) m = bindE (mem_get m a) (\<lambda>v :: u8. Inr (ucast v, m))"
| "flat_access (Load W16 a) m = bindE (mem_get m a) (\<lambda>v :: u16. Inr (ucast v, m))"
| "flat_access (Load W32 a) m = bindE (mem_get m a) (\<lambda>v :: u32. Inr (ucast v, m))"
| "flat_access (Load W64 a) m = bindE (mem_get m a) (\<lambda>v. Inr (v, m))"
| "flat_access (Store W8 a v) m = bindE (mem_set m a (ucast v :: u8)) (\<lambda>m1. Inr (0, m1))"
| "flat_access (Store W16 a v) m = bindE (mem_set m a (ucast v :: u16)) (\<lambda>m1. Inr (0, m1))"
| "flat_access (Store W32 a v) m = bindE (mem_set m a (ucast v :: u32)) (\<lambda>m1. Inr (0, m1))"
| "flat_access (Store W64 a v) m = bindE (mem_set m a v) (\<lambda>m1. Inr (0, m1))"

primrec run_accesses :: "('x \<Rightarrow> 'm \<Rightarrow> ('v \<times> 'm) result) \<Rightarrow> 'x list \<Rightarrow> 'm \<Rightarrow> ('v list \<times> 'm) result" where
  "run_accesses f [] m = Inr ([], m)"
| "run_accesses f (x # xs) m = bindE (f x m) (\<lambda>(v, m1). bindE (run_accesses f xs m1) (\<lambda>(vs, m2). Inr (v # vs, m2)))"

text \<open>The address and the size of an access: inside one page and inside the flat mapping.\<close>

primrec page_of :: "access \<Rightarrow> u64" where
  "page_of (Load w a) = a div pgsize"
| "page_of (Store w a v) = a div pgsize"

definition ok_access :: "access \<Rightarrow> bool" where
  "ok_access x \<longleftrightarrow> (case x of Load w a \<Rightarrow> within_page (width_bytes w) a \<and> in_range (width_bytes w) a
     | Store w a v \<Rightarrow> within_page (width_bytes w) a \<and> in_range (width_bytes w) a)"

text \<open>
  A memory \<open>f\<close> with an invariant refines a memory \<open>g\<close> through an abstraction function when each access
  either fails in a way the state allows or has the same value and the same effect.  Whether a fault is
  still to come does not depend on the accesses that succeed before it.
\<close>

locale memory_refinement =
  fixes f :: "'x \<Rightarrow> 'm \<Rightarrow> ('v \<times> 'm) result" and g :: "'x \<Rightarrow> 'n \<Rightarrow> ('v \<times> 'n) result"
    and inv :: "'m \<Rightarrow> bool" and abs :: "'m \<Rightarrow> 'n" and ok :: "'x \<Rightarrow> bool" and may_fail :: "'m \<Rightarrow> fault \<Rightarrow> bool"
  assumes access: "inv m \<Longrightarrow> ok x \<Longrightarrow> f x m = Inr (v, m') \<Longrightarrow> inv m' \<and> g x (abs m) = Inr (v, abs m')"
    and fails: "inv m \<Longrightarrow> ok x \<Longrightarrow> f x m = Inl e \<Longrightarrow> may_fail m e"
    and keeps: "inv m \<Longrightarrow> ok x \<Longrightarrow> f x m = Inr (v, m') \<Longrightarrow> may_fail m' e \<longleftrightarrow> may_fail m e"
begin

lemma run_refines: "inv m \<Longrightarrow> list_all ok xs \<Longrightarrow> run_accesses f xs m = Inr (vs, m') \<Longrightarrow> inv m' \<and> run_accesses g xs (abs m) = Inr (vs, abs m')"
proof (induction xs arbitrary: m vs)
  case (Cons x xs)
  from Cons.prems(3) obtain v m1 us where x: "f x m = Inr (v, m1)" "run_accesses f xs m1 = Inr (us, m')" "vs = v # us" by auto
  have "inv m1 \<and> g x (abs m) = Inr (v, abs m1)" by (rule access [OF Cons.prems(1) _ x(1)]) (use Cons.prems(2) in simp)
  with Cons.IH [of m1 us] Cons.prems(2) x(2,3) show ?case by simp
qed simp

lemma run_fails: "inv m \<Longrightarrow> list_all ok xs \<Longrightarrow> run_accesses f xs m = Inl e \<Longrightarrow> may_fail m e"
proof (induction xs arbitrary: m)
  case (Cons x xs)
  have ok: "ok x" using Cons.prems(2) by simp
  show ?case
  proof (cases "f x m")
    case (Inl e')
    with fails [OF Cons.prems(1) ok Inl] Cons.prems(3) show ?thesis by simp
  next
    case (Inr r)
    obtain v m1 where r: "r = (v, m1)" by fastforce
    with access [OF Cons.prems(1) ok] Inr have "inv m1" by blast
    with Cons r Inr have "may_fail m1 e" by (cases "run_accesses f xs m1") auto
    with keeps [OF Cons.prems(1) ok] Inr r show ?thesis by blast
  qed
qed simp

lemma run_keeps: "inv m \<Longrightarrow> list_all ok xs \<Longrightarrow> run_accesses f xs m = Inr (vs, m') \<Longrightarrow> may_fail m' e \<longleftrightarrow> may_fail m e"
proof (induction xs arbitrary: m vs)
  case (Cons x xs)
  from Cons.prems(3) obtain v m1 us where x: "f x m = Inr (v, m1)" "run_accesses f xs m1 = Inr (us, m')" by auto
  have ok: "ok x" "list_all ok xs" using Cons.prems(2) by simp_all
  from access [OF Cons.prems(1) ok(1) x(1)] have "inv m1" ..
  with Cons.IH [OF _ ok(2) x(2)] keeps [OF Cons.prems(1) ok(1) x(1)] show ?case by blast
qed simp

end

text \<open>
  An access inside a page goes through \<open>get_page\<close>: its faults are those of \<open>get_page\<close>, and it leaves the
  allocations and the pages as \<open>get_page\<close> does.
\<close>

definition same_pages :: "paged \<Rightarrow> paged \<Rightarrow> bool" where
  "same_pages P Q \<longleftrightarrow> smem P = smem Q \<and> allocations P = allocations Q"

lemma paged_get_page:
  fixes v :: "'a::len word"
  assumes "mmap_fresh M" "paged_ok P" "within_page (LENGTH('a) div 8) a"
  shows "paged_get M a P = Inr (v, P1) \<Longrightarrow> \<exists>pg P0. get_page M a P = Inr (pg, P0) \<and> same_pages P1 P0"
    and "(paged_get M a P :: ('a word \<times> paged) result) = Inl e \<Longrightarrow> get_page M a P = Inl e"
proof -
  show "\<exists>pg P0. get_page M a P = Inr (pg, P0) \<and> same_pages P1 P0" if "paged_get M a P = Inr (v, P1)"
    using that by (auto simp: paged_get_def paged_ptr_def same_pages_def)
  assume e: "(paged_get M a P :: ('a word \<times> paged) result) = Inl e"
  show "get_page M a P = Inl e"
  proof (cases "get_page M a P")
    case (Inr r)
    then obtain p P1 where r: "paged_ptr M a P = Inr (p, P1)" by (cases r) (simp add: paged_ptr_def)
    then obtain pg where "\<And>n. within_page n a \<Longrightarrow> inside_block P1 p n" using paged_ptr_ok [OF assms(1,2) r] by metis
    with e assms(3) r show ?thesis by (simp add: paged_get_def)
  qed (use e in \<open>simp add: paged_get_def paged_ptr_def\<close>)
qed

lemma paged_set_page:
  fixes v :: "'a::len word"
  assumes "mmap_fresh M" "paged_ok P" "within_page (LENGTH('a) div 8) a"
  shows "paged_set M a v P = Inr P1 \<Longrightarrow> \<exists>pg P0. get_page M a P = Inr (pg, P0) \<and> same_pages P1 P0"
    and "paged_set M a v P = Inl e \<Longrightarrow> get_page M a P = Inl e"
proof -
  show "\<exists>pg P0. get_page M a P = Inr (pg, P0) \<and> same_pages P1 P0" if "paged_set M a v P = Inr P1"
    using that by (auto simp: paged_set_def paged_ptr_def same_pages_def host_store_def)
  assume e: "paged_set M a v P = Inl e"
  show "get_page M a P = Inl e"
  proof (cases "get_page M a P")
    case (Inr r)
    then obtain p P1 where r: "paged_ptr M a P = Inr (p, P1)" by (cases r) (simp add: paged_ptr_def)
    then obtain pg where "\<And>n. within_page n a \<Longrightarrow> inside_block P1 p n" using paged_ptr_ok [OF assms(1,2) r] by metis
    with e assms(3) r show ?thesis by (simp add: paged_set_def)
  qed (use e in \<open>simp add: paged_set_def paged_ptr_def\<close>)
qed

lemma paged_access_refines:
  assumes "mmap_fresh M" "paged_ok P" "ok_access x" "paged_access M x P = Inr (v, P1)"
  shows "paged_ok P1 \<and> flat_access x (flat_view P) = Inr (v, flat_view P1)"
proof (cases x)
  case (Load w a)
  note get = paged_get_flat [OF assms(1,2), of a _ P1]
  have "within_page (width_bytes w) a" "unat a + width_bytes w \<le> sz" using assms(3) Load by (simp_all add: ok_access_def in_range_def)
  with assms(4) Load show ?thesis
    by (cases w) (auto dest: get [where n = 1] get [where n = 2] get [where n = 4] get [where n = 8])
next
  case (Store w a u)
  note set = paged_set_flat [OF assms(1,2), of a _ P1]
  have "within_page (width_bytes w) a" "unat a + width_bytes w \<le> sz" using assms(3) Store by (simp_all add: ok_access_def in_range_def)
  with assms(4) Store show ?thesis
    by (cases w) (auto dest: set [where n = 1] set [where n = 2] set [where n = 4] set [where n = 8])
qed

lemma paged_access_page:
  assumes "mmap_fresh M" "paged_ok P" "ok_access x"
  obtains a where "page_of x = a div pgsize"
    "\<forall>v P1. paged_access M x P = Inr (v, P1) \<longrightarrow> (\<exists>pg P0. get_page M a P = Inr (pg, P0) \<and> same_pages P1 P0)"
    "\<forall>e. paged_access M x P = Inl e \<longrightarrow> get_page M a P = Inl e"
proof (cases x)
  case (Load w a)
  note get = paged_get_page [OF assms(1,2), rotated]
  show thesis
    by (rule that [of a]; use Load assms(3) in \<open>cases w; auto simp: ok_access_def bindE_def split: sum.splits dest: get\<close>)
next
  case (Store w a u)
  note set = paged_set_page [OF assms(1,2), rotated]
  show thesis
    by (rule that [of a]; use Store assms(3) in \<open>cases w; auto simp: ok_access_def bindE_def split: sum.splits dest: set\<close>)
qed

lemma enough_same: "same_pages P Q \<Longrightarrow> enough M S P \<longleftrightarrow> enough M S Q"
  by (simp add: same_pages_def enough_def)

lemma paged_access_enough:
  assumes "mmap_fresh M" "paged_ok P" "ok_access x" "finite S" "page_of x \<in> S"
  shows "paged_access M x P = Inr (v, P1) \<Longrightarrow> enough M S P1 \<longleftrightarrow> enough M S P"
    and "paged_access M x P = Inl e \<Longrightarrow> e = Assert \<and> \<not> enough M S P"
proof -
  obtain a where a: "page_of x = a div pgsize"
    "\<forall>v P1. paged_access M x P = Inr (v, P1) \<longrightarrow> (\<exists>pg P0. get_page M a P = Inr (pg, P0) \<and> same_pages P1 P0)"
    "\<forall>e. paged_access M x P = Inl e \<longrightarrow> get_page M a P = Inl e" using paged_access_page [OF assms(1-3)] .
  note g = get_page_enough [OF assms(4), of a M P]
  show "enough M S P1 \<longleftrightarrow> enough M S P" if "paged_access M x P = Inr (v, P1)"
    using a(2) [rule_format, OF that] g(1) assms(5) a(1) enough_same [of P1 _ M S] by auto
  show "e = Assert \<and> \<not> enough M S P" if "paged_access M x P = Inl e"
    using a(3) [rule_format, OF that] g(2) assms(5) a(1) by simp
qed

interpretation paged: memory_refinement "paged_access M" flat_access "\<lambda>P. mmap_fresh M \<and> paged_ok P" flat_view
    "\<lambda>x. ok_access x \<and> page_of x \<in> S" "\<lambda>P e. e = Assert \<and> \<not> enough M S P" for M S
proof (unfold_locales, elim conjE)
  show "(mmap_fresh M \<and> paged_ok P1) \<and> flat_access x (flat_view P) = Inr (v, flat_view P1)"
    if "mmap_fresh M" "paged_ok P" "ok_access x" "paged_access M x P = Inr (v, P1)" for P P1 v x
    using paged_access_refines [OF that] that(1) by simp
qed (auto dest: paged_access_enough [OF _ _ _ finite])

text \<open>After a run its pages exist.\<close>

lemma paged_run_pages:
  assumes "mmap_fresh M" "paged_ok P" "list_all ok_access xs" "run_accesses (paged_access M) xs P = Inr (vs, P')"
  shows "page_of ` set xs \<union> dom (map_of (smem P)) \<subseteq> dom (map_of (smem P'))"
  using assms(2-4)
proof (induction xs arbitrary: P vs)
  case (Cons x xs)
  from Cons.prems(3) obtain v P1 us where x: "paged_access M x P = Inr (v, P1)" "run_accesses (paged_access M) xs P1 = Inr (us, P')" by auto
  have ok: "ok_access x" "list_all ok_access xs" using Cons.prems(2) by simp_all
  obtain a where a: "page_of x = a div pgsize" "\<exists>pg P0. get_page M a P = Inr (pg, P0) \<and> same_pages P1 P0"
    using paged_access_page [OF assms(1) Cons.prems(1) ok(1)] x(1) by metis
  then obtain pg P0 where g: "get_page M a P = Inr (pg, P0)" "smem P1 = smem P0" by (auto simp: same_pages_def)
  have "insert (page_of x) (dom (map_of (smem P))) \<subseteq> dom (map_of (smem P1))"
    using g a(1) by (auto simp: get_page_def add_page_def map_block_def Let_def update_conv' split: option.splits)
  moreover have "paged_ok P1" using paged_access_refines [OF assms(1) Cons.prems(1) ok(1) x(1)] ..
  ultimately show ?case using Cons.IH [OF _ ok(2) x(2)] unfolding list.set image_insert by blast
qed simp

subsection \<open>A null page\<close>

text \<open>\<open>coalesce\<close> enters a null pointer for a page it does not find, and entries stay as they are.\<close>

lemma smem_ref_keeps: "map_of sm p = Some q \<Longrightarrow> map_of (snd (smem_ref p' sm)) p = Some q"
  by (auto simp: smem_ref_def update_conv' split: option.splits)

lemma coalesce_loop_keeps: "map_of sm p = Some q \<Longrightarrow> map_of (snd (coalesce_loop ps sm)) p = Some q"
  by (induction ps arbitrary: sm) (auto simp: case_prod_unfold Let_def smem_ref_keeps)

lemma coalesce_enters_null:
  assumes "unat (first_page a) + 1 < unat (end_page a n)" "map_of (smem P) (first_page a + 1) = None"
    and "x div pgsize = first_page a + 1"
  shows "paged_at M x (snd (paged_coalesce a n P)) = Inl Assert"
proof -
  have "unat (first_page a + 1) = unat (first_page a) + 1"
    using assms(1) unat_pages(2) [of a n] by (simp add: unat_word_ariths)
  then obtain ps where r: "page_range (first_page a + 1) (end_page a n) = (first_page a + 1) # ps"
    using assms(1) by (simp add: page_range_def upt_conv_Cons)
  have "map_of (smem (snd (paged_coalesce a n P))) (first_page a + 1) = Some 0"
    using assms(2)
    by (auto simp: paged_coalesce_def r case_prod_unfold Let_def smem_ref_def [of "first_page a + 1"] update_conv'
        intro!: coalesce_loop_keeps smem_ref_keeps)
  then show ?thesis using assms(3) by (simp add: paged_at_def get_page_def)
qed

subsection \<open>The two classes agree\<close>

text \<open>
  C13. The page table memory refines the flat memory: any sequence of loads and stores of 8 to 64 bits,
  each inside one page and inside the 4 GB, has on a new page table memory the values that it has on
  a new flat memory, and leaves the same contents, provided that \<open>mmap\<close> provides as many pages as the
  sequence touches; when it refuses one of them, the sequence ends in the failed assertion.
\<close>

theorem paged_equals_flat:
  assumes "mmap_fresh M" "list_all ok_access xs"
  shows "if serves M (card (page_of ` set xs)) []
    then \<exists>vs P. run_accesses (paged_access M) xs (paged_new h) = Inr (vs, P)
      \<and> run_accesses flat_access xs sparse_mem_new = Inr (vs, flat_view P)
    else run_accesses (paged_access M) xs (paged_new h) = Inl Assert"
proof -
  let ?S = "page_of ` set xs"
  have ok: "paged_ok (paged_new h)" by (simp add: paged_ok_def paged_new_def)
  then have i: "mmap_fresh M \<and> paged_ok (paged_new h)" using assms(1) by simp
  have xs: "list_all (\<lambda>x. ok_access x \<and> page_of x \<in> ?S) xs" using assms(2) by (simp add: list_all_iff)
  have v: "flat_view (paged_new h) = sparse_mem_new" by (simp add: flat_view_def view_def paged_new_def sparse_mem_new_def)
  have e: "enough M ?S (paged_new h) \<longleftrightarrow> serves M (card ?S) []" by (simp add: enough_def paged_new_def)
  show ?thesis
  proof (cases "run_accesses (paged_access M) xs (paged_new h)")
    case (Inl f)
    with paged.run_fails [OF i xs] e show ?thesis by simp
  next
    case (Inr r)
    then obtain vs P where r: "run_accesses (paged_access M) xs (paged_new h) = Inr (vs, P)" by (cases r) simp
    have "?S - dom (map_of (smem P)) = {}" using paged_run_pages [OF assms(1) ok assms(2) r] by blast
    then have "enough M ?S P" unfolding enough_def by (simp only: card.empty serves.simps)
    with paged.run_keeps [OF i xs r, of Assert] e have "serves M (card ?S) []" by simp
    with paged.run_refines [OF i xs r] v r show ?thesis by simp
  qed
qed

text \<open>An allocator that takes the lowest address above all blocks.\<close>

definition bump_mmap :: mmap where
  "bump_mmap A n =
     (let top = fold (\<lambda>(b, k) t. max t (unat b + unat k)) A 4096
      in if n \<noteq> 0 \<and> top + unat n < 2 ^ 64 then of_nat top else - 1)"

lemma bump_top:
  "t \<le> fold (\<lambda>(b, k) t. max t (unat b + unat k)) A t \<and>
   (\<forall>(b, k) \<in> set A. unat b + unat k \<le> fold (\<lambda>(b, k) t. max t (unat b + unat k)) A t)" for A :: "(u64 \<times> u64) list" and t :: nat
proof (induction A arbitrary: t)
  case (Cons x A)
  obtain b k where x: "x = (b, k)" by fastforce
  show ?case using Cons.IH [of "max t (unat b + unat k)"] by (auto simp: x)
qed simp

lemma bump_fresh: "mmap_fresh bump_mmap"
  unfolding mmap_fresh_def
proof (intro allI impI)
  fix A n assume m: "bump_mmap A n \<noteq> - 1"
  define top where "top = fold (\<lambda>(b, k) t. max t (unat b + unat k)) A 4096"
  from m have n: "n \<noteq> 0" "top + unat n < 2 ^ 64" and b: "bump_mmap A n = of_nat top"
    by (auto simp: bump_mmap_def top_def Let_def split: if_splits)
  then have u: "unat (bump_mmap A n) = top" by (simp add: unsigned_of_nat take_bit_nat_eq_self)
  have "4096 \<le> top" "\<forall>(b, k) \<in> set A. unat b + unat k \<le> top" using bump_top [of 4096 A] by (simp_all add: top_def)
  moreover have "bump_mmap A n \<noteq> 0" using u \<open>4096 \<le> top\<close> by (metis not_numeral_le_zero unsigned_0)
  ultimately show "n \<noteq> 0 \<and> bump_mmap A n \<noteq> 0 \<and> unat (bump_mmap A n) + unat n < 2 ^ 64
      \<and> (\<forall>(b, k) \<in> set A. unat (bump_mmap A n) + unat n \<le> unat b \<or> unat b + unat k \<le> unat (bump_mmap A n))"
    using n u by auto
qed

definition sample_accesses :: "access list" where
  "sample_accesses = [Store W32 0x1ffc 7, Load W32 0x1ffc, Load W8 0x9000]"

lemma sample_flat: "\<exists>m. run_accesses flat_access sample_accesses sparse_mem_new = Inr ([0, 7, 0], m)"
proof -
  let ?m = "store_le 4 sparse_mem_new 0x1ffc (7 :: u32)"
  have "mem_set sparse_mem_new 0x1ffc (7 :: u32) = Inr ?m" by (simp add: mem_set_def sz_def)
  moreover have "mem_get ?m 0x1ffc = Inr (7 :: u32)" by (simp add: mem_get_def sz_def load_store_le)
  moreover have "mem_get ?m 0x9000 = Inr (0 :: u8)"
    by (simp add: mem_get_def sz_def store_le_byte sparse_mem_new_def)
  ultimately show ?thesis by (simp add: sample_accesses_def)
qed

theorem paged_equals_flat_witness:
  "\<exists>P. run_accesses (paged_access bump_mmap) sample_accesses (paged_new (\<lambda>_. 0xff)) = Inr ([0, 7, 0], P)
     \<and> run_accesses flat_access sample_accesses sparse_mem_new = Inr ([0, 7, 0], flat_view P)
     \<and> run_accesses (paged_access (\<lambda>_ _. - 1)) sample_accesses (paged_new (\<lambda>_. 0xff)) = Inl Assert"
proof -
  have ok: "list_all ok_access sample_accesses"
    by (simp add: sample_accesses_def ok_access_def within_page_def in_range_def sz_def)
  have pages: "page_of ` set sample_accesses = {1, 9}" by (simp add: sample_accesses_def pgsize_def)
  have "serves bump_mmap (Suc (Suc 0)) []" by (simp add: bump_mmap_def pgsize_def)
  with paged_equals_flat [OF bump_fresh ok, of "\<lambda>_. 0xff"] sample_flat
    paged_equals_flat [of "\<lambda>_ _. - 1", OF _ ok, of "\<lambda>_. 0xff"] show ?thesis by (auto simp: pages mmap_fresh_def)
qed

subsection \<open>The invariant of the page table\<close>

text \<open>One call of a member other than \<open>coalesce\<close>, on any argument and with any answer of the host.\<close>

inductive paged_step :: "mmap \<Rightarrow> 'w host_os \<Rightarrow> paged \<Rightarrow> paged \<Rightarrow> bool" for M H where
  at: "paged_at M a P = Inr (p, P') \<Longrightarrow> paged_step M H P P'"
| access: "paged_access M x P = Inr (v, P') \<Longrightarrow> paged_step M H P P'"
| get32: "get32 M a P = Inr (v, P') \<Longrightarrow> paged_step M H P P'"
| set_byte: "set_byte_at M a b P = Inr P' \<Longrightarrow> paged_step M H P P'"
| prefault: "paged_prefault M a n P = Inr P' \<Longrightarrow> paged_step M H P P'"
| "write": "paged_rdwr_write fuel M H fd a n P w = Inr (acc, P', w') \<Longrightarrow> paged_step M H P P'"
| read: "paged_rdwr_read M H fd a n P w = Inr (acc, P', w') \<Longrightarrow> paged_step M H P P'"
| clear: "paged_step M H P (paged_clear P)"

lemma members_ok:
  assumes "mmap_fresh M" "paged_ok P"
  shows "paged_ptr M a P = Inr (p, P') \<Longrightarrow> paged_ok P'" "paged_at M a P = Inr (p, P') \<Longrightarrow> paged_ok P'"
    "paged_get M a P = Inr (v, P') \<Longrightarrow> paged_ok P'" "paged_set M a u P = Inr P' \<Longrightarrow> paged_ok P'"
    "set_byte_at M a b P = Inr P' \<Longrightarrow> paged_ok P'"
  by (auto simp: paged_ptr_def paged_at_def paged_get_def paged_set_def set_byte_at_def dest!: get_page_ok(1) [OF assms])

lemma write_pages_ok:
  assumes "mmap_fresh M"
  shows "paged_ok P \<Longrightarrow> write_pages fuel M H fd lb a acc P w = Inr (acc', P', w') \<Longrightarrow> paged_ok P'"
proof (induction fuel arbitrary: a acc P w)
  case (Suc fuel)
  show ?case
  proof (cases "a = lb")
    case False
    with Suc.prems(2) obtain P1 p P2 bs a1 where P1: "paged_prefault M a pgsize P = Inr P1" and P2: "paged_ptr M a P1 = Inr (p, P2)"
      and "(case os_write H fd bs w of (rc, w1) \<Rightarrow> if rc = 0 then Inr (0, P2, w1)
          else write_pages fuel M H fd lb a1 (if 0 \<le>s rc then acc + rc else - 1) P2 w1) = Inr (acc', P', w')"
      by (auto simp: Let_def)
    then have rest: "P' = P2 \<or> (\<exists>acc1 w1. write_pages fuel M H fd lb a1 acc1 P2 w1 = Inr (acc', P', w'))"
      by (auto split: prod.splits if_splits)
    have "paged_ok P2" using members_ok(1) [OF assms prefault_ok(1) [OF assms Suc.prems(1) P1] P2] .
    with rest Suc.IH show ?thesis by blast
  qed (use Suc.prems in simp)
qed simp

lemma paged_step_ok:
  assumes "mmap_fresh M" "paged_step M H P P'" "paged_ok P"
  shows "paged_ok P'"
  using assms(2)
proof cases
  case (access x v)
  then show ?thesis
  proof (cases x)
    case (Load wd a)
    with access show ?thesis by (cases wd) (auto dest: members_ok [OF assms(1,3)])
  next
    case (Store wd a u)
    with access show ?thesis by (cases wd) (auto dest: members_ok [OF assms(1,3)])
  qed
next
  case (read fd a n w acc w')
  then obtain bs w1 where "foldE (\<lambda>(i, b) P1. set_byte_at M (a + of_nat i) b P1) (enumerate 0 (take (nat (sint acc)) bs)) P = Inr P'"
    by (auto simp: paged_rdwr_read_def split: prod.splits)
  then show ?thesis by (rule foldE_invariant) (auto intro: assms(3) dest: members_ok(5) [OF assms(1)])
next
  case clear
  then show ?thesis by (simp add: paged_clear_def paged_ok_def)
qed (use assms in \<open>auto simp: get32_def paged_rdwr_write_def dest: members_ok [OF assms(1,3)] prefault_ok(1) write_pages_ok\<close>)

text \<open>
  C22. The invariant of the page table: in every state that calls of \<open>at\<close>, \<open>get\<close>, \<open>set\<close>, \<open>get32\<close>, \<open>prefault\<close>,
  \<open>per_page_rdwr\<close> and \<open>clear\<close> lead to, in any order and with any arguments, the host page of each guest page
  is not null, its 4096 bytes lie inside one mapped block, and the host pages of two guest pages
  do not overlap.  \<open>coalesce\<close> is left out: it enters null pointers.
\<close>

theorem paged_reachable_ok:
  assumes "mmap_fresh M" "(paged_step M H)\<^sup>*\<^sup>* (paged_new h) P"
  shows "(\<forall>p pg. map_of (smem P) p = Some pg \<longrightarrow> pg \<noteq> 0 \<and> inside_block P pg 4096)
    \<and> (\<forall>p q pg qg. map_of (smem P) p = Some pg \<longrightarrow> map_of (smem P) q = Some qg \<longrightarrow> p \<noteq> q \<longrightarrow> disjoint_pages pg qg)"
proof -
  from assms(2) have ok: "paged_ok P"
  proof (induction rule: rtranclp_induct)
    case base
    show ?case by (simp add: paged_ok_def paged_new_def)
  qed (rule paged_step_ok [OF assms(1)])
  show ?thesis
  proof (intro conjI allI impI)
    fix p pg assume m: "map_of (smem P) p = Some pg"
    from page_block(2) [OF ok m] show "pg \<noteq> 0" by auto
    from page_block(1) [OF ok m] show "inside_block P pg 4096" by (simp only: inside_block_iff)
  qed (use ok in \<open>auto simp: paged_ok_def\<close>)
qed

text \<open>Two pages at once, and a store into another one.\<close>

definition sample_paged :: paged where
  "sample_paged = (case paged_prefault bump_mmap 0x4000 0x2000 (paged_new (\<lambda>_. 0xff)) of
     Inr P \<Rightarrow> (case paged_set bump_mmap 0x9000 (7 :: u32) P of Inr P' \<Rightarrow> P' | Inl _ \<Rightarrow> paged_new (\<lambda>_. 0)) | Inl _ \<Rightarrow> paged_new (\<lambda>_. 0))"

theorem paged_reachable_ok_witness:
  "map_of (smem sample_paged) 4 = Some 0x1000 \<and> map_of (smem sample_paged) 5 = Some 0x2000 \<and> map_of (smem sample_paged) 9 = Some 0x3000
   \<and> inside_block sample_paged 0x2000 4096 \<and> disjoint_pages 0x2000 0x3000"
proof -
  obtain P where P: "paged_prefault bump_mmap 0x4000 0x2000 (paged_new (\<lambda>_. 0xff)) = Inr P"
    "map_of (smem P) 4 = Some 0x1000" "map_of (smem P) 5 = Some 0x2000" "map_of (smem P) 9 = None" "allocations P = [(0x1000, 0x2000)]"
    by (auto simp: paged_prefault_def first_page_def end_page_def pgsize_def page_range_def map_block_def bump_mmap_def paged_new_def
        Let_def upt_conv_Cons)
  obtain P' where P': "paged_set bump_mmap 0x9000 (7 :: u32) P = Inr P'" "map_of (smem P') = (map_of (smem P))(9 \<mapsto> 0x3000)"
    using P(4,5) by (auto simp: paged_set_def paged_ptr_def get_page_def add_page_def map_block_def bump_mmap_def pgsize_def Let_def
        inside_block_def host_store_def update_conv')
  have s: "sample_paged = P'" by (simp add: sample_paged_def P(1) P'(1))
  have "paged_step bump_mmap H (paged_new (\<lambda>_. 0xff)) P" "paged_step bump_mmap H P P'" for H :: "unit host_os"
    using paged_step.prefault [OF P(1)] paged_step.access [of bump_mmap "Store W32 0x9000 7" P 0 P'] P'(1) by simp_all
  then have "(paged_step bump_mmap H)\<^sup>*\<^sup>* (paged_new (\<lambda>_. 0xff)) sample_paged" for H :: "unit host_os"
    unfolding s by (meson converse_rtranclp_into_rtranclp r_into_rtranclp)
  note r = paged_reachable_ok [OF bump_fresh this]
  have m: "map_of (smem sample_paged) 5 = Some 0x2000" "map_of (smem sample_paged) 9 = Some 0x3000" "map_of (smem sample_paged) 4 = Some 0x1000"
    using P(2-4) P'(2) s by simp_all
  have "inside_block sample_paged 0x2000 4096" using conjunct1 [OF r, rule_format, OF m(1)] by blast
  moreover have "disjoint_pages 0x2000 0x3000" using conjunct2 [OF r, rule_format, OF m(1,2)] by simp
  ultimately show ?thesis using m by blast
qed

end
