(* ===== verification/Elf_Stack.thy ===== *)
theory Elf_Stack
  imports Paged_Mem Load_Elf
begin

text \<open>
  The end of \<open>load_elf\<close> in \<open>src/loadelf.cc\<close> under \<open>LINUX_SYSCALL_EMULATION\<close>: the initial stack of a Linux
  process, with the name of the file, sixteen bytes for the C library's random seed, the argument
  count and vector, an empty environment and the auxiliary vector.  It is written for the page table
  memory (\<open>Paged_Mem\<close>), whose member \<open>at\<close> it calls.  The identities of the user and the clock rate come
  from the host.  The loop over the environment has the condition \<open>and false\<close>; the vector it would
  fill stays empty.
\<close>

record stack_host =
  h_uid :: u32
  h_euid :: u32
  h_gid :: u32
  h_egid :: u32
  h_clktck :: u32

definition TASK_UNMAPPED_BASE :: u32 where "TASK_UNMAPPED_BASE = 0x40000000"
definition DLINFO_ITEMS :: nat where "DLINFO_ITEMS = 16"
definition initial_stack :: u32 where "initial_stack = push_bit 23 1"
definition guard :: u32 where "guard = 4096"

definition stack_start :: u32 where
  "stack_start = TASK_UNMAPPED_BASE + guard + initial_stack - 8"

definition filename_pos :: "u8 list \<Rightarrow> u32" where
  "filename_pos fn = stack_start - (of_nat (length fn) + 1)"

definition argv_pos :: "u8 list \<Rightarrow> u32" where
  "argv_pos fn = filename_pos fn - (of_nat (length fn) + 1)"

definition rand_pos :: "u8 list \<Rightarrow> u32" where
  "rand_pos fn = (argv_pos fn AND NOT 0xf) - 16"

definition stack_size :: u32 where
  "stack_size = 4 * (of_nat ((DLINFO_ITEMS + 1) * 2) + 1 + (1 + 0 + 2))"

definition stack_sp :: "u8 list \<Rightarrow> u32" where
  "stack_sp fn = (rand_pos fn - stack_size) AND NOT 0xf"

text \<open>The auxiliary vector, in the order it is written.\<close>

definition aux_entries :: "stack_host \<Rightarrow> u8 list \<Rightarrow> u32 \<Rightarrow> u32 \<Rightarrow> 'w state_t \<Rightarrow> (u32 \<times> u32) list" where
  "aux_entries h fn phoff phnum ms =
     [(3, load_addr (linux_image ms) + phoff), (4, 32), (5, phnum), (6, 4096), (7, 0), (8, 0), (9, pc ms), (11, h_uid h),
      (12, h_euid h), (13, h_gid h), (14, h_egid h), (16, 0), (17, h_clktck h), (25, rand_pos fn), (23, 0),
      (31, filename_pos fn), (0, 0)]"

text \<open>\<open>argc\<close>, \<open>argv\<close> with its end, the end of the environment, and the auxiliary vector.\<close>

definition stack_words :: "stack_host \<Rightarrow> u8 list \<Rightarrow> u32 \<Rightarrow> u32 \<Rightarrow> 'w state_t \<Rightarrow> u32 list" where
  "stack_words h fn phoff phnum ms =
     [1, argv_pos fn, 0, 0] @ concat (map (\<lambda>(i, v). [i, v]) (aux_entries h fn phoff phnum ms))"

definition put_bytes :: "mmap \<Rightarrow> u32 \<Rightarrow> u8 list \<Rightarrow> paged \<Rightarrow> paged result" where
  "put_bytes M pos bs P = foldE (\<lambda>i. set_byte_at M (ucast pos + of_nat i) (bs ! i)) [0..<length bs] P"

definition put_words :: "mmap \<Rightarrow> globals \<Rightarrow> u32 \<Rightarrow> u32 list \<Rightarrow> paged \<Rightarrow> paged result" where
  "put_words M G pos ws P = foldE (\<lambda>j. paged_set M (ucast (pos + 4 * of_nat j)) (elf_bswap G (ws ! j))) [0..<length ws] P"

definition stack_registers :: "u32 \<Rightarrow> u8 list \<Rightarrow> 'w state_t \<Rightarrow> 'w state_t result" where
  "stack_registers pgSize fn ms =
     (let im = linux_image ms
      in bindE (roundToPgSz (image_brk im) pgSize) (\<lambda>tb.
         bindE (roundToPgSz tb pgSize) (\<lambda>bp.
         Inr (ms\<lparr>gpr := (gpr ms)[29 := stack_sp fn],
                 linux_image := im\<lparr>stack_limit := TASK_UNMAPPED_BASE + guard + initial_stack, start_stack := stack_sp fn,
                   target_original_brk := tb, target_brk := tb, brk_page := bp, image_pgsz := pgSize\<rparr>\<rparr>))))"

definition linux_stack ::
  "mmap \<Rightarrow> globals \<Rightarrow> stack_host \<Rightarrow> u32 \<Rightarrow> u8 list \<Rightarrow> u32 \<Rightarrow> u32 \<Rightarrow> 'w state_t \<Rightarrow> paged \<Rightarrow> ('w state_t \<times> paged) result" where
  "linux_stack M G h pgSize fn phoff phnum ms P =
     bindE (put_bytes M (filename_pos fn) fn P) (\<lambda>P1.
     bindE (put_bytes M (rand_pos fn) (map (\<lambda>i. of_nat (i + 1)) [0..<16]) P1) (\<lambda>P2.
     bindE (put_words M G (stack_sp fn) (stack_words h fn phoff phnum ms) P2) (\<lambda>P3.
     bindE (stack_registers pgSize fn ms) (\<lambda>ms'. Inr (ms', P3)))))"

subsection \<open>The layout\<close>

lemma unat_align16: "unat (a AND NOT 0xf) = 16 * (unat a div 16)" for a :: u32
proof -
  have m: "(0xf :: u32) = mask 4" by (simp add: mask_eq_exp_minus_1)
  have "a AND NOT (mask 4) = push_bit 4 (drop_bit 4 a)"
    by (rule bit_word_eqI) (auto simp: bit_simps simp del: mask_numeral)
  moreover have "unat a < 2 ^ LENGTH(32)" by (rule unsigned_less)
  then have "16 * (unat a div 16) < 2 ^ 32" using times_div_less_eq_dividend [of 16 "unat a"] by simp
  ultimately show ?thesis
    unfolding m by (simp add: push_bit_eq_mult drop_bit_eq_div unat_word_ariths unat_div_distrib mult.commute)
qed

lemma unat_minus_u32: "n \<le> unat a \<Longrightarrow> n < 2 ^ 32 \<Longrightarrow> unat (a - of_nat n) = unat a - n" for a :: u32
  by (simp add: unat_sub_if' unsigned_of_nat take_bit_nat_eq_self)

lemma layout:
  assumes "length fn < 4096"
  shows "unat (filename_pos fn) = 0x40800FF7 - length fn"
    and "unat (argv_pos fn) = 0x40800FF6 - 2 * length fn"
    and "unat (rand_pos fn) = 16 * (unat (argv_pos fn) div 16) - 16"
    and "unat (stack_sp fn) = unat (rand_pos fn) - 160"
proof -
  have start: "unat stack_start = 0x40800FF8"
    by (simp add: stack_start_def TASK_UNMAPPED_BASE_def guard_def initial_stack_def)
  have off: "x - (of_nat (length fn) + 1) = x - of_nat (length fn + 1)" for x :: u32 by simp
  show f: "unat (filename_pos fn) = 0x40800FF7 - length fn"
    unfolding filename_pos_def off using assms start by (subst unat_minus_u32) simp_all
  show a: "unat (argv_pos fn) = 0x40800FF6 - 2 * length fn"
    unfolding argv_pos_def off using assms f by (subst unat_minus_u32) simp_all
  define q where "q = unat (argv_pos fn) div 16"
  have q: "100 \<le> q" unfolding q_def a using assms by (simp add: less_eq_div_iff_mult_less_eq)
  have al: "unat (argv_pos fn AND NOT 0xf) = 16 * q" by (simp only: unat_align16 q_def)
  show r: "unat (rand_pos fn) = 16 * (unat (argv_pos fn) div 16) - 16"
    unfolding rand_pos_def q_def [symmetric] using unat_minus_u32 [of 16 "argv_pos fn AND NOT 0xf"] al q by simp
  have "unat (rand_pos fn - stack_size) = 16 * (q - 11) + 8"
    using unat_minus_u32 [of 152 "rand_pos fn"] r q by (simp add: stack_size_def DLINFO_ITEMS_def q_def)
  moreover have "(16 * (q - 11) + 8) div 16 = q - 11" by simp
  ultimately show "unat (stack_sp fn) = unat (rand_pos fn) - 160"
    unfolding stack_sp_def unat_align16 using r q by (simp add: q_def)
qed

subsection \<open>The writes on the flat memory\<close>

lemma foldE_refines:
  assumes "ok P"
    and "\<And>x P. x \<in> set xs \<Longrightarrow> ok P \<Longrightarrow> returns (\<lambda>P'. ok P' \<and> g x (h P) = Inr (h P')) (f x P)"
  shows "returns (\<lambda>P'. ok P' \<and> foldE g xs (h P) = Inr (h P')) (foldE f xs P)"
  using assms
proof (induction xs arbitrary: P)
  case (Cons x xs)
  from Cons.prems(2) [of x P] Cons.prems(1) obtain P1 where P1: "f x P = Inr P1" "ok P1" "g x (h P) = Inr (h P1)"
    by (auto simp: returns_iff)
  from P1(2) have "returns (\<lambda>P'. ok P' \<and> foldE g xs (h P1) = Inr (h P')) (foldE f xs P1)"
    by (rule Cons.IH) (rule Cons.prems(2), simp_all)
  with P1 show ?case by simp
qed simp

text \<open>The state has the invariant, and \<open>mmap\<close> provides what is missing of a set of pages.\<close>

definition stocked :: "mmap \<Rightarrow> u64 set \<Rightarrow> paged \<Rightarrow> bool" where
  "stocked M S P \<longleftrightarrow> mmap_fresh M \<and> paged_ok P \<and> enough M S P"

lemma paged_set_stocked:
  fixes v :: "'a::len word"
  assumes "stocked M S P" "8 * n = LENGTH('a)" "n \<le> 8" "within_page n a" "unat a + n \<le> sz" "a div pgsize \<in> S"
  shows "returns (\<lambda>P'. stocked M S P' \<and> mem_set (flat_view P) a v = Inr (flat_view P')) (paged_set M a v P)"
proof -
  have ok: "mmap_fresh M" "paged_ok P" "enough M S P" "within_page (LENGTH('a) div 8) a"
    using assms(1,2,4) by (simp_all add: stocked_def flip: assms(2))
  note page = paged_set_page [OF ok(1,2,4), of v] and enough = get_page_enough [OF finite assms(6), of M P]
  show ?thesis
  proof (cases "paged_set M a v P")
    case (Inl e)
    from enough(2) [OF page(2) [OF Inl]] ok(3) show ?thesis by blast
  next
    case (Inr P')
    from page(1) [OF Inr] obtain pg P0 where P0: "get_page M a P = Inr (pg, P0)" "same_pages P' P0" by blast
    have "enough M S P'" using enough(1) [OF P0(1)] enough_same [OF P0(2)] ok(3) by simp
    with paged_set_flat [OF ok(1,2) Inr assms(2-5)] Inr ok(1) show ?thesis by (simp add: stocked_def)
  qed
qed

lemma set_byte_at_eq:
  assumes "mmap_fresh M" "paged_ok P"
  shows "set_byte_at M a v P = paged_set M a v P"
proof (cases "get_page M a P")
  case (Inr r)
  obtain pg P1 where r: "r = (pg, P1)" by fastforce
  with Inr get_page_ok [OF assms, of a pg P1] page_block [of P1 "a div pgsize" pg] have "pg \<noteq> 0" by auto
  with Inr r show ?thesis by (simp add: set_byte_at_def paged_set_def paged_at_def paged_ptr_def)
qed (simp add: set_byte_at_def paged_set_def paged_at_def paged_ptr_def)

lemma within_page_1 [simp]: "within_page (Suc 0) a"
  using mod_less_divisor [of 4096 "unat a"] by (simp add: within_page_def Suc_le_eq)

definition with_bytes :: "u32 \<Rightarrow> u8 list \<Rightarrow> memory \<Rightarrow> memory" where
  "with_bytes pos bs m = (\<lambda>b. if unat (b - pos) < length bs then bs ! unat (b - pos) else m b)"

lemma ucast_add_of_nat_32: "unat a + i < sz \<Longrightarrow> ucast (a + of_nat i) = (ucast a + of_nat i :: u64)" for a :: u32
  using ucast_add_of_nat [of "ucast a" i] by simp

lemma put_bytes_outcome:
  assumes "stocked M S P" "unat pos + length bs \<le> sz" "\<And>i. i < length bs \<Longrightarrow> (ucast pos + of_nat i) div pgsize \<in> S"
  shows "returns (\<lambda>P'. stocked M S P' \<and> flat_view P' = with_bytes pos bs (flat_view P)) (put_bytes M pos bs P)"
proof -
  let ?g = "\<lambda>i m. mem_set m (ucast (pos + of_nat i)) (bs ! i)"
  have "returns (\<lambda>P'. stocked M S P' \<and> foldE ?g [0..<length bs] (flat_view P) = Inr (flat_view P')) (put_bytes M pos bs P)"
    unfolding put_bytes_def
  proof (rule foldE_refines [where ok = "stocked M S", OF assms(1)])
    fix i Q assume i: "i \<in> set [0..<length bs]" and Q: "stocked M S Q"
    have a: "unat pos + i < sz" using i assms(2) by simp
    then have u: "unat (ucast pos + of_nat i :: u64) + 1 \<le> sz" by (simp flip: ucast_add_of_nat_32 add: Suc_le_eq)
    have "mmap_fresh M" "paged_ok Q" using Q by (simp_all add: stocked_def)
    with paged_set_stocked [OF Q _ _ _ u assms(3), of "bs ! i"] i a
    show "returns (\<lambda>Q'. stocked M S Q' \<and> ?g i (flat_view Q) = Inr (flat_view Q')) (set_byte_at M (ucast pos + of_nat i) (bs ! i) Q)"
      by (simp add: set_byte_at_eq ucast_add_of_nat_32)
  qed
  then show ?thesis by (rule returns_mono) (use assms(2) in \<open>simp add: set_bytes_loop with_bytes_def\<close>)
qed

lemma words_at:
  fixes pos :: u32
  assumes "unat pos mod 4 = 0" "unat pos + 4 * n \<le> sz" "j < n"
  shows "unat (ucast (pos + 4 * of_nat j) :: u64) = unat pos + 4 * j" "within_page 4 (ucast (pos + 4 * of_nat j))"
    "unat (ucast (pos + 4 * of_nat j) :: u64) + 4 \<le> sz"
proof -
  have "unat (of_nat (4 * j) :: u32) = 4 * j"
    using assms(2,3) by (subst unsigned_of_nat) (simp add: take_bit_nat_eq_self sz_def)
  then have u: "unat (pos + 4 * of_nat j) = unat pos + 4 * j"
    using assms(2,3) by (simp add: unat_word_ariths sz_def)
  then show "unat (ucast (pos + 4 * of_nat j) :: u64) = unat pos + 4 * j" "unat (ucast (pos + 4 * of_nat j) :: u64) + 4 \<le> sz"
    using assms(2,3) by simp_all
  have "unat (pos + 4 * of_nat j) mod 4 = 0" using u assms(1) by (simp add: mod_add_left_eq [symmetric])
  then have "4 dvd unat (pos + 4 * of_nat j) mod 4096" by (intro dvd_mod) (simp_all add: dvd_eq_mod_eq_0)
  then obtain k where "unat (pos + 4 * of_nat j) mod 4096 = 4 * k" by (elim dvdE)
  moreover have "unat (pos + 4 * of_nat j) mod 4096 < 4096" by simp
  ultimately show "within_page 4 (ucast (pos + 4 * of_nat j))" by (simp add: within_page_def)
qed

lemma put_words_outcome:
  assumes "stocked M S P" "unat pos mod 4 = 0" "unat pos + 4 * length ws \<le> sz"
    and "\<And>j. j < length ws \<Longrightarrow> ucast (pos + 4 * of_nat j) div pgsize \<in> S"
  shows "returns (\<lambda>P'. stocked M S P' \<and> (\<forall>j < length ws. mem_get (flat_view P') (ucast (pos + 4 * of_nat j)) = Inr (elf_bswap G (ws ! j)))
        \<and> (\<forall>b. \<not> unat (b - pos) < 4 * length ws \<longrightarrow> flat_view P' b = flat_view P b)) (put_words M G pos ws P)"
proof -
  define at where "at j = (ucast (pos + 4 * of_nat j) :: u64)" for j :: nat
  let ?g = "\<lambda>j m. mem_set m (at j) (elf_bswap G (ws ! j))"
  note at = words_at [OF assms(2,3), folded at_def]
  have "returns (\<lambda>P'. stocked M S P' \<and> foldE ?g [0..<length ws] (flat_view P) = Inr (flat_view P')) (put_words M G pos ws P)"
    unfolding put_words_def at_def
    by (rule foldE_refines [where ok = "stocked M S", OF assms(1)], rule paged_set_stocked [where n = 4])
      (use assms(4) at in \<open>simp_all add: at_def\<close>)
  moreover have reads: "mem_get m' (at j) = Inr (elf_bswap G (ws ! j))"
    if "foldE ?g [0..<length ws] m = Inr m'" "j < length ws" for m m' j
  proof -
    let ?ws = "map (\<lambda>j. (at j, elf_bswap G (ws ! j))) [0..<length ws]"
    have "foldE (\<lambda>(a, v) m. mem_set m a v) ?ws m = Inr m'" using that(1) by (simp add: foldE_map)
    moreover have "sorted_wrt (\<lambda>x y. apart 4 (fst x) (fst y)) ?ws"
      by (auto simp: sorted_wrt_iff_nth_less apart_def at(1))
    ultimately show ?thesis using that(2) by (intro mem32.rd_wr_all_same) auto
  qed
  moreover have keeps: "m' b = m b" if "foldE ?g [0..<length ws] m = Inr m'" "\<not> unat (b - pos) < 4 * length ws" for m m' b
  proof (rule foldE_invariant [where P = "\<lambda>m'. m' b = m b", OF that(1)])
    fix j m1 m2 assume j: "j \<in> set [0..<length ws]" and m1: "m1 b = m b" and "?g j m1 = Inr m2"
    then have m2: "m2 = store_le 4 m1 (ucast (at j)) (elf_bswap G (ws ! j))" by (auto simp: mem_set_def)
    have "unat (ucast (at j) :: u32) = unat pos + 4 * j" using at(1) [of j] j by (simp add: at_def)
    then have "\<not> unat (b - ucast (at j)) < 4"
      using that(2) j assms(3) by (auto simp: unat_sub_if' sz_def split: if_splits)
    then show "m2 b = m b" using m1 by (simp add: m2 store_le_byte sz_def)
  qed simp
  ultimately show ?thesis unfolding at_def [symmetric] by (auto elim!: returns_mono dest: reads keeps)
qed

subsection \<open>The stack that the program finds\<close>

lemma length_stack_words: "length (stack_words h fn phoff phnum ms) = 38"
  by (simp add: stack_words_def aux_entries_def)

lemma with_bytes_at: "i < length bs \<Longrightarrow> unat a + length bs \<le> sz \<Longrightarrow> with_bytes a bs m (a + of_nat i) = bs ! i"
  by (simp add: with_bytes_def unsigned_of_nat take_bit_nat_eq_self sz_def)

lemma outside:
  fixes a p :: u32
  assumes "unat a + i < sz" "unat p + n \<le> sz" "unat a + i < unat p \<or> unat p + n \<le> unat a + i"
  shows "\<not> unat (a + of_nat i - p) < n"
proof -
  have "unat (a + of_nat i) = unat a + i" using ucast_add_of_nat_32 [of a i] assms(1)
    by (simp add: unat_word_ariths sz_def unsigned_of_nat take_bit_nat_eq_self)
  then show ?thesis using assms(2,3) by (auto simp: unat_sub_if' sz_def split: if_splits)
qed

lemma stack_regions:
  assumes "length fn < 4096"
  shows "unat (stack_sp fn) mod 16 = 0" "unat (stack_sp fn) + 160 = unat (rand_pos fn)"
    "unat (rand_pos fn) + 16 \<le> unat (argv_pos fn)" "unat (argv_pos fn) + length fn < unat (filename_pos fn)"
    "unat (filename_pos fn) + length fn < sz"
proof -
  note l = layout [OF assms]
  define q where "q = unat (argv_pos fn) div 16"
  have q: "16 * q \<le> unat (argv_pos fn)" "100 \<le> q"
    using l(2) assms by (simp_all add: q_def less_eq_div_iff_mult_less_eq)
  have "unat (rand_pos fn) = 16 * (q - 1)" "unat (stack_sp fn) = 16 * (q - 11)" using l(3,4) q(2) by (simp_all add: q_def)
  with q show "unat (stack_sp fn) mod 16 = 0" "unat (stack_sp fn) + 160 = unat (rand_pos fn)"
    "unat (rand_pos fn) + 16 \<le> unat (argv_pos fn)" by simp_all
  show "unat (argv_pos fn) + length fn < unat (filename_pos fn)" "unat (filename_pos fn) + length fn < sz"
    using assms l(1,2) by (simp_all add: sz_def)
qed

lemma stack_bytes:
  fixes m m3 :: memory and fn :: "u8 list"
  defines "m2 \<equiv> with_bytes (rand_pos fn) (map (\<lambda>i. of_nat (i + 1)) [0..<16]) (with_bytes (filename_pos fn) fn m)"
  assumes "length fn < 4096" "\<forall>b. \<not> unat (b - stack_sp fn) < 152 \<longrightarrow> m3 b = m2 b"
  shows "i < length fn \<Longrightarrow> m3 (filename_pos fn + of_nat i) = fn ! i"
    and "i < 16 \<Longrightarrow> m3 (rand_pos fn + of_nat i) = of_nat (i + 1)"
    and "i \<le> length fn \<Longrightarrow> m3 (argv_pos fn + of_nat i) = m (argv_pos fn + of_nat i)"
    and "m3 (filename_pos fn + of_nat (length fn)) = m (filename_pos fn + of_nat (length fn))"
proof -
  note r = stack_regions [OF assms(2)]
  have "\<not> unat (filename_pos fn + of_nat (length fn) - stack_sp fn) < 152"
    "\<not> unat (filename_pos fn + of_nat (length fn) - rand_pos fn) < 16"
    "\<not> unat (filename_pos fn + of_nat (length fn) - filename_pos fn) < length fn" using r by (intro outside; simp)+
  then show "m3 (filename_pos fn + of_nat (length fn)) = m (filename_pos fn + of_nat (length fn))"
    using assms(3) by (simp add: m2_def with_bytes_def)
  have "\<not> unat (filename_pos fn + of_nat i - stack_sp fn) < 152" "\<not> unat (filename_pos fn + of_nat i - rand_pos fn) < 16"
    if "i < length fn" using r that by (intro outside; simp)+
  then show "i < length fn \<Longrightarrow> m3 (filename_pos fn + of_nat i) = fn ! i"
    using assms(3) r(5) with_bytes_at [of i fn "filename_pos fn" m] by (simp add: m2_def with_bytes_def [of "rand_pos fn"])
  have "\<not> unat (rand_pos fn + of_nat i - stack_sp fn) < 152" if "i < 16" using r that by (intro outside; simp)
  then show "i < 16 \<Longrightarrow> m3 (rand_pos fn + of_nat i) = of_nat (i + 1)"
    using assms(3) r(3-5) by (simp add: m2_def with_bytes_at)
  have "\<not> unat (argv_pos fn + of_nat i - stack_sp fn) < 152" "\<not> unat (argv_pos fn + of_nat i - rand_pos fn) < 16"
    "\<not> unat (argv_pos fn + of_nat i - filename_pos fn) < length fn"
    if "i \<le> length fn" using r that by (intro outside; simp)+
  then show "i \<le> length fn \<Longrightarrow> m3 (argv_pos fn + of_nat i) = m (argv_pos fn + of_nat i)"
    using assms(3) by (simp add: m2_def with_bytes_def)
qed

lemma stack_registers_ok:
  assumes "pgSize \<noteq> 0"
  obtains ms' where "stack_registers pgSize fn ms = Inr ms'" "gpr ms' = (gpr ms)[29 := stack_sp fn]"
  using assms by (auto simp: stack_registers_def roundToPgSz_def Let_def)

text \<open>The three pages the stack may touch.\<close>

definition stack_pages :: "u64 set" where
  "stack_pages = {0x407FE, 0x407FF, 0x40800}"

lemma stack_page:
  fixes a :: u64
  assumes "0x407FE000 \<le> unat a" "unat a < 0x40801000"
  shows "a div pgsize \<in> stack_pages"
proof -
  have "0x407FE \<le> unat a div 4096" using div_le_mono [OF assms(1), of 4096] by simp
  moreover have "unat a div 4096 < 0x40801" using assms(2) by (simp add: div_less_iff_less_mult)
  ultimately have "unat a div 4096 \<in> {0x407FE, 0x407FF, 0x40800}" by auto
  then show ?thesis by (auto simp: stack_pages_def word_unat_eq_iff)
qed

lemma stack_regions_pages:
  assumes "length fn < 4096"
  shows "0x407FE000 \<le> unat (stack_sp fn)" "unat (filename_pos fn) + length fn < 0x40801000"
proof -
  note l = layout [OF assms]
  define q where "q = unat (argv_pos fn) div 16"
  have "0x407FEFF \<le> q" using l(2) assms by (simp add: q_def less_eq_div_iff_mult_less_eq)
  then show "0x407FE000 \<le> unat (stack_sp fn)" using l(3,4) by (simp add: q_def [symmetric])
  show "unat (filename_pos fn) + length fn < 0x40801000" using l(1) assms by simp
qed

text \<open>
  What the started program does.  It reads words in its byte order, and it finds a value in the auxiliary
  vector by walking the pairs from an address on until the identifier 0; the number of pairs is bounded.
\<close>

definition guest_word :: "globals \<Rightarrow> memory \<Rightarrow> u32 \<Rightarrow> u32 result" where
  "guest_word G m a = bindE (mem_get m (ucast a)) (\<lambda>w. Inr (elf_bswap G w))"

primrec getauxval :: "nat \<Rightarrow> globals \<Rightarrow> memory \<Rightarrow> u32 \<Rightarrow> u32 \<Rightarrow> u32 option result" where
  "getauxval 0 G m t a = Inr None"
| "getauxval (Suc n) G m t a =
     bindE (guest_word G m a) (\<lambda>i.
       if i = 0 then Inr None
       else if i = t then bindE (guest_word G m (a + 4)) (\<lambda>v. Inr (Some v))
       else getauxval n G m t (a + 8))"

lemma getauxval_finds:
  assumes "\<forall>j < 2 * length l. guest_word G m (a + 4 * of_nat j) = Inr (concat (map (\<lambda>(i, v). [i, v]) l) ! j)"
    and "guest_word G m (a + 8 * of_nat (length l)) = Inr 0" "0 \<notin> fst ` set l"
  shows "getauxval (Suc (length l)) G m t a = Inr (map_of l t)"
  using assms
proof (induction l arbitrary: a)
  case (Cons x l)
  obtain i v where x: "x = (i, v)" by fastforce
  have iv: "guest_word G m a = Inr i" "guest_word G m (a + 4) = Inr v"
    using Cons.prems(1) [rule_format, of 0] Cons.prems(1) [rule_format, of 1] by (simp_all add: x)
  have "getauxval (Suc (length l)) G m t (a + 8) = Inr (map_of l t)"
  proof (rule Cons.IH)
    show "\<forall>j < 2 * length l. guest_word G m (a + 8 + 4 * of_nat j) = Inr (concat (map (\<lambda>(i, v). [i, v]) l) ! j)"
    proof (intro allI impI)
      fix j assume "j < 2 * length l"
      then show "guest_word G m (a + 8 + 4 * of_nat j) = Inr (concat (map (\<lambda>(i, v). [i, v]) l) ! j)"
        using Cons.prems(1) [rule_format, of "Suc (Suc j)"] by (simp add: x add.assoc)
    qed
  qed (use Cons.prems(2,3) in \<open>simp_all add: add.assoc\<close>)
  then show ?case using iv Cons.prems(3) by (auto simp: x)
qed simp

lemma stack_aux:
  assumes "\<forall>j < 38. guest_word G m (tos + 4 * of_nat j) = Inr (stack_words h fn phoff phnum ms ! j)"
  shows "getauxval 17 G m t (tos + 16) = Inr (map_of (butlast (aux_entries h fn phoff phnum ms)) t)"
proof -
  let ?l = "butlast (aux_entries h fn phoff phnum ms)"
  have n: "length ?l = 16" by (simp add: aux_entries_def)
  have w: "stack_words h fn phoff phnum ms = [1, argv_pos fn, 0, 0] @ concat (map (\<lambda>(i, v). [i, v]) ?l) @ [0, 0]"
    by (simp add: stack_words_def aux_entries_def)
  have l: "length (concat (map (\<lambda>(i, v). [i, v]) ?l)) = 32" by (simp add: aux_entries_def)
  have "getauxval (Suc (length ?l)) G m t (tos + 16) = Inr (map_of ?l t)"
  proof (rule getauxval_finds)
    show "\<forall>j < 2 * length ?l. guest_word G m (tos + 16 + 4 * of_nat j) = Inr (concat (map (\<lambda>(i, v). [i, v]) ?l) ! j)"
    proof (intro allI impI)
      fix j assume "j < 2 * length ?l"
      then have j: "j < 32" by (simp only: n)
      then have "stack_words h fn phoff phnum ms ! (4 + j) = concat (map (\<lambda>(i, v). [i, v]) ?l) ! j"
        unfolding w n using l by (simp add: nth_append)
      then show "guest_word G m (tos + 16 + 4 * of_nat j) = Inr (concat (map (\<lambda>(i, v). [i, v]) ?l) ! j)"
        using assms [rule_format, of "4 + j"] j by (simp add: n add.assoc)
    qed
    show "guest_word G m (tos + 16 + 8 * of_nat (length ?l)) = Inr 0"
      using assms [rule_format, of 36] by (simp add: n stack_words_def aux_entries_def add.commute)
    show "0 \<notin> fst ` set ?l" by (simp add: aux_entries_def)
  qed
  then have "getauxval (Suc 16) G m t (tos + 16) = Inr (map_of ?l t)" unfolding n .
  moreover have "Suc 16 = 17" by simp
  ultimately show ?thesis by (simp only:)
qed

text \<open>
  C16. The initial stack of the Linux emulation, for a file name shorter than 4096 bytes and an \<open>mmap\<close> that
  provides three more pages.  The construction succeeds, only register 29 changes among the general
  registers, and the program finds what the Linux ABI promises, reading in its own byte order: the stack pointer is a
  multiple of 16; at it is the count 1, the address of the argument, the end of the arguments and the
  end of an empty environment; a search in the auxiliary vector that follows finds for \<open>AT_EXECFN\<close> (31)
  the address of the bytes of the file name, for \<open>AT_RANDOM\<close> (25) that of the sixteen bytes 1 to 16, for
  \<open>AT_PHDR\<close>, \<open>AT_PHENT\<close>, \<open>AT_PHNUM\<close>, \<open>AT_PAGESZ\<close>, \<open>AT_BASE\<close>, \<open>AT_FLAGS\<close> and \<open>AT_ENTRY\<close> (3 to 9), the user and group identities
  (11 to 14), \<open>AT_HWCAP\<close> (16), \<open>AT_CLKTCK\<close> (17) and \<open>AT_SECURE\<close> (23) their values, and nothing for any other
  identifier.  The argument is not what \<open>argv[0]\<close> promises: the bytes it points to are those the memory
  had before, and so is the byte that should end the file name.
\<close>

theorem linux_stack_built:
  assumes "mmap_fresh M" "paged_ok P" "serves M 3 (allocations P)" "pgSize \<noteq> 0" "length fn < 4096" "29 < length (gpr ms)"
  defines "name \<equiv> 0x40800FF7 - of_nat (length fn) :: u32"
  defines "argv0 \<equiv> name - of_nat (length fn) - 1"
  shows "returns (\<lambda>(ms', P').
      let m = flat_view P'; tos = gpr ms' ! 29; aux = (\<lambda>t. getauxval 17 G m t (tos + 16))
      in gpr ms' = (gpr ms)[29 := tos] \<and> unat tos mod 16 = 0
        \<and> guest_word G m tos = Inr 1 \<and> guest_word G m (tos + 4) = Inr argv0
        \<and> guest_word G m (tos + 8) = Inr 0 \<and> guest_word G m (tos + 12) = Inr 0
        \<and> aux 31 = Inr (Some name) \<and> (\<forall>i < length fn. m (name + of_nat i) = fn ! i)
        \<and> (\<exists>seed. aux 25 = Inr (Some seed) \<and> (\<forall>i < 16. m (seed + of_nat i) = of_nat (i + 1)))
        \<and> list_all (\<lambda>(t, v). aux t = Inr (Some v))
            [(3, load_addr (linux_image ms) + phoff), (4, 32), (5, phnum), (6, 4096), (7, 0), (8, 0), (9, pc ms),
             (11, h_uid h), (12, h_euid h), (13, h_gid h), (14, h_egid h), (16, 0), (17, h_clktck h), (23, 0)]
        \<and> (\<forall>t. t \<notin> {3, 4, 5, 6, 7, 8, 9, 11, 12, 13, 14, 16, 17, 23, 25, 31} \<longrightarrow> aux t = Inr None)
        \<and> (\<forall>i \<le> length fn. m (argv0 + of_nat i) = flat_view P (argv0 + of_nat i))
        \<and> m (name + of_nat (length fn)) = flat_view P (name + of_nat (length fn)))
    (linux_stack M G h pgSize fn phoff phnum ms P)"
proof -
  note r = stack_regions [OF assms(5)] and q = stack_regions_pages [OF assms(5)]
  let ?ws = "stack_words h fn phoff phnum ms" and ?rnd = "map (\<lambda>i. of_nat (i + 1)) [0..<16] :: u8 list"
  have name: "name = filename_pos fn" "argv0 = argv_pos fn"
    by (simp_all add: name_def argv0_def filename_pos_def argv_pos_def stack_start_def TASK_UNMAPPED_BASE_def guard_def initial_stack_def)
  have st: "stocked M stack_pages P"
    using assms(1,2) serves_enough [OF assms(3), of stack_pages] by (simp add: stocked_def stack_pages_def)
  have rooms: "unat (filename_pos fn) + length fn \<le> sz" "unat (rand_pos fn) + length ?rnd \<le> sz"
    "unat (stack_sp fn) + 4 * length ?ws \<le> sz" using r by (simp_all add: length_stack_words)
  have al: "unat (stack_sp fn) mod 4 = 0" using r(1) by presburger
  have pg: "(ucast a + of_nat i) div pgsize \<in> stack_pages"
    if "0x407FE000 \<le> unat a" "unat a + i < 0x40801000" for a :: u32 and i
    using that ucast_add_of_nat_32 [of a i] unat_add_off [of "ucast a" i "of_nat i"]
    by (intro stack_page) (simp_all add: sz_def unsigned_of_nat take_bit_nat_eq_self)
  have pages: "\<And>i. i < length fn \<Longrightarrow> (ucast (filename_pos fn) + of_nat i) div pgsize \<in> stack_pages"
    "\<And>i. i < length ?rnd \<Longrightarrow> (ucast (rand_pos fn) + of_nat i) div pgsize \<in> stack_pages"
    using r q by (intro pg; simp)+
  have wpages: "ucast (stack_sp fn + 4 * of_nat j) div pgsize \<in> stack_pages" if "j < length ?ws" for j
    using words_at(1) [OF al rooms(3) that] that r q by (intro stack_page) (simp_all add: length_stack_words)
  obtain ms' where ms': "stack_registers pgSize fn ms = Inr ms'" "gpr ms' = (gpr ms)[29 := stack_sp fn]"
    using stack_registers_ok [OF assms(4)] .
  obtain P1 where P1: "put_bytes M (filename_pos fn) fn P = Inr P1" "stocked M stack_pages P1"
    "flat_view P1 = with_bytes (filename_pos fn) fn (flat_view P)"
    using put_bytes_outcome [OF st rooms(1) pages(1)] by (auto simp: returns_iff)
  obtain P2 where P2: "put_bytes M (rand_pos fn) ?rnd P1 = Inr P2" "stocked M stack_pages P2"
    "flat_view P2 = with_bytes (rand_pos fn) ?rnd (flat_view P1)"
    using put_bytes_outcome [OF P1(2) rooms(2) pages(2)] by (auto simp: returns_iff)
  obtain P3 where P3: "put_words M G (stack_sp fn) ?ws P2 = Inr P3"
    "\<forall>j < length ?ws. mem_get (flat_view P3) (ucast (stack_sp fn + 4 * of_nat j)) = Inr (elf_bswap G (?ws ! j))"
    "\<forall>b. \<not> unat (b - stack_sp fn) < 4 * length ?ws \<longrightarrow> flat_view P3 b = flat_view P2 b"
    using put_words_outcome [OF P2(2) al rooms(3) wpages, of G] by (auto simp: returns_iff)
  have words: "\<forall>j < 38. guest_word G (flat_view P3) (stack_sp fn + 4 * of_nat j) = Inr (?ws ! j)"
    using P3(2) by (simp add: guest_word_def length_stack_words elf_bswap_def builtin_bswap_involutive)
  note aux = stack_aux [OF words]
  have first: "guest_word G (flat_view P3) (stack_sp fn) = Inr 1" "guest_word G (flat_view P3) (stack_sp fn + 4) = Inr argv0"
    "guest_word G (flat_view P3) (stack_sp fn + 8) = Inr 0" "guest_word G (flat_view P3) (stack_sp fn + 12) = Inr 0"
    using words [rule_format, of 0] words [rule_format, of 1] words [rule_format, of 2] words [rule_format, of 3]
    by (simp_all add: stack_words_def name)
  note bytes = stack_bytes [OF assms(5), of "flat_view P3" "flat_view P", folded name]
  have run: "linux_stack M G h pgSize fn phoff phnum ms P = Inr (ms', P3)"
    unfolding linux_stack_def P1(1) bindE_simps P2(1) P3(1) ms'(1) ..
  have sp: "gpr ms' ! 29 = stack_sp fn" using ms'(2) assms(6) by simp
  show ?thesis
    unfolding run returns_def sum.case prod.case Let_def sp
    using first bytes r(1) P3(3) ms'(2)
    by (simp add: aux aux_entries_def length_stack_words P2(3) P1(3) name)
qed

text \<open>The stack of a big endian program called \<open>a.out\<close>, in a memory without pages.\<close>

definition sample_stack_host :: stack_host where
  "sample_stack_host = \<lparr>h_uid = 1000, h_euid = 1000, h_gid = 1000, h_egid = 1000, h_clktck = 100\<rparr>"

definition sample_fn :: "u8 list" where "sample_fn = [0x61, 0x2e, 0x6f, 0x75, 0x74]"

definition stack_globals :: globals where
  "stack_globals = \<lparr>sysArgc = 1, sysArgv = [sample_fn], isMipsEL = False, cycle = 0\<rparr>"

definition sample_loaded :: "unit state_t" where
  "sample_loaded = (state_t_new sparse_mem_new ())\<lparr>pc := 0x20000, linux_image := image_info32_zero\<lparr>load_addr := 0x20000\<rparr>\<rparr>"

theorem linux_stack_built_witness:
  "returns (\<lambda>(ms', P').
      guest_word stack_globals (flat_view P') (gpr ms' ! 29) = Inr 1
      \<and> guest_word stack_globals (flat_view P') (gpr ms' ! 29 + 4) = Inr 0x40800FEC
      \<and> getauxval 17 stack_globals (flat_view P') 31 (gpr ms' ! 29 + 16) = Inr (Some 0x40800FF2)
      \<and> flat_view P' 0x40800FF2 = 0x61 \<and> flat_view P' 0x40800FEC = 0)
    (linux_stack bump_mmap stack_globals sample_stack_host 4096 sample_fn 52 1 sample_loaded (paged_new (\<lambda>_. 0xff)))"
proof -
  have n: "length sample_fn = 5" "sample_fn ! 0 = 0x61" by (simp_all add: sample_fn_def)
  have h: "(4096 :: u32) \<noteq> 0" "length sample_fn < 4096" "29 < length (gpr sample_loaded)"
    by (simp_all add: n sample_loaded_def state_t_new_def)
  have s: "serves bump_mmap 3 (allocations (paged_new (\<lambda>_. 0xff)))"
    by (simp add: numeral_3_eq_3 bump_mmap_def paged_new_def pgsize_def)
  have ok: "paged_ok (paged_new (\<lambda>_. 0xff))" by (simp add: paged_ok_def paged_new_def)
  have v: "flat_view (paged_new (\<lambda>_. 0xff)) a = 0" for a by (simp add: flat_view_def view_def paged_new_def)
  show ?thesis
  proof (rule returns_mono [OF linux_stack_built [OF bump_fresh ok s h, unfolded n(1)]], clarify, goal_cases)
    case (1 ms' P')
    have "1082134519 - word_of_nat 5 = (0x40800FF2 :: u32)" "0x40800FF2 - word_of_nat 5 - 1 = (0x40800FEC :: u32)" by simp_all
    note facts = 1 [unfolded Let_def this]
    from facts have b: "\<forall>i < 5. flat_view P' (0x40800FF2 + of_nat i) = sample_fn ! i"
      and c: "\<forall>i \<le> 5. flat_view P' (0x40800FEC + of_nat i) = flat_view (paged_new (\<lambda>_. 0xff)) (0x40800FEC + of_nat i)" by blast+
    from b [rule_format, of 0] c [rule_format, of 0] have "flat_view P' 0x40800FF2 = 0x61" "flat_view P' 0x40800FEC = 0"
      by (simp_all add: n(2) v)
    with facts show ?case by blast
  qed
qed

end
