(* ===== verification/Spec2Isabelle.thy ===== *)
theory Spec2Isabelle
  imports Helper Sparse_Mem Sim_Queue Sim_Bitvec Mips_State Interp_Mem Interp_ALU Interp_FP Monitor Interp
    Save_State Load_Elf Init_Stub Top_Stats Top Linux_Syscall Interp64 Interp64_Wf Interp64_Sim Interp64_Run
    Dpi_FP Boot Main_Ends Verdict Report Pipeline_Log Text_Out State_Print Final_Log Insn_Histo Interp_Frame Paged_Mem Elf_Stack
begin

text \<open>
  Verification of the C++ side of mipscore: a MIPS interpreter and the driver that runs it in lock
  step with a processor compiled from SystemVerilog.

  \<^bold>\<open>The program.\<close>  \<open>src/top.cc\<close> loads a guest program (\<open>src/loadelf.cc\<close>) or a checkpoint
  (\<open>src/saveState.cc\<close>) into two states, one for the processor and one for the interpreter
  (\<open>src/interpret.hh\<close>), each with a flat memory of 4 GB (\<open>src/sparse_mem.hh\<close>).  It writes a start
  program that loads the registers of the processor, and then simulates cycle by cycle: it serves
  the processor's monitor calls and memory requests, copies the registers it retires, executes each
  retired instruction with the interpreter (\<open>src/interpret.cc\<close>) and compares the two register files.
  \<open>src/sim_queue.hh\<close>, \<open>src/sim_bitvec.hh\<close> and \<open>src/helper.hh\<close> are its utilities.

  \<^bold>\<open>The theories.\<close>
  \<^item> \<open>Prelude\<close>: word types, the \<open>fault\<close> values (exit, abort, failed assertion, undefined behaviour,
    and the model's own end of fuel), the error monad \<open>bindE\<close>, \<open>foldE\<close>, \<open>assertE\<close>, \<open>definedE\<close>, the
    predicates \<open>on_ok\<close> (if it returns) and \<open>returns\<close> (it returns, and), little endian bytes,
    and the locale \<open>lockstep\<close>: a machine that follows another one from related states.
  \<^item> \<open>Helper\<close>: \<open>src/helper.hh\<close> and the numeric part of \<open>src/helper.cc\<close>; \<open>ln2\<close> returns exactly up to
    $2^{63}$, and the checksum detects every error in one byte.
  \<^item> \<open>Sparse_Mem\<close>: \<open>src/sparse_mem.hh\<close>.  The locale \<open>word_store\<close> is the contract of a memory of words
    (reading back a write, writes to separate addresses); it is interpreted for 8, 16, 32 and 64 bits
    on \<open>get\<close> and \<open>set\<close>, and the loaders, the loads and stores and the driver rest on it.
  \<^item> \<open>Paged_Mem\<close>: the page table memory that \<open>src/sparse_mem.hh\<close> and \<open>src/sparse_mem.cc\<close> keep under \<open>#if 0\<close>,
    down to the blocks of the host and the bytes in them.  The locale \<open>memory_refinement\<close> is a memory that
    implements another one as long as it has room; its interpretation shows that programs of loads and stores
    cannot tell the page table from the flat memory while \<open>mmap\<close> serves them, and fail their assertion
    otherwise.  Every reachable page table maps guest pages to separate pages of the host.
  \<^item> \<open>Sim_Queue\<close>, \<open>Sim_Bitvec\<close>: the ring buffer refines a bounded queue, and the bit vector a finite
    set with a search for the least free element.
  \<^item> \<open>Mips_State\<close>: the state \<open>state_t\<close>, instruction fields, predecoding.  \<open>Interp_Mem\<close>, \<open>Interp_ALU\<close>,
    \<open>Interp_FP\<close>, \<open>Monitor\<close> and \<open>Interp\<close>: \<open>src/interpret.cc\<close>, one definition for each instruction and
    monitor call, and \<open>execMips\<close>, which dispatches and runs delay slots.  Theorems: unaligned load and
    store pairs, multiplication, division, bit fields, comparison, branches and jumps with their delay
    slots, which instructions store, and how the instruction counter grows.
  \<^item> \<open>Insn_Histo\<close>: the histogram of instructions against the instruction counter, for the whole interpreter:
    what is counted and which instructions are not.
  \<^item> \<open>Interp_Frame\<close>: which registers an instruction may write, read off its encoding, for the whole interpreter.
  \<^item> \<open>Save_State\<close>, \<open>Load_Elf\<close>: the two loaders, from the bytes of the file to the state.
  \<^item> \<open>Elf_Stack\<close>: the initial stack of a Linux process at the end of \<open>load_elf\<close>, on the page table memory.
    Theorem: what the program reads from its stack pointer on, stated with the guest's own search in the
    auxiliary vector.
  \<^item> \<open>Init_Stub\<close>: the start program of \<open>src/top.cc\<close> and the loop that runs the interpreter alone.  The
    start program is executed by the interpreter of the earlier theories.
  \<^item> \<open>Top_Stats\<close>, \<open>Top\<close>: the callbacks that count events, and the main loop of \<open>src/top.cc\<close>, one
    definition for each phase of a cycle.  Theorems: when the checker stops, on which monitor calls the
    driver and the interpreter agree and how they differ on the others, the latency of memory replies, that
    the loop ends.
  \<^item> \<open>Dpi_FP\<close>: the floating point functions of \<open>src/top.hh\<close> that the processor calls, compared with the
    interpreter's.
  \<^item> \<open>Boot\<close>: \<open>main\<close> from its options to the loop (loading, reset, the start program on the processor,
    reloading, resuming) and \<open>main\<close> as a whole.  The locale \<open>program_loader\<close> is what \<open>main\<close> relies on of the
    two loaders, which both provide it.  Theorem: the two states are equal when the loop starts.
  \<^item> \<open>Main_Ends\<close>: \<open>main\<close> ends once it has started, and what the program must look like for the bound on delay
    slots to be too small.
  \<^item> \<open>Verdict\<close>: what \<open>incorrect\<close> and \<open>mismatches\<close> mean when \<open>main\<close> has ended: the two register files differ.
  \<^item> \<open>Report\<close>: the statistics at the end of \<open>main\<close> and \<open>dump_histo\<close>.  Theorems: the totals account for every
    retirement, the listing is in decreasing order of its counts.
  \<^item> \<open>Text_Out\<close>, \<open>State_Print\<close>, \<open>Final_Log\<close>: output.  The decimal and hexadecimal numbers of a stream with
    their readers (the locale \<open>field_printer\<close> is a line with a number that can be read back), the two
    dumps of a state and the disassembler's wrapper, and all that \<open>main\<close> writes after its loop, the log file
    with its averages included.  Theorems: the registers can be read back from a dump, and what
    the last output says of the run.
  \<^item> \<open>Pipeline_Log\<close>: \<open>src/pipeline_record.hh\<close>, what \<open>record_retirement\<close> logs, and \<open>src/gen_html.cc\<close>.  Theorem:
    which instructions the page shows.
  \<^item> \<open>Linux_Syscall\<close>: \<open>src/linux_o32_syscall.cc\<close> and \<open>src/linux_monitor.hh\<close>, one definition for each
    system call.  Theorems: which state a call may change, the break, the file status.
  \<^item> \<open>Interp64\<close>, \<open>Interp64_Wf\<close>, \<open>Interp64_Sim\<close>, \<open>Interp64_Run\<close>: \<open>src/interpret64.cc\<close>, the interpreter
    over 64 bit registers, that it keeps its register files, where it differs from the 32 bit one, and
    that it follows the 32 bit one on the other instructions, from registers that hold sign extended 32 bit values (an instance of \<open>lockstep\<close>).

  \<^bold>\<open>Conventions.\<close>  Machine integers are words of their width; signed operations are written with
  \<open>sint\<close>, \<open>scast\<close> and the signed comparisons; signed addition, subtraction, multiplication and left
  shift wrap, as the compilers the build uses make them.  A C++ \<open>exit\<close>, \<open>abort\<close>, failed assertion or undefined
  operation ends in the corresponding \<open>fault\<close>.  Every instance of a template on the byte order takes
  the byte order as an argument; the build instantiates it with big endian.  Parameters stand for code
  outside the sources: \<open>host_os\<close> (system calls), \<open>fpu\<close> (the host's floating point unit), \<open>hw\<close> and
  \<open>verilated\<close> (the processor the hardware compiler generates), \<open>mmap\<close> (the allocator of the page table
  memory, whose blocks are fresh; how many it provides is written \<open>serves\<close>), \<open>stack_host\<close> (the identities of the user), \<open>double_io\<close> (division and
  printing of a \<open>double\<close>), the disassembler library, the hash function of the bit vector.

  \<^bold>\<open>Fuel.\<close>  \<open>execMips\<close> calls itself for a delay slot; its fuel bounds the nesting, and two units are
  enough unless a delay slot holds a control transfer itself (which the sources follow as deep as the
  program nests them).  \<open>run_checker\<close> and \<open>cosim\<close> bound the number of rounds of their loops; the
  termination theorems show that the limit on instructions and the limit on cycles are enough.
  \<open>init_loop\<close> and \<open>wait_ready\<close> wait for a signal of the processor, so that whether they end is a matter of the
  hardware: \<open>main_ends\<close> starts where they have ended.  \<open>write_pages\<close> takes one round for each page of its
  range and one more, which \<open>write_pages_fuel\<close> shows to be enough.  All other loops are total functions.

  \<^bold>\<open>Not modelled.\<close>  The parsing of command lines (the options library's); the serialisation of the pipeline
  log (a library's); decoding inside the disassembler library, of which only the calls are modelled; the
  timestamp and the backtrace of \<open>src/helper.cc\<close>, which are host services; the rest of \<open>src/osx_elf.h\<close>, a system
  header of which nothing else is used; the SystemVerilog sources.
\<close>

end
